(* ===== verification/Prelude.thy ===== *)
theory Prelude
  imports Complex_Main "HOL-Library.Sublist"
begin

section \<open>Prelude: shared notions and interfaces\<close>

text \<open>
  What every component of the console model uses: the outcome of an operation that may
  throw, the array searches of the language (\<open>find\<close>, \<open>findIndex\<close>, \<open>slice\<close>), the interface of
  an insertion-ordered \<open>Map\<close>, the interface of an encoder with its decoder, and the interface
  of an event-driven component with an invariant.
\<close>

named_theorems js_simps \<open>unfolding the array, map and string primitives\<close>

subsection \<open>Exceptions\<close>

text \<open>
  An expression of the source that may throw is a value of \<open>js_exn + 'a\<close>. \<open>ErrorMsg m\<close> is an
  \<open>Error\<close> object with message \<open>m\<close>; the others are the built-in errors.
\<close>

datatype js_exn = URIError | TypeError | RangeError | ErrorMsg string

definition ok_bind :: "'e + 'a \<Rightarrow> ('a \<Rightarrow> 'e + 'b) \<Rightarrow> 'e + 'b" where
  "ok_bind r f = (case r of Inl e \<Rightarrow> Inl e | Inr a \<Rightarrow> f a)"

lemma ok_bind_simps [simp]: "ok_bind (Inl e) f = Inl e" "ok_bind (Inr a) f = f a"
  by (simp_all add: ok_bind_def)

lemma ok_bind_Inr: "ok_bind r f = Inr b \<longleftrightarrow> (\<exists>a. r = Inr a \<and> f a = Inr b)"
  by (cases r) auto

subsection \<open>Arrays\<close>

text \<open>An array read: \<open>None\<close> is \<open>undefined\<close>, the value of a read out of range.\<close>

definition at_index :: "'a list \<Rightarrow> nat \<Rightarrow> 'a option" where
  "at_index xs i = (if i < length xs then Some (xs ! i) else None)"

lemma at_index_Cons [simp]:
  "at_index (x # xs) 0 = Some x" "at_index (x # xs) (Suc i) = at_index xs i"
  by (simp_all add: at_index_def)

lemma at_index_Nil [simp]: "at_index [] i = None"
  by (simp add: at_index_def)

lemma at_index_Some: "at_index xs i = Some x \<longleftrightarrow> i < length xs \<and> xs ! i = x"
  by (auto simp: at_index_def)

text \<open>\<open>findIndex\<close> and \<open>indexOf\<close>, with \<open>None\<close> for the language's \<open>-1\<close>.\<close>

fun find_index :: "('a \<Rightarrow> bool) \<Rightarrow> 'a list \<Rightarrow> nat option" where
  "find_index p [] = None"
| "find_index p (x # xs) = (if p x then Some 0 else map_option Suc (find_index p xs))"

definition index_of :: "'a list \<Rightarrow> 'a \<Rightarrow> nat option" where
  "index_of xs x = find_index (\<lambda>y. y = x) xs"

lemma find_index_None: "find_index p xs = None \<longleftrightarrow> (\<forall>x \<in> set xs. \<not> p x)"
  by (induction xs) auto

lemma find_index_Some:
  "find_index p xs = Some i \<Longrightarrow> i < length xs \<and> p (xs ! i) \<and> (\<forall>j < i. \<not> p (xs ! j))"
proof (induction xs arbitrary: i)
  case Nil
  then show ?case by simp
next
  case (Cons x xs)
  then show ?case by (auto split: if_splits simp: nth_Cons')
qed

lemma find_index_lt: "find_index p xs = Some i \<Longrightarrow> i < length xs"
  by (blast dest: find_index_Some)

lemma index_of_member: "x \<in> set xs \<Longrightarrow> \<exists>i < length xs. index_of xs x = Some i \<and> xs ! i = x"
proof -
  assume "x \<in> set xs"
  then have "find_index (\<lambda>y. y = x) xs \<noteq> None" by (auto simp: find_index_None)
  then obtain i where "find_index (\<lambda>y. y = x) xs = Some i" by auto
  then show ?thesis by (auto simp: index_of_def dest: find_index_Some)
qed

lemma index_of_nth:
  assumes "distinct xs" and "i < length xs"
  shows "index_of xs (xs ! i) = Some i"
proof -
  from assms(2) obtain j where j: "j < length xs" "index_of xs (xs ! i) = Some j" "xs ! j = xs ! i"
    using index_of_member [of "xs ! i" xs] by auto
  with assms show ?thesis by (simp add: nth_eq_iff_index_eq)
qed

text \<open>\<open>Array.prototype.find\<close> is \<open>List.find\<close>; \<open>slice start end\<close> for non-negative bounds.\<close>

definition slice :: "nat \<Rightarrow> nat \<Rightarrow> 'a list \<Rightarrow> 'a list" where
  "slice a b xs = drop a (take b xs)"

lemma length_slice: "length (slice a b xs) = min b (length xs) - a"
  by (simp add: slice_def)

lemma nth_slice: "i < length (slice a b xs) \<Longrightarrow> slice a b xs ! i = xs ! (a + i)"
proof -
  assume "i < length (slice a b xs)"
  then have "a + i < length (take b xs)" by (simp add: slice_def del: length_take)
  then show ?thesis by (simp add: slice_def)
qed

lemma find_in_set: "List.find P xs = Some x \<Longrightarrow> x \<in> set xs"
  by (auto simp: find_Some_iff)

lemma find_holds: "List.find P xs = Some x \<Longrightarrow> P x"
  by (auto simp: find_Some_iff)

text \<open>\<open>[...new Set(xs)]\<close>: the first occurrence of each value, in order.\<close>

fun uniq_from :: "'a list \<Rightarrow> 'a list \<Rightarrow> 'a list" where
  "uniq_from seen [] = []"
| "uniq_from seen (x # xs) =
     (if x \<in> set seen then uniq_from seen xs else x # uniq_from (x # seen) xs)"

definition uniq :: "'a list \<Rightarrow> 'a list" where
  "uniq xs = uniq_from [] xs"

lemma uniq_from_props:
  "set (uniq_from seen xs) = set xs - set seen \<and> distinct (uniq_from seen xs)"
  by (induction xs arbitrary: seen) auto

lemma set_uniq [simp]: "set (uniq xs) = set xs"
  by (simp add: uniq_def uniq_from_props)

lemma distinct_uniq [simp]: "distinct (uniq xs)"
  by (simp add: uniq_def uniq_from_props)

text \<open>Keeping at most the newest \<open>n\<close> elements.\<close>

definition last_n :: "nat \<Rightarrow> 'a list \<Rightarrow> 'a list" where
  "last_n n xs = drop (length xs - n) xs"

lemma length_last_n: "length (last_n n xs) = min n (length xs)"
  by (simp add: last_n_def)

lemma last_n_append_one: "last_n (Suc n) (last_n (Suc n) xs @ [x]) = last_n (Suc n) (xs @ [x])"
proof (cases "length xs \<le> Suc n")
  case True
  then show ?thesis by (simp add: last_n_def)
next
  case False
  then have "length xs - n = Suc (length xs - Suc n)" by simp
  with False show ?thesis
    by (simp add: last_n_def drop_Suc tl_drop [symmetric] drop_drop)
qed

subsection \<open>Maps in insertion order\<close>

text \<open>
  The laws of the language's \<open>Map\<close>: a lookup after a \<open>set\<close>, and keys listed in the order of
  their first insertion. \<open>from_pairs\<close> is the constructor \<open>new Map(pairs)\<close>.
\<close>

locale js_map_spec =
  fixes empty :: "'m"
    and get :: "'m \<Rightarrow> 'k \<Rightarrow> 'v option"
    and put :: "'k \<Rightarrow> 'v \<Rightarrow> 'm \<Rightarrow> 'm"
    and keys :: "'m \<Rightarrow> 'k list"
  assumes get_empty: "get empty k = None"
    and get_put: "get (put k v m) k' = (if k' = k then Some v else get m k')"
    and keys_empty: "keys empty = []"
    and keys_put: "keys (put k v m) = (if k \<in> set (keys m) then keys m else keys m @ [k])"
begin

definition from_pairs :: "('k \<times> 'v) list \<Rightarrow> 'm" where
  "from_pairs ps = foldl (\<lambda>m (k, v). put k v m) empty ps"

lemma from_pairs_snoc: "from_pairs (ps @ [(k, v)]) = put k v (from_pairs ps)"
  by (simp add: from_pairs_def)

lemma get_from_pairs: "get (from_pairs ps) k = map_of (rev ps) k"
proof (induction ps rule: rev_induct)
  case Nil
  show ?case by (simp add: from_pairs_def get_empty)
next
  case (snoc p ps)
  then show ?case by (cases p) (simp add: from_pairs_snoc get_put)
qed

lemma keys_from_pairs: "set (keys (from_pairs ps)) = fst ` set ps"
proof (induction ps rule: rev_induct)
  case Nil
  show ?case by (simp add: from_pairs_def keys_empty)
next
  case (snoc p ps)
  then show ?case by (cases p) (auto simp: from_pairs_snoc keys_put)
qed

lemma distinct_keys_from_pairs: "distinct (keys (from_pairs ps))"
proof (induction ps rule: rev_induct)
  case Nil
  show ?case by (simp add: from_pairs_def keys_empty)
next
  case (snoc p ps)
  then show ?case by (cases p) (auto simp: from_pairs_snoc keys_put)
qed

end

text \<open>The provider: an association list updated in place, extended at the end.\<close>

type_synonym ('k, 'v) js_map = "('k \<times> 'v) list"

fun map_set :: "'k \<Rightarrow> 'v \<Rightarrow> ('k, 'v) js_map \<Rightarrow> ('k, 'v) js_map" where
  "map_set k v [] = [(k, v)]"
| "map_set k v ((k', v') # m) = (if k' = k then (k, v) # m else (k', v') # map_set k v m)"

definition map_keys :: "('k, 'v) js_map \<Rightarrow> 'k list" where
  "map_keys m = map fst m"

lemma map_of_map_set: "map_of (map_set k v m) k' = (if k' = k then Some v else map_of m k')"
  by (induction m rule: map_set.induct) auto

lemma map_keys_map_set:
  "map_keys (map_set k v m) = (if k \<in> set (map_keys m) then map_keys m else map_keys m @ [k])"
  by (induction m rule: map_set.induct) (auto simp: map_keys_def)

interpretation jm: js_map_spec "[]" map_of map_set map_keys
  by unfold_locales (auto simp: map_of_map_set map_keys_map_set, auto simp: map_keys_def)

definition map_from :: "('k \<times> 'v) list \<Rightarrow> ('k, 'v) js_map" where
  "map_from ps = foldl (\<lambda>m (k, v). map_set k v m) [] ps"

lemma map_from_eq: "map_from ps = jm.from_pairs ps"
  by (simp add: map_from_def jm.from_pairs_def)

lemma map_of_map_from: "map_of (map_from ps) k = map_of (rev ps) k"
  by (simp add: map_from_eq jm.get_from_pairs)

lemma map_keys_map_from: "set (map_keys (map_from ps)) = fst ` set ps"
  by (simp add: map_from_eq jm.keys_from_pairs)

lemma map_of_Some_iff_keys: "k \<in> set (map_keys m) \<longleftrightarrow> map_of m k \<noteq> None"
  by (induction m) (auto simp: map_keys_def)

subsection \<open>Encoders\<close>

text \<open>
  An encoder with the decoder of its reader: what is written for a well-formed value is read
  back. \<open>sep_codec\<close> adds that the text written avoids a set of separators, so that several
  encoded values can be joined and split again.
\<close>

locale codec =
  fixes enc :: "'a \<Rightarrow> 'b"
    and dec :: "'b \<Rightarrow> 'a option"
    and wf :: "'a \<Rightarrow> bool"
  assumes dec_enc: "wf a \<Longrightarrow> dec (enc a) = Some a"
begin

lemma enc_inj: "wf a \<Longrightarrow> wf b \<Longrightarrow> enc a = enc b \<Longrightarrow> a = b"
  by (metis dec_enc option.inject)

lemma dec_enc_list: "list_all wf as \<Longrightarrow> map (\<lambda>a. dec (enc a)) as = map Some as"
  by (induction as) (simp_all add: dec_enc)

end

text \<open>\<open>split_on c s\<close> is \<open>s.split(c)\<close> for a one-character separator; \<open>join_on\<close> is \<open>join\<close>.\<close>

fun split_on :: "'c \<Rightarrow> 'c list \<Rightarrow> 'c list list" where
  "split_on c [] = [[]]"
| "split_on c (x # xs) =
     (if x = c then [] # split_on c xs
      else (case split_on c xs of [] \<Rightarrow> [[x]] | w # ws \<Rightarrow> (x # w) # ws))"

fun join_on :: "'c list \<Rightarrow> 'c list list \<Rightarrow> 'c list" where
  "join_on sep [] = []"
| "join_on sep [w] = w"
| "join_on sep (w # v # ws) = w @ sep @ join_on sep (v # ws)"

lemma split_on_ne [simp]: "split_on c s \<noteq> []"
  by (induction s) (auto split: list.splits)

lemma split_on_no_sep: "c \<notin> set w \<Longrightarrow> split_on c w = [w]"
  by (induction w) auto

lemma split_on_append: "c \<notin> set w \<Longrightarrow> split_on c (w @ c # s) = w # split_on c s"
  by (induction w) auto

lemma split_on_join:
  "ws \<noteq> [] \<Longrightarrow> (\<And>w. w \<in> set ws \<Longrightarrow> c \<notin> set w) \<Longrightarrow> split_on c (join_on [c] ws) = ws"
proof (induction "[c]" ws rule: join_on.induct)
  case 1
  then show ?case by simp
next
  case (2 w)
  then show ?case by (simp add: split_on_no_sep)
next
  case (3 w v ws)
  then show ?case by (simp add: split_on_append)
qed

lemma join_split_on: "join_on [c] (split_on c s) = s"
proof (induction s)
  case Nil
  show ?case by simp
next
  case (Cons x xs)
  obtain w ws where sp: "split_on c xs = w # ws" by (cases "split_on c xs") auto
  show ?case
  proof (cases "x = c")
    case True
    with Cons sp show ?thesis by simp
  next
    case False
    with Cons sp show ?thesis by (cases ws) auto
  qed
qed

locale sep_codec = codec enc dec wf
  for enc :: "'a \<Rightarrow> 'c list" and dec :: "'c list \<Rightarrow> 'a option" and wf :: "'a \<Rightarrow> bool" +
  fixes seps :: "'c set"
  assumes enc_avoids: "c \<in> seps \<Longrightarrow> c \<notin> set (enc a)"
begin

lemma split_join_enc:
  assumes "c \<in> seps" and "as \<noteq> []"
  shows "split_on c (join_on [c] (map enc as)) = map enc as"
  using assms by (intro split_on_join) (auto dest: enc_avoids)

lemma dec_split_join:
  assumes "c \<in> seps" and "as \<noteq> []" and "list_all wf as"
  shows "map dec (split_on c (join_on [c] (map enc as))) = map Some as"
  using assms dec_enc_list by (simp add: split_join_enc)

end

subsection \<open>Event-driven components\<close>

text \<open>
  A component of the console is a state and a reaction to each event (a click, a response, a
  timer). \<open>machine\<close> is the contract its theory discharges once: the invariant holds at the
  start and every reaction keeps it; every run then keeps it.
\<close>

definition run :: "('s \<Rightarrow> 'e \<Rightarrow> 's) \<Rightarrow> 's \<Rightarrow> 'e list \<Rightarrow> 's" where
  "run step s es = foldl step s es"

lemma run_simps [simp]:
  "run step s [] = s" "run step s (e # es) = run step (step s e) es"
  "run step s (es @ fs) = run step (run step s es) fs"
  by (simp_all add: run_def)

locale machine =
  fixes init :: "'s"
    and step :: "'s \<Rightarrow> 'e \<Rightarrow> 's"
    and inv :: "'s \<Rightarrow> bool"
  assumes inv_init: "inv init"
    and inv_step: "inv s \<Longrightarrow> inv (step s e)"
begin

lemma inv_run: "inv s \<Longrightarrow> inv (run step s es)"
  by (induction es arbitrary: s) (simp_all add: inv_step)

lemma inv_reachable: "inv (run step init es)"
  by (rule inv_run) (rule inv_init)

lemma run_preserves:
  assumes "\<And>s e. inv s \<Longrightarrow> P s \<Longrightarrow> P (step s e)" and "inv s" and "P s"
  shows "P (run step s es)"
  using assms(2,3)
proof (induction es arbitrary: s)
  case Nil
  then show ?case by simp
next
  case (Cons e es)
  then show ?case using assms(1) inv_step by simp
qed

end

text \<open>A component whose every reaction only appends to a log (the requests it sends).\<close>

locale logging_machine = machine init step inv
  for init :: "'s" and step :: "'s \<Rightarrow> 'e \<Rightarrow> 's" and inv :: "'s \<Rightarrow> bool" +
  fixes log :: "'s \<Rightarrow> 'l list"
    and good :: "'l \<Rightarrow> bool"
  assumes log_init: "log init = []"
    and log_step: "inv s \<Longrightarrow> \<exists>new. log (step s e) = log s @ new \<and> list_all good new"
begin

lemma log_run_from:
  assumes "inv s"
  shows "\<exists>new. log (run step s es) = log s @ new \<and> list_all good new"
  using assms
proof (induction es arbitrary: s)
  case Nil
  then show ?case by simp
next
  case (Cons e es)
  obtain n1 where n1: "log (step s e) = log s @ n1" "list_all good n1"
    using log_step [OF Cons.prems] by blast
  obtain n2 where n2: "log (run step (step s e) es) = log (step s e) @ n2" "list_all good n2"
    using Cons.IH [OF inv_step [OF Cons.prems]] by blast
  have "log (run step s (e # es)) = log s @ (n1 @ n2)" using n1(1) n2(1) by simp
  moreover have "list_all good (n1 @ n2)" using n1(2) n2(2) by simp
  ultimately show ?case by blast
qed

lemma log_reachable: "list_all good (log (run step init es))"
  using log_run_from [OF inv_init] by (auto simp: log_init)

end

subsection \<open>Refinement of a specification\<close>

text \<open>
  A state machine that implements an abstract one: \<open>abs\<close> reads the abstract state off the concrete one,
  and on every admissible event the concrete step does what the abstract step says. Then a whole run
  does.
\<close>

locale refinement =
  fixes init :: "'s"
    and step :: "'s \<Rightarrow> 'e \<Rightarrow> 's"
    and inv :: "'s \<Rightarrow> bool"
    and ok :: "'e \<Rightarrow> bool"
    and abs_of :: "'s \<Rightarrow> 'a"
    and spec :: "'a \<Rightarrow> 'e \<Rightarrow> 'a"
  assumes refine_init: "inv init"
    and refine_inv: "inv s \<Longrightarrow> ok e \<Longrightarrow> inv (step s e)"
    and refine_step: "inv s \<Longrightarrow> ok e \<Longrightarrow> abs_of (step s e) = spec (abs_of s) e"
begin

lemma run_from: "inv s \<Longrightarrow> list_all ok es \<Longrightarrow> inv (run step s es) \<and> abs_of (run step s es) = run spec (abs_of s) es"
  by (induction es arbitrary: s) (simp_all add: refine_inv refine_step)

lemma run_refines: "list_all ok es \<Longrightarrow> abs_of (run step init es) = run spec (abs_of init) es"
  using run_from [OF refine_init] by blast

lemma run_inv: "list_all ok es \<Longrightarrow> inv (run step init es)"
  using run_from [OF refine_init] by blast

end

end
