(* ===== verification/JsString.thy ===== *)
theory JsString
  imports Prelude "HOL-Library.Char_ord" "HOL-Library.List_Lexorder"
begin

section \<open>Strings of the console\<close>

text \<open>
  A string of the source is the list of the bytes of its UTF-8 encoding (\<open>string\<close> is a list of
  8-bit characters). Every operation the console applies to text compares, splits, replaces or
  escapes ASCII characters, which commutes with that encoding; what leaves the browser (a URL, a
  request body, a CSV blob) is exactly these bytes. \<open>utf8_ok\<close> says that a list of bytes is such
  an encoding; a string with an unpaired surrogate has none and is not modelled.

  \<open>trim\<close> removes the white space of the language (ASCII and the multi-byte characters). Case
  conversion is only used by the console to compare with ASCII words, so it converts ASCII
  letters and the two non-ASCII letters whose upper case is ASCII, and leaves the rest alone.
\<close>

subsection \<open>UTF-8\<close>

abbreviation byte_of :: "char \<Rightarrow> nat" where
  "byte_of c \<equiv> of_char c"

lemma byte_of_lt: "byte_of c < 256"
  by simp

definition lead_len :: "nat \<Rightarrow> nat" where
  "lead_len b = (if b < 128 then 1 else if 194 \<le> b \<and> b \<le> 223 then 2
     else if 224 \<le> b \<and> b \<le> 239 then 3 else if 240 \<le> b \<and> b \<le> 244 then 4 else 0)"

definition cont_byte :: "nat \<Rightarrow> bool" where
  "cont_byte b \<longleftrightarrow> 128 \<le> b \<and> b \<le> 191"

definition second_ok :: "nat \<Rightarrow> nat \<Rightarrow> bool" where
  "second_ok b0 b1 \<longleftrightarrow> cont_byte b1 \<and> (b0 = 224 \<longrightarrow> 160 \<le> b1) \<and> (b0 = 237 \<longrightarrow> b1 \<le> 159) \<and>
     (b0 = 240 \<longrightarrow> 144 \<le> b1) \<and> (b0 = 244 \<longrightarrow> b1 \<le> 143)"

text \<open>One code point: its lead byte and the continuation bytes it announces.\<close>

fun seq_ok :: "nat list \<Rightarrow> bool" where
  "seq_ok [] = False"
| "seq_ok [b0] = (lead_len b0 = 1)"
| "seq_ok (b0 # b1 # bs) =
     (lead_len b0 = Suc (Suc (length bs)) \<and> second_ok b0 b1 \<and> list_all cont_byte bs)"

function utf8_ok :: "string \<Rightarrow> bool" where
  "utf8_ok [] = True"
| "utf8_ok (c # cs) =
     (let n = lead_len (byte_of c)
      in 0 < n \<and> seq_ok (map byte_of (take n (c # cs))) \<and>
         (if 0 < n then utf8_ok (drop n (c # cs)) else False))"
  by pat_completeness auto
termination
  by (relation "measure length") auto

declare utf8_ok.simps [simp del]

lemma utf8_ok_Nil [simp]: "utf8_ok []"
  by (simp add: utf8_ok.simps)

lemma lead_len_ascii [simp]: "b < 128 \<Longrightarrow> lead_len b = Suc 0"
  by (simp add: lead_len_def)

lemma lead_len_eq_1: "lead_len b = Suc 0 \<longleftrightarrow> b < 128"
  by (auto simp: lead_len_def)

lemma utf8_ok_ascii_Cons [simp]: "byte_of c < 128 \<Longrightarrow> utf8_ok (c # cs) = utf8_ok cs"
  by (simp add: utf8_ok.simps(2))

lemma utf8_ok_ascii: "list_all (\<lambda>c. byte_of c < 128) s \<Longrightarrow> utf8_ok s"
  by (induction s) simp_all

lemma seq_ok_length: "seq_ok bs \<Longrightarrow> bs \<noteq> [] \<and> length bs = lead_len (hd bs)"
  by (cases bs rule: seq_ok.cases) auto

lemma seq_ok_multi:
  assumes "seq_ok (b # bs)" and "bs \<noteq> []"
  shows "\<forall>x \<in> set (b # bs). 128 \<le> x"
proof -
  obtain b1 bs' where bs: "bs = b1 # bs'" using assms(2) by (cases bs) auto
  have "128 \<le> b"
  proof (rule ccontr)
    assume "\<not> 128 \<le> b"
    then show False using assms(1) by (simp add: bs)
  qed
  with assms(1) show ?thesis
    by (auto simp: bs second_ok_def cont_byte_def list_all_iff)
qed

text \<open>A non-empty well-formed string starts with one code point, and its rest is well formed.\<close>

lemma utf8_ok_split:
  assumes "utf8_ok s" and "s \<noteq> []"
  obtains p r where "s = p @ r" "seq_ok (map byte_of p)" "utf8_ok r" "p \<noteq> []"
proof -
  from assms(2) obtain c cs where s: "s = c # cs" by (cases s) auto
  let ?n = "lead_len (byte_of c)"
  from assms(1) have "seq_ok (map byte_of (take ?n s))" "utf8_ok (drop ?n s)" "0 < ?n"
    by (auto simp: s utf8_ok.simps(2) Let_def)
  moreover have "s = take ?n s @ drop ?n s" by simp
  ultimately show thesis using that [of "take ?n s" "drop ?n s"] s by (cases ?n) auto
qed

lemma utf8_ok_join:
  assumes "seq_ok (map byte_of p)" and "utf8_ok r"
  shows "utf8_ok (p @ r)"
proof -
  from assms(1) obtain c cs where p: "p = c # cs" by (cases p) auto
  from seq_ok_length [OF assms(1)] have n: "lead_len (byte_of c) = length p" by (simp add: p)
  with assms p show ?thesis by (simp add: utf8_ok.simps(2) Let_def)
qed

lemma utf8_induct [consumes 1, case_names Nil Seq]:
  assumes "utf8_ok s" and "P []"
    and "\<And>p r. seq_ok (map byte_of p) \<Longrightarrow> p \<noteq> [] \<Longrightarrow> utf8_ok r \<Longrightarrow> P r \<Longrightarrow> P (p @ r)"
  shows "P s"
  using assms(1)
proof (induction s rule: length_induct)
  case (1 s)
  show ?case
  proof (cases "s = []")
    case True
    then show ?thesis using assms(2) by simp
  next
    case False
    then obtain p r where pr: "s = p @ r" "seq_ok (map byte_of p)" "utf8_ok r" "p \<noteq> []"
      using utf8_ok_split "1.prems" by blast
    then have "P r" using "1.IH" by (cases p) auto
    with pr show ?thesis using assms(3) by simp
  qed
qed

subsection \<open>Searching, replacing, trimming\<close>

definition starts_with :: "string \<Rightarrow> string \<Rightarrow> bool" where
  "starts_with p s \<longleftrightarrow> take (length p) s = p"

lemma starts_with_append [simp]: "starts_with p (p @ s)"
  by (simp add: starts_with_def)

fun str_includes :: "'a list \<Rightarrow> 'a list \<Rightarrow> bool" where
  "str_includes [] p = (p = [])"
| "str_includes (c # cs) p = (take (length p) (c # cs) = p \<or> str_includes cs p)"

lemma includes_iff: "str_includes s p \<longleftrightarrow> (\<exists>a b. s = a @ p @ b)"
proof (induction s)
  case Nil
  show ?case by auto
next
  case (Cons c cs)
  show ?case
  proof
    assume "str_includes (c # cs) p"
    then consider "take (length p) (c # cs) = p" | "str_includes cs p" by auto
    then show "\<exists>a b. c # cs = a @ p @ b"
    proof cases
      case 1
      then have "c # cs = [] @ p @ drop (length p) (c # cs)"
        by (metis append_Nil append_take_drop_id)
      then show ?thesis by blast
    next
      case 2
      then obtain a b where "cs = a @ p @ b" using Cons by blast
      then have "c # cs = (c # a) @ p @ b" by simp
      then show ?thesis by blast
    qed
  next
    assume "\<exists>a b. c # cs = a @ p @ b"
    then obtain a b where ab: "c # cs = a @ p @ b" by blast
    show "str_includes (c # cs) p"
    proof (cases a)
      case Nil
      then show ?thesis using ab by (metis append_Nil append_eq_conv_conj str_includes.simps(2))
    next
      case (Cons a0 a')
      with ab have "cs = a' @ p @ b" by simp
      then have "str_includes cs p" using \<open>str_includes cs p \<longleftrightarrow> (\<exists>a b. cs = a @ p @ b)\<close> by blast
      then show ?thesis by simp
    qed
  qed
qed

text \<open>\<open>s.replace(/c/g, r)\<close> for one character.\<close>

definition replace_all :: "char \<Rightarrow> string \<Rightarrow> string \<Rightarrow> string" where
  "replace_all c r s = concat (map (\<lambda>x. if x = c then r else [x]) s)"

lemma replace_all_simps [simp]:
  "replace_all c r [] = []"
  "replace_all c r (x # s) = (if x = c then r else [x]) @ replace_all c r s"
  by (simp_all add: replace_all_def)

text \<open>White space and line terminators of the language, one list of bytes each.\<close>

definition js_space :: "nat list list" where
  "js_space = [[9], [10], [11], [12], [13], [32], [194, 160], [225, 154, 128]] @
     map (\<lambda>b. [226, 128, b]) ([128..<139] @ [168, 169, 175]) @
     [[226, 129, 159], [227, 128, 128], [239, 187, 191]]"

definition space_prefix :: "nat list list \<Rightarrow> string \<Rightarrow> nat" where
  "space_prefix ws s =
     (case List.find (\<lambda>w. take (length w) (map byte_of s) = w) ws of None \<Rightarrow> 0 | Some w \<Rightarrow> length w)"

function strip_spaces :: "nat list list \<Rightarrow> string \<Rightarrow> string" where
  "strip_spaces ws s =
     (let n = space_prefix ws s
      in if 0 < n \<and> n \<le> length s \<and> s \<noteq> [] then strip_spaces ws (drop n s) else s)"
  by pat_completeness auto
termination
  by (relation "measure (\<lambda>(ws, s). length s)") auto

declare strip_spaces.simps [simp del]

definition trim :: "string \<Rightarrow> string" where
  "trim s = rev (strip_spaces (map rev js_space) (rev (strip_spaces js_space s)))"

lemma strip_spaces_suffix: "\<exists>k. strip_spaces ws s = drop k s"
proof (induction ws s rule: strip_spaces.induct)
  case (1 ws s)
  let ?n = "space_prefix ws s"
  show ?case
  proof (cases "0 < ?n \<and> ?n \<le> length s \<and> s \<noteq> []")
    case True
    then obtain k where "strip_spaces ws (drop ?n s) = drop k (drop ?n s)"
      using "1.IH" by auto
    with True have "strip_spaces ws s = drop (k + ?n) s"
      by (simp add: strip_spaces.simps [of ws s] Let_def)
    then show ?thesis by blast
  next
    case False
    then have "strip_spaces ws s = drop 0 s"
      by (auto simp: strip_spaces.simps [of ws s] Let_def)
    then show ?thesis by blast
  qed
qed

lemma set_trim: "set (trim s) \<subseteq> set s"
proof -
  obtain k where k: "strip_spaces js_space s = drop k s" using strip_spaces_suffix by blast
  obtain l where l: "strip_spaces (map rev js_space) (rev (drop k s)) = drop l (rev (drop k s))"
    using strip_spaces_suffix by blast
  have "set (trim s) \<subseteq> set (drop k s)"
    by (simp add: trim_def k l) (metis set_drop_subset set_rev)
  then show ?thesis using set_drop_subset by fastforce
qed

text \<open>Case conversion, exact for comparisons with ASCII words.\<close>

definition lower_char :: "char \<Rightarrow> char" where
  "lower_char c = (if 65 \<le> byte_of c \<and> byte_of c \<le> 90 then char_of (byte_of c + 32) else c)"

definition upper_char :: "char \<Rightarrow> char" where
  "upper_char c = (if 97 \<le> byte_of c \<and> byte_of c \<le> 122 then char_of (byte_of c - 32) else c)"

text \<open>U+212A (Kelvin sign) lowers to \<open>k\<close>; U+0131 and U+017F rise to \<open>I\<close> and \<open>S\<close>.\<close>

fun to_lower :: "string \<Rightarrow> string" where
  "to_lower (a # b # c # s) =
     (if byte_of a = 226 \<and> byte_of b = 132 \<and> byte_of c = 170 then CHR ''k'' # to_lower s
      else lower_char a # to_lower (b # c # s))"
| "to_lower s = map lower_char s"

fun to_upper :: "string \<Rightarrow> string" where
  "to_upper (a # b # s) =
     (if byte_of a = 196 \<and> byte_of b = 177 then CHR ''I'' # to_upper s
      else if byte_of a = 197 \<and> byte_of b = 191 then CHR ''S'' # to_upper s
      else upper_char a # to_upper (b # s))"
| "to_upper s = map upper_char s"

lemma to_upper_ERROR: "to_upper ''error'' = ''ERROR''"
  by code_simp

end
