(* ===== verification/Uri.thy ===== *)
theory Uri
  imports JsString
begin

section \<open>URI components\<close>

text \<open>
  \<open>encodeURIComponent\<close> and \<open>decodeURIComponent\<close> of the language, as the console uses them for
  the dashboard id in the URL hash and for query parameters. The encoder writes every byte
  outside the unreserved set as \<open>%XX\<close>; the decoder collects the bytes of one code point and
  refuses (\<open>URIError\<close>) a malformed escape or an ill-formed sequence.
\<close>

definition unreserved_codes :: "nat list" where
  "unreserved_codes = [65..<91] @ [97..<123] @ [48..<58] @ [45, 95, 46, 33, 126, 42, 39, 40, 41]"

definition unreserved :: "char \<Rightarrow> bool" where
  "unreserved c \<longleftrightarrow> byte_of c \<in> set unreserved_codes"

definition hex_digit :: "nat \<Rightarrow> char" where
  "hex_digit n = (if n < 10 then char_of (48 + n) else char_of (55 + n))"

definition hex_value :: "char \<Rightarrow> nat option" where
  "hex_value c =
     (let b = byte_of c
      in if 48 \<le> b \<and> b \<le> 57 then Some (b - 48)
         else if 65 \<le> b \<and> b \<le> 70 then Some (b - 55)
         else if 97 \<le> b \<and> b \<le> 102 then Some (b - 87) else None)"

definition pct :: "nat \<Rightarrow> string" where
  "pct b = [CHR ''%'', hex_digit (b div 16), hex_digit (b mod 16)]"

definition encodeURIComponent :: "string \<Rightarrow> string" where
  "encodeURIComponent s = concat (map (\<lambda>c. if unreserved c then [c] else pct (byte_of c)) s)"

text \<open>Reading \<open>n\<close> consecutive escapes.\<close>

fun take_pct :: "nat \<Rightarrow> string \<Rightarrow> (nat list \<times> string) option" where
  "take_pct 0 s = Some ([], s)"
| "take_pct (Suc n) (p # h # l # s) =
     (if p = CHR ''%''
      then (case (hex_value h, hex_value l) of
          (Some a, Some b) \<Rightarrow> map_option (\<lambda>(bs, r). ((16 * a + b) # bs, r)) (take_pct n s)
        | _ \<Rightarrow> None)
      else None)"
| "take_pct (Suc n) s = None"

lemma take_pct_length: "take_pct n s = Some (bs, r) \<Longrightarrow> length s = length r + 3 * n"
  by (induction n s arbitrary: bs r rule: take_pct.induct)
    (auto split: if_splits option.splits prod.splits)

definition decode_seq :: "string \<Rightarrow> (string \<times> string) option" where
  "decode_seq s =
     (case take_pct 1 s of
        Some (b # _, _) \<Rightarrow>
          (case take_pct (lead_len b) s of
             Some (bs, r) \<Rightarrow> if seq_ok bs then Some (map char_of bs, r) else None
           | None \<Rightarrow> None)
      | _ \<Rightarrow> None)"

lemma decode_seq_length: "decode_seq s = Some (p, r) \<Longrightarrow> length r < length s"
proof -
  assume "decode_seq s = Some (p, r)"
  then obtain b bs where bs: "take_pct (lead_len b) s = Some (bs, r)" "seq_ok bs"
    by (auto simp: decode_seq_def split: option.splits list.splits if_splits)
  show ?thesis
  proof (cases "lead_len b")
    case 0
    with bs show ?thesis by simp
  next
    case (Suc n)
    with take_pct_length [OF bs(1)] show ?thesis by simp
  qed
qed

function decode_pct :: "string \<Rightarrow> string option" where
  "decode_pct [] = Some []"
| "decode_pct (c # cs) =
     (if c = CHR ''%''
      then (case decode_seq (c # cs) of
          None \<Rightarrow> None
        | Some (p, r) \<Rightarrow> map_option (\<lambda>t. p @ t) (decode_pct r))
      else map_option (\<lambda>t. c # t) (decode_pct cs))"
  by pat_completeness auto
termination
  by (relation "measure length") (auto dest: decode_seq_length)

declare decode_pct.simps [simp del]

definition decodeURIComponent :: "string \<Rightarrow> js_exn + string" where
  "decodeURIComponent s = (case decode_pct s of None \<Rightarrow> Inl URIError | Some t \<Rightarrow> Inr t)"

subsection \<open>Round trip\<close>

lemma hex_value_digit: "n < 16 \<Longrightarrow> hex_value (hex_digit n) = Some n"
  by (simp add: hex_value_def hex_digit_def)

lemma take_pct_pct:
  "b < 256 \<Longrightarrow> take_pct (Suc n) (pct b @ s) = map_option (\<lambda>(bs, r). (b # bs, r)) (take_pct n s)"
  by (simp add: pct_def hex_value_digit)

lemma take_pct_concat:
  "\<forall>b \<in> set bs. b < 256 \<Longrightarrow> take_pct (length bs) (concat (map pct bs) @ s) = Some (bs, s)"
  by (induction bs) (simp_all add: take_pct_pct)

lemma unreserved_ascii: "unreserved c \<Longrightarrow> byte_of c < 128"
  by (auto simp: unreserved_def unreserved_codes_def)

lemma unreserved_not_pct: "\<not> unreserved CHR ''%''"
  by (simp add: unreserved_def unreserved_codes_def)

lemma encode_append: "encodeURIComponent (a @ b) = encodeURIComponent a @ encodeURIComponent b"
  by (simp add: encodeURIComponent_def)

lemma encode_Nil [simp]: "encodeURIComponent [] = []"
  by (simp add: encodeURIComponent_def)

lemma encode_reserved:
  "\<forall>c \<in> set p. \<not> unreserved c \<Longrightarrow> encodeURIComponent p = concat (map pct (map byte_of p))"
  by (induction p) (simp_all add: encodeURIComponent_def)

lemma decode_seq_encoded:
  assumes "seq_ok bs" and "\<forall>b \<in> set bs. b < 256"
  shows "decode_seq (concat (map pct bs) @ s) = Some (map char_of bs, s)"
proof -
  from assms(1) obtain b bs' where bs: "bs = b # bs'" by (cases bs) auto
  have one: "\<exists>r. take_pct 1 (concat (map pct bs) @ s) = Some ([b], r)"
    using assms(2) by (auto simp: bs take_pct_pct)
  have "lead_len b = length bs" using seq_ok_length [OF assms(1)] by (simp add: bs)
  then have "take_pct (lead_len b) (concat (map pct bs) @ s) = Some (bs, s)"
    using take_pct_concat [OF assms(2)] by simp
  with one assms(1) show ?thesis by (auto simp: decode_seq_def)
qed

lemma decode_pct_seq:
  assumes "seq_ok (map byte_of p)" and "p \<noteq> []"
  shows "decode_pct (encodeURIComponent p @ s) = map_option (\<lambda>t. p @ t) (decode_pct s)"
proof (cases "\<exists>c. p = [c] \<and> unreserved c")
  case True
  then obtain c where c: "p = [c]" "unreserved c" by blast
  then have "c \<noteq> CHR ''%''" using unreserved_not_pct by blast
  with c show ?thesis by (simp add: encodeURIComponent_def decode_pct.simps(2))
next
  case False
  have "\<forall>c \<in> set p. \<not> unreserved c"
  proof (cases "tl p = []")
    case True
    with False assms(2) show ?thesis by (cases p) auto
  next
    case nonempty: False
    then have "map byte_of p = byte_of (hd p) # map byte_of (tl p)" using assms(2) by (cases p) auto
    then have "\<forall>x \<in> set (map byte_of p). 128 \<le> x"
      using seq_ok_multi [of "byte_of (hd p)" "map byte_of (tl p)"] assms(1) nonempty by simp
    then show ?thesis using unreserved_ascii by fastforce
  qed
  then have enc: "encodeURIComponent p = concat (map pct (map byte_of p))"
    by (rule encode_reserved)
  have "decode_seq (concat (map pct (map byte_of p)) @ s) = Some (map char_of (map byte_of p), s)"
    by (rule decode_seq_encoded [OF assms(1)]) auto
  moreover have "map char_of (map byte_of p) = p" by (simp add: map_idI)
  moreover obtain t where "concat (map pct (map byte_of p)) @ s = CHR ''%'' # t"
    using assms(2) by (cases p) (auto simp: pct_def)
  ultimately show ?thesis by (simp add: enc decode_pct.simps(2) del: map_map)
qed

lemma decode_encode: "utf8_ok s \<Longrightarrow> decode_pct (encodeURIComponent s) = Some s"
proof (induction s rule: utf8_induct)
  case Nil
  show ?case by (simp add: decode_pct.simps)
next
  case (Seq p r)
  then show ?case by (simp add: encode_append decode_pct_seq)
qed

text \<open>The encoder only writes unreserved characters, \<open>%\<close> and hexadecimal digits.\<close>

lemma hex_digit_unreserved: "n < 16 \<Longrightarrow> unreserved (hex_digit n)"
  by (auto simp: hex_digit_def unreserved_def unreserved_codes_def)

lemma encode_chars: "c \<in> set (encodeURIComponent s) \<Longrightarrow> unreserved c \<or> c = CHR ''%''"
proof (induction s)
  case Nil
  then show ?case by simp
next
  case (Cons x xs)
  have "byte_of x div 16 < 16" "byte_of x mod 16 < 16"
    using byte_of_lt [of x] by (simp_all add: less_mult_imp_div_less)
  then show ?case using Cons
    by (auto simp: encodeURIComponent_def pct_def hex_digit_unreserved split: if_splits)
qed

lemma encode_empty_iff: "encodeURIComponent s = [] \<longleftrightarrow> s = []"
  by (cases s) (auto simp: encodeURIComponent_def pct_def)

definition uri_separators :: "char set" where
  "uri_separators = {CHR ''/'', CHR ''?'', CHR ''#'', CHR ''&'', CHR ''='', CHR ''+''}"

interpretation uri: sep_codec encodeURIComponent decode_pct utf8_ok uri_separators
proof
  fix a
  assume "utf8_ok a"
  then show "decode_pct (encodeURIComponent a) = Some a" by (rule decode_encode)
next
  fix c a
  assume "c \<in> uri_separators"
  then have "\<not> unreserved c \<and> c \<noteq> CHR ''%''"
    by (auto simp: uri_separators_def unreserved_def unreserved_codes_def)
  then show "c \<notin> set (encodeURIComponent a)" using encode_chars by blast
qed

end
