(* ===== verification/HashRoute.thy ===== *)
theory HashRoute
  imports Uri
begin

section \<open>The dashboard id in the URL hash (\<open>hash.ts\<close>)\<close>

text \<open>
  \<open>window.location.hash\<close> is the empty string or starts with \<open>#\<close>. \<open>parseDashId\<close> reads the id of
  \<open>#/dashboards/<id>\<close>, \<open>setDashHash\<close> writes it. Reading throws \<open>URIError\<close> when the id is not a
  well-formed percent-encoding.
\<close>

text \<open>\<open>h.replace(/^#\/?/, '')\<close>\<close>

fun strip_hash :: "string \<Rightarrow> string" where
  "strip_hash (c # d # s) =
     (if c = CHR ''#'' then (if d = CHR ''/'' then s else d # s) else c # d # s)"
| "strip_hash [c] = (if c = CHR ''#'' then [] else [c])"
| "strip_hash [] = []"

text \<open>Assigning \<open>v\<close> to \<open>window.location.hash\<close>, for \<open>v\<close> without a leading \<open>#\<close>.\<close>

definition hash_of :: "string \<Rightarrow> string" where
  "hash_of v = ''#'' @ v"

lemma strip_hash_slash [simp]: "strip_hash (CHR ''#'' # CHR ''/'' # s) = s"
  by simp

definition dash_prefix :: string where
  "dash_prefix = ''dashboards/''"

definition parseDashId :: "string \<Rightarrow> js_exn + string option" where
  "parseDashId hash =
     (let h = strip_hash hash; rest = drop (length dash_prefix) h
      in if starts_with dash_prefix h \<and> rest \<noteq> [] \<and> CHR ''/'' \<notin> set rest
         then ok_bind (decodeURIComponent rest) (\<lambda>s. Inr (Some s))
         else Inr None)"

definition setDashHash :: "string option \<Rightarrow> string" where
  "setDashHash did =
     hash_of (case did of
        Some i \<Rightarrow> if i = [] then ''/dashboards'' else ''/dashboards/'' @ encodeURIComponent i
      | None \<Rightarrow> ''/dashboards'')"

lemma strip_setDashHash:
  "strip_hash (setDashHash (Some i)) = (if i = [] then ''dashboards'' else dash_prefix @ encodeURIComponent i)"
  "strip_hash (setDashHash None) = ''dashboards''"
  by (simp_all add: setDashHash_def hash_of_def dash_prefix_def)

lemma parse_set_hash: "utf8_ok i \<Longrightarrow> i \<noteq> [] \<Longrightarrow> parseDashId (setDashHash (Some i)) = Inr (Some i)"
proof -
  assume "utf8_ok i" "i \<noteq> []"
  moreover have "CHR ''/'' \<notin> set (encodeURIComponent i)"
    by (rule uri.enc_avoids) (simp add: uri_separators_def)
  ultimately show ?thesis
    by (simp add: parseDashId_def strip_setDashHash decodeURIComponent_def uri.dec_enc encode_empty_iff)
qed

text \<open>C36: the id written into the hash is the id read back, for every non-empty dashboard id.\<close>

theorem dash_hash_roundtrip:
  assumes "utf8_ok i" and "i \<noteq> []"
  shows "parseDashId (setDashHash (Some i)) = Inr (Some i)"
  using assms by (rule parse_set_hash)

theorem dash_hash_roundtrip_witness:
  "parseDashId (setDashHash (Some ''a/b c'')) = Inr (Some ''a/b c'') \<and>
   setDashHash (Some ''a/b c'') = ''#/dashboards/a%2Fb%20c''"
proof -
  have "utf8_ok ''a/b c''" by (rule utf8_ok_ascii) simp
  then have "parseDashId (setDashHash (Some ''a/b c'')) = Inr (Some ''a/b c'')"
    by (rule dash_hash_roundtrip) simp
  moreover have "setDashHash (Some ''a/b c'') = ''#/dashboards/a%2Fb%20c''"
    by code_simp
  ultimately show ?thesis by simp
qed

lemma parse_no_dash: "parseDashId (setDashHash None) = Inr None"
  by (simp add: parseDashId_def strip_setDashHash dash_prefix_def starts_with_def)

lemma setDashHash_nonempty [simp]: "setDashHash d \<noteq> []"
  by (simp add: setDashHash_def hash_of_def)

end
