(* ===== verification/JsNumber.thy ===== *)
theory JsNumber
  imports JsString
begin

section \<open>Numbers of the console\<close>

text \<open>
  A number of the source is an IEEE double: a finite rational, an infinity or \<open>NaN\<close>. Every
  operation rounds its exact result with \<open>fl\<close> (53-bit significand, ties to even, subnormals,
  overflow to infinity). The sign of zero is not represented: no branch, index or URL of the
  console depends on it.
\<close>

datatype jsnum = JNaN | JInf | JNegInf | Fin rat

subsection \<open>Rounding to double precision\<close>

definition pow2 :: "int \<Rightarrow> rat" where
  "pow2 k = (if 0 \<le> k then 2 ^ nat k else 1 / 2 ^ nat (- k))"

lemma pow2_pos [simp]: "0 < pow2 k"
  by (simp add: pow2_def)

lemma pow2_ne_0 [simp]: "pow2 k \<noteq> 0"
  using pow2_pos [of k] by linarith

lemma pow2_powi: "pow2 k = 2 powi k"
  by (simp add: pow2_def power_int_def field_simps)

lemma pow2_add: "pow2 (i + j) = pow2 i * pow2 j"
  by (simp add: pow2_powi power_int_add)

lemma pow2_diff: "pow2 (i - j) = pow2 i / pow2 j"
  by (simp add: pow2_powi power_int_diff)

lemma pow2_mono: "i \<le> j \<Longrightarrow> pow2 i \<le> pow2 j"
  by (simp add: pow2_powi power_int_increasing)

lemma pow2_strict_mono: "i < j \<Longrightarrow> pow2 i < pow2 j"
  by (simp add: pow2_powi power_int_strict_increasing)

lemma pow2_less_iff: "pow2 i < pow2 j \<longleftrightarrow> i < j"
  using pow2_mono [of j i] pow2_strict_mono [of i j] by (cases "i < j") auto

lemma abs_pow2 [simp]: "\<bar>pow2 k\<bar> = pow2 k"
  using pow2_pos [of k] by linarith

lemma pow2_nonneg [simp]: "0 \<le> pow2 k" "\<not> pow2 k < 0"
  using pow2_pos [of k] by linarith+

lemma pow2_nat [simp]: "pow2 (int n) = 2 ^ n"
  by (simp add: pow2_def)

lemma pow2_int: "0 \<le> k \<Longrightarrow> pow2 k = of_int (2 ^ nat k)"
  by (simp add: pow2_def)

fun bit_length :: "nat \<Rightarrow> nat" where
  "bit_length n = (if n = 0 then 0 else Suc (bit_length (n div 2)))"

declare bit_length.simps [simp del]

lemma bit_length_bounds: "0 < n \<Longrightarrow> 2 ^ (bit_length n - 1) \<le> n \<and> n < 2 ^ bit_length n"
proof (induction n rule: bit_length.induct)
  case (1 n)
  show ?case
  proof (cases "n div 2 = 0")
    case True
    with "1.prems" have "n = 1" by (simp add: div_eq_0_iff)
    then show ?thesis by (simp add: bit_length.simps)
  next
    case False
    with 1 have IH: "2 ^ (bit_length (n div 2) - 1) \<le> n div 2" "n div 2 < 2 ^ bit_length (n div 2)"
      by auto
    have pos: "0 < bit_length (n div 2)" using False by (simp add: bit_length.simps [of "n div 2"])
    have bl: "bit_length n = Suc (bit_length (n div 2))"
      using "1.prems" by (simp add: bit_length.simps [of n])
    have "2 * 2 ^ (bit_length (n div 2) - 1) \<le> n" using IH(1) by linarith
    moreover have "2 * 2 ^ (bit_length (n div 2) - 1) = (2::nat) ^ bit_length (n div 2)"
      using pos by (cases "bit_length (n div 2)") simp_all
    moreover have "n < 2 * 2 ^ bit_length (n div 2)" using IH(2) by linarith
    ultimately show ?thesis using bl by simp
  qed
qed

text \<open>The exponent of a positive rational: \<open>2 ^ e \<le> a < 2 ^ (e + 1)\<close>.\<close>

definition ilog2 :: "rat \<Rightarrow> int" where
  "ilog2 a =
     (let (n, d) = quotient_of a; e = int (bit_length (nat n)) - int (bit_length (nat d))
      in if pow2 e \<le> a then e else e - 1)"

lemma ilog2_bounds:
  assumes "0 < a"
  shows "pow2 (ilog2 a) \<le> a \<and> a < pow2 (ilog2 a + 1)"
proof -
  obtain n d where q: "quotient_of a = (n, d)" by (cases "quotient_of a")
  then have d: "0 < d" and a: "a = of_int n / of_int d"
    by (auto dest: quotient_of_denom_pos quotient_of_div)
  with assms have n: "0 < n" by (simp add: zero_less_divide_iff)
  define bn bd where "bn = int (bit_length (nat n))" and "bd = int (bit_length (nat d))"
  define e where "e = bn - bd"
  have up: "of_int m < pow2 (int (bit_length (nat m)))"
    and lo: "pow2 (int (bit_length (nat m)) - 1) \<le> of_int m" if "0 < m" for m
  proof -
    have b: "2 ^ (bit_length (nat m) - 1) \<le> nat m" "nat m < 2 ^ bit_length (nat m)"
      using bit_length_bounds [of "nat m"] that by auto
    have pos: "0 < bit_length (nat m)" using that by (simp add: bit_length.simps [of "nat m"])
    have m: "rat_of_nat (nat m) = of_int m" using that by simp
    have "rat_of_nat (nat m) < of_nat (2 ^ bit_length (nat m))" using b(2) by (simp only: of_nat_less_iff)
    then show "of_int m < pow2 (int (bit_length (nat m)))" by (simp only: m pow2_nat of_nat_power of_nat_numeral)
    have "rat_of_nat (2 ^ (bit_length (nat m) - 1)) \<le> of_nat (nat m)" using b(1) by (simp only: of_nat_le_iff)
    moreover have "int (bit_length (nat m)) - 1 = int (bit_length (nat m) - 1)" using pos by simp
    ultimately show "pow2 (int (bit_length (nat m)) - 1) \<le> of_int m"
      by (simp only: m pow2_nat of_nat_power of_nat_numeral)
  qed
  have "a < pow2 bn / pow2 (bd - 1)"
    unfolding a bn_def bd_def using up [OF n] lo [OF d] n d
    by (intro frac_less) auto
  then have hi: "a < pow2 (e + 1)"
    by (simp add: e_def pow2_diff [symmetric] algebra_simps)
  have "pow2 (bn - 1) / pow2 bd < a"
    unfolding a bn_def bd_def using lo [OF n] up [OF d] n d
    by (intro frac_less2) auto
  then have lo': "pow2 (e - 1) < a"
    by (simp add: e_def pow2_diff [symmetric] algebra_simps)
  have "ilog2 a = (if pow2 e \<le> a then e else e - 1)"
    by (simp add: ilog2_def q e_def bn_def bd_def)
  with hi lo' show ?thesis by auto
qed

lemma ilog2_le_iff: "0 < a \<Longrightarrow> ilog2 a < k \<longleftrightarrow> a < pow2 k"
proof -
  assume a: "0 < a"
  have b: "pow2 (ilog2 a) \<le> a" "a < pow2 (ilog2 a + 1)" using ilog2_bounds [OF a] by auto
  show ?thesis
  proof
    assume "ilog2 a < k"
    then have "pow2 (ilog2 a + 1) \<le> pow2 k" by (simp add: pow2_mono)
    with b(2) show "a < pow2 k" by linarith
  next
    assume "a < pow2 k"
    with b(1) have "pow2 (ilog2 a) < pow2 k" by linarith
    then show "ilog2 a < k" by (simp add: pow2_less_iff)
  qed
qed

lemma ilog2_mono: "0 < a \<Longrightarrow> a \<le> b \<Longrightarrow> ilog2 a \<le> ilog2 b"
proof -
  assume "0 < a" "a \<le> b"
  then have "a < pow2 (ilog2 b + 1)" using ilog2_bounds [of b] by linarith
  with \<open>0 < a\<close> show ?thesis using ilog2_le_iff [of a "ilog2 b + 1"] by simp
qed

definition round_half_even :: "rat \<Rightarrow> int" where
  "round_half_even x =
     (let f = \<lfloor>x\<rfloor>; r = x - of_int f
      in if r < 1 / 2 then f else if 1 / 2 < r then f + 1 else if even f then f else f + 1)"

lemma round_half_even_int [simp]: "round_half_even (of_int n) = n"
  by (simp add: round_half_even_def)

lemma round_half_even_near: "\<bar>of_int (round_half_even x) - x\<bar> \<le> 1 / 2"
proof -
  have f: "of_int \<lfloor>x\<rfloor> \<le> x" "x < of_int \<lfloor>x\<rfloor> + 1" by linarith+
  show ?thesis
  proof (cases "round_half_even x = \<lfloor>x\<rfloor>")
    case True
    then have "x - of_int \<lfloor>x\<rfloor> \<le> 1 / 2"
      by (simp add: round_half_even_def Let_def split: if_splits)
    with f True show ?thesis by simp
  next
    case False
    then have "round_half_even x = \<lfloor>x\<rfloor> + 1" "1 / 2 \<le> x - of_int \<lfloor>x\<rfloor>"
      by (simp_all add: round_half_even_def Let_def split: if_splits)
    with f show ?thesis by simp
  qed
qed

lemma round_half_even_mono: "x \<le> y \<Longrightarrow> round_half_even x \<le> round_half_even y"
proof (rule ccontr)
  assume "x \<le> y" and "\<not> round_half_even x \<le> round_half_even y"
  moreover have "\<lfloor>x\<rfloor> \<le> \<lfloor>y\<rfloor>" using \<open>x \<le> y\<close> by (rule floor_mono)
  moreover have "\<lfloor>x\<rfloor> \<le> round_half_even x" "round_half_even x \<le> \<lfloor>x\<rfloor> + 1"
    "\<lfloor>y\<rfloor> \<le> round_half_even y" "round_half_even y \<le> \<lfloor>y\<rfloor> + 1"
    by (simp_all add: round_half_even_def Let_def)
  ultimately have "\<lfloor>x\<rfloor> = \<lfloor>y\<rfloor>" by linarith
  then show False
    using \<open>x \<le> y\<close> \<open>\<not> round_half_even x \<le> round_half_even y\<close>
    by (simp add: round_half_even_def Let_def split: if_splits)
qed

text \<open>The unit in the last place of a value of magnitude \<open>a\<close>, and the rounded magnitude.\<close>

definition ulp_exp :: "rat \<Rightarrow> int" where
  "ulp_exp a = max (ilog2 a - 52) (- 1074)"

definition round_mag :: "rat \<Rightarrow> rat" where
  "round_mag a = of_int (round_half_even (a / pow2 (ulp_exp a))) * pow2 (ulp_exp a)"

definition fl :: "rat \<Rightarrow> jsnum" where
  "fl q =
     (if q = 0 then Fin 0
      else let v = round_mag \<bar>q\<bar>
           in if pow2 1024 \<le> v then (if 0 < q then JInf else JNegInf) else Fin (sgn q * v))"

text \<open>A rational that is exactly a double.\<close>

definition is_double :: "rat \<Rightarrow> bool" where
  "is_double q \<longleftrightarrow> (\<exists>m k. q = of_int m * pow2 k \<and> \<bar>m\<bar> < 2 ^ 53 \<and> - 1074 \<le> k) \<and> \<bar>q\<bar> < pow2 1024"

lemma round_mag_exact:
  assumes "0 < a" and "a = of_int m * pow2 k" and "\<bar>m\<bar> < 2 ^ 53" and "- 1074 \<le> k"
  shows "round_mag a = a"
proof -
  have "0 < m" using assms(1,2) by (simp add: zero_less_mult_iff)
  have "a < pow2 (53 + k)"
  proof -
    have "rat_of_int m < of_int (2 ^ 53)" using assms(3) \<open>0 < m\<close> by (simp only: of_int_less_iff abs_of_pos)
    then have "a < 2 ^ 53 * pow2 k" by (simp add: assms(2))
    then show ?thesis using pow2_nat [of 53] by (simp add: pow2_add)
  qed
  then have "ilog2 a < 53 + k" using ilog2_le_iff [OF assms(1)] by simp
  then have u: "ulp_exp a \<le> k" using assms(4) by (simp add: ulp_exp_def)
  have "a / pow2 (ulp_exp a) = of_int m * pow2 (k - ulp_exp a)"
    by (simp add: assms(2) pow2_diff)
  also have "\<dots> = of_int (m * 2 ^ nat (k - ulp_exp a))"
    using u by (simp add: pow2_int)
  finally have "round_half_even (a / pow2 (ulp_exp a)) = m * 2 ^ nat (k - ulp_exp a)"
    by (simp only: round_half_even_int)
  then have "round_mag a = of_int m * (2 ^ nat (k - ulp_exp a) * pow2 (ulp_exp a))"
    by (simp add: round_mag_def)
  also have "2 ^ nat (k - ulp_exp a) * pow2 (ulp_exp a) = pow2 k"
    using u pow2_int [of "k - ulp_exp a"] pow2_add [of "k - ulp_exp a" "ulp_exp a"] by simp
  finally show ?thesis by (simp add: assms(2))
qed

lemma fl_exact: "is_double q \<Longrightarrow> fl q = Fin q"
proof -
  assume d: "is_double q"
  then obtain m k where mk: "q = of_int m * pow2 k" "\<bar>m\<bar> < 2 ^ 53" "- 1074 \<le> k"
    and small: "\<bar>q\<bar> < pow2 1024"
    by (auto simp: is_double_def)
  show ?thesis
  proof (cases "q = 0")
    case True
    then show ?thesis by (simp add: fl_def)
  next
    case False
    have "\<bar>q\<bar> = of_int \<bar>m\<bar> * pow2 k" by (simp add: mk(1) abs_mult)
    then have "round_mag \<bar>q\<bar> = \<bar>q\<bar>" using round_mag_exact [of "\<bar>q\<bar>" "\<bar>m\<bar>" k] mk False by simp
    then show ?thesis using small False by (simp add: fl_def Let_def sgn_if)
  qed
qed

lemma is_double_int: "\<bar>n\<bar> < 2 ^ 53 \<Longrightarrow> is_double (of_int n)"
proof -
  assume n: "\<bar>n\<bar> < 2 ^ 53"
  have "of_int \<bar>n\<bar> < rat_of_int (2 ^ 53)" using n by (simp only: of_int_less_iff)
  moreover have "pow2 53 < pow2 1024" by (rule pow2_strict_mono) simp
  ultimately have "\<bar>rat_of_int n\<bar> < pow2 1024" using pow2_nat [of 53] by simp
  moreover have "rat_of_int n = of_int n * pow2 0" by (simp add: pow2_def)
  ultimately show ?thesis unfolding is_double_def using n by (metis neg_le_0_iff_le zero_le_numeral)
qed

lemma fl_int: "\<bar>n\<bar> < 2 ^ 53 \<Longrightarrow> fl (of_int n) = Fin (of_int n)"
  by (rule fl_exact) (rule is_double_int)

lemma fl_0 [simp]: "fl 0 = Fin 0"
  by (simp add: fl_def)

lemma fl_numeral: "numeral n < (2::int) ^ 53 \<Longrightarrow> fl (numeral n) = Fin (numeral n)"
  using fl_int [of "numeral n"] by simp

subsection \<open>Rounding is monotone\<close>

lemma round_mag_mono:
  assumes "0 < a" and "a \<le> b"
  shows "round_mag a \<le> round_mag b"
proof -
  let ?u = "ulp_exp a" and ?w = "ulp_exp b"
  have uw: "?u \<le> ?w" using ilog2_mono [OF assms] by (simp add: ulp_exp_def)
  show ?thesis
  proof (cases "?u = ?w")
    case True
    have "a / pow2 ?u \<le> b / pow2 ?u" using assms(2) by (simp add: divide_right_mono)
    then have "round_half_even (a / pow2 ?u) \<le> round_half_even (b / pow2 ?w)"
      using True round_half_even_mono by simp
    then show ?thesis using True by (simp add: round_mag_def)
  next
    case False
    then have w: "?w = ilog2 b - 52" and le: "ilog2 a + 1 \<le> ?u + 53" "?u + 53 \<le> ?w + 52"
      using uw by (auto simp: ulp_exp_def)
    have "a < pow2 (?u + 53)"
      using ilog2_bounds [OF assms(1)] pow2_mono [OF le(1)] by linarith
    then have "a / pow2 ?u \<le> of_int (2 ^ 53)"
      using pow2_nat [of 53] by (simp add: pow2_add field_simps)
    then have "round_half_even (a / pow2 ?u) \<le> 2 ^ 53"
      using round_half_even_mono round_half_even_int by metis
    then have "of_int (round_half_even (a / pow2 ?u)) \<le> rat_of_int (2 ^ 53)"
      by (simp only: of_int_le_iff)
    then have "round_mag a \<le> pow2 (?u + 53)"
      unfolding round_mag_def pow2_add using pow2_nat [of 53]
      by (simp add: mult.commute [of "pow2 ?u"])
    also have "\<dots> \<le> pow2 (?w + 52)" by (rule pow2_mono [OF le(2)])
    also have "pow2 (?w + 52) \<le> round_mag b"
    proof -
      have "pow2 (?w + 52) \<le> b" using ilog2_bounds [of b] assms w by simp
      then have "of_int (2 ^ 52) \<le> b / pow2 ?w"
        using pow2_nat [of 52] by (simp add: pow2_add field_simps)
      then have "2 ^ 52 \<le> round_half_even (b / pow2 ?w)"
        using round_half_even_mono round_half_even_int by metis
      then have "rat_of_int (2 ^ 52) \<le> of_int (round_half_even (b / pow2 ?w))"
        by (simp only: of_int_le_iff)
      then show ?thesis
        unfolding round_mag_def pow2_add using pow2_nat [of 52]
        by (simp add: mult.commute [of "pow2 ?w"])
    qed
    finally show ?thesis .
  qed
qed

lemma round_mag_nonneg: "0 < a \<Longrightarrow> 0 \<le> round_mag a"
proof -
  assume "0 < a"
  then have "0 \<le> a / pow2 (ulp_exp a)" by simp
  then have "0 \<le> round_half_even (a / pow2 (ulp_exp a))"
    using round_half_even_mono [of 0] round_half_even_int [of 0] by simp
  then show ?thesis by (simp add: round_mag_def)
qed

text \<open>Rounding seen as a map into the extended line, and its monotonicity there.\<close>

fun num_le :: "jsnum \<Rightarrow> jsnum \<Rightarrow> bool" where
  "num_le JNaN y = False"
| "num_le x JNaN = False"
| "num_le JNegInf y = True"
| "num_le x JInf = True"
| "num_le (Fin a) (Fin b) = (a \<le> b)"
| "num_le x y = False"

lemma fl_not_NaN [simp]: "fl x \<noteq> JNaN"
  by (simp add: fl_def Let_def)

lemma fl_pos_cases: "0 < x \<Longrightarrow> fl x = (if pow2 1024 \<le> round_mag x then JInf else Fin (round_mag x))"
  by (simp add: fl_def Let_def)

lemma fl_neg_cases:
  "x < 0 \<Longrightarrow> fl x = (if pow2 1024 \<le> round_mag (- x) then JNegInf else Fin (- round_mag (- x)))"
  by (simp add: fl_def Let_def)

lemma fl_mono: "x \<le> y \<Longrightarrow> num_le (fl x) (fl y)"
proof -
  assume xy: "x \<le> y"
  consider "0 < x" | "x = 0" | "x < 0" "0 \<le> y" | "x < 0" "y < 0" by linarith
  then show ?thesis
  proof cases
    case 1
    with xy have "round_mag x \<le> round_mag y" by (intro round_mag_mono)
    with 1 xy show ?thesis by (auto simp: fl_pos_cases)
  next
    case 2
    with xy show ?thesis
      by (cases "y = 0") (auto simp: fl_pos_cases intro: round_mag_nonneg)
  next
    case 3
    then have "0 \<le> round_mag (- x)" by (intro round_mag_nonneg) simp
    with 3 show ?thesis using round_mag_nonneg [of y]
      by (cases "y = 0") (auto simp: fl_pos_cases fl_neg_cases)
  next
    case 4
    with xy have "round_mag (- y) \<le> round_mag (- x)" by (intro round_mag_mono) auto
    with 4 show ?thesis by (auto simp: fl_neg_cases)
  qed
qed

lemma fl_ge_double: "is_double d \<Longrightarrow> d \<le> x \<Longrightarrow> fl x = Fin v \<Longrightarrow> d \<le> v"
  using fl_mono [of d x] by (simp add: fl_exact)

lemma fl_le_double: "is_double d \<Longrightarrow> x \<le> d \<Longrightarrow> fl x = Fin v \<Longrightarrow> v \<le> d"
  using fl_mono [of x d] by (simp add: fl_exact)

lemma fl_finite:
  assumes "is_double a" "is_double b" "a \<le> x" "x \<le> b"
  obtains v where "fl x = Fin v" "a \<le> v" "v \<le> b"
proof -
  have "num_le (Fin a) (fl x)" "num_le (fl x) (Fin b)"
    using fl_mono [OF assms(3)] fl_mono [OF assms(4)] assms(1,2) by (simp_all add: fl_exact)
  then show thesis using that by (cases "fl x") auto
qed

lemma fl_nonneg: "0 \<le> x \<Longrightarrow> num_le (Fin 0) (fl x)"
  using fl_mono [of 0 x] by simp

text \<open>Fractions with a power of two below, and bounds as values that stay bounds after rounding.\<close>

lemma is_double_frac:
  assumes "q = of_int m / 2 ^ k" and "\<bar>m\<bar> < 2 ^ 53" and "k \<le> 1074"
  shows "is_double q"
proof -
  have q: "q = of_int m * pow2 (- int k)"
    using pow2_add [of "int k" "- int k"] pow2_nat [of k] assms(1)
    by (simp add: pow2_def power_int_def divide_inverse)
  have "\<bar>q\<bar> \<le> of_int \<bar>m\<bar>" by (simp add: assms(1) abs_divide divide_le_eq)
    (metis abs_ge_zero mult_le_cancel_left1 not_less of_int_0_le_iff of_int_abs one_le_power one_le_numeral)
  also have "rat_of_int \<bar>m\<bar> < of_int (2 ^ 53)" using assms(2) by (simp only: of_int_less_iff)
  also have "rat_of_int (2 ^ 53) = pow2 53" using pow2_nat [of 53] by simp
  also have "pow2 53 < pow2 1024" by (rule pow2_strict_mono) simp
  finally show ?thesis using q assms(2,3) unfolding is_double_def by (intro conjI exI [of _ m] exI [of _ "- int k"]) auto
qed

end
