(* ===== verification/JsConvert.thy ===== *)
theory JsConvert
  imports JsNumber
begin

section \<open>Arithmetic and conversions of numbers\<close>

text \<open>
  The operators and the \<open>Math\<close> functions the console uses, \<open>Number(s)\<close> (StringToNumber, with
  its white space, signs, radix prefixes, fraction and exponent), \<open>Number.prototype.toFixed\<close> and
  the conversion of a number to a string (the shortest digits that read back).
\<close>

subsection \<open>Arithmetic\<close>

fun js_neg :: "jsnum \<Rightarrow> jsnum" where
  "js_neg JNaN = JNaN"
| "js_neg JInf = JNegInf"
| "js_neg JNegInf = JInf"
| "js_neg (Fin a) = Fin (- a)"

fun js_add :: "jsnum \<Rightarrow> jsnum \<Rightarrow> jsnum" where
  "js_add (Fin a) (Fin b) = fl (a + b)"
| "js_add JNaN y = JNaN"
| "js_add x JNaN = JNaN"
| "js_add JInf y = (if y = JNegInf then JNaN else JInf)"
| "js_add JNegInf y = (if y = JInf then JNaN else JNegInf)"
| "js_add x y = y"

definition js_sub :: "jsnum \<Rightarrow> jsnum \<Rightarrow> jsnum" where
  "js_sub x y = js_add x (js_neg y)"

definition inf_of :: "bool \<Rightarrow> jsnum" where
  "inf_of positive = (if positive then JInf else JNegInf)"

fun js_sgn :: "jsnum \<Rightarrow> int" where
  "js_sgn JNaN = 0"
| "js_sgn JInf = 1"
| "js_sgn JNegInf = - 1"
| "js_sgn (Fin a) = (if 0 < a then 1 else if a < 0 then - 1 else 0)"

fun js_mul :: "jsnum \<Rightarrow> jsnum \<Rightarrow> jsnum" where
  "js_mul (Fin a) (Fin b) = fl (a * b)"
| "js_mul x y =
     (if x = JNaN \<or> y = JNaN \<or> js_sgn x * js_sgn y = 0 then JNaN else inf_of (0 < js_sgn x * js_sgn y))"

text \<open>Division; a zero divisor is taken as \<open>+0\<close>.\<close>

fun js_div :: "jsnum \<Rightarrow> jsnum \<Rightarrow> jsnum" where
  "js_div (Fin a) (Fin b) =
     (if b = 0 then (if a = 0 then JNaN else inf_of (0 < a)) else fl (a / b))"
| "js_div x (Fin b) = (if x = JNaN then JNaN else inf_of (0 \<le> js_sgn x * js_sgn (Fin b)))"
| "js_div (Fin a) y = (if y = JNaN then JNaN else Fin 0)"
| "js_div x y = JNaN"

text \<open>\<open><\<close> and \<open><=\<close> are false when an operand is \<open>NaN\<close>; \<open>===\<close> likewise.\<close>

definition js_le :: "jsnum \<Rightarrow> jsnum \<Rightarrow> bool" where
  "js_le x y = num_le x y"

definition js_eq :: "jsnum \<Rightarrow> jsnum \<Rightarrow> bool" where
  "js_eq x y \<longleftrightarrow> x = y \<and> x \<noteq> JNaN"

definition js_lt :: "jsnum \<Rightarrow> jsnum \<Rightarrow> bool" where
  "js_lt x y \<longleftrightarrow> js_le x y \<and> \<not> js_eq x y"

lemma js_lt_Fin [simp]: "js_lt (Fin a) (Fin b) \<longleftrightarrow> a < b"
  by (auto simp: js_lt_def js_le_def js_eq_def)

lemma js_le_Fin [simp]: "js_le (Fin a) (Fin b) \<longleftrightarrow> a \<le> b"
  by (simp add: js_le_def)

lemma js_eq_Fin [simp]: "js_eq (Fin a) (Fin b) \<longleftrightarrow> a = b"
  by (simp add: js_eq_def)

lemma js_lt_NaN [simp]: "\<not> js_lt JNaN y" "\<not> js_lt x JNaN"
  by (cases x; simp add: js_lt_def js_le_def)+

lemma js_le_NaN [simp]: "\<not> js_le JNaN y" "\<not> js_le x JNaN"
  by (cases x; simp add: js_le_def)+

lemma js_le_trans: "js_le x y \<Longrightarrow> js_le y z \<Longrightarrow> js_le x z"
  by (cases x; cases y; cases z) (auto simp: js_le_def)

lemma js_le_linear: "x \<noteq> JNaN \<Longrightarrow> y \<noteq> JNaN \<Longrightarrow> js_le x y \<or> js_le y x"
  by (cases x; cases y) (auto simp: js_le_def)

definition js_max :: "jsnum \<Rightarrow> jsnum \<Rightarrow> jsnum" where
  "js_max x y = (if x = JNaN \<or> y = JNaN then JNaN else if js_le x y then y else x)"

definition js_min :: "jsnum \<Rightarrow> jsnum \<Rightarrow> jsnum" where
  "js_min x y = (if x = JNaN \<or> y = JNaN then JNaN else if js_le x y then x else y)"

fun js_floor :: "jsnum \<Rightarrow> jsnum" where
  "js_floor (Fin a) = Fin (of_int \<lfloor>a\<rfloor>)"
| "js_floor x = x"

fun js_ceil :: "jsnum \<Rightarrow> jsnum" where
  "js_ceil (Fin a) = Fin (of_int \<lceil>a\<rceil>)"
| "js_ceil x = x"

fun js_round :: "jsnum \<Rightarrow> jsnum" where
  "js_round (Fin a) = Fin (of_int \<lfloor>a + 1 / 2\<rfloor>)"
| "js_round x = x"

fun is_finite :: "jsnum \<Rightarrow> bool" where
  "is_finite (Fin a) = True"
| "is_finite x = False"

lemma is_finite_iff: "is_finite x \<longleftrightarrow> (\<exists>a. x = Fin a)"
  by (cases x) auto

text \<open>A number used as a condition: \<open>0\<close> and \<open>NaN\<close> are false.\<close>

definition num_truthy :: "jsnum \<Rightarrow> bool" where
  "num_truthy x \<longleftrightarrow> x \<noteq> JNaN \<and> x \<noteq> Fin 0"

definition of_nat_num :: "nat \<Rightarrow> jsnum" where
  "of_nat_num n = fl (of_nat n)"

lemma of_nat_num_eq: "n < 2 ^ 53 \<Longrightarrow> of_nat_num n = Fin (of_nat n)"
proof -
  assume "n < 2 ^ 53"
  then have "int n < int (2 ^ 53)" by (simp only: of_nat_less_iff)
  then have "\<bar>int n\<bar> < 2 ^ 53" by simp
  then show ?thesis using fl_int [of "int n"] by (simp add: of_nat_num_def)
qed

text \<open>Clamping into an interval with \<open>Math.max\<close> and \<open>Math.min\<close>.\<close>

lemma js_clamp:
  assumes "js_le lo hi" and "x \<noteq> JNaN"
  shows "js_le lo (js_max lo (js_min hi x))" and "js_le (js_max lo (js_min hi x)) hi"
proof -
  have nn: "lo \<noteq> JNaN" "hi \<noteq> JNaN" using assms(1) by auto
  have refl: "js_le y y" if "y \<noteq> JNaN" for y using js_le_linear [OF that that] by blast
  show "js_le lo (js_max lo (js_min hi x))"
    using nn assms(2) refl js_le_linear [OF nn(1)] by (auto simp: js_max_def js_min_def)
  show "js_le (js_max lo (js_min hi x)) hi"
    using nn assms js_le_linear [of hi x] refl by (auto simp: js_max_def js_min_def)
qed

subsection \<open>From strings\<close>

definition digit_val :: "char \<Rightarrow> nat option" where
  "digit_val c = (let b = byte_of c in
     if 48 \<le> b \<and> b \<le> 57 then Some (b - 48)
     else if 97 \<le> b \<and> b \<le> 122 then Some (b - 87)
     else if 65 \<le> b \<and> b \<le> 90 then Some (b - 55) else None)"

definition is_digit_in :: "nat \<Rightarrow> char \<Rightarrow> bool" where
  "is_digit_in radix c = (case digit_val c of None \<Rightarrow> False | Some d \<Rightarrow> d < radix)"

definition digits_value :: "nat \<Rightarrow> string \<Rightarrow> nat" where
  "digits_value radix ds = foldl (\<lambda>a c. radix * a + (case digit_val c of None \<Rightarrow> 0 | Some d \<Rightarrow> d)) 0 ds"

definition span :: "('a \<Rightarrow> bool) \<Rightarrow> 'a list \<Rightarrow> 'a list \<times> 'a list" where
  "span p xs = (takeWhile p xs, dropWhile p xs)"

definition pow10 :: "int \<Rightarrow> rat" where
  "pow10 k = (if 0 \<le> k then 10 ^ nat k else 1 / 10 ^ nat (- k))"

text \<open>The exponent part: nothing, or \<open>e\<close> with an optional sign and digits to the end.\<close>

fun exponent_part :: "string \<Rightarrow> int option" where
  "exponent_part [] = Some 0"
| "exponent_part (e # s) =
     (if e = CHR ''e'' \<or> e = CHR ''E''
      then (let (sg, ds) = (case s of c # r \<Rightarrow> if c = CHR ''-'' then (- 1, r) else if c = CHR ''+'' then (1, r) else (1, s) | [] \<Rightarrow> (1, s))
            in if ds \<noteq> [] \<and> list_all (is_digit_in 10) ds then Some (sg * int (digits_value 10 ds)) else None)
      else None)"

definition decimal_value :: "string \<Rightarrow> string \<Rightarrow> int \<Rightarrow> rat" where
  "decimal_value ip fp e = of_nat (digits_value 10 (ip @ fp)) * pow10 (e - int (length fp))"

definition unsigned_decimal :: "string \<Rightarrow> rat option" where
  "unsigned_decimal s =
     (let (ip, r1) = span (is_digit_in 10) s;
          (fp, r2) = (case r1 of c # r \<Rightarrow> if c = CHR ''.'' then span (is_digit_in 10) r else ([], r1) | [] \<Rightarrow> ([], []))
      in if ip = [] \<and> fp = [] then None
         else map_option (decimal_value ip fp) (exponent_part r2))"

definition radix_literal :: "nat \<Rightarrow> string \<Rightarrow> jsnum" where
  "radix_literal radix ds =
     (if ds \<noteq> [] \<and> list_all (is_digit_in radix) ds then fl (of_nat (digits_value radix ds)) else JNaN)"

definition unsigned_number :: "string \<Rightarrow> jsnum" where
  "unsigned_number s =
     (if s = ''Infinity'' then JInf
      else (case unsigned_decimal s of None \<Rightarrow> JNaN | Some q \<Rightarrow> fl q))"

definition to_number :: "string \<Rightarrow> jsnum" where
  "to_number s =
     (let t = trim s in
      if t = [] then Fin 0
      else if starts_with ''0x'' t \<or> starts_with ''0X'' t then radix_literal 16 (drop 2 t)
      else if starts_with ''0o'' t \<or> starts_with ''0O'' t then radix_literal 8 (drop 2 t)
      else if starts_with ''0b'' t \<or> starts_with ''0B'' t then radix_literal 2 (drop 2 t)
      else if starts_with ''-'' t then js_neg (unsigned_number (drop 1 t))
      else if starts_with ''+'' t then unsigned_number (drop 1 t)
      else unsigned_number t)"

subsection \<open>To strings\<close>

fun nat_str :: "nat \<Rightarrow> string" where
  "nat_str n = (if n < 10 then [char_of (48 + n)] else nat_str (n div 10) @ [char_of (48 + n mod 10)])"

declare nat_str.simps [simp del]

lemma nat_str_inj: "nat_str m = nat_str n \<Longrightarrow> m = n"
proof (induction m arbitrary: n rule: nat_str.induct)
  case (1 m)
  have c: "char_of (48 + a) = (char_of (48 + b) :: char) \<Longrightarrow> a = b" if "a < 10" "b < 10" for a b :: nat
  proof -
    assume "char_of (48 + a) = (char_of (48 + b) :: char)"
    then have "of_char (char_of (48 + a) :: char) = (of_char (char_of (48 + b) :: char) :: nat)" by simp
    then show "a = b" using that by simp
  qed
  have ne: "nat_str k \<noteq> []" for k by (simp add: nat_str.simps [of k])
  show ?case
  proof (cases "m < 10"; cases "n < 10")
    assume "\<not> m < 10" "\<not> n < 10"
    then have "nat_str (m div 10) = nat_str (n div 10)" "m mod 10 = n mod 10"
      using 1(2) c [of "m mod 10" "n mod 10"] by (simp_all add: nat_str.simps [of m] nat_str.simps [of n])
    then have "m div 10 = n div 10" using 1(1) \<open>\<not> m < 10\<close> by simp
    then show ?thesis using \<open>m mod 10 = n mod 10\<close> by (metis div_mult_mod_eq)
  qed (use 1(2) c ne [of "m div 10"] ne [of "n div 10"] ne [of "n div 10", symmetric] in
    \<open>auto simp: nat_str.simps [of m] nat_str.simps [of n]\<close>)
qed

text \<open>The digits of a number read back.\<close>

lemma digit_val_char_of: "k < 10 \<Longrightarrow> digit_val (char_of (48 + k)) = Some k"
  by (simp add: digit_val_def)

lemma digits_value_nat_str: "digits_value 10 (nat_str n) = n \<and> list_all (is_digit_in 10) (nat_str n) \<and> nat_str n \<noteq> []"
proof (induction n rule: nat_str.induct)
  case (1 n)
  show ?case
  proof (cases "n < 10")
    case True
    then show ?thesis by (simp add: nat_str.simps [of n] digits_value_def is_digit_in_def digit_val_char_of)
  next
    case False
    then show ?thesis using 1 digit_val_char_of [of "n mod 10"]
      by (simp add: nat_str.simps [of n] digits_value_def is_digit_in_def)
  qed
qed

definition repeat_char :: "nat \<Rightarrow> char \<Rightarrow> string" where
  "repeat_char n c = replicate n c"

text \<open>\<open>toFixed(f)\<close> below \<open>10^21\<close>: the nearest multiple of \<open>10^-f\<close>, the larger of two.\<close>

definition fixed_mag :: "nat \<Rightarrow> rat \<Rightarrow> string" where
  "fixed_mag f a =
     (let n = nat \<lfloor>a * 10 ^ f + 1 / 2\<rfloor>; m = nat_str n
      in if f = 0 then m
         else (let m' = (if length m \<le> f then repeat_char (f + 1 - length m) CHR ''0'' @ m else m);
                   k = length m'
               in take (k - f) m' @ ''.'' @ drop (k - f) m'))"

text \<open>The shortest digits: \<open>s * 10^(n-k)\<close> rounds to the number, with as few digits as possible.\<close>

definition dec_exp :: "rat \<Rightarrow> int" where
  "dec_exp a =
     (if 1 \<le> a then int (length (nat_str (nat \<lfloor>a\<rfloor>)))
      else (case List.find (\<lambda>j. 1 \<le> a * 10 ^ j) [1..<340] of None \<Rightarrow> - 339 | Some j \<Rightarrow> 1 - int j))"

definition shortest_digits :: "rat \<Rightarrow> string \<times> int" where
  "shortest_digits a =
     (let n = dec_exp a;
          digs = (\<lambda>k. nat \<lfloor>a / pow10 (n - int k) + 1 / 2\<rfloor>);
          k = (case List.find (\<lambda>k. fl (of_nat (digs k) * pow10 (n - int k)) = Fin a) [1..<18] of
                 None \<Rightarrow> 17 | Some k \<Rightarrow> k)
      in if digs k = 10 ^ k then (''1'', n + 1) else (nat_str (digs k), n))"

definition finite_mag_str :: "rat \<Rightarrow> string" where
  "finite_mag_str a =
     (let (ds, n) = shortest_digits a; k = int (length ds)
      in if k \<le> n \<and> n \<le> 21 then ds @ repeat_char (nat (n - k)) CHR ''0''
         else if 0 < n \<and> n \<le> 21 then take (nat n) ds @ ''.'' @ drop (nat n) ds
         else if - 6 < n \<and> n \<le> 0 then ''0.'' @ repeat_char (nat (- n)) CHR ''0'' @ ds
         else (let e = n - 1;
                   es = ''e'' @ (if 0 \<le> e then ''+'' else ''-'') @ nat_str (nat \<bar>e\<bar>)
               in if k = 1 then ds @ es else take 1 ds @ ''.'' @ drop 1 ds @ es))"

fun num_to_string :: "jsnum \<Rightarrow> string" where
  "num_to_string JNaN = ''NaN''"
| "num_to_string JInf = ''Infinity''"
| "num_to_string JNegInf = ''-Infinity''"
| "num_to_string (Fin a) =
     (if a = 0 then ''0'' else if a < 0 then ''-'' @ finite_mag_str (- a) else finite_mag_str a)"

fun to_fixed :: "nat \<Rightarrow> jsnum \<Rightarrow> string" where
  "to_fixed f (Fin a) =
     (if 10 ^ 21 \<le> \<bar>a\<bar> then num_to_string (Fin a)
      else if a < 0 then ''-'' @ fixed_mag f (- a) else fixed_mag f a)"
| "to_fixed f x = num_to_string x"

end
