(* ===== verification/View.thy ===== *)
theory View
  imports JsConvert
begin

section \<open>Rendered elements\<close>

text \<open>
  What a component renders: text and elements with attributes and children. An attribute is a
  string, a number, a flag, or a handler: \<open>On a\<close> dispatches the action \<open>a\<close>, \<open>OnValue f\<close> the action
  \<open>f v\<close> for the value \<open>v\<close> of the control. Inline styles, sizes and icons are left out; everything
  that decides what is shown and what can be triggered is kept. \<open>{cond && x}\<close> is \<open>shown cond x\<close>.
\<close>

datatype 'a attr = Str string | Num jsnum | Flag bool | On 'a | OnValue "string \<Rightarrow> 'a"

datatype 'a view = Text string | Elem string "(string \<times> 'a attr) list" "'a view list"

definition shown :: "bool \<Rightarrow> 'a view \<Rightarrow> 'a view list" where
  "shown b v = (if b then [v] else [])"

lemma shown_simps [simp]: "shown True v = [v]" "shown False v = []"
  by (simp_all add: shown_def)

text \<open>The \<open>disabled\<close> flag of a control.\<close>

definition is_disabled :: "(string \<times> 'a attr) list \<Rightarrow> bool" where
  "is_disabled as = (case map_of as ''disabled'' of Some (Flag b) \<Rightarrow> b | _ \<Rightarrow> False)"

text \<open>The actions a user can trigger: the handlers of the enabled elements.\<close>

definition attr_actions :: "(string \<times> 'a attr) list \<Rightarrow> 'a set" where
  "attr_actions as = {a. \<exists>k. (k, On a) \<in> set as} \<union> {f v | k f v. (k, OnValue f) \<in> set as}"

fun actions :: "'a view \<Rightarrow> 'a set" where
  "actions (Text s) = {}"
| "actions (Elem t as vs) = (if is_disabled as then {} else attr_actions as) \<union> (\<Union>v \<in> set vs. actions v)"

definition actions_of :: "'a view list \<Rightarrow> 'a set" where
  "actions_of vs = (\<Union>v \<in> set vs. actions v)"

lemma actions_of_simps [simp]:
  "actions_of [] = {}" "actions_of (v # vs) = actions v \<union> actions_of vs"
  "actions_of (vs @ ws) = actions_of vs \<union> actions_of ws"
  by (auto simp: actions_of_def)

lemma actions_Elem: "actions (Elem t as vs) = (if is_disabled as then {} else attr_actions as) \<union> actions_of vs"
  by (simp add: actions_of_def)

lemma actions_plain: "actions (Elem t [] vs) = actions_of vs"
  by (simp add: actions_of_def is_disabled_def attr_actions_def)

lemma actions_of_map: "actions_of (map f xs) = (\<Union>x \<in> set xs. actions (f x))"
  by (simp add: actions_of_def)

lemma actions_shown [simp]: "actions_of (shown b v) = (if b then actions v else {})"
  by (simp add: shown_def)

lemmas view_simps = actions_plain actions_of_map actions_Elem is_disabled_def

declare actions.simps(2) [simp del]

lemma attr_actions_simps [simp]:
  "attr_actions [] = {}"
  "attr_actions ((k, Str s) # as) = attr_actions as"
  "attr_actions ((k, Num n) # as) = attr_actions as"
  "attr_actions ((k, Flag b) # as) = attr_actions as"
  "attr_actions ((k, On a) # as) = insert a (attr_actions as)"
  by (auto simp: attr_actions_def)

lemma attr_actions_OnValue [simp]:
  "attr_actions ((k, OnValue f) # as) = range f \<union> attr_actions as"
  unfolding attr_actions_def by (rule set_eqI) (simp, blast)

text \<open>Reading an element's attributes.\<close>

fun view_attrs :: "'a view \<Rightarrow> (string \<times> 'a attr) list" where
  "view_attrs (Text s) = []"
| "view_attrs (Elem t as vs) = as"

definition attr_flag :: "'a view \<Rightarrow> string \<Rightarrow> bool" where
  "attr_flag v k = (case map_of (view_attrs v) k of Some (Flag b) \<Rightarrow> b | _ \<Rightarrow> False)"

definition attr_handler :: "'a view \<Rightarrow> string \<Rightarrow> 'a option" where
  "attr_handler v k = (case map_of (view_attrs v) k of Some (On a) \<Rightarrow> Some a | _ \<Rightarrow> None)"

text \<open>All text shown, in order.\<close>

fun view_text :: "'a view \<Rightarrow> string list" where
  "view_text (Text s) = [s]"
| "view_text (Elem t as vs) = concat (map view_text vs)"

fun view_has :: "string \<Rightarrow> 'a view \<Rightarrow> bool" where
  "view_has t (Text s) = False"
| "view_has t (Elem t' as vs) = (t' = t \<or> list_ex (view_has t) vs)"

end
