(* ===== verification/AppShell.thy ===== *)
theory AppShell
  imports HashRoute View
begin

section \<open>The shell of the console (\<open>App.tsx\<close>)\<close>

text \<open>
  The shell keeps the page shown and the sidebar state, and synchronises the page with the URL
  hash in both directions: a listener of \<open>hashchange\<close> and an effect that runs when the page
  changes. The state also has the browser's side: the hash, and whether a \<open>hashchange\<close> event is
  waiting to be delivered (the browser queues it when the hash really changes).
\<close>

datatype page_id = P_cluster | P_sql | P_dashboards | P_logs

fun page_name :: "page_id \<Rightarrow> string" where
  "page_name P_cluster = ''cluster''"
| "page_name P_sql = ''sql''"
| "page_name P_dashboards = ''dashboards''"
| "page_name P_logs = ''logs''"

definition PAGE_IDS :: "page_id list" where
  "PAGE_IDS = [P_cluster, P_sql, P_dashboards, P_logs]"

definition page_of_base :: "string \<Rightarrow> page_id" where
  "page_of_base base =
     (case List.find (\<lambda>p. page_name p = base) PAGE_IDS of Some p \<Rightarrow> p | None \<Rightarrow> P_cluster)"

definition pageFromHash :: "string \<Rightarrow> page_id" where
  "pageFromHash hash = page_of_base (hd (split_on CHR ''/'' (strip_hash hash)))"

text \<open>The effect of \<open>[page]\<close>: the hash after it.\<close>

definition page_effect :: "page_id \<Rightarrow> string \<Rightarrow> string" where
  "page_effect p hash =
     (let cur = strip_hash hash in
      if cur = page_name p then hash
      else if p = P_dashboards \<and> starts_with dash_prefix cur then hash
      else hash_of (''/'' @ page_name p))"

record app =
  app_compact :: bool
  app_page :: page_id
  app_hash :: string
  app_queued :: bool  \<comment> \<open>a \<open>hashchange\<close> event waits for delivery\<close>

text \<open>The logo is also a link to \<open>/\<close>, which loads the console again (\<open>app_mount\<close>); what is modelled
  is its handler.\<close>

datatype app_event =
    MenuClick page_id          \<comment> \<open>a menu item\<close>
  | LogoClick                  \<comment> \<open>the logo\<close>
  | ToggleCompact              \<comment> \<open>the chevron under the menu\<close>
  | ChangeCompact bool         \<comment> \<open>the framework's own callback\<close>
  | Navigate string            \<comment> \<open>the user edits the hash, or goes back or forward\<close>
  | DashHash "string option"   \<comment> \<open>the mounted Dashboards page calls \<open>setDashHash\<close>\<close>
  | HashChange                 \<comment> \<open>the queued event is delivered\<close>

definition write_hash :: "string \<Rightarrow> app \<Rightarrow> app" where
  "write_hash h a = (if h = app_hash a then a else a\<lparr>app_hash := h, app_queued := True\<rparr>)"

lemma write_hash_simps [simp]:
  "app_hash (write_hash h a) = h" "app_page (write_hash h a) = app_page a"
  by (simp_all add: write_hash_def)

text \<open>\<open>setPage\<close>: a new page is rendered and its effect runs; the same page renders nothing.\<close>

definition set_page :: "page_id \<Rightarrow> app \<Rightarrow> app" where
  "set_page p a =
     (if p = app_page a then a else write_hash (page_effect p (app_hash a)) (a\<lparr>app_page := p\<rparr>))"

fun app_step :: "app \<Rightarrow> app_event \<Rightarrow> app" where
  "app_step a (MenuClick p) = set_page p a"
| "app_step a LogoClick = set_page P_cluster a"
| "app_step a ToggleCompact = a\<lparr>app_compact := \<not> app_compact a\<rparr>"
| "app_step a (ChangeCompact b) = a\<lparr>app_compact := b\<rparr>"
| "app_step a (Navigate h) = write_hash h a"
| "app_step a (DashHash d) = (if app_page a = P_dashboards then write_hash (setDashHash d) a else a)"
| "app_step a HashChange =
     (if app_queued a then set_page (pageFromHash (app_hash a)) (a\<lparr>app_queued := False\<rparr>) else a)"

text \<open>Mounting: the page comes from the hash, then the effect runs once.\<close>

definition app_mount :: "string \<Rightarrow> app" where
  "app_mount hash =
     (let p = pageFromHash hash
      in write_hash (page_effect p hash)
           \<lparr>app_compact = False, app_page = p, app_hash = hash, app_queued = False\<rparr>)"

subsection \<open>What is rendered\<close>

definition menu_items :: "app \<Rightarrow> app_event view list" where
  "menu_items a =
     map (\<lambda>(p, title).
        Elem ''menuItem'' [(''id'', Str (page_name p)), (''title'', Str title),
           (''current'', Flag (app_page a = p)), (''onItemClick'', On (MenuClick p))] [])
       [(P_cluster, ''Cluster''), (P_sql, ''SQL''), (P_dashboards, ''Dashboards''), (P_logs, ''Logs'')]"

definition collapse_button :: "bool \<Rightarrow> app_event view" where
  "collapse_button cpt =
     Elem ''div'' [(''className'', Str ''ydbgo-collapse-wrap'')]
       [Elem ''button''
          [(''className'', Str (''ydbgo-collapse'' @ (if cpt then '' ydbgo-collapse--closed'' else '' ydbgo-collapse--open''))),
           (''onClick'', On ToggleCompact),
           (''title'', Str (if cpt then ''Expand sidebar'' else ''Collapse sidebar'')),
           (''aria-label'', Str (if cpt then ''Expand sidebar'' else ''Collapse sidebar''))]
          [Elem ''ChevronsLeft'' [] []]]"

definition logo_view :: "bool \<Rightarrow> app_event view" where
  "logo_view isCompact =
     Elem ''a'' [(''className'', Str (''ydbgo-logo'' @ (if isCompact then '' ydbgo-logo--compact'' else []))),
                (''href'', Str ''/''), (''onClick'', On LogoClick)]
       ([Elem ''span'' [(''className'', Str ''ydbgo-logo__badge'')] [Elem ''ThunderboltFill'' [] []]] @
        shown (\<not> isCompact) (Elem ''span'' [(''className'', Str ''ydbgo-logo__text'')] [Text ''YADBGO'']))"

definition page_component :: "page_id \<Rightarrow> string" where
  "page_component p = (case p of P_sql \<Rightarrow> ''SqlPage'' | P_dashboards \<Rightarrow> ''DashboardPage'' | P_logs \<Rightarrow> ''LogPage''
     | P_cluster \<Rightarrow> ''ClusterPage'')"

definition app_view :: "app \<Rightarrow> app_event view" where
  "app_view a =
     Elem ''AsideHeader'' [(''compact'', Flag (app_compact a))]
       ([logo_view (app_compact a)] @ menu_items a @ [collapse_button (app_compact a)] @
        [Elem (page_component (app_page a)) [] []])"

subsection \<open>Properties\<close>

lemma page_name_no_slash: "CHR ''/'' \<notin> set (page_name p)"
  by (cases p) simp_all

lemma page_of_name [simp]: "page_of_base (page_name p) = p"
  by (cases p) (simp_all add: page_of_base_def PAGE_IDS_def)

lemma pageFromHash_name: "strip_hash h = page_name p \<Longrightarrow> pageFromHash h = p"
  using page_name_no_slash [of p] by (simp add: pageFromHash_def split_on_no_sep)

lemma starts_with_dash: "starts_with dash_prefix s \<Longrightarrow> \<exists>r. s = ''dashboards'' @ CHR ''/'' # r"
proof -
  assume "starts_with dash_prefix s"
  then have "s = dash_prefix @ drop (length dash_prefix) s"
    unfolding starts_with_def by (metis append_take_drop_id)
  then have "s = ''dashboards'' @ CHR ''/'' # drop (length dash_prefix) s" by (simp add: dash_prefix_def)
  then show ?thesis by blast
qed

lemma pageFromHash_dash:
  assumes "starts_with dash_prefix (strip_hash h)"
  shows "pageFromHash h = P_dashboards"
proof -
  obtain r where "strip_hash h = ''dashboards'' @ CHR ''/'' # r" using starts_with_dash [OF assms] by blast
  moreover have "page_of_base ''dashboards'' = P_dashboards" using page_of_name [of P_dashboards] by simp
  ultimately show ?thesis by (simp only: pageFromHash_def split_on_append [of "CHR ''/''" "''dashboards''"]) simp
qed

lemma pageFromHash_effect: "pageFromHash (page_effect p h) = p"
  by (auto simp: page_effect_def Let_def hash_of_def pageFromHash_name pageFromHash_dash)

lemma pageFromHash_setDashHash: "pageFromHash (setDashHash d) = P_dashboards"
proof (cases d)
  case None
  then show ?thesis by (simp add: pageFromHash_name strip_setDashHash)
next
  case (Some i)
  then show ?thesis
    by (cases "i = []") (simp_all add: pageFromHash_name pageFromHash_dash strip_setDashHash)
qed

definition app_inv :: "app \<Rightarrow> bool" where
  "app_inv a \<longleftrightarrow> (\<not> app_queued a \<longrightarrow> pageFromHash (app_hash a) = app_page a)"

lemma app_inv_write: "pageFromHash h = app_page a \<Longrightarrow> app_inv (write_hash h a)"
  by (auto simp: app_inv_def write_hash_def)

lemma app_step_inv: "app_inv a \<Longrightarrow> app_inv (app_step a e)"
proof (cases e)
  case (DashHash d)
  then show "app_inv a \<Longrightarrow> app_inv (app_step a e)"
    by (simp add: app_inv_write pageFromHash_setDashHash)
next
  case (Navigate h)
  then show "app_inv a \<Longrightarrow> app_inv (app_step a e)" by (simp add: app_inv_def write_hash_def)
qed (auto simp: set_page_def pageFromHash_effect app_inv_write, auto simp: app_inv_def)

interpretation app_machine: machine "app_mount h" app_step app_inv for h
  by unfold_locales (simp_all add: app_mount_def Let_def app_inv_write pageFromHash_effect app_step_inv)

lemma hash_change_settles:
  "app_inv a \<Longrightarrow> pageFromHash (app_hash (app_step a HashChange)) = app_page (app_step a HashChange)"
  by (auto simp: set_page_def write_hash_def pageFromHash_effect app_inv_def)

text \<open>After any run of the console the page shown is the page the URL hash names, so that a
  reload shows the same page, unless a \<open>hashchange\<close> event is still pending; delivering it is enough.\<close>

lemma app_page_is_hash_page:
  "let a = run app_step (app_mount h) es; b = app_step a HashChange
   in (app_queued a \<or> pageFromHash (app_hash a) = app_page a) \<and> pageFromHash (app_hash b) = app_page b"
  using app_machine.inv_reachable [of h es] hash_change_settles [OF app_machine.inv_reachable [of h es]]
  by (auto simp: app_inv_def Let_def)

text \<open>A dashboard link survives: mounting on it, and every event that does not leave the dashboards
  page or write another hash, keeps the hash.\<close>

lemma parse_dash_prefix:
  "parseDashId h = Inr (Some d) \<Longrightarrow> starts_with dash_prefix (strip_hash h)"
  by (auto simp: parseDashId_def Let_def split: if_splits)

fun app_stays :: "app_event \<Rightarrow> bool" where
  "app_stays (MenuClick p) = (p = P_dashboards)"
| "app_stays LogoClick = False"
| "app_stays (Navigate h) = False"
| "app_stays (DashHash d) = False"
| "app_stays e = True"

lemma app_stays_hash:
  "app_page a = P_dashboards \<Longrightarrow> starts_with dash_prefix (strip_hash (app_hash a)) \<Longrightarrow> app_stays e \<Longrightarrow>
   app_hash (app_step a e) = app_hash a \<and> app_page (app_step a e) = P_dashboards"
  by (cases e) (auto simp: set_page_def pageFromHash_dash)

lemma app_stays_run:
  assumes "app_page a = P_dashboards" and "starts_with dash_prefix (strip_hash (app_hash a))"
    and "list_all app_stays es"
  shows "app_hash (run app_step a es) = app_hash a \<and> app_page (run app_step a es) = P_dashboards"
  using assms
proof (induction es arbitrary: a)
  case Nil
  then show ?case by simp
next
  case (Cons e es)
  then show ?case using app_stays_hash [of a e] by simp
qed

text \<open>C37: a shared dashboard link is never clobbered: mounted on \<open>#/dashboards/<id>\<close> the shell shows
  the dashboards page, and every run of events that stays there keeps the id in the hash.\<close>

theorem deep_link_kept:
  assumes "parseDashId h = Inr (Some d)" and "list_all app_stays es"
  shows "app_hash (run app_step (app_mount h) es) = h \<and>
         app_page (run app_step (app_mount h) es) = P_dashboards \<and>
         parseDashId (app_hash (run app_step (app_mount h) es)) = Inr (Some d)"
proof -
  have sw: "starts_with dash_prefix (strip_hash h)" using assms(1) by (rule parse_dash_prefix)
  then have "app_page (app_mount h) = P_dashboards \<and> app_hash (app_mount h) = h"
    by (simp add: app_mount_def Let_def pageFromHash_dash page_effect_def write_hash_def)
  with app_stays_run [of "app_mount h" es] sw assms show ?thesis by simp
qed

theorem deep_link_kept_witness:
  "app_hash (run app_step (app_mount ''#/dashboards/d%201'') [ToggleCompact, HashChange, MenuClick P_dashboards])
     = ''#/dashboards/d%201''"
  by (rule deep_link_kept [where d = "''d 1''", THEN conjunct1]) (code_simp, simp)

lemma menu_items_handlers:
  "map (\<lambda>v. attr_handler v ''onItemClick'') (menu_items a) = map (\<lambda>p. Some (MenuClick p)) PAGE_IDS"
  "map (\<lambda>v. attr_flag v ''current'') (menu_items a) = map (\<lambda>p. app_page a = p) PAGE_IDS"
  by (simp_all add: menu_items_def PAGE_IDS_def attr_handler_def attr_flag_def)

text \<open>The menu. Every page has exactly one item, the item marked current is the page shown, and
  clicking an item shows its page and leaves a hash that names it.\<close>

lemma menu_click_shows_page:
  "app_page (app_step a (MenuClick p)) = p \<and>
   (app_page a = p \<or> pageFromHash (app_hash (app_step a (MenuClick p))) = p) \<and>
   map (\<lambda>v. attr_handler v ''onItemClick'') (menu_items a) = map (\<lambda>p. Some (MenuClick p)) PAGE_IDS \<and>
   map (\<lambda>v. attr_flag v ''current'') (menu_items a) = map (\<lambda>p. app_page a = p) PAGE_IDS \<and>
   distinct PAGE_IDS \<and> p \<in> set PAGE_IDS"
  by (cases p) (simp_all add: set_page_def pageFromHash_effect menu_items_handlers PAGE_IDS_def)

end
