(* ===== verification/JsJson.thy ===== *)
theory JsJson
  imports JsConvert Uri
begin

section \<open>JSON values and \<open>JSON.parse\<close>\<close>

text \<open>
  A decoded JSON value, property access on it, the value that survives \<open>JSON.stringify\<close>
  followed by a parse (a number that is not finite becomes \<open>null\<close>), and \<open>JSON.parse\<close> on text.
  The parser spends one unit of fuel per nested call; a text of length \<open>n\<close> needs at most
  \<open>2 n + 1\<close>, which \<open>json_parse\<close> provides (\<open>json_fuel_enough\<close>). An escaped unpaired surrogate becomes U+FFFD.
\<close>

datatype json =
    JNull
  | JBool bool
  | JNum jsnum
  | JStr string
  | JArr "json list"
  | JObj "(string \<times> json) list"

text \<open>\<open>v.k\<close>: \<open>None\<close> is \<open>undefined\<close>; reading a property of \<open>null\<close> throws.\<close>

fun json_prop :: "json \<Rightarrow> string \<Rightarrow> js_exn + json option" where
  "json_prop (JObj fs) k = Inr (map_of fs k)"
| "json_prop JNull k = Inl TypeError"
| "json_prop v k = Inr None"

text \<open>\<open>v.k\<close> where \<open>v\<close> is known not to be \<open>null\<close>, and \<open>x ?? d\<close>.\<close>

fun prop_of :: "json \<Rightarrow> string \<Rightarrow> json option" where
  "prop_of (JObj fs) k = map_of fs k"
| "prop_of v k = None"

definition nullish :: "json option \<Rightarrow> bool" where
  "nullish x \<longleftrightarrow> x = None \<or> x = Some JNull"

definition or_else :: "json option \<Rightarrow> json \<Rightarrow> json" where
  "or_else x d = (case x of None \<Rightarrow> d | Some v \<Rightarrow> if v = JNull then d else v)"

definition js_truthy :: "json option \<Rightarrow> bool" where
  "js_truthy x = (case x of None \<Rightarrow> False | Some v \<Rightarrow>
     (case v of JNull \<Rightarrow> False | JBool b \<Rightarrow> b | JNum n \<Rightarrow> num_truthy n | JStr s \<Rightarrow> s \<noteq> []
      | JArr _ \<Rightarrow> True | JObj _ \<Rightarrow> True))"

text \<open>What a value is after \<open>JSON.stringify\<close> and \<open>JSON.parse\<close>.\<close>

fun json_wire :: "json \<Rightarrow> json" where
  "json_wire (JNum n) = (if is_finite n then JNum n else JNull)"
| "json_wire (JArr vs) = JArr (map json_wire vs)"
| "json_wire (JObj fs) = JObj (map (\<lambda>(k, v). (k, json_wire v)) fs)"
| "json_wire v = v"

subsection \<open>Tokens\<close>

definition json_space :: "char \<Rightarrow> bool" where
  "json_space c \<longleftrightarrow> byte_of c \<in> {32, 9, 10, 13}"

definition skip_ws :: "string \<Rightarrow> string" where
  "skip_ws s = dropWhile json_space s"

lemma skip_ws_length: "length (skip_ws s) \<le> length s"
  by (simp add: skip_ws_def length_dropWhile_le)

text \<open>The UTF-8 encoding of a code point.\<close>

definition utf8_of :: "nat \<Rightarrow> string" where
  "utf8_of n = map char_of
     (if n < 128 then [n]
      else if n < 2048 then [192 + n div 64, 128 + n mod 64]
      else if n < 65536 then [224 + n div 4096, 128 + n div 64 mod 64, 128 + n mod 64]
      else [240 + n div 262144, 128 + n div 4096 mod 64, 128 + n div 64 mod 64, 128 + n mod 64])"

fun hex4 :: "string \<Rightarrow> (nat \<times> string) option" where
  "hex4 (a # b # c # d # s) =
     (case (hex_value a, hex_value b, hex_value c, hex_value d) of
        (Some p, Some q, Some r, Some t) \<Rightarrow> Some (4096 * p + 256 * q + 16 * r + t, s)
      | _ \<Rightarrow> None)"
| "hex4 s = None"

lemma hex4_length: "hex4 s = Some (n, r) \<Longrightarrow> length r < length s"
  by (induction s rule: hex4.induct) (auto split: option.splits)

text \<open>One \<open>\\u\<close> escape after its \<open>u\<close>: a pair of surrogates is one code point.\<close>

definition unicode_escape :: "string \<Rightarrow> (string \<times> string) option" where
  "unicode_escape s =
     (case hex4 s of
        None \<Rightarrow> None
      | Some (h, r) \<Rightarrow>
          if 55296 \<le> h \<and> h \<le> 56319
          then (case r of
                  x # y # r' \<Rightarrow>
                    (if byte_of x = 92 \<and> y = CHR ''u''
                     then (case hex4 r' of
                             None \<Rightarrow> None
                           | Some (l, r'') \<Rightarrow>
                               if 56320 \<le> l \<and> l \<le> 57343
                               then Some (utf8_of (65536 + (h - 55296) * 1024 + (l - 56320)), r'')
                               else Some (utf8_of 65533, r))
                     else Some (utf8_of 65533, r))
                | _ \<Rightarrow> Some (utf8_of 65533, r))
          else if 56320 \<le> h \<and> h \<le> 57343 then Some (utf8_of 65533, r)
          else Some (utf8_of h, r))"

lemma unicode_escape_length: "unicode_escape s = Some (t, r) \<Longrightarrow> length r < length s"
  by (auto simp: unicode_escape_def dest!: hex4_length split: option.splits list.splits if_splits)

definition simple_escape :: "char \<Rightarrow> char option" where
  "simple_escape c = map_of
     [(34, char_of (34 :: nat)), (92, char_of (92 :: nat)), (47, CHR ''/''), (98, char_of (8 :: nat)),
      (102, char_of (12 :: nat)), (110, char_of (10 :: nat)), (114, char_of (13 :: nat)),
      (116, char_of (9 :: nat))] (byte_of c)"

text \<open>A string after its opening quote: the text and what follows the closing quote.\<close>

function json_string :: "string \<Rightarrow> (string \<times> string) option" where
  "json_string [] = None"
| "json_string (c # s) =
     (if byte_of c = 34 then Some ([], s)
      else if byte_of c < 32 then None
      else if byte_of c \<noteq> 92 then map_option (\<lambda>(t, r). (c # t, r)) (json_string s)
      else (case s of
              [] \<Rightarrow> None
            | e # s' \<Rightarrow>
                (if e = CHR ''u''
                 then (case unicode_escape s' of
                         None \<Rightarrow> None
                       | Some (u, r) \<Rightarrow> map_option (\<lambda>(t, r'). (u @ t, r')) (json_string r))
                 else (case simple_escape e of
                         None \<Rightarrow> None
                       | Some d \<Rightarrow> map_option (\<lambda>(t, r). (d # t, r)) (json_string s')))))"
  by pat_completeness auto
termination
  by (relation "measure length") (auto dest: unicode_escape_length)

declare json_string.simps [simp del]

lemma json_string_length: "json_string s = Some (t, r) \<Longrightarrow> length r < length s"
proof (induction s arbitrary: t rule: json_string.induct)
  case 1
  then show ?case by (simp add: json_string.simps)
next
  case (2 c s)
  consider "byte_of c = 34" | "byte_of c < 32" | "byte_of c \<noteq> 34" "32 \<le> byte_of c" "byte_of c \<noteq> 92"
    | "byte_of c = 92" by linarith
  then show ?case
  proof cases
    case 3
    with "2.prems" obtain t' where "json_string s = Some (t', r)"
      by (auto simp: json_string.simps(2))
    with "2.IH"(1) 3 show ?thesis by fastforce
  next
    case 4
    with "2.prems" obtain e s' where s: "s = e # s'"
      by (cases s) (auto simp: json_string.simps(2))
    show ?thesis
    proof (cases "e = CHR ''u''")
      case True
      with 4 s "2.prems" obtain u q t' where u: "unicode_escape s' = Some (u, q)" "json_string q = Some (t', r)"
        by (auto simp: json_string.simps(2) split: option.splits)
      then have "length r < length q" using "2.IH"(2) 4 s True by simp
      with unicode_escape_length [OF u(1)] s show ?thesis by simp
    next
      case False
      with 4 s "2.prems" obtain d t' where d: "simple_escape e = Some d" "json_string s' = Some (t', r)"
        by (auto simp: json_string.simps(2) split: option.splits)
      then have "length r < length s'" using "2.IH"(3) 4 s False by simp
      with s show ?thesis by simp
    qed
  qed (use "2.prems" in \<open>auto simp: json_string.simps(2)\<close>)
qed

text \<open>A number: the characters of its literal are collected, then read as a double.\<close>

definition is_num_char :: "char \<Rightarrow> bool" where
  "is_num_char c \<longleftrightarrow> is_digit_in 10 c \<or> c \<in> set ''+-.eE''"

text \<open>The literal follows the grammar: no leading zero, digits on both sides of the point.\<close>

definition json_unsigned :: "string \<Rightarrow> rat option" where
  "json_unsigned s =
     (let (ip, r1) = span (is_digit_in 10) s
      in if ip = [] \<or> (1 < length ip \<and> hd ip = CHR ''0'') then None
         else (case r1 of
                 c # r \<Rightarrow>
                   if c = CHR ''.''
                   then (let (fp, r2) = span (is_digit_in 10) r
                         in if fp = [] then None else map_option (decimal_value ip fp) (exponent_part r2))
                   else map_option (decimal_value ip []) (exponent_part r1)
               | [] \<Rightarrow> Some (decimal_value ip [] 0)))"

definition json_number :: "string \<Rightarrow> jsnum option" where
  "json_number s = (if starts_with ''-'' s then map_option (\<lambda>q. fl (- q)) (json_unsigned (drop 1 s))
                    else map_option fl (json_unsigned s))"

definition json_literal :: "string \<Rightarrow> (json \<times> string) option" where
  "json_literal s =
     (if starts_with ''true'' s then Some (JBool True, drop 4 s)
      else if starts_with ''false'' s then Some (JBool False, drop 5 s)
      else if starts_with ''null'' s then Some (JNull, drop 4 s)
      else (let (lit, r) = span is_num_char s
            in if lit = [] then None else map_option (\<lambda>n. (JNum n, r)) (json_number lit)))"

lemma json_literal_length: "json_literal s = Some (v, r) \<Longrightarrow> length r < length s"
proof -
  assume a: "json_literal s = Some (v, r)"
  have drop_lt: "length (drop (length p) s) < length s" if "starts_with p s" "p \<noteq> []" for p
    using that by (cases s) (auto simp: starts_with_def)
  have span_lt: "length (dropWhile is_num_char s) < length s" if "takeWhile is_num_char s \<noteq> []"
    using that by (cases s) (auto simp: length_dropWhile_le le_imp_less_Suc split: if_splits)
  show ?thesis
    using a drop_lt [of "''true''"] drop_lt [of "''false''"] drop_lt [of "''null''"] span_lt
    by (auto simp: json_literal_def span_def Let_def split: if_splits)
qed

subsection \<open>Values\<close>

fun expect :: "nat \<Rightarrow> string \<Rightarrow> string option" where
  "expect b [] = None"
| "expect b (c # s) = (if byte_of c = b then Some s else None)"

lemma expect_length: "expect b s = Some r \<Longrightarrow> length s = Suc (length r)"
  by (cases s) (auto split: if_splits)

text \<open>
  \<open>json_value\<close> reads one value, \<open>json_elems\<close> the rest of a non-empty array, \<open>json_fields\<close> the
  rest of a non-empty object; a repeated key keeps its place and takes the last value.
\<close>

fun json_value :: "nat \<Rightarrow> string \<Rightarrow> (json \<times> string) option"
and json_elems :: "nat \<Rightarrow> string \<Rightarrow> (json list \<times> string) option"
and json_fields :: "nat \<Rightarrow> (string, json) js_map \<Rightarrow> string \<Rightarrow> ((string, json) js_map \<times> string) option" where
  "json_value 0 s = None"
| "json_value (Suc n) s =
     (let t = skip_ws s in
      case expect 123 t of
        Some r \<Rightarrow> (case expect 125 (skip_ws r) of
                     Some r' \<Rightarrow> Some (JObj [], r')
                   | None \<Rightarrow> map_option (\<lambda>(fs, r'). (JObj fs, r')) (json_fields n [] r))
      | None \<Rightarrow>
      (case expect 91 t of
        Some r \<Rightarrow> (case expect 93 (skip_ws r) of
                     Some r' \<Rightarrow> Some (JArr [], r')
                   | None \<Rightarrow> map_option (\<lambda>(vs, r'). (JArr vs, r')) (json_elems n r))
      | None \<Rightarrow>
      (case expect 34 t of
        Some r \<Rightarrow> map_option (\<lambda>(x, r'). (JStr x, r')) (json_string r)
      | None \<Rightarrow> json_literal t)))"
| "json_elems 0 s = None"
| "json_elems (Suc n) s =
     (case json_value n s of
        None \<Rightarrow> None
      | Some (v, r) \<Rightarrow>
          (case expect 44 (skip_ws r) of
             Some r' \<Rightarrow> map_option (\<lambda>(vs, q). (v # vs, q)) (json_elems n r')
           | None \<Rightarrow> map_option (\<lambda>q. ([v], q)) (expect 93 (skip_ws r))))"
| "json_fields 0 m s = None"
| "json_fields (Suc n) m s =
     (case Option.bind (expect 34 (skip_ws s)) json_string of
        None \<Rightarrow> None
      | Some (k, r) \<Rightarrow>
          (case Option.bind (expect 58 (skip_ws r)) (json_value n) of
             None \<Rightarrow> None
           | Some (v, r') \<Rightarrow>
               (case expect 44 (skip_ws r') of
                  Some q \<Rightarrow> json_fields n (map_set k v m) q
                | None \<Rightarrow> map_option (\<lambda>q. (map_set k v m, q)) (expect 125 (skip_ws r')))))"

definition json_parse :: "string \<Rightarrow> json option" where
  "json_parse s =
     (case json_value (Suc (2 * length s)) s of
        Some (v, r) \<Rightarrow> if skip_ws r = [] then Some v else None
      | None \<Rightarrow> None)"

subsection \<open>The fuel is enough\<close>

declare json_value.simps [simp del] json_elems.simps [simp del] json_fields.simps [simp del]

lemmas json_parser_unfold = json_value.simps json_elems.simps json_fields.simps

lemma expect_skip_length: "expect b (skip_ws s) = Some r \<Longrightarrow> length r < length s"
  using skip_ws_length [of s] by (auto dest: expect_length)

lemma skip_ws_shrink: "length (skip_ws s) = Suc k \<Longrightarrow> k < length s"
  using skip_ws_length [of s] by simp

lemma json_value_lengths:
  "(json_value n s = Some (v, r) \<longrightarrow> length r < length s) \<and>
   (json_elems n s = Some (vs, r) \<longrightarrow> length r < length s) \<and>
   (json_fields n m s = Some (fs, r) \<longrightarrow> length r < length s)"
proof (induction n arbitrary: s v vs r m fs)
  case 0
  show ?case by (simp add: json_parser_unfold)
next
  case (Suc n)
  have IHv: "length r < length s" if "json_value n s = Some (v, r)" for s v r using Suc that by blast
  have IHe: "length r < length s" if "json_elems n s = Some (vs, r)" for s vs r using Suc that by blast
  have IHf: "length r < length s" if "json_fields n m s = Some (fs, r)" for s m fs r using Suc that by blast
  have V: "length r < length s" if "json_value (Suc n) s = Some (v, r)" for s v r
    using that skip_ws_length [of s]
    by (auto simp: json_value.simps(2) Let_def split: option.splits
        dest!: skip_ws_shrink expect_length json_literal_length json_string_length IHe IHf)
  have E: "length r < length s" if "json_elems (Suc n) s = Some (vs, r)" for s vs r
    using that by (auto simp: json_elems.simps(2) split: option.splits dest!: expect_skip_length IHv IHe)
  have F: "length r < length s" if "json_fields (Suc n) m s = Some (fs, r)" for s m fs r
    using that
    by (auto simp: json_fields.simps(2) split: option.splits bind_splits dest!: expect_skip_length json_string_length IHv IHf)
  show ?case using V E F by blast
qed

lemma json_value_length: "json_value n s = Some (v, r) \<Longrightarrow> length r < length s"
  using json_value_lengths by blast

lemma json_fuel_step:
  "(2 * length s < n \<longrightarrow> json_value (Suc n) s = json_value n s) \<and>
   (2 * length s + 1 < n \<longrightarrow> json_elems (Suc n) s = json_elems n s) \<and>
   (2 * length s + 1 < n \<longrightarrow> json_fields (Suc n) m s = json_fields n m s)"
proof (induction n arbitrary: s m)
  case 0
  show ?case by (simp add: json_parser_unfold)
next
  case (Suc n)
  have IHv: "json_value (Suc n) s = json_value n s" if "2 * length s < n" for s using Suc that by blast
  have IHe: "json_elems (Suc n) s = json_elems n s" if "2 * length s + 1 < n" for s using Suc that by blast
  have IHf: "json_fields (Suc n) m s = json_fields n m s" if "2 * length s + 1 < n" for s m
    using Suc that by blast
  have V: "json_value (Suc (Suc n)) s = json_value (Suc n) s" if l: "2 * length s < Suc n"
  proof -
    have "json_fields (Suc n) [] r = json_fields n [] r" "json_elems (Suc n) r = json_elems n r"
      if "expect b (skip_ws s) = Some r" for b r
      using expect_skip_length [OF that] l IHf IHe by auto
    then show ?thesis
      by (simp add: json_value.simps(2) [of "Suc n" s] json_value.simps(2) [of n s] Let_def
          split: option.split)
  qed
  have E: "json_elems (Suc (Suc n)) s = json_elems (Suc n) s" if l: "2 * length s + 1 < Suc n"
  proof -
    have "json_elems (Suc n) r' = json_elems n r'"
      if "json_value n s = Some (v, r)" "expect 44 (skip_ws r) = Some r'" for v r r'
      using json_value_length [OF that(1)] expect_skip_length [OF that(2)] l IHe by simp
    with IHv [of s] l show ?thesis
      by (simp add: json_elems.simps(2) [of "Suc n" s] json_elems.simps(2) [of n s] split: option.split)
  qed
  have F: "json_fields (Suc (Suc n)) m s = json_fields (Suc n) m s" if l: "2 * length s + 1 < Suc n"
  proof -
    have val: "json_value (Suc n) q = json_value n q"
      if "Option.bind (expect 34 (skip_ws s)) json_string = Some (k, r)" "expect 58 (skip_ws r) = Some q"
      for k r q
      using that l IHv [of q]
      by (auto simp: bind_eq_Some_conv dest!: expect_skip_length json_string_length)
    have rest: "json_fields (Suc n) m' q = json_fields n m' q"
      if "Option.bind (expect 34 (skip_ws s)) json_string = Some (k, r)"
        "Option.bind (expect 58 (skip_ws r)) (json_value n) = Some (v, r')"
        "expect 44 (skip_ws r') = Some q" for k r v r' q m'
      using that l IHf [of q m']
      by (auto simp: bind_eq_Some_conv dest!: expect_skip_length json_string_length json_value_length)
    show ?thesis
    proof (cases "Option.bind (expect 34 (skip_ws s)) json_string")
      case None
      then show ?thesis
        by (simp add: json_fields.simps(2) [of "Suc n" m s] json_fields.simps(2) [of n m s])
    next
      case (Some kr)
      obtain k r where kr: "kr = (k, r)" by (cases kr)
      have "Option.bind (expect 58 (skip_ws r)) (json_value (Suc n)) =
          Option.bind (expect 58 (skip_ws r)) (json_value n)"
        using val Some kr by (cases "expect 58 (skip_ws r)") auto
      then show ?thesis using Some kr rest
        by (simp add: json_fields.simps(2) [of "Suc n" m s] json_fields.simps(2) [of n m s]
            split: option.split)
    qed
  qed
  show ?case using V E F by blast
qed

lemma json_fuel_enough:
  "2 * length s < n \<Longrightarrow> json_value n s = json_value (Suc (2 * length s)) s"
proof (induction n)
  case 0
  then show ?case by simp
next
  case (Suc n)
  show ?case
  proof (cases "2 * length s < n")
    case True
    with Suc.IH json_fuel_step [of s n] show ?thesis by simp
  next
    case False
    with Suc.prems have "n = 2 * length s" by simp
    then show ?thesis by simp
  qed
qed

end
