(* ===== verification/Api.thy ===== *)
theory Api
  imports JsJson
begin

section \<open>The HTTP client of the console (\<open>api.ts\<close>)\<close>

text \<open>
  The records the backend answers with, the envelope check of \<open>call\<close>, the request each method of
  \<open>api\<close> sends, the reading of a stored dashboard configuration and the live-tail stream. A field
  the backend may leave out or send as \<open>null\<close> is an \<open>option\<close>: the type annotations of the source
  are casts, which check nothing.
\<close>

subsection \<open>Data\<close>

record query_result =
  qr_type :: "string option"
  qr_columns :: "string list option"
  qr_rows :: "string list list option"
  qr_affected :: "jsnum option"
  qr_note :: "string option"

record column_info =
  col_name :: string
  col_type :: string
  primary :: bool

record table_info =
  tbl_name :: string
  engine :: string
  tbl_shards :: jsnum
  tbl_size :: jsnum
  retention :: "string option"
  tbl_columns :: "column_info list"

record shard_info =
  shard_id :: string
  shard_start :: string
  shard_end :: string
  shard_nodes :: "string list"
  shard_size :: jsnum

record node_info =
  node_id :: string
  sql_addr :: string
  raft_addr :: string

record node_metrics =
  nm_node :: string
  nm_addr :: string
  nm_status :: string
  nm_json :: "string option"

datatype widget_type =
    W_line | W_bar | W_pie | W_stat | W_gauge | W_table | W_histogram | W_heatmap | W_log_viewer

record widget_config =
  w_id :: string
  w_type :: widget_type
  w_title :: string
  w_sql :: string
  w_x :: jsnum
  w_y :: jsnum
  w_w :: jsnum
  w_h :: jsnum

record dashboard_config =
  dc_title :: json
  refresh_interval :: jsnum
  widgets :: "widget_config list"

record dashboard =
  d_id :: string
  d_name :: string
  d_config :: json
  d_updated :: string

subsection \<open>The envelope\<close>

text \<open>A response: \<open>resp.ok\<close>, \<open>resp.status\<close> and the body, \<open>None\<close> when it is not JSON.\<close>

record http_response =
  http_ok :: bool
  http_status :: nat
  http_body :: "json option"

text \<open>\<open>String(v)\<close>, and \<open>v || d\<close> read as the text of an error.\<close>

fun json_to_string :: "json \<Rightarrow> string" where
  "json_to_string JNull = ''null''"
| "json_to_string (JBool b) = (if b then ''true'' else ''false'')"
| "json_to_string (JNum n) = num_to_string n"
| "json_to_string (JStr s) = s"
| "json_to_string (JArr vs) = join_on '','' (map (\<lambda>v. if v = JNull then [] else json_to_string v) vs)"
| "json_to_string (JObj kvs) = ''[object Object]''"

definition str_or :: "json option \<Rightarrow> string \<Rightarrow> string" where
  "str_or v d = (case v of Some j \<Rightarrow> if js_truthy v then json_to_string j else d | None \<Rightarrow> d)"

text \<open>
  \<open>call\<close>: \<open>None\<close> stands for a \<open>fetch\<close> that is rejected with the error \<open>neterr\<close>. Property access on
  a body that is \<open>null\<close> throws.
\<close>

definition bad_response_msg :: "nat \<Rightarrow> string \<Rightarrow> string" where
  "bad_response_msg status path = ''bad response '' @ nat_str status @ '' from '' @ path"

definition request_failed_msg :: "nat \<Rightarrow> string" where
  "request_failed_msg status = ''request failed ('' @ nat_str status @ '')''"

definition call :: "string \<Rightarrow> js_exn + http_response \<Rightarrow> js_exn + json" where
  "call path resp =
     ok_bind resp (\<lambda>r.
       (case http_body r of
          None \<Rightarrow> Inl (ErrorMsg (bad_response_msg (http_status r) path))
        | Some body \<Rightarrow>
            if \<not> http_ok r
            then ok_bind (json_prop body ''error'') (\<lambda>e.
                   Inl (ErrorMsg (str_or e (request_failed_msg (http_status r)))))
            else ok_bind (json_prop body ''ok'') (\<lambda>k.
                   if \<not> js_truthy k
                   then Inl (ErrorMsg (str_or (prop_of body ''error'') (request_failed_msg (http_status r))))
                   else Inr body)))"

text \<open>\<open>e instanceof Error ? e.message : String(e)\<close>, the text every page shows for a failure.
  The message of a built-in error is text of the host; it is written here by the error's name.\<close>

fun exn_message :: "js_exn \<Rightarrow> string" where
  "exn_message (ErrorMsg m) = m"
| "exn_message TypeError = ''TypeError''"
| "exn_message URIError = ''URI malformed''"
| "exn_message RangeError = ''Invalid time value''"

lemma call_ok_iff:
  "call path resp = Inr body \<longleftrightarrow>
     (\<exists>r. resp = Inr r \<and> http_ok r \<and> http_body r = Some body \<and> body \<noteq> JNull \<and>
          js_truthy (prop_of body ''ok''))"
proof -
  have p: "json_prop b k = (if b = JNull then Inl TypeError else Inr (prop_of b k))" for b k
    by (cases b) simp_all
  show ?thesis
    by (cases resp) (auto simp: call_def p split: option.splits if_splits)
qed

subsection \<open>Requests\<close>

datatype http_method = GET | POST | PUT | DELETE

record http_request =
  req_method :: http_method
  req_path :: string
  req_body :: "json option"

definition get_req :: "string \<Rightarrow> http_request" where
  "get_req path = \<lparr>req_method = GET, req_path = path, req_body = None\<rparr>"

text \<open>The body goes through \<open>JSON.stringify\<close>: what the backend reads is its wire value.\<close>

definition post :: "string \<Rightarrow> json \<Rightarrow> http_request" where
  "post path body = \<lparr>req_method = POST, req_path = path, req_body = Some (json_wire body)\<rparr>"

definition put :: "string \<Rightarrow> json \<Rightarrow> http_request" where
  "put path body = \<lparr>req_method = PUT, req_path = path, req_body = Some (json_wire body)\<rparr>"

definition api_query :: "string \<Rightarrow> http_request" where
  "api_query sql = post ''/api/v1/query'' (JObj [(''sql'', JStr sql)])"

definition api_admin :: "string \<Rightarrow> http_request" where
  "api_admin cmd = post ''/api/v1/admin'' (JObj [(''cmd'', JStr cmd)])"

definition api_tables :: http_request where
  "api_tables = get_req ''/api/v1/tables''"

definition api_shards :: "string \<Rightarrow> http_request" where
  "api_shards table = get_req (''/api/v1/shards?table='' @ encodeURIComponent table)"

definition api_nodes :: http_request where
  "api_nodes = get_req ''/api/v1/nodes''"

definition api_metrics :: http_request where
  "api_metrics = get_req ''/api/v1/metrics''"

definition api_dashboards :: http_request where
  "api_dashboards = get_req ''/api/v1/dashboards''"

definition dashboard_body :: "string \<Rightarrow> json \<Rightarrow> json" where
  "dashboard_body nm config = JObj [(''name'', JStr nm), (''config'', config)]"

definition api_dashboardCreate :: "string \<Rightarrow> json \<Rightarrow> http_request" where
  "api_dashboardCreate nm config = post ''/api/v1/dashboards'' (dashboard_body nm config)"

definition api_dashboardUpdate :: "string \<Rightarrow> string \<Rightarrow> json \<Rightarrow> http_request" where
  "api_dashboardUpdate did nm config = put (''/api/v1/dashboards/'' @ did) (dashboard_body nm config)"

definition api_dashboardDelete :: "string \<Rightarrow> http_request" where
  "api_dashboardDelete did =
     \<lparr>req_method = DELETE, req_path = ''/api/v1/dashboards/'' @ did, req_body = None\<rparr>"

definition api_widgetQuery :: "string \<Rightarrow> jsnum \<Rightarrow> http_request" where
  "api_widgetQuery sql ttl = post ''/api/v1/widget/query'' (JObj [(''sql'', JStr sql), (''ttl'', JNum ttl)])"

definition api_ingest :: "string \<Rightarrow> string list \<Rightarrow> json list list \<Rightarrow> http_request" where
  "api_ingest table cols rws =
     post ''/api/v1/ingest'' (JObj [(''table'', JStr table), (''columns'', JArr (map JStr cols)),
       (''rows'', JArr (map JArr rws))])"

text \<open>Every request that changes a stored dashboard.\<close>

definition is_dashboard_write :: "http_request \<Rightarrow> bool" where
  "is_dashboard_write r \<longleftrightarrow>
     req_method r \<in> {POST, PUT, DELETE} \<and> starts_with ''/api/v1/dashboards'' (req_path r)"

subsection \<open>Stored dashboard configurations\<close>

text \<open>
  \<open>parseDashboardConfig\<close> supplies defaults for a missing title, refresh interval and widget list;
  everything else passes through unchecked. \<open>typed_config\<close> is the cast to \<open>DashboardConfig\<close>: it
  fails when a widget lacks a field of \<open>WidgetConfig\<close>, a case the page does not handle.
\<close>

record raw_config =
  raw_title :: json
  raw_refresh :: jsnum
  raw_widgets :: "json list"

definition parseDashboardConfig :: "json \<Rightarrow> raw_config" where
  "parseDashboardConfig raw =
     (let c = (if raw = JNull then JObj [] else raw)
      in \<lparr>raw_title = or_else (prop_of c ''title'') (JStr []),
          raw_refresh = (case prop_of c ''refresh_interval'' of Some (JNum n) \<Rightarrow> n | _ \<Rightarrow> Fin 30),
          raw_widgets = (case prop_of c ''widgets'' of Some (JArr ws) \<Rightarrow> ws | _ \<Rightarrow> [])\<rparr>)"

definition widget_type_names :: "(string \<times> widget_type) list" where
  "widget_type_names =
     [(''line'', W_line), (''bar'', W_bar), (''pie'', W_pie), (''stat'', W_stat), (''gauge'', W_gauge),
      (''table'', W_table), (''histogram'', W_histogram), (''heatmap'', W_heatmap),
      (''log_viewer'', W_log_viewer)]"

fun widget_type_name :: "widget_type \<Rightarrow> string" where
  "widget_type_name W_line = ''line''"
| "widget_type_name W_bar = ''bar''"
| "widget_type_name W_pie = ''pie''"
| "widget_type_name W_stat = ''stat''"
| "widget_type_name W_gauge = ''gauge''"
| "widget_type_name W_table = ''table''"
| "widget_type_name W_histogram = ''histogram''"
| "widget_type_name W_heatmap = ''heatmap''"
| "widget_type_name W_log_viewer = ''log_viewer''"

lemma widget_type_of_name: "map_of widget_type_names (widget_type_name t) = Some t"
  by (cases t) (simp_all add: widget_type_names_def)

definition json_of_widget :: "widget_config \<Rightarrow> json" where
  "json_of_widget w =
     JObj [(''id'', JStr (w_id w)), (''type'', JStr (widget_type_name (w_type w))),
           (''title'', JStr (w_title w)), (''sql'', JStr (w_sql w)), (''x'', JNum (w_x w)),
           (''y'', JNum (w_y w)), (''w'', JNum (w_w w)), (''h'', JNum (w_h w))]"

definition json_of_config :: "dashboard_config \<Rightarrow> json" where
  "json_of_config c =
     JObj [(''title'', dc_title c), (''refresh_interval'', JNum (refresh_interval c)),
           (''widgets'', JArr (map json_of_widget (widgets c)))]"

fun as_str :: "json option \<Rightarrow> string option" where
  "as_str (Some (JStr s)) = Some s"
| "as_str v = None"

fun as_num :: "json option \<Rightarrow> jsnum option" where
  "as_num (Some (JNum n)) = Some n"
| "as_num v = None"

definition widget_of_json :: "json \<Rightarrow> widget_config option" where
  "widget_of_json v =
     (case (as_str (prop_of v ''id''), Option.bind (as_str (prop_of v ''type'')) (map_of widget_type_names),
            as_str (prop_of v ''title''), as_str (prop_of v ''sql''), as_num (prop_of v ''x''),
            as_num (prop_of v ''y''), as_num (prop_of v ''w''), as_num (prop_of v ''h'')) of
        (Some i, Some t, Some ti, Some q, Some x, Some y, Some w, Some h) \<Rightarrow>
          Some \<lparr>w_id = i, w_type = t, w_title = ti, w_sql = q, w_x = x, w_y = y, w_w = w, w_h = h\<rparr>
      | _ \<Rightarrow> None)"

definition typed_config :: "raw_config \<Rightarrow> dashboard_config option" where
  "typed_config r =
     (let ws = map widget_of_json (raw_widgets r)
      in if None \<in> set ws then None
         else Some \<lparr>dc_title = raw_title r, refresh_interval = raw_refresh r, widgets = map the ws\<rparr>)"

definition widget_finite :: "widget_config \<Rightarrow> bool" where
  "widget_finite w \<longleftrightarrow> is_finite (w_x w) \<and> is_finite (w_y w) \<and> is_finite (w_w w) \<and> is_finite (w_h w)"

lemma widget_of_json_wire: "widget_finite w \<Longrightarrow> widget_of_json (json_wire (json_of_widget w)) = Some w"
  by (simp add: widget_finite_def json_of_widget_def widget_of_json_def widget_type_of_name)

lemma widget_wire_infinite:
  "\<not> is_finite (w_y w) \<Longrightarrow> widget_of_json (json_wire (json_of_widget w)) = None"
  by (simp add: json_of_widget_def widget_of_json_def split: option.split)

definition config_storable :: "dashboard_config \<Rightarrow> bool" where
  "config_storable c \<longleftrightarrow>
     list_all widget_finite (widgets c) \<and> is_finite (refresh_interval c) \<and>
     dc_title c \<noteq> JNull \<and> json_wire (dc_title c) = dc_title c"

lemma typed_config_wire:
  assumes "config_storable c"
  shows "typed_config (parseDashboardConfig (json_wire (json_of_config c))) = Some c"
proof -
  have w: "widget_of_json (json_wire (json_of_widget x)) = Some x" if "x \<in> set (widgets c)" for x
    using assms that by (auto simp: config_storable_def list_all_iff widget_of_json_wire)
  then have "map (\<lambda>x. the (widget_of_json (json_wire (json_of_widget x)))) (widgets c) = widgets c"
    by (intro map_idI) simp
  moreover have "None \<notin> (\<lambda>x. widget_of_json (json_wire (json_of_widget x))) ` set (widgets c)"
    using w by force
  ultimately show ?thesis using assms
    by (simp add: typed_config_def parseDashboardConfig_def json_of_config_def or_else_def
        config_storable_def o_def image_image)
qed

interpretation stored_config: codec "\<lambda>c. json_wire (json_of_config c)"
    "\<lambda>v. typed_config (parseDashboardConfig v)" config_storable
  by unfold_locales (rule typed_config_wire)

subsection \<open>Reading answers\<close>

definition str_list :: "json \<Rightarrow> string list" where
  "str_list v = (case v of JArr vs \<Rightarrow> List.map_filter (\<lambda>x. as_str (Some x)) vs | _ \<Rightarrow> [])"

definition query_result_of :: "json \<Rightarrow> query_result" where
  "query_result_of v =
     \<lparr>qr_type = as_str (prop_of v ''type''),
      qr_columns = (case prop_of v ''columns'' of Some (JArr vs) \<Rightarrow> Some (str_list (JArr vs)) | _ \<Rightarrow> None),
      qr_rows = (case prop_of v ''rows'' of Some (JArr vs) \<Rightarrow> Some (map str_list vs) | _ \<Rightarrow> None),
      qr_affected = as_num (prop_of v ''affected''),
      qr_note = as_str (prop_of v ''note'')\<rparr>"

text \<open>\<open>resp.result\<close> of a query or admin call.\<close>

definition answer_result :: "json \<Rightarrow> query_result option" where
  "answer_result body = map_option query_result_of (prop_of body ''result'')"

subsection \<open>Live tail\<close>

definition tail_url :: "string \<Rightarrow> jsnum \<Rightarrow> string" where
  "tail_url sql interval =
     ''/api/v1/tail?interval='' @ num_to_string interval @ ''&sql='' @ encodeURIComponent sql"

text \<open>A frame of the stream: its payload is handed on when it is JSON, otherwise it is dropped.\<close>

definition tail_message :: "(json \<Rightarrow> 's \<Rightarrow> 's) \<Rightarrow> string \<Rightarrow> 's \<Rightarrow> 's" where
  "tail_message onEvent data s = (case json_parse data of Some payload \<Rightarrow> onEvent payload s | None \<Rightarrow> s)"

text \<open>Reference reader of a query string: the first value of a parameter, percent-decoded.\<close>

definition cut_at :: "'c \<Rightarrow> 'c list \<Rightarrow> 'c list \<times> 'c list" where
  "cut_at c s = (takeWhile (\<lambda>x. x \<noteq> c) s, drop 1 (dropWhile (\<lambda>x. x \<noteq> c) s))"

lemma cut_at_append: "c \<notin> set p \<Longrightarrow> cut_at c (p @ c # s) = (p, s)"
  by (induction p) (auto simp: cut_at_def)

definition query_get :: "string \<Rightarrow> string \<Rightarrow> string option" where
  "query_get name url =
     Option.bind (map_of (map (cut_at CHR ''='') (split_on CHR ''&'' (snd (cut_at CHR ''?'' url)))) name)
       decode_pct"

lemma encode_no_sep:
  "CHR ''&'' \<notin> set (encodeURIComponent s)" "CHR ''?'' \<notin> set (encodeURIComponent s)"
  "CHR ''='' \<notin> set (encodeURIComponent s)" "CHR ''/'' \<notin> set (encodeURIComponent s)"
  "CHR ''#'' \<notin> set (encodeURIComponent s)"
  using uri.enc_avoids [of _ s] by (auto simp: uri_separators_def)

lemma query_get_one:
  assumes "CHR ''?'' \<notin> set path" and "set name \<inter> {CHR ''='', CHR ''&''} = {}" and "utf8_ok v"
  shows "query_get name (path @ ''?'' @ name @ ''='' @ encodeURIComponent v) = Some v"
proof -
  have "CHR ''&'' \<notin> set (name @ CHR ''='' # encodeURIComponent v)"
    using assms(2) encode_no_sep by auto
  then have "split_on CHR ''&'' (name @ CHR ''='' # encodeURIComponent v) =
      [name @ CHR ''='' # encodeURIComponent v]"
    by (rule split_on_no_sep)
  moreover have "CHR ''='' \<notin> set name" using assms(2) by auto
  ultimately show ?thesis using assms(1,3)
    by (simp add: query_get_def cut_at_append uri.dec_enc)
qed

end
