(* ===== verification/UseAsync.thy ===== *)
theory UseAsync
  imports Api
begin

section \<open>The loading hook (\<open>useAsync\<close> of \<open>Cluster.tsx\<close>)\<close>

text \<open>
  Every run of the effect of \<open>useAsync\<close> is a generation: it clears the error, shows the spinner
  and starts one call of \<open>fn\<close>; its cleanup, run before the next generation, sets the \<open>alive\<close>
  flag of the previous one to false. The answers of the calls arrive in any order; an answer of a
  generation whose flag is false is dropped. \<open>in_flight\<close> are the calls not answered yet, with what
  they asked for. The three callbacks of one promise (\<open>then\<close>, \<open>catch\<close>, \<open>finally\<close>) are one step.
\<close>

record ('q, 'a) async =
  as_data :: "'a option"
  as_loading :: bool
  as_error :: string
  as_gen :: nat
  in_flight :: "(nat \<times> 'q) list"

definition async_init :: "('q, 'a) async" where
  "async_init = \<lparr>as_data = None, as_loading = False, as_error = [], as_gen = 0, in_flight = []\<rparr>"

text \<open>The effect: the first one after mounting, or after a change of \<open>deps\<close> or of \<open>tick\<close>.\<close>

definition async_start :: "'q \<Rightarrow> ('q, 'a) async \<Rightarrow> ('q, 'a) async" where
  "async_start q s =
     s\<lparr>as_loading := True, as_error := [], as_gen := Suc (as_gen s),
       in_flight := in_flight s @ [(Suc (as_gen s), q)]\<rparr>"

text \<open>The call of generation \<open>g\<close> is answered; \<open>alive\<close> of \<open>g\<close> is true for the newest one only.\<close>

definition async_settle :: "nat \<Rightarrow> js_exn + 'a \<Rightarrow> ('q, 'a) async \<Rightarrow> ('q, 'a) async" where
  "async_settle g outcome s =
     (if g \<notin> fst ` set (in_flight s) then s
      else
        let s' = s\<lparr>in_flight := filter (\<lambda>p. fst p \<noteq> g) (in_flight s)\<rparr>
        in if g = as_gen s
           then (case outcome of
                   Inr d \<Rightarrow> s'\<lparr>as_data := Some d, as_loading := False\<rparr>
                 | Inl e \<Rightarrow> s'\<lparr>as_error := exn_message e, as_loading := False\<rparr>)
           else s')"

definition async_inv :: "('q, 'a) async \<Rightarrow> bool" where
  "async_inv s \<longleftrightarrow>
     sorted_wrt (<) (map fst (in_flight s)) \<and> (\<forall>p \<in> set (in_flight s). fst p \<le> as_gen s) \<and>
     as_loading s = (as_gen s \<in> fst ` set (in_flight s))"

lemma async_inv_init: "async_inv async_init"
  by (simp add: async_inv_def async_init_def)

lemma async_inv_start: "async_inv s \<Longrightarrow> async_inv (async_start q s)"
  by (auto simp: async_inv_def async_start_def sorted_wrt_append)

lemma sorted_wrt_filter_map: "sorted_wrt R (map f xs) \<Longrightarrow> sorted_wrt R (map f (filter P xs))"
  by (induction xs) auto

lemma gens_filter: "fst ` set (filter (\<lambda>p. fst p \<noteq> g) ps) = fst ` set ps - {g}"
  by force

lemma async_inv_settle: "async_inv s \<Longrightarrow> async_inv (async_settle g r s)"
  by (cases r) (auto simp: async_inv_def async_settle_def Let_def sorted_wrt_filter_map gens_filter)

text \<open>What the hook shows: data, spinner, error.\<close>

definition async_shown :: "('q, 'a) async \<Rightarrow> 'a option \<times> bool \<times> string" where
  "async_shown s = (as_data s, as_loading s, as_error s)"

lemma async_settle_stale: "g \<noteq> as_gen s \<Longrightarrow> async_shown (async_settle g r s) = async_shown s"
  by (simp add: async_settle_def async_shown_def Let_def)

lemma async_settle_gen [simp]: "as_gen (async_settle g r s) = as_gen s"
  by (simp add: async_settle_def Let_def split: sum.split)

lemma async_settle_current:
  "async_inv s \<Longrightarrow> as_loading s \<Longrightarrow>
   async_shown (async_settle (as_gen s) r s) =
     (case r of Inr d \<Rightarrow> (Some d, False, as_error s) | Inl e \<Rightarrow> (as_data s, False, exn_message e))"
  by (simp add: async_settle_def async_shown_def async_inv_def Let_def split: sum.split)

text \<open>The answers of a list of calls, in the order of their arrival.\<close>

definition async_settles :: "(nat \<times> (js_exn + 'a)) list \<Rightarrow> ('q, 'a) async \<Rightarrow> ('q, 'a) async" where
  "async_settles rs s = run (\<lambda>s (g, r). async_settle g r s) s rs"

lemma async_settles_inv: "async_inv s \<Longrightarrow> async_inv (async_settles rs s)"
  by (induction rs arbitrary: s) (auto simp: async_settles_def async_inv_settle)

lemma async_settles_gen: "as_gen (async_settles rs s) = as_gen s"
  by (induction rs arbitrary: s) (auto simp: async_settles_def)

lemma async_settles_stale:
  "as_gen s \<notin> fst ` set rs \<Longrightarrow> async_shown (async_settles rs s) = async_shown s"
proof (induction rs arbitrary: s)
  case Nil
  then show ?case by (simp add: async_settles_def)
next
  case (Cons p rs)
  then show ?case by (cases p) (auto simp: async_settles_def async_settle_stale)
qed

lemma async_settles_append: "async_settles (rs @ qs) s = async_settles qs (async_settles rs s)"
  by (simp add: async_settles_def)

lemma async_settles_Cons: "async_settles ((g, r) # rs) s = async_settles rs (async_settle g r s)"
  by (simp add: async_settles_def)

text \<open>C22: the newest request wins: after a (re)load, whatever answers of older loads arrive before or
  after its own answer, and in whatever order, the hook ends up showing the newest load's outcome:
  its data with the error cleared, or its error message with the data shown before, and no spinner.\<close>

theorem use_async_newest_wins:
  assumes "async_inv s" and "Suc (as_gen s) \<notin> fst ` set before" and "Suc (as_gen s) \<notin> fst ` set after"
  shows "async_shown (async_settles (before @ (Suc (as_gen s), r) # after) (async_start q s)) =
    (case r of Inr d \<Rightarrow> (Some d, False, []) | Inl e \<Rightarrow> (as_data s, False, exn_message e))"
proof -
  let ?s1 = "async_start q s"
  let ?s2 = "async_settles before ?s1"
  have gen: "as_gen ?s1 = Suc (as_gen s)" by (simp add: async_start_def)
  have gen2: "as_gen ?s2 = Suc (as_gen s)" by (simp add: async_settles_gen gen)
  have inv2: "async_inv ?s2" using assms(1) by (simp add: async_settles_inv async_inv_start)
  have "async_shown ?s2 = async_shown ?s1" using assms(2) by (intro async_settles_stale) (simp add: gen)
  then have sh2: "as_loading ?s2" "as_error ?s2 = []" "as_data ?s2 = as_data s"
    by (simp_all add: async_shown_def async_start_def)
  have "async_shown (async_settles after (async_settle (Suc (as_gen s)) r ?s2)) =
      async_shown (async_settle (as_gen ?s2) r ?s2)"
    using assms(3) by (subst async_settles_stale) (simp_all add: gen2)
  then show ?thesis using async_settle_current [OF inv2 sh2(1), of r] sh2
    by (simp add: async_settles_append async_settles_Cons split: sum.split)
qed

theorem use_async_newest_wins_witness:
  "async_shown (async_settles ([(1, Inr ''old'')] @ (2, Inr ''new'') # [])
     (async_start () (async_start () async_init))) = (Some ''new'', False, [])"
proof -
  have inv: "async_inv (async_start () async_init)" by (simp add: async_inv_start async_inv_init)
  have gen: "Suc (as_gen (async_start () async_init)) = 2" by (simp add: async_start_def async_init_def)
  show ?thesis
    using use_async_newest_wins [OF inv, of "[(1, Inr ''old'')]" "[]" "Inr ''new''" "()"] unfolding gen by simp
qed

text \<open>The hook on its own, as a machine.\<close>

datatype ('q, 'a) async_event = Load 'q | Answer nat "js_exn + 'a"

fun async_step :: "('q, 'a) async \<Rightarrow> ('q, 'a) async_event \<Rightarrow> ('q, 'a) async" where
  "async_step s (Load q) = async_start q s"
| "async_step s (Answer g r) = async_settle g r s"

lemma async_step_inv: "async_inv s \<Longrightarrow> async_inv (async_step s e)"
  by (cases e) (simp_all add: async_inv_start async_inv_settle)

interpretation async_machine: machine "async_init :: ('q, 'a) async" async_step async_inv
  by unfold_locales (simp_all add: async_inv_init async_step_inv)

text \<open>The spinner is shown exactly while the newest load is unanswered, and the same holds after
  any sequence of loads and answers.\<close>

lemma use_async_spinner:
  "let s = run async_step async_init es in as_loading s = (as_gen s \<in> fst ` set (in_flight s))"
  using async_machine.inv_reachable [of es] by (simp add: async_inv_def Let_def)

end
