(* ===== verification/Cluster.thy ===== *)
theory Cluster
  imports UseAsync View
begin

section \<open>The cluster page (\<open>pages/Cluster.tsx\<close>)\<close>

text \<open>
  The page loads tables, nodes, metrics and the shards of the selected table with \<open>useAsync\<close>, and
  sends ADMIN commands: directly (unfreeze, peers) or from a confirmation dialog (compact, freeze,
  split). The \<open>onOk\<close> closure of a dialog is a value: the table selected when it was created, with
  the command or, for a split, the table and the key columns read at that time. A command in
  flight keeps the selection its \<open>runAdmin\<close> closed over. Every request sent is logged.
\<close>

subsection \<open>Helpers\<close>

definition fmtBytes :: "jsnum \<Rightarrow> string" where
  "fmtBytes n =
     (if js_le (Fin 1073741824) n then to_fixed 2 (js_div n (Fin 1073741824)) @ '' GiB''
      else if js_le (Fin 1048576) n then to_fixed 1 (js_div n (Fin 1048576)) @ '' MiB''
      else if js_le (Fin 1024) n then to_fixed 0 (js_div n (Fin 1024)) @ '' KiB''
      else num_to_string n @ '' B'')"

definition placeholderFor :: "string \<Rightarrow> string" where
  "placeholderFor ty =
     (if ty = ''int64'' \<or> ty = ''int'' then ''e.g. 42''
      else if ty = ''float64'' \<or> ty = ''float'' then ''e.g. 3.14''
      else if ty = ''bool'' then ''true / false''
      else if ty = ''timestamp'' then ''e.g. 2026-08-17T12:00:00Z''
      else ''e.g. foo'')"

record split_field =
  sf_name :: string
  sf_type :: string

definition value_at :: "string list \<Rightarrow> nat \<Rightarrow> string" where
  "value_at values i = (case at_index values i of Some v \<Rightarrow> v | None \<Rightarrow> [])"

definition quote_sql :: "string \<Rightarrow> string" where
  "quote_sql v = [CHR 0x27] @ replace_all (CHR 0x27) [CHR 0x27, CHR 0x27] v @ [CHR 0x27]"

definition split_part :: "split_field \<Rightarrow> string \<Rightarrow> string" where
  "split_part f value =
     (let v = trim value
      in if sf_type f = ''string'' \<or> sf_type f = ''timestamp'' then quote_sql v else v)"

definition buildSplitSql :: "string \<Rightarrow> split_field list \<Rightarrow> string list \<Rightarrow> string" where
  "buildSplitSql table fs values =
     (let parts = map (\<lambda>i. split_part (fs ! i) (value_at values i)) [0..<length fs];
          loc = (if length parts = 1 then parts ! 0 else ''('' @ join_on '', '' parts @ '')'')
      in ''ADMIN SPLIT TABLE '' @ table @ '' AT '' @ loc)"

definition pkFields :: "table_info \<Rightarrow> split_field list" where
  "pkFields t = map (\<lambda>c. \<lparr>sf_name = col_name c, sf_type = col_type c\<rparr>) (filter primary (tbl_columns t))"

definition pkFieldsFor :: "table_info list option \<Rightarrow> string \<Rightarrow> split_field list" where
  "pkFieldsFor tables table =
     (case tables of
        None \<Rightarrow> []
      | Some ts \<Rightarrow> (case List.find (\<lambda>x. tbl_name x = table) ts of None \<Rightarrow> [] | Some t \<Rightarrow> pkFields t))"

subsection \<open>State\<close>

datatype admin_action = Fixed string | SplitAt string "split_field list"

fun action_command :: "admin_action \<Rightarrow> string list \<Rightarrow> string" where
  "action_command (Fixed cmd) values = cmd"
| "action_command (SplitAt table fs) values = buildSplitSql table fs values"

record admin_confirm =
  ac_title :: string
  ac_text :: string
  ac_label :: "string option"
  ac_inputs :: "split_field list option"
  ac_action :: admin_action
  ac_selected :: string

record cluster =
  cl_tables :: "(unit, table_info list) async"
  cl_nodes :: "(unit, node_info list) async"
  cl_metrics :: "(unit, node_metrics list) async"
  cl_shards :: "(string, shard_info list) async"
  cl_selected :: string
  cl_confirm :: "admin_confirm option"
  cl_inputs :: "string list"
  cl_input_refs :: "string list"
  cl_busy :: bool
  cl_result :: "(string \<times> query_result) option"
  cl_pending :: "(string \<times> string) list"  \<comment> \<open>commands in flight, with the selection closed over\<close>
  cl_log :: "string list"  \<comment> \<open>the commands sent\<close>

definition reload_tables :: "cluster \<Rightarrow> cluster" where
  "reload_tables s = s\<lparr>cl_tables := async_start () (cl_tables s)\<rparr>"

definition reload_shards :: "cluster \<Rightarrow> cluster" where
  "reload_shards s = s\<lparr>cl_shards := async_start (cl_selected s) (cl_shards s)\<rparr>"

definition cluster_mount :: cluster where
  "cluster_mount =
     \<lparr>cl_tables = async_start () async_init, cl_nodes = async_start () async_init,
      cl_metrics = async_start () async_init, cl_shards = async_start [] async_init,
      cl_selected = [], cl_confirm = None, cl_inputs = [], cl_input_refs = [], cl_busy = False,
      cl_result = None, cl_pending = [], cl_log = []\<rparr>"

text \<open>\<open>setSelected\<close>: the shards are loaded again when the selection changes.\<close>

definition setSelected :: "string \<Rightarrow> cluster \<Rightarrow> cluster" where
  "setSelected t s = (if t = cl_selected s then s else reload_shards (s\<lparr>cl_selected := t\<rparr>))"

subsection \<open>ADMIN commands\<close>

definition or_default :: "'a \<Rightarrow> 'a option \<Rightarrow> 'a" where
  "or_default d v = (case v of Some x \<Rightarrow> x | None \<Rightarrow> d)"

definition admin_ok_result :: "query_result option \<Rightarrow> query_result" where
  "admin_ok_result r =
     \<lparr>qr_type = Some (or_default ''ok'' (Option.bind r qr_type)),
      qr_columns = Some (or_default [] (Option.bind r qr_columns)),
      qr_rows = Some (or_default [] (Option.bind r qr_rows)),
      qr_affected = Some (or_default (Fin 0) (Option.bind r qr_affected)),
      qr_note = Some (or_default [] (Option.bind r qr_note))\<rparr>"

definition admin_error_result :: "js_exn \<Rightarrow> query_result" where
  "admin_error_result e =
     \<lparr>qr_type = Some ''error'', qr_columns = Some [], qr_rows = Some [], qr_affected = Some (Fin 0),
      qr_note = Some (exn_message e)\<rparr>"

text \<open>\<open>runAdmin\<close> up to its \<open>await\<close>, and the rest of it once the answer is there.\<close>

definition runAdmin :: "string \<Rightarrow> admin_action \<Rightarrow> string list \<Rightarrow> cluster \<Rightarrow> cluster" where
  "runAdmin sel act values s =
     s\<lparr>cl_busy := True, cl_confirm := None,
       cl_pending := cl_pending s @ [(action_command act values, sel)],
       cl_log := cl_log s @ [action_command act values]\<rparr>"

definition adminDone :: "nat \<Rightarrow> js_exn + query_result option \<Rightarrow> cluster \<Rightarrow> cluster" where
  "adminDone i outcome s =
     (case at_index (cl_pending s) i of
        None \<Rightarrow> s
      | Some (cmd, sel) \<Rightarrow>
          let s1 = s\<lparr>cl_pending := take i (cl_pending s) @ drop (Suc i) (cl_pending s),
                     cl_result := Some (cmd, (case outcome of Inr r \<Rightarrow> admin_ok_result r
                                                            | Inl e \<Rightarrow> admin_error_result e)),
                     cl_busy := False\<rparr>;
              s2 = reload_tables s1
          in if sel \<noteq> [] then reload_shards s2 else s2)"

definition openConfirm :: "admin_confirm \<Rightarrow> cluster \<Rightarrow> cluster" where
  "openConfirm c s =
     (let refs = (case ac_inputs c of Some fs \<Rightarrow> map (\<lambda>_. []) fs | None \<Rightarrow> [])
      in s\<lparr>cl_input_refs := refs, cl_inputs := refs, cl_confirm := Some c\<rparr>)"

definition updateInput :: "nat \<Rightarrow> string \<Rightarrow> cluster \<Rightarrow> cluster" where
  "updateInput i v s =
     s\<lparr>cl_input_refs := (cl_input_refs s)[i := v], cl_inputs := (cl_inputs s)[i := v]\<rparr>"

text \<open>\<open>disabled\<close> of the Apply button.\<close>

definition apply_disabled :: "admin_confirm \<Rightarrow> string list \<Rightarrow> bool" where
  "apply_disabled c inputs =
     (case ac_inputs c of
        Some fs \<Rightarrow> list_ex (\<lambda>i. trim (value_at inputs i) = []) [0..<length fs]
      | None \<Rightarrow> False)"

definition compact_confirm :: "string \<Rightarrow> admin_confirm" where
  "compact_confirm sel =
     \<lparr>ac_title = ''Compact stores'',
      ac_text = ''Force a full LSM compaction over every local shard store. This is safe but can take a while on large data.'',
      ac_label = Some ''Compact'', ac_inputs = None, ac_action = Fixed ''ADMIN COMPACT'', ac_selected = sel\<rparr>"

definition split_table_confirm :: "cluster \<Rightarrow> string \<Rightarrow> admin_confirm" where
  "split_table_confirm s t =
     (let fs = pkFieldsFor (as_data (cl_tables s)) t
      in \<lparr>ac_title = ''Split '' @ t,
          ac_text = ''Enter a primary-key value for each PK column. The shard containing that key is split into two.'',
          ac_label = Some ''Split'', ac_inputs = Some fs, ac_action = SplitAt t fs, ac_selected = cl_selected s\<rparr>)"

definition split_shard_confirm :: "cluster \<Rightarrow> shard_info \<Rightarrow> admin_confirm" where
  "split_shard_confirm s sh =
     (let fs = pkFieldsFor (as_data (cl_tables s)) (cl_selected s)
      in \<lparr>ac_title = ''Split shard '' @ shard_id sh,
          ac_text = ''Enter a primary-key value for each PK column inside this shard. It is split at that key.'',
          ac_label = Some ''Split'', ac_inputs = Some fs, ac_action = SplitAt (cl_selected s) fs,
          ac_selected = cl_selected s\<rparr>)"

definition freeze_confirm :: "cluster \<Rightarrow> shard_info \<Rightarrow> admin_confirm" where
  "freeze_confirm s sh =
     \<lparr>ac_title = ''Freeze shard '' @ shard_id sh,
      ac_text = ''Freeze shard '' @ shard_id sh @ '' of '' @ cl_selected s @
        ''? It stops receiving writes (internal step before a split).'',
      ac_label = Some ''Freeze'', ac_inputs = None,
      ac_action = Fixed (''ADMIN FREEZE-SHARD '' @ cl_selected s @ '' '' @ shard_id sh), ac_selected = cl_selected s\<rparr>"

subsection \<open>Events\<close>

datatype cluster_event =
    RefreshClick | CompactClick | SelectTable string | SplitTableClick string
  | SplitShardClick shard_info | FreezeClick shard_info | UnfreezeClick shard_info | PeersClick shard_info
  | InputUpdate nat string | ApplyClick | CancelClick | DialogClose | ResultClose
  | TablesAnswer nat "js_exn + table_info list" | NodesAnswer nat "js_exn + node_info list"
  | MetricsAnswer nat "js_exn + node_metrics list" | ShardsAnswer nat "js_exn + shard_info list"
  | AdminAnswer nat "js_exn + query_result option"

fun cluster_step :: "cluster \<Rightarrow> cluster_event \<Rightarrow> cluster" where
  "cluster_step s RefreshClick =
     (reload_tables s)\<lparr>cl_nodes := async_start () (cl_nodes s), cl_metrics := async_start () (cl_metrics s)\<rparr>"
| "cluster_step s CompactClick = openConfirm (compact_confirm (cl_selected s)) s"
| "cluster_step s (SelectTable t) = setSelected t s"
| "cluster_step s (SplitTableClick t) = openConfirm (split_table_confirm s t) s"
| "cluster_step s (SplitShardClick sh) = openConfirm (split_shard_confirm s sh) s"
| "cluster_step s (FreezeClick sh) = openConfirm (freeze_confirm s sh) s"
| "cluster_step s (UnfreezeClick sh) =
     runAdmin (cl_selected s) (Fixed (''ADMIN UNFREEZE-SHARD '' @ cl_selected s @ '' '' @ shard_id sh)) [] s"
| "cluster_step s (PeersClick sh) =
     runAdmin (cl_selected s) (Fixed (''ADMIN SHARD-PEERS '' @ cl_selected s @ '' '' @ shard_id sh)) [] s"
| "cluster_step s (InputUpdate i v) = (if cl_confirm s = None then s else updateInput i v s)"
| "cluster_step s ApplyClick =
     (case cl_confirm s of
        None \<Rightarrow> s
      | Some c \<Rightarrow> if apply_disabled c (cl_inputs s) then s
                  else runAdmin (ac_selected c) (ac_action c) (cl_input_refs s) s)"
| "cluster_step s CancelClick = s\<lparr>cl_confirm := None\<rparr>"
| "cluster_step s DialogClose = (if cl_busy s then s else s\<lparr>cl_confirm := None\<rparr>)"
| "cluster_step s ResultClose = s\<lparr>cl_result := None\<rparr>"
| "cluster_step s (TablesAnswer g r) = s\<lparr>cl_tables := async_settle g r (cl_tables s)\<rparr>"
| "cluster_step s (NodesAnswer g r) = s\<lparr>cl_nodes := async_settle g r (cl_nodes s)\<rparr>"
| "cluster_step s (MetricsAnswer g r) = s\<lparr>cl_metrics := async_settle g r (cl_metrics s)\<rparr>"
| "cluster_step s (ShardsAnswer g r) = s\<lparr>cl_shards := async_settle g r (cl_shards s)\<rparr>"
| "cluster_step s (AdminAnswer i r) = adminDone i r s"

subsection \<open>What is rendered\<close>

definition th :: "string \<Rightarrow> 'a view" where
  "th h = Elem ''th'' [] [Text h]"

definition td :: "string \<Rightarrow> 'a view" where
  "td v = Elem ''td'' [] [Text v]"

definition td_of :: "'a view list \<Rightarrow> 'a view" where
  "td_of vs = Elem ''td'' [] vs"

definition grid :: "string list \<Rightarrow> 'a view list \<Rightarrow> 'a view" where
  "grid heads rows = Elem ''table'' [] [Elem ''thead'' [] [Elem ''tr'' [] (map th heads)], Elem ''tbody'' [] rows]"

definition button :: "string \<Rightarrow> 'a \<Rightarrow> 'a view" where
  "button label act = Elem ''Button'' [(''onClick'', On act)] [Text label]"

definition alert :: "string \<Rightarrow> string \<Rightarrow> 'a view" where
  "alert title message = Elem ''Alert'' [(''title'', Str title), (''message'', Str message)] []"

definition str_or_else :: "string \<Rightarrow> string \<Rightarrow> string" where
  "str_or_else s d = (if s = [] then d else s)"

definition TableGrid :: "table_info list \<Rightarrow> cluster_event view" where
  "TableGrid tables =
     grid [''Table'', ''Engine'', ''Shards'', ''Size'', ''Retention'', ''Actions'']
       (map (\<lambda>t. Elem ''tr'' []
          [td_of [button (tbl_name t) (SelectTable (tbl_name t))],
           td (engine t), td (num_to_string (tbl_shards t)), td (fmtBytes (tbl_size t)),
           td (str_or_else (or_default [] (retention t)) [CHR 0xE2, CHR 0x80, CHR 0x94]),
           td_of [button ''Split'' (SplitTableClick (tbl_name t))]]) tables)"

definition shard_range :: "shard_info \<Rightarrow> string" where
  "shard_range s =
     ''['' @ str_or_else (shard_start s) [CHR 0xE2, CHR 0x88, CHR 0x92] @ '' '' @ [CHR 0xE2, CHR 0x80, CHR 0xA6] @
     '' '' @ str_or_else (shard_end s) [CHR 0xE2, CHR 0x88, CHR 0x9E] @ '')''"

definition ShardGrid :: "shard_info list \<Rightarrow> cluster_event view" where
  "ShardGrid shards =
     grid [''Shard'', ''Range'', ''Nodes'', ''Size'', ''Actions'']
       (map (\<lambda>s. Elem ''tr'' []
          [td (shard_id s), td (shard_range s), td (join_on '', '' (shard_nodes s)), td (fmtBytes (shard_size s)),
           td_of [Elem ''span'' []
             [button ''Split'' (SplitShardClick s), button ''Freeze'' (FreezeClick s),
              button ''Unfreeze'' (UnfreezeClick s), button ''Peers'' (PeersClick s)]]]) shards)"

definition node_status :: "node_metrics list \<Rightarrow> node_info \<Rightarrow> string \<times> string" where
  "node_status metrics n =
     (case map_of (map_from (map (\<lambda>m. (nm_node m, m)) metrics)) (node_id n) of
        Some m \<Rightarrow> (if nm_status m = ''up'' then ''positive'' else ''danger'', nm_status m)
      | None \<Rightarrow> (''danger'', ''unknown''))"

definition NodesGrid :: "node_info list \<Rightarrow> node_metrics list \<Rightarrow> 'a view" where
  "NodesGrid nodes metrics =
     grid [''Node'', ''SQL'', ''Raft'', ''Status'']
       (map (\<lambda>n. Elem ''tr'' []
          [td (node_id n), td (sql_addr n), td (raft_addr n),
           td_of [Elem ''Text'' [(''color'', Str (fst (node_status metrics n)))]
                    [Text (snd (node_status metrics n))]]]) nodes)"

definition AdminResultDialog :: "string \<Rightarrow> query_result \<Rightarrow> cluster_event view" where
  "AdminResultDialog cmd r =
     (let note_text = or_default [] (qr_note r); rows = or_default [] (qr_rows r); cols = or_default [] (qr_columns r)
      in Elem ''Dialog'' [(''onClose'', On ResultClose)]
           ([Elem ''Dialog.Header'' [(''caption'', Str ''Admin result'')] [],
             Elem ''Text'' [] [Elem ''code'' [] [Text cmd]]] @
            shown (note_text \<noteq> []) (Elem ''pre'' [] [Elem ''code'' [] [Text note_text]]) @
            shown (rows \<noteq> []) (grid cols (map (\<lambda>r. Elem ''tr'' [] (map td r)) rows)) @
            shown (qr_type r = Some ''error'') (alert ''Command failed'' note_text) @
            [button ''Close'' ResultClose]))"

definition confirm_dialog :: "cluster \<Rightarrow> admin_confirm \<Rightarrow> cluster_event view" where
  "confirm_dialog s c =
     Elem ''Dialog'' [(''onClose'', On DialogClose)]
       ([Elem ''Dialog.Header'' [(''caption'', Str (ac_title c))] [],
         Elem ''Text'' [] [Text (ac_text c)]] @
        (case ac_inputs c of
           None \<Rightarrow> []
         | Some fs \<Rightarrow> [Elem ''div'' []
             (map (\<lambda>i. Elem ''TextInput''
                [(''label'', Str (sf_name (fs ! i))), (''placeholder'', Str (placeholderFor (sf_type (fs ! i)))),
                 (''value'', Str (value_at (cl_inputs s) i)), (''onUpdate'', OnValue (InputUpdate i)),
                 (''qa'', Str (''split-input-'' @ sf_name (fs ! i)))] []) [0..<length fs])]) @
        [Elem ''Button'' [(''apply'', Flag True), (''loading'', Flag (cl_busy s)),
           (''disabled'', Flag (apply_disabled c (cl_inputs s))), (''onClick'', On ApplyClick)]
           [Text (or_default ''Confirm'' (ac_label c))],
         button ''Cancel'' CancelClick])"

definition ClusterPage :: "cluster \<Rightarrow> cluster_event view" where
  "ClusterPage s =
     Elem ''div'' []
       ([Elem ''div'' []
          ([Elem ''Text'' [] [Text ''Cluster''], button ''Refresh'' RefreshClick, button ''Compact'' CompactClick] @
           shown (as_loading (cl_tables s) \<or> as_loading (cl_nodes s) \<or> as_loading (cl_metrics s)) (Elem ''Spin'' [] []))] @
        shown (as_error (cl_tables s) \<noteq> []) (alert ''Tables'' (as_error (cl_tables s))) @
        shown (as_error (cl_nodes s) \<noteq> []) (alert ''Nodes'' (as_error (cl_nodes s))) @
        [Elem ''Text'' [] [Text ''Nodes'']] @
        (case as_data (cl_nodes s) of Some ns \<Rightarrow> [NodesGrid ns (or_default [] (as_data (cl_metrics s)))] | None \<Rightarrow> []) @
        [Elem ''Text'' [] [Text ''Live metrics''], Elem ''MetricsCharts'' [] [], Elem ''Text'' [] [Text ''Tables'']] @
        (case as_data (cl_tables s) of Some ts \<Rightarrow> [TableGrid ts] | None \<Rightarrow> []) @
        (if cl_selected s = [] then []
         else Elem ''Text'' [] [Text (''Shards of '' @ cl_selected s)] #
              (case as_data (cl_shards s) of Some sh \<Rightarrow> [ShardGrid sh] | None \<Rightarrow> [])) @
        (case cl_confirm s of Some c \<Rightarrow> [confirm_dialog s c] | None \<Rightarrow> []) @
        (case cl_result s of Some (cmd, r) \<Rightarrow> [AdminResultDialog cmd r] | None \<Rightarrow> []))"

subsection \<open>The invariant of the page\<close>

definition confirm_ok :: "admin_confirm \<Rightarrow> string list \<Rightarrow> bool" where
  "confirm_ok c ins =
     (case ac_action c of
        SplitAt t fs \<Rightarrow> ac_inputs c = Some fs \<and> length ins = length fs
      | Fixed cmd \<Rightarrow> ac_inputs c = None)"

fun dialog_ok :: "admin_confirm option \<Rightarrow> string list \<Rightarrow> bool" where
  "dialog_ok None ins = True"
| "dialog_ok (Some c) ins = confirm_ok c ins"

definition shards_current :: "cluster \<Rightarrow> bool" where
  "shards_current s = list_all (\<lambda>(g, q). g = as_gen (cl_shards s) \<longrightarrow> q = cl_selected s) (in_flight (cl_shards s))"

definition cluster_inv :: "cluster \<Rightarrow> bool" where
  "cluster_inv s \<longleftrightarrow>
     cl_input_refs s = cl_inputs s \<and>
     dialog_ok (cl_confirm s) (cl_inputs s) \<and>
     (cl_busy s \<longrightarrow> cl_pending s \<noteq> []) \<and>
     async_inv (cl_tables s) \<and> async_inv (cl_nodes s) \<and> async_inv (cl_metrics s) \<and>
     async_inv (cl_shards s) \<and> shards_current s"

lemmas async_invs = async_inv_init async_inv_start async_inv_settle

lemma shards_start:
  "async_inv (cl_shards s) \<Longrightarrow> shards_current (s\<lparr>cl_shards := async_start (cl_selected s) (cl_shards s)\<rparr>)"
  by (auto simp: shards_current_def async_start_def async_inv_def list_all_iff)

lemma shards_settle:
  "shards_current s \<Longrightarrow> shards_current (s\<lparr>cl_shards := async_settle g r (cl_shards s)\<rparr>)"
  by (auto simp: shards_current_def async_settle_def Let_def list_all_iff split: sum.split)

lemma reload_tables_inv: "cluster_inv s \<Longrightarrow> cluster_inv (reload_tables s)"
  by (simp add: cluster_inv_def reload_tables_def async_invs shards_current_def)

lemma reload_shards_inv:
  "cluster_inv s \<Longrightarrow> cluster_inv (reload_shards s)"
  using shards_start [of s] by (simp add: cluster_inv_def reload_shards_def async_invs)

lemma setSelected_inv: "cluster_inv s \<Longrightarrow> cluster_inv (setSelected t s)"
  using shards_start [of "s\<lparr>cl_selected := t\<rparr>"]
  by (simp add: setSelected_def cluster_inv_def reload_shards_def async_invs)

lemma runAdmin_inv: "cluster_inv s \<Longrightarrow> cluster_inv (runAdmin sel act vs s)"
  by (simp add: cluster_inv_def runAdmin_def shards_current_def)

lemma adminDone_inv: "cluster_inv s \<Longrightarrow> cluster_inv (adminDone i r s)"
proof -
  assume "cluster_inv s"
  then have "cluster_inv (s\<lparr>cl_pending := p, cl_result := q, cl_busy := False\<rparr>)" for p q
    by (simp add: cluster_inv_def shards_current_def)
  then show ?thesis using \<open>cluster_inv s\<close>
    by (auto simp: adminDone_def Let_def reload_tables_inv reload_shards_inv split: option.split)
qed

lemma openConfirm_inv:
  "cluster_inv s \<Longrightarrow> confirm_ok c (case ac_inputs c of Some fs \<Rightarrow> map (\<lambda>_. []) fs | None \<Rightarrow> []) \<Longrightarrow>
   cluster_inv (openConfirm c s)"
  by (simp add: cluster_inv_def openConfirm_def Let_def shards_current_def)

lemma confirms_ok [simp]:
  "confirm_ok (compact_confirm sel) []" "confirm_ok (freeze_confirm s sh) []"
  "confirm_ok (split_table_confirm s t) (map (\<lambda>_. []) (pkFieldsFor (as_data (cl_tables s)) t))"
  "confirm_ok (split_shard_confirm s sh) (map (\<lambda>_. []) (pkFieldsFor (as_data (cl_tables s)) (cl_selected s)))"
  by (simp_all add: confirm_ok_def compact_confirm_def freeze_confirm_def split_table_confirm_def
      split_shard_confirm_def Let_def)

lemma confirm_inputs [simp]:
  "ac_inputs (compact_confirm sel) = None" "ac_inputs (freeze_confirm s sh) = None"
  "ac_inputs (split_table_confirm s t) = Some (pkFieldsFor (as_data (cl_tables s)) t)"
  "ac_inputs (split_shard_confirm s sh) = Some (pkFieldsFor (as_data (cl_tables s)) (cl_selected s))"
  by (simp_all add: compact_confirm_def freeze_confirm_def split_table_confirm_def
      split_shard_confirm_def Let_def)

lemma dialog_ok_update: "dialog_ok c ins \<Longrightarrow> dialog_ok c (ins[i := v])"
  by (cases c) (auto simp: confirm_ok_def split: admin_action.splits)

lemma updateInput_inv: "cluster_inv s \<Longrightarrow> cluster_inv (updateInput i v s)"
  by (simp add: cluster_inv_def updateInput_def shards_current_def dialog_ok_update)

lemma cluster_mount_inv: "cluster_inv cluster_mount"
  by (simp add: cluster_inv_def cluster_mount_def async_invs)
     (simp add: shards_current_def async_start_def async_init_def)

lemma cluster_step_inv: "cluster_inv s \<Longrightarrow> cluster_inv (cluster_step s e)"
proof (cases e)
  case RefreshClick
  then show "cluster_inv s \<Longrightarrow> ?thesis"
    by (simp add: cluster_inv_def reload_tables_def async_invs shards_current_def)
next
  case (ShardsAnswer g r)
  then show "cluster_inv s \<Longrightarrow> ?thesis" by (simp add: cluster_inv_def async_invs shards_settle)
qed (auto simp: setSelected_inv openConfirm_inv runAdmin_inv updateInput_inv adminDone_inv split: option.split,
     auto simp: cluster_inv_def async_invs shards_current_def)

interpretation cluster_machine: machine cluster_mount cluster_step cluster_inv
  by unfold_locales (rule cluster_mount_inv, rule cluster_step_inv)

subsection \<open>Where a split command comes from\<close>

text \<open>The split dialog of a table with these key columns was opened by some click of the history.\<close>

definition split_click :: "cluster \<Rightarrow> cluster_event \<Rightarrow> string \<Rightarrow> bool" where
  "split_click s e t \<longleftrightarrow> e = SplitTableClick t \<or> (\<exists>sh. e = SplitShardClick sh \<and> t = cl_selected s)"

definition split_opened :: "cluster_event list \<Rightarrow> string \<Rightarrow> split_field list \<Rightarrow> bool" where
  "split_opened es t fs \<longleftrightarrow> (\<exists>before e after. es = before @ e # after \<and>
     (let s = run cluster_step cluster_mount before in split_click s e t \<and> fs = pkFieldsFor (as_data (cl_tables s)) t))"

text \<open>Each column has its value when \<open>length vs = length fs\<close>; none may be blank.\<close>

definition split_sent :: "cluster_event list \<Rightarrow> string \<Rightarrow> bool" where
  "split_sent es cmd \<longleftrightarrow> (\<exists>t fs vs. split_opened es t fs \<and> cmd = buildSplitSql t fs vs \<and>
     length vs = length fs \<and> list_all (\<lambda>v. trim v \<noteq> []) vs)"

definition origin_ok :: "cluster_event list \<Rightarrow> cluster \<Rightarrow> bool" where
  "origin_ok es s \<longleftrightarrow>
     list_all (\<lambda>cmd. starts_with ''ADMIN SPLIT'' cmd \<longrightarrow> split_sent es cmd) (cl_log s) \<and>
     (case cl_confirm s of
        None \<Rightarrow> True
      | Some c \<Rightarrow> (case ac_action c of
          Fixed cmd \<Rightarrow> \<not> starts_with ''ADMIN SPLIT'' cmd
        | SplitAt t fs \<Rightarrow> split_opened es t fs))"

lemma split_opened_snoc:
  "split_opened es t fs \<Longrightarrow> split_opened (es @ [e]) t fs"
  unfolding split_opened_def by (metis append_Cons append_assoc)

lemma split_opened_here:
  "split_click (run cluster_step cluster_mount es) e t \<Longrightarrow>
   split_opened (es @ [e]) t (pkFieldsFor (as_data (cl_tables (run cluster_step cluster_mount es))) t)"
  unfolding split_opened_def Let_def by blast

lemma split_sent_snoc: "split_sent es cmd \<Longrightarrow> split_sent (es @ [e]) cmd"
  unfolding split_sent_def using split_opened_snoc by blast

lemma origin_snoc: "origin_ok es s \<Longrightarrow> origin_ok (es @ [e]) s"
  by (auto simp: origin_ok_def list_all_iff intro: split_sent_snoc split_opened_snoc split: option.splits admin_action.splits)

lemma origin_same: "cl_log s' = cl_log s \<Longrightarrow> cl_confirm s' = cl_confirm s \<Longrightarrow> origin_ok es s' = origin_ok es s"
  by (simp add: origin_ok_def)

lemma origin_updates:
  "origin_ok es (s\<lparr>cl_tables := ta\<rparr>) = origin_ok es s" "origin_ok es (s\<lparr>cl_nodes := no\<rparr>) = origin_ok es s"
  "origin_ok es (s\<lparr>cl_metrics := me\<rparr>) = origin_ok es s" "origin_ok es (s\<lparr>cl_shards := sh\<rparr>) = origin_ok es s"
  "origin_ok es (s\<lparr>cl_selected := se\<rparr>) = origin_ok es s" "origin_ok es (s\<lparr>cl_result := re\<rparr>) = origin_ok es s"
  "origin_ok es (updateInput i v s) = origin_ok es s" "origin_ok es (reload_tables s) = origin_ok es s"
  "origin_ok es (setSelected t s) = origin_ok es s"
  by (rule origin_same; simp add: updateInput_def reload_tables_def setSelected_def reload_shards_def)+

lemma origin_closed: "origin_ok es s \<Longrightarrow> origin_ok es (s\<lparr>cl_confirm := None\<rparr>)"
  by (simp add: origin_ok_def)

lemma origin_opened:
  assumes "origin_ok es s" and "\<And>cmd. ac_action c = Fixed cmd \<Longrightarrow> \<not> starts_with ''ADMIN SPLIT'' cmd"
    and "\<And>t fs. ac_action c = SplitAt t fs \<Longrightarrow> split_opened es t fs"
  shows "origin_ok es (openConfirm c s)"
  using assms by (simp add: origin_ok_def openConfirm_def Let_def split: admin_action.split)

lemma origin_sent:
  assumes "origin_ok es s" and "starts_with ''ADMIN SPLIT'' (action_command act vs) \<Longrightarrow> split_sent es (action_command act vs)"
  shows "origin_ok es (runAdmin sel act vs s)"
  using assms by (simp add: origin_ok_def runAdmin_def)

lemma adminDone_same [simp]: "cl_log (adminDone i r s) = cl_log s" "cl_confirm (adminDone i r s) = cl_confirm s"
  by (simp_all add: adminDone_def Let_def reload_tables_def reload_shards_def split: option.split prod.split)

lemma apply_enabled_complete:
  assumes "confirm_ok c ins" and "\<not> apply_disabled c ins" and "ac_action c = SplitAt t fs"
  shows "length ins = length fs \<and> list_all (\<lambda>v. trim v \<noteq> []) ins"
proof -
  have "length ins = length fs" "\<forall>i < length fs. trim (value_at ins i) \<noteq> []"
    using assms by (auto simp: confirm_ok_def apply_disabled_def list_ex_iff)
  then show ?thesis by (auto simp: list_all_length value_at_def at_index_def)
qed

lemma fixed_commands:
  "\<not> starts_with ''ADMIN SPLIT'' ''ADMIN COMPACT''" "\<not> starts_with ''ADMIN SPLIT'' (''ADMIN FREEZE-SHARD '' @ r)"
  "\<not> starts_with ''ADMIN SPLIT'' (''ADMIN UNFREEZE-SHARD '' @ r)" "\<not> starts_with ''ADMIN SPLIT'' (''ADMIN SHARD-PEERS '' @ r)"
  by (simp_all add: starts_with_def)

lemma origin_step:
  fixes es :: "cluster_event list"
  defines "s \<equiv> run cluster_step cluster_mount es"
  assumes "origin_ok es s"
  shows "origin_ok (es @ [e]) (cluster_step s e)"
proof -
  have inv: "cluster_inv s" unfolding s_def by (rule cluster_machine.inv_reachable)
  have o: "origin_ok (es @ [e]) s" using assms(2) by (rule origin_snoc)
  have here: "split_opened (es @ [e]) t (pkFieldsFor (as_data (cl_tables s)) t)" if "split_click s e t" for t
    using split_opened_here that unfolding s_def .
  show ?thesis
  proof (cases e)
    case (SplitTableClick t)
    have "origin_ok (es @ [e]) (openConfirm (split_table_confirm s t) s)"
      by (rule origin_opened [OF o]) (use here [of t] SplitTableClick in \<open>simp_all add: split_click_def split_table_confirm_def Let_def\<close>)
    then show ?thesis using SplitTableClick by simp
  next
    case (SplitShardClick sh)
    have "origin_ok (es @ [e]) (openConfirm (split_shard_confirm s sh) s)"
      by (rule origin_opened [OF o]) (use here [of "cl_selected s"] SplitShardClick in \<open>simp_all add: split_click_def split_shard_confirm_def Let_def\<close>)
    then show ?thesis using SplitShardClick by simp
  next
    case ApplyClick
    show ?thesis
    proof (cases "cl_confirm s")
      case (Some c)
      then have c: "confirm_ok c (cl_inputs s)" "cl_input_refs s = cl_inputs s" using inv by (auto simp: cluster_inv_def)
      have "split_sent (es @ [e]) (action_command (ac_action c) (cl_inputs s))"
        if "starts_with ''ADMIN SPLIT'' (action_command (ac_action c) (cl_inputs s))" "\<not> apply_disabled c (cl_inputs s)"
      proof (cases "ac_action c")
        case (Fixed cmd)
        then show ?thesis using o Some that(1) by (simp add: origin_ok_def)
      next
        case (SplitAt t fs)
        then have "split_opened (es @ [e]) t fs" using o Some by (simp add: origin_ok_def)
        then show ?thesis using apply_enabled_complete [OF c(1) that(2) SplitAt] SplitAt unfolding split_sent_def by auto
      qed
      then show ?thesis using ApplyClick Some c(2) o by (auto intro!: origin_sent)
    qed (use ApplyClick o in simp)
  next
    case (AdminAnswer i r)
    then show ?thesis using o origin_same [of "adminDone i r s" s] by simp
  next
    case CompactClick
    have "origin_ok (es @ [e]) (openConfirm (compact_confirm (cl_selected s)) s)"
      by (rule origin_opened [OF o]) (use fixed_commands in \<open>simp_all add: compact_confirm_def\<close>)
    then show ?thesis using CompactClick by simp
  next
    case (FreezeClick sh)
    have "origin_ok (es @ [e]) (openConfirm (freeze_confirm s sh) s)"
      by (rule origin_opened [OF o]) (use fixed_commands in \<open>simp_all add: freeze_confirm_def\<close>)
    then show ?thesis using FreezeClick by simp
  next
    case (UnfreezeClick sh)
    have "origin_ok (es @ [e]) (runAdmin sel (Fixed (''ADMIN UNFREEZE-SHARD '' @ r)) [] s)" for sel r
      by (rule origin_sent [OF o]) (use fixed_commands(3) [of r] in simp)
    then show ?thesis using UnfreezeClick by simp
  next
    case (PeersClick sh)
    have "origin_ok (es @ [e]) (runAdmin sel (Fixed (''ADMIN SHARD-PEERS '' @ r)) [] s)" for sel r
      by (rule origin_sent [OF o]) (use fixed_commands(4) [of r] in simp)
    then show ?thesis using PeersClick by simp
  qed (use o in \<open>simp_all add: origin_updates origin_closed\<close>)
qed

lemma origin_reachable: "origin_ok es (run cluster_step cluster_mount es)"
proof (induction es rule: rev_induct)
  case Nil
  then show ?case by (simp add: origin_ok_def cluster_mount_def)
next
  case (snoc e es)
  then show ?case using origin_step by simp
qed

lemma first_of_one:
  "length xs = length ps \<Longrightarrow> (if length xs = 1 then ps ! 0 else x) = (if length xs = 1 then hd ps else x)"
  by (cases ps) simp_all

lemma split_parts_zip:
  assumes "length vs = length cs"
  shows "map (\<lambda>i. split_part (map (\<lambda>c. \<lparr>sf_name = col_name c, sf_type = col_type c\<rparr>) cs ! i) (value_at vs i)) [0..<length cs] =
    map (\<lambda>(c, v). if col_type c = ''string'' \<or> col_type c = ''timestamp'' then quote_sql (trim v) else trim v) (zip cs vs)"
  using assms by (intro nth_equalityI) (auto simp: value_at_def at_index_def split_part_def Let_def)

text \<open>C1: every ADMIN SPLIT command that is sent over any run of the cluster page, whatever the user clicks and in whatever
  order the answers come, was begun by a click on Split, on a table or on a shard of the table selected,
  and names that table. When the page had the table in its list at that time, the key of the command is
  one non-blank value for each of the table's primary columns, in their order, in quotes for strings
  and times, and in parentheses unless it is one; when the list did not have the table, the
  command has an empty key.\<close>

theorem split_commands_complete:
  assumes "cmd \<in> set (cl_log (run cluster_step cluster_mount es))" and "starts_with ''ADMIN SPLIT'' cmd"
  shows "\<exists>before click after t. es = before @ click # after \<and>
    (let s = run cluster_step cluster_mount before
     in (click = SplitTableClick t \<or> (\<exists>sh. click = SplitShardClick sh \<and> t = cl_selected s)) \<and>
        (case Option.bind (as_data (cl_tables s)) (List.find (\<lambda>x. tbl_name x = t)) of
           None \<Rightarrow> cmd = ''ADMIN SPLIT TABLE '' @ t @ '' AT ()''
         | Some ti \<Rightarrow> \<exists>vs. length vs = length (filter primary (tbl_columns ti)) \<and> list_all (\<lambda>v. trim v \<noteq> []) vs \<and>
             (let parts = map (\<lambda>(c, v). if col_type c = ''string'' \<or> col_type c = ''timestamp''
                    then quote_sql (trim v) else trim v) (zip (filter primary (tbl_columns ti)) vs)
              in cmd = ''ADMIN SPLIT TABLE '' @ t @ '' AT '' @
                (if length parts = 1 then hd parts else ''('' @ join_on '', '' parts @ '')''))))"
proof -
  obtain t fs vs where o: "split_opened es t fs" and c: "cmd = buildSplitSql t fs vs" "length vs = length fs"
      "list_all (\<lambda>v. trim v \<noteq> []) vs"
    using origin_reachable [of es] assms by (auto simp: origin_ok_def list_all_iff split_sent_def)
  from o obtain before click after where e: "es = before @ click # after"
      "split_click (run cluster_step cluster_mount before) click t"
      "fs = pkFieldsFor (as_data (cl_tables (run cluster_step cluster_mount before))) t"
    unfolding split_opened_def Let_def by blast
  let ?known = "Option.bind (as_data (cl_tables (run cluster_step cluster_mount before))) (List.find (\<lambda>x. tbl_name x = t))"
  have k: "fs = (case ?known of None \<Rightarrow> [] | Some ti \<Rightarrow> pkFields ti)"
    unfolding e(3) by (simp add: pkFieldsFor_def split: option.split)
  have "case ?known of None \<Rightarrow> cmd = ''ADMIN SPLIT TABLE '' @ t @ '' AT ()''
         | Some ti \<Rightarrow> \<exists>vs. length vs = length (filter primary (tbl_columns ti)) \<and> list_all (\<lambda>v. trim v \<noteq> []) vs \<and>
             (let parts = map (\<lambda>(c, v). if col_type c = ''string'' \<or> col_type c = ''timestamp''
                    then quote_sql (trim v) else trim v) (zip (filter primary (tbl_columns ti)) vs)
              in cmd = ''ADMIN SPLIT TABLE '' @ t @ '' AT '' @
                (if length parts = 1 then hd parts else ''('' @ join_on '', '' parts @ '')''))"
  proof (cases ?known)
    case None
    then show ?thesis using k c by (simp add: buildSplitSql_def)
  next
    case (Some ti)
    then have f: "fs = map (\<lambda>c. \<lparr>sf_name = col_name c, sf_type = col_type c\<rparr>) (filter primary (tbl_columns ti))"
      using k by (simp add: pkFields_def)
    then have l: "length vs = length (filter primary (tbl_columns ti))" using c(2) by simp
    have cmd: "cmd = ''ADMIN SPLIT TABLE '' @ t @ '' AT '' @ (let parts = map (\<lambda>(c, v). if col_type c = ''string'' \<or> col_type c = ''timestamp''
          then quote_sql (trim v) else trim v) (zip (filter primary (tbl_columns ti)) vs)
        in if length parts = 1 then hd parts else ''('' @ join_on '', '' parts @ '')'')"
      unfolding c(1) buildSplitSql_def f length_map split_parts_zip [OF l] Let_def
      by (subst first_of_one) simp_all
    show ?thesis unfolding Some option.case
      by (rule exI [of _ vs], intro conjI) (rule l, rule c(3), use cmd in \<open>simp only: Let_def\<close>)
  qed
  then show ?thesis using e(1,2) unfolding split_click_def Let_def by blast
qed

text \<open>The key of a table \<open>t\<close> with the columns \<open>id\<close> (its key) and \<open>v\<close>: one value is sent.\<close>

definition t_info :: table_info where
  "t_info = \<lparr>tbl_name = ''t'', engine = ''TABLE'', tbl_shards = Fin 1, tbl_size = Fin 0, retention = None,
     tbl_columns = [\<lparr>col_name = ''id'', col_type = ''int64'', primary = True\<rparr>, \<lparr>col_name = ''v'', col_type = ''string'', primary = False\<rparr>]\<rparr>"

definition split_run :: "cluster_event list" where
  "split_run = [TablesAnswer 1 (Inr [t_info]), SplitTableClick ''t'', InputUpdate 0 '' 42'', ApplyClick]"

theorem split_commands_complete_witness:
  "cl_log (run cluster_step cluster_mount split_run) = [''ADMIN SPLIT TABLE t AT 42''] \<and>
   (\<exists>before click after t. split_run = before @ click # after \<and> (click = SplitTableClick t \<or>
     (\<exists>sh. click = SplitShardClick sh \<and> t = cl_selected (run cluster_step cluster_mount before))))"
proof -
  have l: "cl_log (run cluster_step cluster_mount split_run) = [''ADMIN SPLIT TABLE t AT 42'']" by code_simp
  then have "''ADMIN SPLIT TABLE t AT 42'' \<in> set (cl_log (run cluster_step cluster_mount split_run))" by simp
  from split_commands_complete [OF this] show ?thesis using l by (simp add: starts_with_def Let_def) blast
qed

lemma shards_current_loading:
  "async_inv (cl_shards s) \<Longrightarrow> shards_current s \<Longrightarrow>
   as_loading (cl_shards s) = ((as_gen (cl_shards s), cl_selected s) \<in> set (in_flight (cl_shards s)))"
  by (force simp: async_inv_def shards_current_def list_all_iff)

lemma async_inv_loading: "async_inv a \<Longrightarrow> as_loading a = (as_gen a \<in> fst ` set (in_flight a))"
  by (simp add: async_inv_def)

lemma cluster_inv_shows:
  assumes "cluster_inv s"
  shows "as_loading (cl_shards s) = ((as_gen (cl_shards s), cl_selected s) \<in> set (in_flight (cl_shards s))) \<and>
      as_loading (cl_tables s) = (as_gen (cl_tables s) \<in> fst ` set (in_flight (cl_tables s))) \<and>
      (cl_busy s \<longrightarrow> cl_pending s \<noteq> []) \<and> cl_input_refs s = cl_inputs s"
  using assms shards_current_loading [of s] async_inv_loading [of "cl_tables s"]
  unfolding cluster_inv_def by blast

text \<open>C38: over any run, the newest load of the shard list asks for the table selected, the spinners
  tell which loads are unanswered, the button of the dialog is not busy without a command in
  flight, and the text typed in the dialog is the text a command will be built from.\<close>

theorem cluster_page_invariant:
  "let s = run cluster_step cluster_mount es
   in as_loading (cl_shards s) = ((as_gen (cl_shards s), cl_selected s) \<in> set (in_flight (cl_shards s))) \<and>
      as_loading (cl_tables s) = (as_gen (cl_tables s) \<in> fst ` set (in_flight (cl_tables s))) \<and>
      (cl_busy s \<longrightarrow> cl_pending s \<noteq> []) \<and> cl_input_refs s = cl_inputs s"
  unfolding Let_def by (rule cluster_inv_shows [OF cluster_machine.inv_reachable])

text \<open>A run in which the dialog's button is busy: a compaction that was confirmed and not yet answered.\<close>

theorem cluster_page_invariant_witness:
  "cl_pending (run cluster_step cluster_mount [CompactClick, ApplyClick]) \<noteq> []"
proof -
  have "cl_busy (run cluster_step cluster_mount [CompactClick, ApplyClick])"
    by code_simp
  then show ?thesis using cluster_page_invariant [of "[CompactClick, ApplyClick]"] by (simp only: Let_def) blast
qed

text \<open>The end of an ADMIN command: its dialog shows the answer under the command that was sent,
  with the missing fields filled in, or the error's message; the tables are loaded again, and the
  shards too when a table was selected at the time of the command; the page is no longer busy.\<close>

lemma admin_answer_shown:
  assumes "at_index (cl_pending s) i = Some (cmd, sel)"
  shows "let t = cluster_step s (AdminAnswer i r)
         in cl_result t = Some (cmd, case r of Inr q \<Rightarrow> admin_ok_result q | Inl e \<Rightarrow> admin_error_result e) \<and>
            \<not> cl_busy t \<and> length (cl_pending t) = length (cl_pending s) - 1 \<and>
            as_loading (cl_tables t) \<and> as_gen (cl_tables t) = Suc (as_gen (cl_tables s)) \<and>
            as_gen (cl_shards t) = (if sel = [] then as_gen (cl_shards s) else Suc (as_gen (cl_shards s)))"
proof -
  have "i < length (cl_pending s)" using assms by (simp add: at_index_Some)
  then show ?thesis using assms
    by (simp add: adminDone_def Let_def reload_tables_def reload_shards_def async_start_def)
qed

lemma admin_answer_shown_witness:
  "cl_result (cluster_step (runAdmin ''t'' (Fixed ''ADMIN COMPACT'') [] cluster_mount)
     (AdminAnswer 0 (Inl (ErrorMsg ''timeout'')))) =
   Some (''ADMIN COMPACT'', admin_error_result (ErrorMsg ''timeout''))"
proof -
  have "at_index (cl_pending (runAdmin ''t'' (Fixed ''ADMIN COMPACT'') [] cluster_mount)) 0 =
      Some (''ADMIN COMPACT'', ''t'')"
    by (simp add: runAdmin_def cluster_mount_def)
  then show ?thesis
    using admin_answer_shown [of _ 0 "''ADMIN COMPACT''" "''t''" "Inl (ErrorMsg ''timeout'')"]
    by (simp add: Let_def del: cluster_step.simps)
qed

subsection \<open>The buttons\<close>

lemma actions_cells [simp]:
  "actions (th h) = {}" "actions (td v) = {}" "actions (alert t m) = {}"
  "actions (td_of vs) = actions_of vs" "actions (button l a) = {a}"
  by (simp_all add: th_def td_def alert_def td_of_def button_def view_simps)

lemma actions_grid [simp]: "actions (grid hs rows) = actions_of rows"
  by (simp add: grid_def view_simps)

lemma actions_TableGrid: "actions (TableGrid ts) = (\<Union>t \<in> set ts. {SelectTable (tbl_name t), SplitTableClick (tbl_name t)})"
  by (auto simp: TableGrid_def view_simps)

lemma actions_ShardGrid:
  "actions (ShardGrid sh) = (\<Union>s \<in> set sh. {SplitShardClick s, FreezeClick s, UnfreezeClick s, PeersClick s})"
  by (auto simp: ShardGrid_def view_simps)

lemma actions_NodesGrid [simp]: "actions (NodesGrid ns ms) = {}"
  by (simp add: NodesGrid_def view_simps)

lemma actions_AdminResultDialog [simp]: "actions (AdminResultDialog cmd r) = {ResultClose}"
  by (simp add: AdminResultDialog_def Let_def view_simps)

lemma actions_confirm_dialog:
  "actions (confirm_dialog s c) =
     {DialogClose, CancelClick} \<union> (if apply_disabled c (cl_inputs s) then {} else {ApplyClick}) \<union>
     (case ac_inputs c of None \<Rightarrow> {} | Some fs \<Rightarrow> (\<Union>i < length fs. range (InputUpdate i)))"
  by (auto simp: confirm_dialog_def view_simps split: option.split)

lemma actions_ClusterPage:
  "actions (ClusterPage s) = {RefreshClick, CompactClick} \<union>
     (case as_data (cl_tables s) of Some ts \<Rightarrow> actions (TableGrid ts) | None \<Rightarrow> {}) \<union>
     (if cl_selected s = [] then {}
      else (case as_data (cl_shards s) of Some sh \<Rightarrow> actions (ShardGrid sh) | None \<Rightarrow> {})) \<union>
     (case cl_confirm s of Some c \<Rightarrow> actions (confirm_dialog s c) | None \<Rightarrow> {}) \<union>
     (case cl_result s of Some r \<Rightarrow> {ResultClose} | None \<Rightarrow> {})"
proof -
  have e: "actions_of (shown b v) = {}" if "actions v = {}" for b and v :: "cluster_event view"
    using that by simp
  have "actions (Elem ''Spin'' [] []) = {}" by (simp add: view_simps)
  then show ?thesis
    unfolding ClusterPage_def
    by (cases "as_data (cl_tables s)"; cases "as_data (cl_shards s)"; cases "cl_confirm s"; cases "cl_result s")
       (simp_all only: actions_plain actions_of_simps e actions_cells option.case actions_NodesGrid, auto simp: view_simps split: option.split)
qed

text \<open>What can be clicked on the page: a command can be confirmed exactly when a dialog is open and
  none of its fields is blank; a table can be split or selected exactly when it is listed; a shard
  action is offered exactly for the shards listed, while a table is selected.\<close>

lemma cluster_buttons:
  "(ApplyClick \<in> actions (ClusterPage s)) =
     (\<exists>c. cl_confirm s = Some c \<and> \<not> apply_disabled c (cl_inputs s)) \<and>
   (SplitTableClick n \<in> actions (ClusterPage s)) =
     (\<exists>ts. as_data (cl_tables s) = Some ts \<and> n \<in> tbl_name ` set ts) \<and>
   (FreezeClick sh \<in> actions (ClusterPage s)) =
     (cl_selected s \<noteq> [] \<and> (\<exists>l. as_data (cl_shards s) = Some l \<and> sh \<in> set l))"
  unfolding actions_ClusterPage actions_TableGrid actions_ShardGrid actions_confirm_dialog
  by (intro conjI) (auto split: option.splits)

subsection \<open>What the page gets wrong\<close>

text \<open>After the selection changes, the shards of the table selected before stay on the page under the
  name of the new one until the new list arrives; if that load fails they stay, and no error is
  shown. Freezing one of them then names the new table and a shard of the old one.\<close>

definition two_tables :: "shard_info \<Rightarrow> cluster_event list" where
  "two_tables sh = [SelectTable ''a'', ShardsAnswer 2 (Inr [sh]), SelectTable ''b'',
     ShardsAnswer 3 (Inl (ErrorMsg ''timeout''))]"

lemma stale_shards_offered:
  "let s = run cluster_step cluster_mount (two_tables sh)
   in cl_selected s = ''b'' \<and> as_data (cl_shards s) = Some [sh] \<and> as_error (cl_shards s) = ''timeout'' \<and>
      ac_action (freeze_confirm s sh) = Fixed (''ADMIN FREEZE-SHARD b '' @ shard_id sh)"
  by (simp add: two_tables_def cluster_mount_def setSelected_def reload_shards_def async_start_def
      async_init_def async_settle_def Let_def freeze_confirm_def)

text \<open>The value of a key column that is neither a string nor a timestamp goes into the command as it
  was typed, and a table whose columns are not known gives a command with an empty key.\<close>

lemma split_value_raw:
  "buildSplitSql ''t'' [\<lparr>sf_name = ''id'', sf_type = ''int64''\<rparr>] [''1; DROP TABLE t''] =
     ''ADMIN SPLIT TABLE t AT 1; DROP TABLE t''"
  "buildSplitSql ''t'' [] vs = ''ADMIN SPLIT TABLE t AT ()''"
  by (code_simp, simp add: buildSplitSql_def)

end
