(* ===== verification/ClusterLive.thy ===== *)
theory ClusterLive
  imports Cluster
begin

section \<open>The cluster page comes to rest\<close>

text \<open>
  What happens on the cluster page when the user does nothing more and the calls it has open are answered one
  by one, in any order. The answer of an ADMIN command opens new loads, so the number of open calls
  can grow; weighing a command more than the two loads it starts, it falls with each answer.
\<close>

text \<open>An event that answers a call in flight.\<close>

fun answers :: "cluster \<Rightarrow> cluster_event \<Rightarrow> bool" where
  "answers s (TablesAnswer g r) = (g \<in> fst ` set (in_flight (cl_tables s)))"
| "answers s (NodesAnswer g r) = (g \<in> fst ` set (in_flight (cl_nodes s)))"
| "answers s (MetricsAnswer g r) = (g \<in> fst ` set (in_flight (cl_metrics s)))"
| "answers s (ShardsAnswer g r) = (g \<in> fst ` set (in_flight (cl_shards s)))"
| "answers s (AdminAnswer i r) = (i < length (cl_pending s))"
| "answers s _ = False"

fun all_answers :: "cluster \<Rightarrow> cluster_event list \<Rightarrow> bool" where
  "all_answers s [] = True"
| "all_answers s (e # es) = (answers s e \<and> all_answers (cluster_step s e) es)"

definition open_calls :: "cluster \<Rightarrow> nat" where
  "open_calls s = 3 * length (cl_pending s) + length (in_flight (cl_tables s)) + length (in_flight (cl_nodes s)) +
     length (in_flight (cl_metrics s)) + length (in_flight (cl_shards s))"

text \<open>Nothing is under way: no spinner, no command, no load.\<close>

definition at_rest :: "cluster \<Rightarrow> bool" where
  "at_rest s \<longleftrightarrow> \<not> cl_busy s \<and> cl_pending s = [] \<and> \<not> as_loading (cl_tables s) \<and> \<not> as_loading (cl_nodes s) \<and>
     \<not> as_loading (cl_metrics s) \<and> \<not> as_loading (cl_shards s)"

lemma in_flight_settle: "g \<in> fst ` set (in_flight a) \<Longrightarrow> length (in_flight (async_settle g r a)) < length (in_flight a)"
  by (auto simp: async_settle_def Let_def length_filter_less split: sum.split)

lemma in_flight_settle_pair: "(g, q) \<in> set (in_flight a) \<Longrightarrow> length (in_flight (async_settle g r a)) < length (in_flight a)"
  by (rule in_flight_settle) force

lemma in_flight_start: "length (in_flight (async_start q a)) = Suc (length (in_flight a))"
  by (simp add: async_start_def)

lemma answer_closes: "answers s e \<Longrightarrow> open_calls (cluster_step s e) < open_calls s"
proof (cases e)
  case (AdminAnswer i r)
  assume "answers s e"
  then have "i < length (cl_pending s)" using AdminAnswer by simp
  moreover from this have "length (take i (cl_pending s) @ drop (Suc i) (cl_pending s)) + 1 = length (cl_pending s)" by simp
  ultimately show ?thesis using AdminAnswer
    by (auto simp: adminDone_def at_index_def open_calls_def Let_def reload_tables_def reload_shards_def in_flight_start
        split: prod.split)
qed (auto simp: open_calls_def intro: in_flight_settle_pair)

lemma all_answers_bound: "all_answers s es \<Longrightarrow> length es + open_calls (run cluster_step s es) \<le> open_calls s"
proof (induction es arbitrary: s)
  case (Cons e es)
  then have "answers s e" "all_answers (cluster_step s e) es" by simp_all
  then show ?case using answer_closes [of s e] Cons.IH [of "cluster_step s e"] by simp
qed simp

text \<open>The command buttons are disabled only while a command is open.\<close>

definition busy_inv :: "cluster \<Rightarrow> bool" where
  "busy_inv s \<longleftrightarrow> (cl_busy s \<longrightarrow> cl_pending s \<noteq> [])"

lemma busy_step: "busy_inv s \<Longrightarrow> busy_inv (cluster_step s e)"
  by (cases e) (auto simp: busy_inv_def reload_tables_def reload_shards_def openConfirm_def setSelected_def runAdmin_def
      updateInput_def adminDone_def at_index_def Let_def split: option.split prod.split)

interpretation busy_machine: machine cluster_mount cluster_step busy_inv
  by unfold_locales (simp add: busy_inv_def cluster_mount_def, rule busy_step)

lemma rest_or_open:
  assumes "cluster_inv s" and "busy_inv s"
  shows "at_rest s \<or> (\<exists>e. answers s e)"
proof (rule disjCI)
  assume no: "\<nexists>e. answers s e"
  then have p: "cl_pending s = []" by (metis answers.simps(5) length_greater_0_conv)
  have f: "in_flight (cl_tables s) = []" "in_flight (cl_nodes s) = []" "in_flight (cl_metrics s) = []" "in_flight (cl_shards s) = []"
    using no by (metis answers.simps(1) image_eqI list.set_intros(1) neq_Nil_conv, metis answers.simps(2) image_eqI list.set_intros(1) neq_Nil_conv,
      metis answers.simps(3) image_eqI list.set_intros(1) neq_Nil_conv, metis answers.simps(4) image_eqI list.set_intros(1) neq_Nil_conv)
  have i: "async_inv (cl_tables s)" "async_inv (cl_nodes s)" "async_inv (cl_metrics s)" "async_inv (cl_shards s)"
    using assms(1) by (simp_all add: cluster_inv_def)
  show "at_rest s" using p f i [THEN async_inv_loading] assms(2) by (simp add: at_rest_def busy_inv_def)
qed

text \<open>C18: left alone, the page comes to rest: after any run, answers to open calls, in whatever order and with
  whatever outcomes, are at most as many as the loads open plus three for each command open, and as long
  as the page is not at rest, with no spinner and no command under way, there is a call left to
  answer.\<close>

theorem cluster_page_settles:
  assumes "all_answers (run cluster_step cluster_mount es) as"
  shows "length as \<le> open_calls (run cluster_step cluster_mount es) \<and>
    (at_rest (run cluster_step cluster_mount (es @ as)) \<or> (\<exists>e. answers (run cluster_step cluster_mount (es @ as)) e))"
  using all_answers_bound [OF assms] rest_or_open [OF cluster_machine.inv_reachable busy_machine.inv_reachable]
  by (simp del: run_simps)

theorem cluster_page_settles_witness:
  "4 \<le> open_calls (run cluster_step cluster_mount []) \<and> (at_rest (run cluster_step cluster_mount ([] @
     [NodesAnswer 1 (Inr []), ShardsAnswer 1 (Inl TypeError), TablesAnswer 1 (Inr []), MetricsAnswer 1 (Inr [])])) \<or>
   (\<exists>e. answers (run cluster_step cluster_mount ([] @
     [NodesAnswer 1 (Inr []), ShardsAnswer 1 (Inl TypeError), TablesAnswer 1 (Inr []), MetricsAnswer 1 (Inr [])])) e))"
proof -
  have "all_answers (run cluster_step cluster_mount [])
      [NodesAnswer 1 (Inr []), ShardsAnswer 1 (Inl TypeError), TablesAnswer 1 (Inr []), MetricsAnswer 1 (Inr [])]"
    by (simp add: cluster_mount_def async_start_def async_init_def)
  from cluster_page_settles [OF this] show ?thesis by (simp del: run_simps)
qed

end
