(* ===== verification/Metrics.thy ===== *)
theory Metrics
  imports Api View "HOL-Library.Char_ord" "HOL-Library.List_Lexorder"
begin

section \<open>The live metric charts (\<open>pages/MetricsCharts.tsx\<close>)\<close>

text \<open>
  A poll every three seconds adds one sample per node that answered, in a rolling window kept in a
  ref; what is drawn is a copy of the window made at the end of the poll. A poll is one event, with
  the clock it read. A sample's fields are numbers by the contract with the backend; a field of
  another type is \<open>NaN\<close> here, what arithmetic makes of an object. Node names are sorted by their
  bytes, which is the language's order on names within the basic plane.
\<close>

definition POLL_MS :: nat where "POLL_MS = 3000"
definition KEEP :: nat where "KEEP = 60"

record sample =
  sm_t :: jsnum
  sm_reads :: jsnum
  sm_writes :: jsnum
  readP50 :: jsnum
  readP99 :: jsnum
  writeP50 :: jsnum
  writeP99 :: jsnum

definition PALETTE :: "string list" where
  "PALETTE =
     [''#4DA2F1'', ''#FF3D64'', ''#8AD554'', ''#FFC636'', ''#FFB9DD'', ''#84D1EE'', ''#FF91A1'',
      ''#54A520'', ''#DB9100'', ''#BA74B3'', ''#1F68A9'', ''#ED65A9'', ''#0FA08D'', ''#FF7E00'']"

type_synonym point = "jsnum \<times> jsnum"

fun deltas :: "(sample \<Rightarrow> jsnum) \<Rightarrow> sample list \<Rightarrow> point list" where
  "deltas pick (a # b # rest) =
     (let dt = js_div (js_sub (sm_t b) (sm_t a)) (Fin 1000);
          d = js_sub (pick b) (pick a)
      in (if js_le dt (Fin 0) then [] else [(sm_t b, if js_lt d (Fin 0) then Fin 0 else js_div d dt)]) @
         deltas pick (b # rest))"
| "deltas pick samples = []"

definition values_of :: "(sample \<Rightarrow> jsnum) \<Rightarrow> sample list \<Rightarrow> point list" where
  "values_of pick samples = map (\<lambda>s. (sm_t s, pick s)) samples"

record line_series =
  ls_name :: string
  ls_color :: string
  ls_dash :: "string option"
  ls_data :: "point list"

record chart_data =
  cd_title :: string
  cd_colors :: "string list"
  cd_series :: "line_series list"
  cd_unit :: string

definition chartData :: "string \<Rightarrow> string \<Rightarrow> line_series list \<Rightarrow> chart_data" where
  "chartData title unit series =
     \<lparr>cd_title = title, cd_colors = PALETTE, cd_series = series, cd_unit = unit\<rparr>"

subsection \<open>Polling\<close>

record metrics =
  mt_hist :: "(string, sample list) js_map"
  mt_statuses :: "(string, string) js_map"
  mt_ref :: "(string, sample list) js_map"
  mt_selected :: string
  mt_alive :: bool

definition metrics_mount :: metrics where
  "metrics_mount = \<lparr>mt_hist = [], mt_statuses = [], mt_ref = [], mt_selected = [], mt_alive = True\<rparr>"

definition num_field :: "json option \<Rightarrow> jsnum" where
  "num_field v = (case v of None \<Rightarrow> Fin 0 | Some JNull \<Rightarrow> Fin 0 | Some (JNum n) \<Rightarrow> n | Some _ \<Rightarrow> JNaN)"

definition sub_field :: "json \<Rightarrow> string \<Rightarrow> string \<Rightarrow> jsnum" where
  "sub_field p a b = num_field (Option.bind (prop_of p a) (\<lambda>v. prop_of v b))"

definition sample_of :: "jsnum \<Rightarrow> json \<Rightarrow> sample" where
  "sample_of now p =
     \<lparr>sm_t = now, sm_reads = num_field (prop_of p ''reads''), sm_writes = num_field (prop_of p ''writes''),
      readP50 = sub_field p ''read_latency_ms'' ''p50'', readP99 = sub_field p ''read_latency_ms'' ''p99'',
      writeP50 = sub_field p ''write_latency_ms'' ''p50'', writeP99 = sub_field p ''write_latency_ms'' ''p99''\<rparr>"

text \<open>The sample of one answer: none without a payload, with a payload that is not JSON, or a falsy one.\<close>

definition sample_from :: "jsnum \<Rightarrow> node_metrics \<Rightarrow> sample option" where
  "sample_from now nm =
     (let p = (case nm_json nm of None \<Rightarrow> None | Some t \<Rightarrow> if t = [] then None else json_parse t)
      in if js_truthy p then map_option (sample_of now) p else None)"

definition push_window :: "sample \<Rightarrow> sample list \<Rightarrow> sample list" where
  "push_window s arr = (let a = arr @ [s] in if length a > KEEP then tl a else a)"

definition add_sample :: "jsnum \<Rightarrow> (string, sample list) js_map \<Rightarrow> node_metrics \<Rightarrow> (string, sample list) js_map" where
  "add_sample now ref nm =
     (case sample_from now nm of
        None \<Rightarrow> ref
      | Some s \<Rightarrow>
          map_set (nm_node nm) (push_window s (case map_of ref (nm_node nm) of Some a \<Rightarrow> a | None \<Rightarrow> [])) ref)"

definition poll_done :: "jsnum \<Rightarrow> js_exn + node_metrics list \<Rightarrow> metrics \<Rightarrow> metrics" where
  "poll_done now outcome s =
     (case outcome of
        Inl e \<Rightarrow> s
      | Inr ms \<Rightarrow>
          let ref = foldl (add_sample now) (mt_ref s) ms;
              st = foldl (\<lambda>m nm. map_set (nm_node nm) (nm_status nm) m) [] ms
          in if mt_alive s then s\<lparr>mt_ref := ref, mt_hist := ref, mt_statuses := st\<rparr>
             else s\<lparr>mt_ref := ref\<rparr>)"

datatype metrics_event =
    Poll jsnum "js_exn + node_metrics list"
  | SelectNode string
  | UnmountMetrics

fun metrics_step :: "metrics \<Rightarrow> metrics_event \<Rightarrow> metrics" where
  "metrics_step s (Poll now r) = poll_done now r s"
| "metrics_step s (SelectNode n) = s\<lparr>mt_selected := n\<rparr>"
| "metrics_step s UnmountMetrics = s\<lparr>mt_alive := False\<rparr>"

subsection \<open>Charts\<close>

definition nodeIds :: "metrics \<Rightarrow> string list" where
  "nodeIds s = sort (map_keys (mt_statuses s))"

definition shown_nodes :: "metrics \<Rightarrow> string list" where
  "shown_nodes s = (if mt_selected s = [] then nodeIds s else [mt_selected s])"

definition nodeColor :: "metrics \<Rightarrow> string \<Rightarrow> string" where
  "nodeColor s node =
     PALETTE ! ((case index_of (nodeIds s) node of Some i \<Rightarrow> i | None \<Rightarrow> 0) mod length PALETTE)"

definition node_samples :: "metrics \<Rightarrow> (string \<times> sample list) list" where
  "node_samples s =
     List.map_filter (\<lambda>n. map_option (Pair n) (map_of (mt_hist s) n)) (shown_nodes s)"

definition rateSeries :: "metrics \<Rightarrow> (sample \<Rightarrow> jsnum) \<Rightarrow> line_series list" where
  "rateSeries s pick =
     map (\<lambda>(n, samples). \<lparr>ls_name = n, ls_color = nodeColor s n, ls_dash = None, ls_data = deltas pick samples\<rparr>)
       (node_samples s)"

definition latencySeries :: "metrics \<Rightarrow> (sample \<Rightarrow> jsnum) \<Rightarrow> string \<Rightarrow> line_series list" where
  "latencySeries s pick quantile =
     map (\<lambda>(n, samples). \<lparr>ls_name = n @ '' '' @ quantile, ls_color = nodeColor s n,
            ls_dash = Some (if quantile = ''p99'' then ''Dash'' else ''Solid''), ls_data = values_of pick samples\<rparr>)
       (node_samples s)"

definition withData :: "line_series list \<Rightarrow> line_series list" where
  "withData series = filter (\<lambda>l. 0 < length (ls_data l)) series"

definition nonEmpty :: "line_series list \<Rightarrow> bool" where
  "nonEmpty series = (0 < length (withData series))"

record metric_chart =
  mc_qa :: string
  mc_hasData :: bool
  mc_data :: chart_data

definition metric_chart_of :: "string \<Rightarrow> string \<Rightarrow> string \<Rightarrow> line_series list \<Rightarrow> metric_chart" where
  "metric_chart_of title unit qa series =
     \<lparr>mc_qa = qa, mc_hasData = nonEmpty series, mc_data = chartData title unit (withData series)\<rparr>"

definition charts :: "metrics \<Rightarrow> metric_chart list" where
  "charts s =
     [metric_chart_of ''Write requests/s'' ''req/s'' ''chart-write-rps'' (rateSeries s sm_writes),
      metric_chart_of ''Read requests/s'' ''req/s'' ''chart-read-rps'' (rateSeries s sm_reads),
      metric_chart_of ''Write latency, ms'' ''ms'' ''chart-write-lat''
        (latencySeries s writeP50 ''p50'' @ latencySeries s writeP99 ''p99''),
      metric_chart_of ''Read latency, ms'' ''ms'' ''chart-read-lat''
        (latencySeries s readP50 ''p50'' @ latencySeries s readP99 ''p99'')]"

datatype metrics_view =
    MetricsSpin
  | MetricsPage "metrics_event view" "(string \<times> chart_data option) list"

definition MetricsCharts :: "metrics \<Rightarrow> metrics_view" where
  "MetricsCharts s =
     (if mt_hist s = [] \<and> nodeIds s = [] then MetricsSpin
      else MetricsPage
        (Elem ''div'' []
          ([Elem ''Text'' [] [Text ''Nodes:''],
            Elem ''Button'' [(''view'', Str (if mt_selected s = [] then ''normal'' else ''flat'')),
              (''qa'', Str ''metrics-node-all''), (''onClick'', On (SelectNode []))] [Text ''All'']] @
           map (\<lambda>n.
             let up = (map_of (mt_statuses s) n = Some ''up'')
             in Elem ''Button'' [(''view'', Str (if mt_selected s = n then ''normal'' else ''flat'')),
                  (''qa'', Str (''metrics-node-'' @ n)),
                  (''onClick'', On (SelectNode (if mt_selected s = n then [] else n)))]
                  [Text n, Elem ''span'' [] [Text (if up then ''up'' else ''down'')]]) (nodeIds s)))
        (map (\<lambda>c. (mc_qa c, if mc_hasData c then Some (mc_data c) else None)) (charts s)))"

subsection \<open>Properties\<close>

text \<open>The samples of a node a run receives, oldest first.\<close>

definition samples_in :: "string \<Rightarrow> metrics_event \<Rightarrow> sample list" where
  "samples_in n e =
     (case e of
        Poll now (Inr ms) \<Rightarrow> List.map_filter (sample_from now) (filter (\<lambda>nm. nm_node nm = n) ms)
      | _ \<Rightarrow> [])"

definition window_of :: "sample list \<Rightarrow> sample list option" where
  "window_of samples = (if samples = [] then None else Some (last_n KEEP samples))"

lemma push_window_short:
  assumes "length w \<le> KEEP"
  shows "push_window s w = last_n KEEP (w @ [s])"
proof (cases "length w = KEEP")
  case True
  then have "w \<noteq> []" by (auto simp: KEEP_def)
  then show ?thesis using True by (simp add: push_window_def Let_def last_n_def drop_Suc KEEP_def)
next
  case False
  then show ?thesis using assms by (simp add: push_window_def Let_def last_n_def)
qed

lemma push_window_last_n: "push_window s (last_n KEEP samples) = last_n KEEP (samples @ [s])"
  using push_window_short [of "last_n KEEP samples" s] last_n_append_one [of 59 samples s]
  by (simp add: length_last_n KEEP_def)

lemma add_sample_window:
  assumes "map_of ref n = window_of xs"
  shows "map_of (add_sample now ref nm) n =
    window_of (xs @ (if nm_node nm = n then List.map_filter (sample_from now) [nm] else []))"
proof (cases "sample_from now nm")
  case (Some s)
  have "push_window s (case window_of xs of Some a \<Rightarrow> a | None \<Rightarrow> []) = last_n KEEP (xs @ [s])"
    using push_window_last_n [of s xs] by (auto simp: window_of_def last_n_def)
  then show ?thesis using assms Some
    by (auto simp: add_sample_def map_of_map_set window_of_def map_filter_simps)
qed (use assms in \<open>simp add: add_sample_def map_filter_simps\<close>)

lemma add_samples_window:
  "map_of ref n = window_of xs \<Longrightarrow>
   map_of (foldl (add_sample now) ref ms) n =
     window_of (xs @ List.map_filter (sample_from now) (filter (\<lambda>nm. nm_node nm = n) ms))"
proof (induction ms arbitrary: ref xs)
  case Nil
  then show ?case by (simp add: map_filter_simps)
next
  case (Cons nm ms)
  have "map_of (add_sample now ref nm) n =
      window_of (xs @ (if nm_node nm = n then List.map_filter (sample_from now) [nm] else []))"
    by (rule add_sample_window) (rule Cons.prems)
  from Cons.IH [OF this] show ?case by (auto simp: map_filter_simps split: option.split)
qed

lemma metrics_step_window:
  "map_of (mt_ref s) n = window_of xs \<Longrightarrow>
   map_of (mt_ref (metrics_step s e)) n = window_of (xs @ samples_in n e)"
  by (cases e) (auto simp: poll_done_def samples_in_def Let_def add_samples_window split: sum.split)

lemma metrics_run_window:
  "map_of (mt_ref s) n = window_of xs \<Longrightarrow>
   map_of (mt_ref (run metrics_step s es)) n = window_of (xs @ concat (map (samples_in n) es))"
proof (induction es arbitrary: s xs)
  case Nil
  then show ?case by simp
next
  case (Cons e es)
  from Cons.IH [OF metrics_step_window [OF Cons.prems]] show ?case by simp
qed

definition metrics_inv :: "metrics \<Rightarrow> bool" where
  "metrics_inv s \<longleftrightarrow> (mt_alive s \<longrightarrow> mt_hist s = mt_ref s)"

interpretation metrics_machine: machine metrics_mount metrics_step metrics_inv
proof
  show "metrics_inv metrics_mount" by (simp add: metrics_inv_def metrics_mount_def)
  fix s e
  assume "metrics_inv s"
  then show "metrics_inv (metrics_step s e)"
    by (cases e) (auto simp: metrics_inv_def poll_done_def Let_def split: sum.split)
qed

definition two_answers :: "string \<Rightarrow> node_metrics" where
  "two_answers t = \<lparr>nm_node = ''n1'', nm_addr = ''h:1'', nm_status = ''ok'', nm_json = Some t\<rparr>"

text \<open>C27: the rolling window: whatever polls succeed, fail or answer out of turn, the samples drawn for
  a node are exactly the newest 60 of all the samples it ever sent, in their order, and a node that
  sent none is not drawn.\<close>

theorem metrics_window:
  "let s = run metrics_step metrics_mount es; all = concat (map (samples_in n) es)
   in mt_alive s \<longrightarrow> map_of (mt_hist s) n = (if all = [] then None else Some (last_n 60 all))"
proof -
  have "map_of (mt_ref (run metrics_step metrics_mount es)) n = window_of ([] @ concat (map (samples_in n) es))"
    by (rule metrics_run_window) (simp add: metrics_mount_def window_of_def)
  then show ?thesis using metrics_machine.inv_reachable [of es]
    by (simp add: metrics_inv_def window_of_def KEEP_def Let_def)
qed

text \<open>A node that answered twice, once with a payload that is not JSON.\<close>

theorem metrics_window_witness:
  "map (map_of (mt_hist (run metrics_step metrics_mount
     [Poll (Fin 1000) (Inr [two_answers ''{}'']), Poll (Fin 4000) (Inr [two_answers ''x''])]))) [''n1'', ''n2''] =
   [Some [sample_of (Fin 1000) (JObj [])], None]"
proof -
  let ?es = "[Poll (Fin 1000) (Inr [two_answers ''{}'']), Poll (Fin 4000) (Inr [two_answers ''x''])]"
  have "mt_alive (run metrics_step metrics_mount ?es)"
    by (simp add: metrics_mount_def poll_done_def Let_def)
  then have w: "map_of (mt_hist (run metrics_step metrics_mount ?es)) n =
      (if concat (map (samples_in n) ?es) = [] then None else Some (last_n 60 (concat (map (samples_in n) ?es))))" for n
    using metrics_window [of ?es n] by (simp only: Let_def)
  have c: "concat (map (samples_in ''n1'') ?es) = [sample_of (Fin 1000) (JObj [])]"
    "concat (map (samples_in ''n2'') ?es) = []"
    by code_simp+
  have "map_of (mt_hist (run metrics_step metrics_mount ?es)) ''n1'' = Some [sample_of (Fin 1000) (JObj [])]"
    "map_of (mt_hist (run metrics_step metrics_mount ?es)) ''n2'' = None"
    unfolding w c by (simp_all add: last_n_def)
  then show ?thesis by (simp only: list.map)
qed

text \<open>A chart is drawn exactly when one of its series has a point, and no chart is ever given a
  series without points, which the chart library rejects.\<close>

lemma charts_have_data:
  "list_all (\<lambda>c. mc_hasData c = (cd_series (mc_data c) \<noteq> []) \<and>
                 list_all (\<lambda>l. ls_data l \<noteq> []) (cd_series (mc_data c))) (charts s)"
  by (auto simp: charts_def metric_chart_of_def chartData_def nonEmpty_def withData_def list_all_iff)

text \<open>A clock reading: a whole number of milliseconds that doubles hold exactly.\<close>

definition clock_ok :: "jsnum \<Rightarrow> bool" where
  "clock_ok t \<longleftrightarrow> (\<exists>n. t = Fin (of_int n) \<and> \<bar>n\<bar> < 2 ^ 52)"

definition elapsed :: "sample \<Rightarrow> sample \<Rightarrow> jsnum" where
  "elapsed a b = js_div (js_sub (sm_t b) (sm_t a)) (Fin 1000)"

lemma elapsed_cases:
  assumes "clock_ok (sm_t a)" and "clock_ok (sm_t b)"
  obtains q where "elapsed a b = Fin q" and "(0 < q) = js_lt (sm_t a) (sm_t b)"
proof -
  obtain m n where mn: "sm_t a = Fin (of_int m)" "\<bar>m\<bar> < 2 ^ 52" "sm_t b = Fin (of_int n)" "\<bar>n\<bar> < 2 ^ 52"
    using assms by (auto simp: clock_ok_def)
  have small: "\<bar>n - m\<bar> < 2 ^ 53" using mn(2,4) by (simp add: abs_less_iff)
  have sub: "js_sub (sm_t b) (sm_t a) = Fin (of_int (n - m))"
    using fl_int [OF small] mn by (simp add: js_sub_def)
  have e: "elapsed a b = fl (of_int (n - m) / 1000)" by (simp add: elapsed_def sub)
  have ds: "is_double (- (2 ^ 44))" "is_double (2 ^ 44)" "is_double 0" "is_double (1 / 2 ^ 10)"
    using is_double_int [of "- (2 ^ 44)"] is_double_int [of "2 ^ 44"] is_double_int [of 0]
      is_double_frac [of "1 / 2 ^ 10" 1 10]
    by simp_all
  have b: "\<bar>rat_of_int (n - m)\<bar> < 2 ^ 53"
    using small by (metis of_int_abs of_int_less_iff of_int_numeral of_int_power)
  show thesis
  proof (cases "m < n")
    case True
    then have "1 / 2 ^ 10 \<le> rat_of_int (n - m) / 1000" "rat_of_int (n - m) / 1000 \<le> 2 ^ 44"
      using b by (simp_all add: field_simps)
    from fl_finite [OF ds(4,2) this] obtain q where "fl (of_int (n - m) / 1000) = Fin q" "1 / 2 ^ 10 \<le> q"
      by blast
    then show thesis using that [of q] True e mn by simp
  next
    case False
    then have "- (2 ^ 44) \<le> rat_of_int (n - m) / 1000" "rat_of_int (n - m) / 1000 \<le> 0"
      using b by (simp_all add: field_simps)
    from fl_finite [OF ds(1,3) this] obtain q where "fl (of_int (n - m) / 1000) = Fin q" "q \<le> 0"
      by blast
    then show thesis using that [of q] False e mn by simp
  qed
qed

lemma rate_nonneg:
  assumes "is_finite a" and "is_finite b" and "0 < q"
  shows "js_le (Fin 0) (if js_lt (js_sub b a) (Fin 0) then Fin 0 else js_div (js_sub b a) (Fin q))"
proof -
  obtain x where x: "js_sub b a = fl x" using assms by (auto simp: is_finite_iff js_sub_def)
  show ?thesis
  proof (cases "js_lt (fl x) (Fin 0)")
    case False
    then have "js_le (Fin 0) (fl x)" using js_le_linear [of "Fin 0" "fl x"]
      by (auto simp: js_lt_def js_eq_def)
    then show ?thesis using assms(3) False unfolding x
      by (cases "fl x") (auto simp: js_le_def inf_of_def fl_nonneg)
  qed (simp add: x)
qed

lemma deltas_step:
  assumes "clock_ok (sm_t a)" and "clock_ok (sm_t b)" and "is_finite (pick a)" and "is_finite (pick b)"
  shows "\<exists>p. deltas pick (a # b # rest) = p @ deltas pick (b # rest) \<and>
     list_all (\<lambda>(x, y). js_le (Fin 0) y) p \<and> map fst p = (if js_lt (sm_t a) (sm_t b) then [sm_t b] else [])"
proof -
  obtain q where q: "elapsed a b = Fin q" "(0 < q) = js_lt (sm_t a) (sm_t b)"
    using elapsed_cases [OF assms(1,2)] by blast
  then show ?thesis using rate_nonneg [OF assms(3,4)]
    by (cases "0 < q") (simp_all add: elapsed_def Let_def)
qed

text \<open>The rates drawn for a counter are never negative, not even across a restart that resets it,
  and on a clock that moves forward there is one point per sample but the first, at the sample's
  own time.\<close>

lemma deltas_rates:
  assumes "list_all (\<lambda>s. clock_ok (sm_t s) \<and> is_finite (pick s)) samples"
  shows "list_all (\<lambda>(x, y). js_le (Fin 0) y) (deltas pick samples) \<and>
    (sorted_wrt (\<lambda>a b. js_lt (sm_t a) (sm_t b)) samples \<longrightarrow> map fst (deltas pick samples) = map sm_t (tl samples))"
  using assms
proof (induction pick samples rule: deltas.induct)
  case (1 pick a b rest)
  then obtain p where "deltas pick (a # b # rest) = p @ deltas pick (b # rest)"
    "list_all (\<lambda>(x, y). js_le (Fin 0) y) p" "map fst p = (if js_lt (sm_t a) (sm_t b) then [sm_t b] else [])"
    using deltas_step [of a b pick rest] by auto
  moreover have "list_all (\<lambda>s. clock_ok (sm_t s) \<and> is_finite (pick s)) (b # rest)" using 1(2) by simp
  ultimately show ?case using 1(1) by (auto simp del: deltas.simps(1))
qed simp_all

definition sample_at :: "int \<Rightarrow> int \<Rightarrow> sample" where
  "sample_at t n = \<lparr>sm_t = Fin (of_int t), sm_reads = Fin (of_int n), sm_writes = Fin 0, readP50 = Fin 0,
     readP99 = Fin 0, writeP50 = Fin 0, writeP99 = Fin 0\<rparr>"

lemma deltas_rates_witness:
  "list_all (\<lambda>(x, y). js_le (Fin 0) y) (deltas sm_reads [sample_at 1000 5, sample_at 4000 2, sample_at 7000 8]) \<and>
   map fst (deltas sm_reads [sample_at 1000 5, sample_at 4000 2, sample_at 7000 8]) = [Fin 4000, Fin 7000]"
proof -
  have "clock_ok (Fin (of_int n))" if "\<bar>n\<bar> < 2 ^ 52" for n using that by (auto simp: clock_ok_def)
  from this [of 1000] this [of 4000] this [of 7000]
  have "list_all (\<lambda>s. clock_ok (sm_t s) \<and> is_finite (sm_reads s)) [sample_at 1000 5, sample_at 4000 2, sample_at 7000 8]"
    by (simp add: sample_at_def)
  from deltas_rates [OF this] show ?thesis by (simp add: sample_at_def del: deltas.simps)
qed

subsection \<open>Colours\<close>

lemma PALETTE_distinct: "distinct PALETTE \<and> length PALETTE = 14"
  by (simp add: PALETTE_def)

text \<open>Up to fourteen nodes have pairwise different colours, and a node has one colour in every
  chart.\<close>

lemma node_colors_distinct:
  assumes "length (nodeIds s) \<le> 14" and "n \<in> set (nodeIds s)" and "m \<in> set (nodeIds s)" and "n \<noteq> m"
  shows "nodeColor s n \<noteq> nodeColor s m"
proof -
  obtain i where i: "i < length (nodeIds s)" "index_of (nodeIds s) n = Some i" "nodeIds s ! i = n"
    using index_of_member [OF assms(2)] by blast
  obtain j where j: "j < length (nodeIds s)" "index_of (nodeIds s) m = Some j" "nodeIds s ! j = m"
    using index_of_member [OF assms(3)] by blast
  have "i < 14" "j < 14" "i \<noteq> j" using i j assms by auto
  then show ?thesis using PALETTE_distinct i j
    by (simp add: nodeColor_def nth_eq_iff_index_eq)
qed

definition two_nodes :: metrics where
  "two_nodes = poll_done (Fin 0) (Inr [\<lparr>nm_node = ''n2'', nm_addr = [], nm_status = ''up'', nm_json = None\<rparr>,
     \<lparr>nm_node = ''n1'', nm_addr = [], nm_status = ''down'', nm_json = None\<rparr>]) metrics_mount"

lemma node_colors_distinct_example: "nodeColor two_nodes ''n1'' \<noteq> nodeColor two_nodes ''n2''"
proof (rule node_colors_distinct)
  have "map_keys (mt_statuses two_nodes) = [''n2'', ''n1'']"
    by (simp add: two_nodes_def poll_done_def metrics_mount_def Let_def map_keys_def)
  then have ids: "length (nodeIds two_nodes) = 2" "set (nodeIds two_nodes) = {''n2'', ''n1''}"
    unfolding nodeIds_def by (simp_all only: length_sort set_sort) simp_all
  show "length (nodeIds two_nodes) \<le> 14" "''n1'' \<in> set (nodeIds two_nodes)" "''n2'' \<in> set (nodeIds two_nodes)"
    by (simp_all add: ids)
qed simp

end
