(* ===== verification/Widgets.thy ===== *)
theory Widgets
  imports Api View
begin

section \<open>Rendering a query result (\<open>ResultTable.tsx\<close>, \<open>WidgetRenderer.tsx\<close>)\<close>

text \<open>
  The cells of a result are strings; a row may be shorter than the header, so a cell read is an
  option (\<open>undefined\<close> is \<open>None\<close>). \<open>Date.parse\<close> depends on the host and its time zone and
  \<open>toLocaleString\<close> on its locale: both are parameters (\<open>date_parse\<close>, \<open>locale_str\<close>). The chart
  library draws what \<open>chart\<close> describes. Every read that can meet \<open>undefined\<close> (a missing column or row list, the first
  row of no rows) is a step that may throw.
\<close>

text \<open>\<open>v.p\<close> or \<open>v[i]\<close>: a \<open>TypeError\<close> when \<open>v\<close> is undefined.\<close>

definition js_deref :: "'a option \<Rightarrow> js_exn + 'a" where
  "js_deref v = (case v of None \<Rightarrow> Inl TypeError | Some x \<Rightarrow> Inr x)"

lemma js_deref_simps [simp]: "js_deref None = Inl TypeError" "js_deref (Some x) = Inr x"
  by (simp_all add: js_deref_def)

subsection \<open>The plain table\<close>

definition em_dash :: string where
  "em_dash = [CHR 0xE2, CHR 0x80, CHR 0x94]"

definition table_row :: "string list \<Rightarrow> 'a view" where
  "table_row row = Elem ''tr'' [] (map (\<lambda>v. Elem ''td'' [] [Text v]) row)"

definition opt_text :: "string option \<Rightarrow> string" where
  "opt_text v = (case v of Some s \<Rightarrow> s | None \<Rightarrow> [])"

definition ResultTable :: "query_result \<Rightarrow> js_exn + 'a view" where
  "ResultTable r =
     ok_bind (js_deref (qr_columns r)) (\<lambda>cols.
       if cols = []
       then Inr (Elem ''div'' []
              [Text (opt_text (qr_type r) @ '' '' @ em_dash @ '' '' @
                     opt_text (map_option num_to_string (qr_affected r)) @ '' row(s)'')])
       else ok_bind (js_deref (qr_rows r)) (\<lambda>rows.
              Inr (Elem ''div'' []
                [Elem ''table'' []
                  [Elem ''thead'' [] [Elem ''tr'' [] (map (\<lambda>c. Elem ''th'' [] [Text c]) cols)],
                   Elem ''tbody'' [] (map table_row rows)]])))"

subsection \<open>Cells\<close>

definition num :: "string option \<Rightarrow> jsnum option" where
  "num v =
     (case v of
        None \<Rightarrow> None
      | Some s \<Rightarrow> if s = [] then None else (let n = to_number s in if is_finite n then Some n else None))"

text \<open>\<open>/^\d{4}-\d{2}-\d{2}T/\<close>\<close>

definition ascii_digit :: "char \<Rightarrow> bool" where
  "ascii_digit c \<longleftrightarrow> 48 \<le> byte_of c \<and> byte_of c \<le> 57"

definition DATETIME_RE :: "string \<Rightarrow> bool" where
  "DATETIME_RE v \<longleftrightarrow>
     (case v of
        a # b # c # d # m1 # e # f # m2 # g # h # t # rest \<Rightarrow>
          list_all ascii_digit [a, b, c, d, e, f, g, h] \<and>
          m1 = CHR ''-'' \<and> m2 = CHR ''-'' \<and> t = CHR ''T''
      | _ \<Rightarrow> False)"

definition isDateLike :: "(string \<Rightarrow> jsnum) \<Rightarrow> string option \<Rightarrow> bool" where
  "isDateLike date_parse v =
     (case v of None \<Rightarrow> False | Some s \<Rightarrow> s \<noteq> [] \<and> DATETIME_RE s \<and> date_parse s \<noteq> JNaN)"

subsection \<open>Charts\<close>

datatype x_axis = Axis_datetime | Axis_category "string option list"

record chart_point =
  pt_x :: jsnum
  pt_y :: "jsnum option"

record chart_series =
  s_type :: string
  s_name :: string
  s_data :: "chart_point list"

record heat_cell =
  hc_x :: int
  hc_y :: string
  hc_value :: "jsnum option"

datatype chart =
    XY x_axis "chart_series list"
  | Pie "(string \<times> jsnum) list"
  | Heatmap "string option list" "string list" string "heat_cell list"

text \<open>\<open>Date.parse(r[0])\<close>; the parse of \<open>undefined\<close> is \<open>NaN\<close>.\<close>

definition parse_cell :: "(string \<Rightarrow> jsnum) \<Rightarrow> string option \<Rightarrow> jsnum" where
  "parse_cell date_parse v = (case v of Some s \<Rightarrow> date_parse s | None \<Rightarrow> JNaN)"

definition numeric_in :: "string list \<Rightarrow> string list \<Rightarrow> nat list" where
  "numeric_in cols row0 = filter (\<lambda>i. 0 < i \<and> num (at_index row0 i) \<noteq> None) [0..<length cols]"

text \<open>\<open>rows[0][i]\<close> is read for every column after the first.\<close>

definition numeric_idxs :: "string list \<Rightarrow> string list list \<Rightarrow> js_exn + nat list" where
  "numeric_idxs cols rows =
     (if length cols \<le> 1 then Inr []
      else ok_bind (js_deref (at_index rows 0)) (\<lambda>row0. Inr (numeric_in cols row0)))"

text \<open>\<open>buildXYSeries\<close>: \<open>None\<close> is the outcome \<open>empty: true\<close>.\<close>

definition buildXYSeries ::
    "(string \<Rightarrow> jsnum) \<Rightarrow> query_result \<Rightarrow> string \<Rightarrow> js_exn + chart option" where
  "buildXYSeries date_parse r ty =
     ok_bind (js_deref (qr_columns r)) (\<lambda>cols.
     if cols = [] then Inr None
     else ok_bind (js_deref (qr_rows r)) (\<lambda>rows.
       if rows = [] then Inr None
       else ok_bind (numeric_idxs cols rows) (\<lambda>idxs.
         if idxs = [] then Inr None
         else
           let datetime = list_ex (\<lambda>r. isDateLike date_parse (at_index r 0)) rows;
               point = (\<lambda>ci ri. \<lparr>
                  pt_x = (if datetime then parse_cell date_parse (at_index (rows ! ri) 0) else of_nat_num ri),
                  pt_y = num (at_index (rows ! ri) ci)\<rparr>)
           in Inr (Some (XY
                (if datetime then Axis_datetime else Axis_category (map (\<lambda>r. at_index r 0) rows))
                (map (\<lambda>ci. \<lparr>s_type = ty, s_name = cols ! ci,
                            s_data = map (point ci) [0..<length rows]\<rparr>) idxs))))))"

definition buildPie :: "query_result \<Rightarrow> js_exn + chart" where
  "buildPie r =
     ok_bind (js_deref (qr_rows r)) (\<lambda>rows.
       Inr (Pie (map (\<lambda>r. (opt_text (at_index r 0),
                      case num (at_index r 1) of Some v \<Rightarrow> v | None \<Rightarrow> Fin 0)) rows)))"

definition js_index_of :: "'a list \<Rightarrow> 'a \<Rightarrow> int" where
  "js_index_of xs x = (case index_of xs x of Some i \<Rightarrow> int i | None \<Rightarrow> -1)"

definition buildHeatmap :: "query_result \<Rightarrow> js_exn + chart" where
  "buildHeatmap r =
     ok_bind (js_deref (qr_rows r)) (\<lambda>rows. ok_bind (js_deref (qr_columns r)) (\<lambda>cols.
       let xs = uniq (map (\<lambda>r. at_index r 0) rows);
           ys = uniq (map (\<lambda>r. opt_text (at_index r 1)) rows)
       in Inr (Heatmap xs ys (case at_index cols 2 of Some c \<Rightarrow> c | None \<Rightarrow> ''value'')
            (map (\<lambda>r. \<lparr>hc_x = js_index_of xs (at_index r 0), hc_y = opt_text (at_index r 1),
                       hc_value = num (at_index r 2)\<rparr>) rows))))"

subsection \<open>Gauge, log list, messages\<close>

definition levelColor :: "string \<Rightarrow> string option" where
  "levelColor v =
     (let lv = to_upper v in
      if lv = ''ERROR'' \<or> lv = ''FATAL'' \<or> lv = ''PANIC'' then Some ''var(--g-color-text-danger)''
      else if lv = ''WARN'' \<or> lv = ''WARNING'' then Some ''var(--g-color-text-warning)''
      else None)"

text \<open>\<open>Math.PI\<close>, a double.\<close>

definition js_pi :: jsnum where
  "js_pi = Fin (884279719003555 / 281474976710656)"

definition gauge_c :: jsnum where
  "gauge_c = js_mul (js_mul (Fin 2) js_pi) (Fin 40)"

definition gauge_pct :: "jsnum \<Rightarrow> jsnum" where
  "gauge_pct value = js_max (Fin 0) (js_min (Fin 100) value)"

definition gauge_dash :: "jsnum \<Rightarrow> jsnum" where
  "gauge_dash value = js_mul (js_div (gauge_pct value) (Fin 100)) gauge_c"

definition Gauge :: "string \<Rightarrow> jsnum \<Rightarrow> 'a view" where
  "Gauge label value =
     Elem ''div'' []
       [Elem ''svg'' [(''viewBox'', Str ''0 0 120 100'')]
          [Elem ''circle'' [(''cx'', Num (Fin 60)), (''cy'', Num (Fin 60)), (''r'', Num (Fin 40)),
             (''stroke'', Str ''var(--g-color-line-generic)'')] [],
           Elem ''circle'' [(''cx'', Num (Fin 60)), (''cy'', Num (Fin 60)), (''r'', Num (Fin 40)),
             (''stroke'', Str ''var(--g-color-brand)''),
             (''strokeDasharray'', Str (num_to_string (gauge_dash value) @ '' '' @ num_to_string gauge_c)),
             (''transform'', Str ''rotate(-90 60 60)'')] [],
           Elem ''text'' [] [Text (to_fixed 0 value)],
           Elem ''text'' [] [Text ''%'']],
        Elem ''Text'' [(''variant'', Str ''caption-2'')] [Text label]]"

definition caption :: "string \<Rightarrow> 'a view" where
  "caption s = Elem ''div'' [] [Elem ''Text'' [(''variant'', Str ''caption-1'')] [Text s]]"

definition NoNumeric :: "'a view" where
  "NoNumeric = caption ''no numeric column found''"

definition is_level :: "string \<Rightarrow> bool" where
  "is_level c \<longleftrightarrow> to_lower c = ''level''"

definition cell_color :: "nat option \<Rightarrow> nat \<Rightarrow> string \<Rightarrow> string" where
  "cell_color levelIdx ci cell =
     (if levelIdx = Some ci
      then (case levelColor cell of Some k \<Rightarrow> k | None \<Rightarrow> ''var(--g-color-text-primary)'')
      else ''var(--g-color-text-primary)'')"

definition LogViewer :: "query_result \<Rightarrow> js_exn + 'a view" where
  "LogViewer r =
     ok_bind (js_deref (qr_columns r)) (\<lambda>cols. ok_bind (js_deref (qr_rows r)) (\<lambda>rows.
       let levelIdx = find_index is_level cols
       in Inr (Elem ''div'' []
            [Elem ''table'' []
               [Elem ''colgroup'' []
                  (map (\<lambda>c. Elem ''col'' [(''width'', Str (if is_level c then ''70'' else ''auto''))] []) cols),
                Elem ''tbody'' []
                  (map (\<lambda>row. Elem ''tr'' []
                     (map (\<lambda>ci. Elem ''td'' [(''color'', Str (cell_color levelIdx ci (row ! ci)))] [Text (row ! ci)])
                          [0..<length row])) rows)]])))"

subsection \<open>Dispatch\<close>

datatype 'a rendered = View "'a view" | Chart chart

definition of_xy :: "chart option \<Rightarrow> 'a rendered" where
  "of_xy c = (case c of None \<Rightarrow> View NoNumeric | Some d \<Rightarrow> Chart d)"

definition first_num :: "string list \<Rightarrow> nat option" where
  "first_num row = find_index (\<lambda>v. num (Some v) \<noteq> None) row"

definition stat_or_gauge ::
    "(jsnum \<Rightarrow> string) \<Rightarrow> bool \<Rightarrow> string \<Rightarrow> query_result \<Rightarrow> js_exn + 'a rendered" where
  "stat_or_gauge locale_str gauge title r =
     ok_bind (js_deref (qr_rows r)) (\<lambda>rows. ok_bind (js_deref (at_index rows 0)) (\<lambda>row.
       case first_num row of
         None \<Rightarrow> Inr (View NoNumeric)
       | Some idx \<Rightarrow>
           ok_bind (js_deref (qr_columns r)) (\<lambda>cols.
             let value = (case num (at_index row idx) of Some v \<Rightarrow> v | None \<Rightarrow> Fin 0);
                 label = (case at_index cols idx of Some c \<Rightarrow> c | None \<Rightarrow> title)
             in if gauge then Inr (View (Gauge label value))
                else Inr (View (Elem ''div'' []
                       [Elem ''Text'' [(''variant'', Str ''display-3'')] [Text (locale_str value)],
                        Elem ''Text'' [(''variant'', Str ''caption-2'')] [Text label]])))))"

definition WidgetRenderer ::
    "(string \<Rightarrow> jsnum) \<Rightarrow> (jsnum \<Rightarrow> string) \<Rightarrow> widget_type \<Rightarrow> string \<Rightarrow> query_result \<Rightarrow> js_exn + 'a rendered" where
  "WidgetRenderer date_parse locale_str ty title r =
     ok_bind (js_deref (qr_columns r)) (\<lambda>cols.
       ok_bind (if cols = [] then Inr True else ok_bind (js_deref (qr_rows r)) (\<lambda>rows. Inr (rows = []))) (\<lambda>none.
         if none then Inr (View (caption ''no rows''))
         else (case ty of
                 W_line \<Rightarrow> ok_bind (buildXYSeries date_parse r ''line'') (\<lambda>c. Inr (of_xy c))
               | W_bar \<Rightarrow> ok_bind (buildXYSeries date_parse r ''bar-y'') (\<lambda>c. Inr (of_xy c))
               | W_histogram \<Rightarrow> ok_bind (buildXYSeries date_parse r ''bar-y'') (\<lambda>c. Inr (of_xy c))
               | W_pie \<Rightarrow>
                   if length cols < 2 then Inr (View NoNumeric) else ok_bind (buildPie r) (\<lambda>c. Inr (Chart c))
               | W_heatmap \<Rightarrow>
                   if length cols < 3 then Inr (View NoNumeric) else ok_bind (buildHeatmap r) (\<lambda>c. Inr (Chart c))
               | W_table \<Rightarrow> ok_bind (ResultTable r) (\<lambda>v. Inr (View v))
               | W_log_viewer \<Rightarrow> ok_bind (LogViewer r) (\<lambda>v. Inr (View v))
               | W_stat \<Rightarrow> stat_or_gauge locale_str False title r
               | W_gauge \<Rightarrow> stat_or_gauge locale_str True title r)))"

subsection \<open>Properties\<close>

text \<open>What each type of widget shows of columns and rows, neither of them empty.\<close>

definition xy_shape :: "string \<Rightarrow> string list \<Rightarrow> string list list \<Rightarrow> chart \<Rightarrow> bool" where
  "xy_shape ty cols rows c =
     (case c of
        XY ax ss \<Rightarrow>
          ss \<noteq> [] \<and> map s_name ss = map ((!) cols) (numeric_in cols (hd rows)) \<and> list_all (\<lambda>s. s_type s = ty) ss \<and>
          list_all2 (\<lambda>s ci. map pt_y (s_data s) = map (\<lambda>r. num (at_index r ci)) rows)
            ss (numeric_in cols (hd rows)) \<and>
          (case ax of
             Axis_datetime \<Rightarrow> True
           | Axis_category cs \<Rightarrow> length cs = length rows \<and>
               list_all (\<lambda>s. map pt_x (s_data s) = map of_nat_num [0..<length cs]) ss)
      | _ \<Rightarrow> False)"

definition pie_shape :: "string list list \<Rightarrow> chart \<Rightarrow> bool" where
  "pie_shape rows c =
     (case c of
        Pie ss \<Rightarrow> list_all2 (\<lambda>r (label, y). label = opt_text (at_index r 0) \<and>
          (case num (at_index r 1) of Some m \<Rightarrow> y = m | None \<Rightarrow> y = Fin 0)) rows ss
      | _ \<Rightarrow> False)"

definition heat_shape :: "string list list \<Rightarrow> chart \<Rightarrow> bool" where
  "heat_shape rows c =
     (case c of
        Heatmap xs ys nm cells \<Rightarrow> distinct xs \<and> distinct ys \<and>
          list_all2 (\<lambda>r c. (\<exists>i. i < length xs \<and> hc_x c = int i \<and> xs ! i = at_index r 0) \<and>
            hc_y c \<in> set ys \<and> hc_y c = opt_text (at_index r 1) \<and> hc_value c = num (at_index r 2)) rows cells
      | _ \<Rightarrow> False)"

text \<open>The first number of a row, with the position it stands at.\<close>

definition first_number :: "string list \<Rightarrow> nat \<Rightarrow> jsnum \<Rightarrow> bool" where
  "first_number row i v \<longleftrightarrow> num (at_index row i) = Some v \<and> list_all (\<lambda>j. num (at_index row j) = None) [0..<i]"

definition label_at :: "string \<Rightarrow> string list \<Rightarrow> nat \<Rightarrow> string" where
  "label_at title cols i = (if i < length cols then cols ! i else title)"

fun widget_shows ::
    "(jsnum \<Rightarrow> string) \<Rightarrow> string \<Rightarrow> string list \<Rightarrow> string list list \<Rightarrow> widget_type \<Rightarrow> 'a rendered \<Rightarrow> bool" where
  "widget_shows locale_str title cols rows W_line v =
     (if numeric_in cols (hd rows) = [] then v = View NoNumeric else (\<exists>c. v = Chart c \<and> xy_shape ''line'' cols rows c))"
| "widget_shows locale_str title cols rows W_bar v =
     (if numeric_in cols (hd rows) = [] then v = View NoNumeric else (\<exists>c. v = Chart c \<and> xy_shape ''bar-y'' cols rows c))"
| "widget_shows locale_str title cols rows W_histogram v =
     (if numeric_in cols (hd rows) = [] then v = View NoNumeric else (\<exists>c. v = Chart c \<and> xy_shape ''bar-y'' cols rows c))"
| "widget_shows locale_str title cols rows W_pie v =
     (if length cols < 2 then v = View NoNumeric else (\<exists>c. v = Chart c \<and> pie_shape rows c))"
| "widget_shows locale_str title cols rows W_heatmap v =
     (if length cols < 3 then v = View NoNumeric else (\<exists>c. v = Chart c \<and> heat_shape rows c))"
| "widget_shows locale_str title cols rows W_table v = (\<exists>w. v = View w \<and> view_text w = cols @ concat rows)"
| "widget_shows locale_str title cols rows W_log_viewer v = (\<exists>w. v = View w \<and> view_text w = concat rows)"
| "widget_shows locale_str title cols rows W_stat v =
     (if \<forall>i < length (hd rows). num (at_index (hd rows) i) = None then v = View NoNumeric
      else (\<exists>w i n. v = View w \<and> first_number (hd rows) i n \<and> view_text w = [locale_str n, label_at title cols i]))"
| "widget_shows locale_str title cols rows W_gauge v =
     (if \<forall>i < length (hd rows). num (at_index (hd rows) i) = None then v = View NoNumeric
      else (\<exists>i n. v = View (Gauge (label_at title cols i) n) \<and> first_number (hd rows) i n))"

lemma map_upt_nth: "map (\<lambda>i. f (xs ! i)) [0..<length xs] = map f xs"
  by (rule nth_equalityI) simp_all

text \<open>A line, bar or histogram chart: it is drawn exactly when the first row has a number after
  its first column; it has one series per such column, in the order of the columns and with its
  name, each series has one point per row whose \<open>y\<close> is the number in the cell (absent when the
  cell is not a number), and on a category axis the points stand at 0, 1, 2, ...\<close>

lemma numeric_idxs_row: "rows \<noteq> [] \<Longrightarrow> numeric_idxs cols rows = Inr (numeric_in cols (hd rows))"
proof -
  have "numeric_in cols row0 = []" if "length cols \<le> 1" for row0
    using that by (cases cols) (auto simp: numeric_in_def)
  then show "rows \<noteq> [] \<Longrightarrow> ?thesis" by (cases rows) (simp_all add: numeric_idxs_def)
qed

lemma xy_series_shape:
  assumes "qr_columns r = Some cols" and "cols \<noteq> []" and "qr_rows r = Some rows" and "rows \<noteq> []"
  shows "if numeric_in cols (hd rows) = [] then buildXYSeries date_parse r ty = Inr None
    else \<exists>c. buildXYSeries date_parse r ty = Inr (Some c) \<and> xy_shape ty cols rows c"
  using assms
  by (simp add: xy_shape_def buildXYSeries_def numeric_idxs_row Let_def list_all2_conv_all_nth list_all_iff
      map_upt_nth [where f = "\<lambda>r. num (at_index r _)"] o_def split: x_axis.split)

text \<open>Only the first row decides which columns are numeric: a column whose first cell is empty is
  not charted, although the comment of \<open>buildXYSeries\<close> promises every numeric column.\<close>

lemma xy_first_row_decides:
  "buildXYSeries date_parse (r\<lparr>qr_columns := Some [''t'', ''v''], qr_rows := Some [[''a'', []], [''b'', ''3''], [''c'', ''4'']]\<rparr>) ty = Inr None"
  by (simp add: buildXYSeries_def numeric_idxs_def numeric_in_def num_def upt_rec)

lemma js_index_of_member: "x \<in> set xs \<Longrightarrow> \<exists>i < length xs. js_index_of xs x = int i \<and> xs ! i = x"
  using index_of_member [of x xs] by (auto simp: js_index_of_def)

text \<open>A heatmap: the categories of both axes have no duplicates, and there is one cell per row,
  whose column index is the position of the row's first value on the x axis, whose y value is on
  the y axis, and whose value is the number in the third cell.\<close>

lemma heatmap_cells_on_axes:
  assumes "qr_columns r = Some cols" and "qr_rows r = Some rows"
  shows "\<exists>c. buildHeatmap r = Inr c \<and> heat_shape rows c"
proof -
  let ?xs = "uniq (map (\<lambda>r. at_index r 0) rows)"
  have "\<exists>i < length ?xs. js_index_of ?xs (at_index r 0) = int i \<and> ?xs ! i = at_index r 0"
    if "r \<in> set rows" for r
    by (rule js_index_of_member) (use that in simp)
  then show ?thesis using assms
    by (auto simp: buildHeatmap_def heat_shape_def Let_def list_all2_map2 list_all2_same)
qed

lemma pie_slices: "qr_rows r = Some rows \<Longrightarrow> \<exists>c. buildPie r = Inr c \<and> pie_shape rows c"
  by (auto simp: buildPie_def pie_shape_def list_all2_map2 list_all2_same split: option.split)

text \<open>Every number shown by a widget is finite.\<close>

lemma num_finite: "num v = Some n \<Longrightarrow> \<exists>a. n = Fin a"
  by (auto simp: num_def Let_def is_finite_iff split: option.splits if_splits dest: sym)

lemma gauge_c_value: "gauge_c = Fin (4421398595017775 / 2 ^ 44)"
proof -
  have "is_double (884279719003555 / 2 ^ 47)"
    by (rule is_double_frac [where m = 884279719003555 and k = 47]) simp_all
  moreover have "is_double (4421398595017775 / 2 ^ 44)"
    by (rule is_double_frac [where m = 4421398595017775 and k = 44]) simp_all
  ultimately show ?thesis using fl_exact by (simp add: gauge_c_def js_pi_def)
qed

text \<open>The arc of a gauge stays between nothing and the full circle for every number a cell can
  hold, and is the full circle or nothing outside 0 to 100.\<close>

lemma gauge_in_range:
  "\<exists>d. gauge_dash (Fin v) = Fin d \<and> 0 \<le> d \<and> js_le (Fin d) gauge_c \<and>
       gauge_dash (Fin (min v 0)) = Fin 0 \<and> gauge_dash (Fin (max v 100)) = gauge_c"
proof -
  define c :: rat where "c = 4421398595017775 / 2 ^ 44"
  have c: "gauge_c = Fin c" "0 \<le> c" by (simp_all add: gauge_c_value c_def)
  have cd: "is_double c" unfolding c_def
    by (rule is_double_frac [where m = 4421398595017775 and k = 44]) simp_all
  have 01: "is_double 0" "is_double 1" using is_double_int [of 0] is_double_int [of 1] by simp_all
  obtain p where p: "gauge_pct (Fin v) = Fin p" "0 \<le> p" "p \<le> 100"
    by (cases "100 \<le> v"; cases "0 \<le> v") (auto simp: gauge_pct_def js_max_def js_min_def)
  obtain q where q: "fl (p / 100) = Fin q" "0 \<le> q" "q \<le> 1"
    using fl_finite [OF 01, of "p / 100"] p by auto
  have "0 \<le> q * c" "q * c \<le> c" using q c(2) by (simp_all add: mult_left_le_one_le)
  then obtain d where d: "fl (q * c) = Fin d" "0 \<le> d" "d \<le> c"
    using fl_finite [OF 01(1) cd] by blast
  have "gauge_dash (Fin v) = Fin d" by (simp add: gauge_dash_def p q d c)
  moreover have "gauge_pct (Fin (min v 0)) = Fin 0" "gauge_pct (Fin (max v 100)) = Fin 100"
    by (auto simp: gauge_pct_def js_max_def js_min_def)
  moreover have "js_mul (Fin 0) gauge_c = Fin 0" "js_mul (Fin 1) gauge_c = gauge_c"
    using cd by (simp_all add: c(1) fl_exact)
  moreover have "js_le (Fin d) gauge_c" unfolding c(1) using d by simp
  ultimately show ?thesis using d fl_exact [OF 01(2)] by (simp add: gauge_dash_def)
qed

lemma concat_singletons [simp]: "concat (map (\<lambda>v. [v]) xs) = xs"
  by (induction xs) simp_all

lemma view_text_row [simp]: "view_text (table_row row) = row"
  by (simp add: table_row_def o_def)

text \<open>A table shows the header and then every cell of every row, in order, and the log list
  every cell of every row; nothing is dropped or added.\<close>

lemma tables_show_all_cells:
  assumes "qr_columns r = Some cols" and "cols \<noteq> []" and "qr_rows r = Some rows"
  shows "\<exists>w. ResultTable r = Inr w \<and> view_text w = cols @ concat rows"
    and "\<exists>w. LogViewer r = Inr w \<and> view_text w = concat rows"
proof -
  have "(\<lambda>row. map ((!) row) [0..<length row]) = (\<lambda>row :: string list. row)"
    by (simp add: map_nth)
  then show "\<exists>w. ResultTable r = Inr w \<and> view_text w = cols @ concat rows"
    "\<exists>w. LogViewer r = Inr w \<and> view_text w = concat rows"
    using assms by (simp_all add: ResultTable_def LogViewer_def Let_def o_def)
qed

text \<open>A stat or a gauge shows the first number of the first row with the name of its column
  (the widget's title when the row is longer than the header), and the message about a missing
  numeric column exactly when the row has no number.\<close>

lemma first_num_spec:
  "case first_num row of
     None \<Rightarrow> \<forall>i < length row. num (at_index row i) = None
   | Some i \<Rightarrow> i < length row \<and> (\<exists>n. first_number row i n)"
proof (cases "first_num row")
  case None
  then have "\<forall>x \<in> set row. num (Some x) = None" by (simp add: first_num_def find_index_None)
  then show ?thesis using None by (simp add: at_index_def)
next
  case (Some i)
  then have "i < length row" "num (Some (row ! i)) \<noteq> None" "\<forall>j < i. num (Some (row ! j)) = None"
    unfolding first_num_def by (auto dest: find_index_Some)
  then show ?thesis using Some by (auto simp: first_number_def list_all_iff at_index_def)
qed

lemma stat_shows_first_number:
  assumes "qr_columns r = Some cols" and "qr_rows r = Some rows" and "rows \<noteq> []"
  shows "\<exists>v. stat_or_gauge locale_str False title r = Inr v \<and> widget_shows locale_str title cols rows W_stat v"
    and "\<exists>v. stat_or_gauge locale_str True title r = Inr v \<and> widget_shows locale_str title cols rows W_gauge v"
proof -
  obtain row rest where r: "rows = row # rest" using assms(3) by (cases rows) auto
  note spec = first_num_spec [of row]
  have "(\<exists>v. stat_or_gauge locale_str False title r = Inr v \<and> widget_shows locale_str title cols rows W_stat v) \<and>
      (\<exists>v. stat_or_gauge locale_str True title r = Inr v \<and> widget_shows locale_str title cols rows W_gauge v)"
  proof (cases "first_num row")
    case None
    then show ?thesis using assms r spec by (simp add: stat_or_gauge_def)
  next
    case (Some i)
    then obtain n where n: "i < length row" "first_number row i n" using spec by auto
    then have "num (at_index row i) = Some n" by (simp add: first_number_def)
    moreover have "\<not> (\<forall>i < length row. num (at_index row i) = None)" using n calculation by auto
    moreover have "(case at_index cols i of Some c \<Rightarrow> c | None \<Rightarrow> title) = label_at title cols i"
      by (simp add: at_index_def label_at_def)
    ultimately show ?thesis using assms r Some n(2)
      by (auto simp: stat_or_gauge_def Let_def intro!: exI [of _ i] exI [of _ n])
  qed
  then show "\<exists>v. stat_or_gauge locale_str False title r = Inr v \<and> widget_shows locale_str title cols rows W_stat v"
    "\<exists>v. stat_or_gauge locale_str True title r = Inr v \<and> widget_shows locale_str title cols rows W_gauge v" by blast+
qed


end
