(* ===== verification/ExportCsv.thy ===== *)
theory ExportCsv
  imports Api
begin

section \<open>The CSV export of a query result (\<open>export.ts\<close>)\<close>

text \<open>
  \<open>esc\<close> is the quoting of a cell, \<open>export_lines\<close> the lines, \<open>exportCSV\<close> the effects in their order:
  the download of the file's bytes and the delayed release of its URL. \<open>csv_parse\<close> is a reference
  reader after RFC 4180 that takes a line feed alone for a line break too, as the file has it: fields are
  separated by commas, records by line breaks, the last one of which may be missing; a quoted field may hold
  anything, its quotes doubled; other uses of a quote are errors.
\<close>

definition csv_special :: "char \<Rightarrow> bool" where
  "csv_special c \<longleftrightarrow> c = CHR 0x22 \<or> c = CHR '','' \<or> c = CHR 0x0A"

definition esc :: "string \<Rightarrow> string" where
  "esc v =
     (if list_ex csv_special v then [CHR 0x22] @ replace_all (CHR 0x22) [CHR 0x22, CHR 0x22] v @ [CHR 0x22]
      else v)"

definition csv_line :: "string list \<Rightarrow> string" where
  "csv_line cells = join_on '','' (List.map esc cells)"

definition export_lines :: "query_result \<Rightarrow> js_exn + string list" where
  "export_lines r =
     (case qr_columns r of
        None \<Rightarrow> Inl TypeError
      | Some cols \<Rightarrow>
          if cols \<noteq> []
          then (case qr_rows r of
                  None \<Rightarrow> Inl TypeError
                | Some rows \<Rightarrow> Inr (csv_line cols # List.map csv_line rows))
          else (case qr_note r of
                  Some n \<Rightarrow> Inr (if n = [] then [] else [n])
                | None \<Rightarrow> Inr []))"

definition bom :: string where
  "bom = [CHR 0xEF, CHR 0xBB, CHR 0xBF]"

datatype export_effect =
    Download string string  \<comment> \<open>the file name and its bytes\<close>
  | RevokeUrlAfter nat      \<comment> \<open>milliseconds\<close>

definition exportCSV :: "query_result \<Rightarrow> string \<Rightarrow> js_exn + export_effect list" where
  "exportCSV r filename =
     ok_bind (export_lines r) (\<lambda>lines.
       Inr [Download filename (bom @ join_on [CHR 0x0A] lines), RevokeUrlAfter 1000])"

subsection \<open>The reference reader\<close>

text \<open>The rest of a quoted field, and what follows its closing quote.\<close>

fun csv_quoted :: "string \<Rightarrow> (string \<times> string) option" where
  "csv_quoted [] = None"
| "csv_quoted [c] = (if c = CHR 0x22 then Some ([], []) else None)"
| "csv_quoted (c # d # t) =
     (if c \<noteq> CHR 0x22 then map_option (apfst ((#) c)) (csv_quoted (d # t))
      else if d = CHR 0x22 then map_option (apfst ((#) (CHR 0x22))) (csv_quoted t)
      else Some ([], d # t))"

text \<open>A field without quotes: up to a comma, a line break (with or without a carriage return) or a quote.\<close>

fun csv_plain :: "string \<Rightarrow> string \<times> string" where
  "csv_plain [] = ([], [])"
| "csv_plain (c # t) =
     (if c = CHR '','' \<or> c = CHR 0x0A \<or> c = CHR 0x22 \<or> c = CHR 0x0D \<and> t \<noteq> [] \<and> hd t = CHR 0x0A then ([], c # t)
      else apfst ((#) c) (csv_plain t))"

definition csv_field :: "string \<Rightarrow> (string \<times> string) option" where
  "csv_field s = (if s \<noteq> [] \<and> hd s = CHR 0x22 then csv_quoted (tl s) else Some (csv_plain s))"

lemma csv_quoted_length: "csv_quoted s = Some (f, r) \<Longrightarrow> length r \<le> length s"
  by (induction s arbitrary: f r rule: csv_quoted.induct) (fastforce split: if_splits)+

lemma csv_plain_length: "length (snd (csv_plain s)) \<le> length s"
  by (induction s) auto

lemma csv_field_shrink: "csv_field s = Some (f, c # t) \<Longrightarrow> length t < length s"
  using csv_quoted_length [of "tl s" f "c # t"] csv_plain_length [of s]
  by (auto simp: csv_field_def split: if_splits)

text \<open>A line break at the end of the text ends the last record and begins no other.\<close>

function csv_parse :: "string \<Rightarrow> string list list option" where
  "csv_parse s =
     (case csv_field s of
        None \<Rightarrow> None
      | Some (f, []) \<Rightarrow> Some [[f]]
      | Some (f, c # t) \<Rightarrow>
          if c = CHR '','' then (case csv_parse t of Some (row # rows) \<Rightarrow> Some ((f # row) # rows) | _ \<Rightarrow> None)
          else if c = CHR 0x0A then (if t = [] then Some [[f]] else map_option ((#) [f]) (csv_parse t))
          else if c = CHR 0x0D \<and> t \<noteq> [] \<and> hd t = CHR 0x0A
          then (if tl t = [] then Some [[f]] else map_option ((#) [f]) (csv_parse (tl t)))
          else None)"
  by pat_completeness simp

termination
  by (relation "measure length") (auto simp: less_imp_diff_less dest!: csv_field_shrink)

declare csv_parse.simps [simp del]

subsection \<open>What the reader makes of an export\<close>

text \<open>A carriage return at the end of the last cell of a line is quoted only when the cell has a comma, a quote or a
  line feed; otherwise the reader takes it for a part of the line break.\<close>

definition drop_cr :: "string \<Rightarrow> string" where
  "drop_cr v = (if v \<noteq> [] \<and> last v = CHR 0x0D \<and> \<not> list_ex csv_special v then butlast v else v)"

definition line_read :: "string list \<Rightarrow> string list" where
  "line_read row = butlast row @ [drop_cr (last row)]"

lemma drop_cr_kept: "v = [] \<or> last v \<noteq> CHR 0x0D \<Longrightarrow> drop_cr v = v"
  by (auto simp: drop_cr_def)

text \<open>An empty line at the end is not a record.\<close>

fun csv_read_back :: "string list list \<Rightarrow> string list list" where
  "csv_read_back [] = []"
| "csv_read_back [row] = [row]"
| "csv_read_back (row # row2 # rows) =
     line_read row # (if row2 # rows = [[[]]] then [] else csv_read_back (row2 # rows))"

lemma csv_quoted_esc:
  "r = [] \<or> hd r \<noteq> CHR 0x22 \<Longrightarrow>
   csv_quoted (replace_all (CHR 0x22) [CHR 0x22, CHR 0x22] v @ CHR 0x22 # r) = Some (v, r)"
proof (induction v)
  case Nil
  then show ?case by (cases r) auto
next
  case (Cons c v)
  then show ?case by (cases "replace_all (CHR 0x22) [CHR 0x22, CHR 0x22] v @ CHR 0x22 # r") auto
qed

lemma csv_plain_comma: "\<not> list_ex csv_special v \<Longrightarrow> csv_plain (v @ CHR '','' # t) = (v, CHR '','' # t)"
proof (induction v)
  case (Cons c v)
  then show ?case by (cases v) (auto simp: csv_special_def)
qed simp

lemma csv_plain_end: "\<not> list_ex csv_special v \<Longrightarrow> csv_plain v = (v, [])"
proof (induction v)
  case (Cons c v)
  then show ?case by (cases v) (auto simp: csv_special_def)
qed simp

lemma csv_plain_newline:
  "\<not> list_ex csv_special v \<Longrightarrow>
   csv_plain (v @ CHR 0x0A # t) = (drop_cr v, (if drop_cr v = v then [] else [CHR 0x0D]) @ CHR 0x0A # t)"
proof (induction v)
  case (Cons c v)
  then show ?case by (cases v) (auto simp: csv_special_def drop_cr_def)
qed (simp add: drop_cr_def)

lemma field_plain: "\<not> list_ex csv_special v \<Longrightarrow> r \<noteq> [] \<Longrightarrow> hd r \<noteq> CHR 0x22 \<Longrightarrow> csv_field (v @ r) = Some (csv_plain (v @ r))"
  by (cases v) (auto simp: csv_field_def csv_special_def)

lemma field_quoted: "list_ex csv_special v \<Longrightarrow> r = [] \<or> hd r \<noteq> CHR 0x22 \<Longrightarrow> csv_field (esc v @ r) = Some (v, r)"
  by (simp add: esc_def csv_field_def csv_quoted_esc)

lemma field_comma: "csv_field (esc v @ CHR '','' # t) = Some (v, CHR '','' # t)"
proof (cases "list_ex csv_special v")
  case True
  then show ?thesis by (intro field_quoted) simp_all
next
  case False
  then show ?thesis by (simp add: field_plain esc_def [of v] csv_plain_comma)
qed

lemma field_end: "csv_field (esc v) = Some (v, [])"
proof (cases "list_ex csv_special v")
  case True
  then show ?thesis using field_quoted [of v "[]"] by simp
next
  case False
  then show ?thesis using csv_plain_end [OF False] by (cases v) (auto simp: esc_def csv_field_def csv_special_def)
qed

lemma field_newline:
  "csv_field (esc v @ CHR 0x0A # t) = Some (drop_cr v, (if drop_cr v = v then [] else [CHR 0x0D]) @ CHR 0x0A # t)"
proof (cases "list_ex csv_special v")
  case True
  then have "drop_cr v = v" by (simp add: drop_cr_def)
  then show ?thesis using True field_quoted [of v "CHR 0x0A # t"] by simp
next
  case False
  then show ?thesis by (simp add: field_plain esc_def [of v] csv_plain_newline)
qed

lemma csv_parse_comma:
  "csv_parse t = Some (row # rows) \<Longrightarrow> csv_parse (esc v @ CHR '','' # t) = Some ((v # row) # rows)"
  by (subst csv_parse.simps) (simp add: field_comma)

lemma csv_parse_newline:
  "csv_parse (esc v @ CHR 0x0A # t) = (if t = [] then Some [[drop_cr v]] else map_option ((#) [drop_cr v]) (csv_parse t))"
  by (subst csv_parse.simps) (simp add: field_newline)

lemma csv_parse_end: "csv_parse (esc v) = Some [[v]]"
  by (subst csv_parse.simps) (simp add: field_end)

lemma csv_parse_line: "cells \<noteq> [] \<Longrightarrow> csv_parse (csv_line cells) = Some [cells]"
proof (induction cells)
  case (Cons v cells)
  then show ?case by (cases cells) (simp_all add: csv_line_def csv_parse_end csv_parse_comma)
qed simp

lemma csv_parse_lines_step:
  assumes "cells \<noteq> []" and "t = [] \<or> csv_parse t = Some rest"
  shows "csv_parse (csv_line cells @ CHR 0x0A # t) = Some (line_read cells # (if t = [] then [] else rest))"
  using assms(1)
proof (induction cells)
  case (Cons v cells)
  show ?case
  proof (cases cells)
    case Nil
    then show ?thesis using assms(2) by (auto simp: csv_line_def csv_parse_newline line_read_def)
  next
    case (Cons w ws)
    then have "csv_parse (csv_line cells @ CHR 0x0A # t) = Some (line_read cells # (if t = [] then [] else rest))"
      using Cons.IH by simp
    from csv_parse_comma [OF this, of v] show ?thesis using Cons by (simp add: csv_line_def line_read_def)
  qed
qed simp

lemma esc_Nil: "esc v = [] \<longleftrightarrow> v = []"
  by (cases v) (simp_all add: esc_def)

lemma csv_line_Nil: "csv_line row = [] \<longleftrightarrow> row = [] \<or> row = [[]]"
proof (cases row)
  case (Cons v vs)
  then show ?thesis by (cases vs) (simp_all add: csv_line_def esc_Nil)
qed (simp add: csv_line_def)

lemma csv_parse_lines:
  "rows \<noteq> [] \<Longrightarrow> [] \<notin> set rows \<Longrightarrow>
   csv_parse (join_on [CHR 0x0A] (List.map csv_line rows)) = Some (csv_read_back rows)"
proof (induction rows rule: csv_read_back.induct)
  case (3 row row2 rows)
  let ?t = "join_on [CHR 0x0A] (List.map csv_line (row2 # rows))"
  have e: "?t = [] \<longleftrightarrow> row2 # rows = [[[]]]"
    using 3(3) by (cases rows) (auto simp: csv_line_Nil)
  have "?t = [] \<or> csv_parse ?t = Some (csv_read_back (row2 # rows))"
    using 3(1) e 3(3) by auto
  then have "csv_parse (csv_line row @ CHR 0x0A # ?t) =
      Some (line_read row # (if ?t = [] then [] else csv_read_back (row2 # rows)))"
    by (intro csv_parse_lines_step) (use 3(3) in auto)
  moreover have "join_on [CHR 0x0A] (List.map csv_line (row # row2 # rows)) = csv_line row @ CHR 0x0A # ?t" by simp
  ultimately show ?case by (simp only: e csv_read_back.simps)
qed (simp_all add: csv_parse_line)

lemma read_back_id:
  "\<forall>row \<in> set rows. drop_cr (last row) = last row \<Longrightarrow> [] \<notin> set rows \<Longrightarrow> length rows \<le> 1 \<or> last rows \<noteq> [[]] \<Longrightarrow>
   csv_read_back rows = rows"
proof (induction rows rule: csv_read_back.induct)
  case (3 row row2 rows)
  then have "row \<noteq> []" by auto
  then have "line_read row = row" using 3(2) append_butlast_last_id by (simp add: line_read_def)
  moreover have ne: "row2 # rows \<noteq> [[[]]]" using 3(4) by auto
  moreover have "csv_read_back (row2 # rows) = row2 # rows" by (rule 3(1) [OF ne]) (use 3(2-4) in auto)
  ultimately show ?case by (simp only: csv_read_back.simps if_False)
qed simp_all

text \<open>C28: the export of a tabular result is a byte-order mark followed by text that a reader after RFC 4180 reads as
  the header and the rows, cell by cell, whatever commas, quotes and line feeds the cells contain, with
  two exceptions, and those it states exactly: a carriage return at the end of a line's last cell
  is taken for a part of the line break when the cell was not quoted, and a last row of one empty cell
  is not a record. Without such a cell and such a row all comes back. No row is without cells.\<close>

theorem export_roundtrip:
  assumes "qr_columns r = Some cols" and "cols \<noteq> []" and "qr_rows r = Some rows" and "[] \<notin> set rows"
  shows "\<exists>text. exportCSV r name = Inr [Download name (bom @ text), RevokeUrlAfter 1000] \<and>
    csv_parse text = Some (csv_read_back (cols # rows)) \<and>
    ((\<forall>row \<in> set (cols # rows). last row = [] \<or> last (last row) \<noteq> CHR 0x0D) \<and> (rows = [] \<or> last rows \<noteq> [[]]) \<longrightarrow>
      csv_parse text = Some (cols # rows))"
proof -
  let ?text = "join_on [CHR 0x0A] (List.map csv_line (cols # rows))"
  have d: "exportCSV r name = Inr [Download name (bom @ ?text), RevokeUrlAfter 1000]"
    using assms by (simp add: exportCSV_def export_lines_def)
  have p: "csv_parse ?text = Some (csv_read_back (cols # rows))"
    using assms(2,4) by (intro csv_parse_lines) auto
  have id: "csv_read_back (cols # rows) = cols # rows"
    if h: "(\<forall>row \<in> set (cols # rows). last row = [] \<or> last (last row) \<noteq> CHR 0x0D) \<and> (rows = [] \<or> last rows \<noteq> [[]])"
  proof (rule read_back_id)
    show "\<forall>row \<in> set (cols # rows). drop_cr (last row) = last row" using conjunct1 [OF h] drop_cr_kept by blast
    show "[] \<notin> set (cols # rows)" using assms(2,4) by simp
    show "length (cols # rows) \<le> 1 \<or> last (cols # rows) \<noteq> [[]]" using conjunct2 [OF h] by auto
  qed
  show ?thesis by (rule exI [of _ ?text], intro conjI impI) (rule d, rule p, rule trans [OF p], rule arg_cong [where f = Some], rule id)
qed

definition export_sample :: query_result where
  "export_sample = \<lparr>qr_type = Some ''select'', qr_columns = Some [''a'', ''b,c''],
     qr_rows = Some [[''x'', [CHR 0x22, CHR 0x0A]], [[], '', '']], qr_affected = None, qr_note = None\<rparr>"

theorem export_roundtrip_witness:
  "\<exists>text. exportCSV export_sample ''r.csv'' = Inr [Download ''r.csv'' (bom @ text), RevokeUrlAfter 1000] \<and>
          csv_parse text = Some [[''a'', ''b,c''], [''x'', [CHR 0x22, CHR 0x0A]], [[], '', '']]"
proof -
  have s: "qr_columns export_sample = Some [''a'', ''b,c'']" "qr_rows export_sample = Some [[''x'', [CHR 0x22, CHR 0x0A]], [[], '', '']]"
    by (simp_all add: export_sample_def)
  from export_roundtrip [OF s(1) _ s(2), of "''r.csv''"] show ?thesis by auto
qed

text \<open>A cell that ends in a carriage return loses it, and a last row with one empty cell is lost.\<close>

lemma export_loses:
  "csv_parse (join_on [CHR 0x0A] (List.map csv_line [[''a''], [''x'' @ [CHR 0x0D]], [''y'']])) = Some [[''a''], [''x''], [''y'']]"
  "csv_parse (join_on [CHR 0x0A] (List.map csv_line [[''a''], [[]]])) = Some [[''a'']]"
  using csv_parse_lines [of "[[''a''], [''x'' @ [CHR 0x0D]], [''y'']]"] csv_parse_lines [of "[[''a''], [[]]]"]
  by (simp_all add: line_read_def drop_cr_def csv_special_def)

text \<open>The other outcomes of an export: a result without columns gives its note alone, and a
  result whose column list is missing throws before any download starts.\<close>

lemma export_other_results:
  "exportCSV (r\<lparr>qr_columns := Some [], qr_note := n\<rparr>) name =
     Inr [Download name (bom @ (case n of Some t \<Rightarrow> t | None \<Rightarrow> [])), RevokeUrlAfter 1000] \<and>
   exportCSV (r\<lparr>qr_columns := None\<rparr>) name = Inl TypeError"
  by (simp add: exportCSV_def export_lines_def split: option.split)

end
