(* ===== verification/SqlPage.thy ===== *)
theory SqlPage
  imports Widgets ExportCsv
begin

section \<open>The SQL page (\<open>pages/Sql.tsx\<close>)\<close>

text \<open>
  One query at a time: the text, the result shown, the error shown and whether a query runs. The
  handler \<open>run\<close> is split at its \<open>await\<close>: \<open>RunClick\<close> sends the request, \<open>QueryAnswer\<close> is the rest.
  A click is ignored while the button is disabled. The requests sent are logged. Rendering is a
  function to \<open>js_exn + view\<close>: an exception while rendering takes the whole console down.
\<close>

definition sample_sql :: string where
  "sample_sql =
     ''SELECT time_bucket('' @ [CHR 0x27] @ ''1h'' @ [CHR 0x27] @ '', ts) AS bucket, COUNT(*) AS rows, COUNT_IF(level = '' @
     [CHR 0x27] @ ''ERROR'' @ [CHR 0x27] @ '') AS errors'' @ [CHR 0x0A] @ ''FROM logs'' @ [CHR 0x0A] @
     ''GROUP BY time_bucket('' @ [CHR 0x27] @ ''1h'' @ [CHR 0x27] @ '', ts)''"

definition template_opt :: "string option \<Rightarrow> string" where
  "template_opt v = (case v of Some s \<Rightarrow> s | None \<Rightarrow> ''undefined'')"

definition formatAffected :: "query_result \<Rightarrow> string" where
  "formatAffected r =
     template_opt (qr_type r) @ '' '' @ em_dash @ '' '' @
     template_opt (map_option num_to_string (qr_affected r)) @ '' row(s)''"

record sql_page =
  sq_sql :: string
  sq_rows :: "query_result option"
  sq_loading :: bool
  sq_error :: string
  sq_log :: "http_request list"
  sq_exports :: "(js_exn + export_effect list) list"

definition sql_mount :: sql_page where
  "sql_mount = \<lparr>sq_sql = sample_sql, sq_rows = None, sq_loading = False, sq_error = [], sq_log = [],
     sq_exports = []\<rparr>"

datatype sql_event =
    SqlEdit string
  | RunClick
  | QueryAnswer "js_exn + query_result option"
  | ExportClick

definition run_query :: "sql_page \<Rightarrow> sql_page" where
  "run_query s = s\<lparr>sq_loading := True, sq_error := [], sq_log := sq_log s @ [api_query (sq_sql s)]\<rparr>"

definition query_answer :: "js_exn + query_result option \<Rightarrow> sql_page \<Rightarrow> sql_page" where
  "query_answer r s =
     (case r of
        Inr rows \<Rightarrow> s\<lparr>sq_rows := rows, sq_loading := False\<rparr>
      | Inl e \<Rightarrow> s\<lparr>sq_error := exn_message e, sq_rows := None, sq_loading := False\<rparr>)"

fun sql_step :: "sql_page \<Rightarrow> sql_event \<Rightarrow> sql_page" where
  "sql_step s (SqlEdit t) = s\<lparr>sq_sql := t\<rparr>"
| "sql_step s RunClick = (if sq_loading s then s else run_query s)"
| "sql_step s (QueryAnswer r) = (if sq_loading s then query_answer r s else s)"
| "sql_step s ExportClick =
     (case sq_rows s of
        None \<Rightarrow> s
      | Some r \<Rightarrow> s\<lparr>sq_exports := sq_exports s @ [exportCSV r ''query.csv'']\<rparr>)"

definition SqlPage :: "sql_page \<Rightarrow> js_exn + sql_event view" where
  "SqlPage s =
     (let head =
        [Elem ''Text'' [] [Text ''SQL''],
         Elem ''textarea'' [(''value'', Str (sq_sql s)), (''onChange'', OnValue SqlEdit)] [],
         Elem ''div'' []
           ([Elem ''Button'' [(''disabled'', Flag (sq_loading s)), (''onClick'', On RunClick)]
               [Text (if sq_loading s then ''Running'' @ [CHR 0xE2, CHR 0x80, CHR 0xA6] else ''Run'')]] @
            shown (sq_error s \<noteq> [])
              (Elem ''Alert'' [(''title'', Str ''Query failed''), (''message'', Str (sq_error s))] []))]
      in case sq_rows s of
           None \<Rightarrow> Inr (Elem ''div'' [] head)
         | Some r \<Rightarrow>
             ok_bind (ResultTable r) (\<lambda>t.
               Inr (Elem ''div'' [] (head @
                 [Elem ''div'' []
                    [Elem ''Text'' [] [Text (formatAffected r)],
                     Elem ''Button'' [(''onClick'', On ExportClick)] [Text ''Export CSV'']], t]))))"

subsection \<open>Properties\<close>

definition sql_inv :: "sql_page \<Rightarrow> bool" where
  "sql_inv s \<longleftrightarrow> (sq_loading s \<longrightarrow> sq_error s = []) \<and> (sq_error s \<noteq> [] \<longrightarrow> sq_rows s = None)"

definition is_query :: "http_request \<Rightarrow> bool" where
  "is_query r \<longleftrightarrow> (\<exists>q. r = api_query q)"

interpretation sql_machine: logging_machine sql_mount sql_step sql_inv sq_log is_query
proof
  show "sql_inv sql_mount" by (simp add: sql_inv_def sql_mount_def)
  show "sq_log sql_mount = []" by (simp add: sql_mount_def)
  fix s e
  assume "sql_inv s"
  then show "sql_inv (sql_step s e)"
    by (cases e) (auto simp: sql_inv_def run_query_def query_answer_def split: sum.split option.split)
  show "\<exists>new. sq_log (sql_step s e) = sq_log s @ new \<and> list_all is_query new"
    by (cases e) (auto simp: run_query_def query_answer_def is_query_def split: sum.split option.split)
qed

text \<open>Over any run of the SQL page an error and a result are never shown together, and the answer
  of a running query replaces both: its result with no error, or its error message with no result;
  either way the page can run the next query.\<close>

lemma sql_answer_shown:
  "let s = run sql_step sql_mount es; t = sql_step s (QueryAnswer r)
   in (sq_error s = [] \<or> sq_rows s = None) \<and>
      (sq_loading s \<longrightarrow>
       (sq_rows t, sq_error t, sq_loading t) =
         (case r of Inr q \<Rightarrow> (q, [], False) | Inl e \<Rightarrow> (None, exn_message e, False)))"
  using sql_machine.inv_reachable [of es]
  by (auto simp: sql_inv_def Let_def query_answer_def split: sum.split)

text \<open>A query that fails after one that was answered.\<close>

lemma sql_answer_shown_witness:
  "let s = run sql_step sql_mount [RunClick, QueryAnswer (Inr None), RunClick, QueryAnswer (Inl (ErrorMsg ''boom''))]
   in (sq_rows s, sq_error s, sq_loading s) = (None, ''boom'', False)"
proof -
  have "sq_loading (run sql_step sql_mount [RunClick, QueryAnswer (Inr None), RunClick])"
    by (simp add: sql_mount_def run_query_def query_answer_def)
  then show ?thesis
    using sql_answer_shown [of "[RunClick, QueryAnswer (Inr None), RunClick]" "Inl (ErrorMsg ''boom'')"]
    by (simp only: Let_def) (simp add: run_def)
qed

text \<open>Requests: one for each click that finds the button enabled, with the text of that moment.\<close>

fun sent_by :: "sql_page \<Rightarrow> sql_event list \<Rightarrow> string list" where
  "sent_by s [] = []"
| "sent_by s (e # es) =
     (if e = RunClick \<and> \<not> sq_loading s then [sq_sql s] else []) @ sent_by (sql_step s e) es"

lemma sql_log_from: "sq_log (run sql_step s es) = sq_log s @ map api_query (sent_by s es)"
proof (induction es arbitrary: s)
  case Nil
  then show ?case by simp
next
  case (Cons e es)
  then show ?case
    by (cases e) (auto simp: run_query_def query_answer_def split: sum.split option.split)
qed

definition answers_in :: "sql_event list \<Rightarrow> nat" where
  "answers_in es = length (filter (\<lambda>e. case e of QueryAnswer r \<Rightarrow> True | _ \<Rightarrow> False) es)"

lemma sent_by_count:
  "length (sent_by s es) \<le> answers_in es + (if sq_loading s then 0 else 1)"
proof (induction es arbitrary: s)
  case Nil
  then show ?case by (simp add: answers_in_def)
next
  case (Cons e es)
  show ?case using Cons [of "sql_step s e"]
    by (cases e) (auto simp: answers_in_def run_query_def query_answer_def split: sum.splits option.splits if_splits)
qed

lemma ResultTable_no_actions: "ResultTable r = Inr v \<Longrightarrow> actions v = {}"
  by (auto simp: ResultTable_def js_deref_def ok_bind_def view_simps table_row_def split: option.splits if_splits)

lemma ResultTable_error: "ResultTable r = Inl e \<Longrightarrow> e = TypeError"
  by (auto simp: ResultTable_def js_deref_def ok_bind_def split: option.splits if_splits)

lemma sql_page_button:
  "case SqlPage s of Inr v \<Rightarrow> (RunClick \<in> actions v) = (\<not> sq_loading s) | Inl e \<Rightarrow> e = TypeError"
proof (cases "sq_rows s")
  case None
  then show ?thesis by (auto simp: SqlPage_def Let_def view_simps)
next
  case (Some r)
  then show ?thesis using ResultTable_no_actions [of r] ResultTable_error [of r]
    by (cases "ResultTable r :: js_exn + sql_event view") (auto simp: SqlPage_def Let_def view_simps)
qed

text \<open>Every request the page sends is a query with the text in the editor at the time of the click,
  and there is never more than one in flight: at most one more is sent than were answered.\<close>

lemma sql_one_query_at_a_time:
  "sq_log (run sql_step sql_mount es) = map api_query (sent_by sql_mount es) \<and>
   length (sq_log (run sql_step sql_mount es)) \<le> answers_in es + 1 \<and>
   (case SqlPage s of Inr v \<Rightarrow> (RunClick \<in> actions v) = (\<not> sq_loading s) | Inl e \<Rightarrow> e = TypeError)"
proof -
  have "sq_log (run sql_step sql_mount es) = map api_query (sent_by sql_mount es)"
    using sql_log_from [of sql_mount es] by (simp add: sql_mount_def)
  moreover have "length (sent_by sql_mount es) \<le> answers_in es + 1"
    using sent_by_count [of sql_mount es] by (auto split: if_splits)
  ultimately show ?thesis using sql_page_button [of s] by simp
qed

text \<open>A statement without a result set has no column list: the page throws while it renders the answer.\<close>

lemma sql_page_crashes:
  "sq_rows s = Some r \<Longrightarrow> qr_columns r = None \<Longrightarrow> SqlPage s = Inl TypeError"
  by (simp add: SqlPage_def ResultTable_def Let_def)

end
