(* ===== verification/JsDate.thy ===== *)
theory JsDate
  imports JsConvert
begin

section \<open>Instants as text\<close>

text \<open>
  \<open>new Date(ms).toISOString()\<close> for an integral number of milliseconds since 1970: the proleptic
  Gregorian calendar date of the day and the time within the day, in UTC. A time outside the
  range of \<open>Date\<close> throws \<open>RangeError\<close>. \<open>Date.parse\<close> falls back to rules of the host for text that
  is not in this format (and to the local time zone), so it stays a parameter of the theories
  that use it.
\<close>

definition ms_per_day :: int where
  "ms_per_day = 86400000"

definition max_date :: int where
  "max_date = 8640000000000000"

text \<open>The date of a day number: years are counted from March, in eras of 400 years.\<close>

definition year_of_era :: "int \<Rightarrow> int" where
  "year_of_era doe = (doe - doe div 1460 + doe div 36524 - doe div 146096) div 365"

definition civil_of_days :: "int \<Rightarrow> int \<times> int \<times> int" where
  "civil_of_days days =
     (let z = days + 719468; era = z div 146097; doe = z mod 146097; yoe = year_of_era doe;
          doy = doe - (365 * yoe + yoe div 4 - yoe div 100);
          mp = (5 * doy + 2) div 153;
          d = doy - (153 * mp + 2) div 5 + 1;
          m = (if mp < 10 then mp + 3 else mp - 9)
      in (yoe + era * 400 + (if m \<le> 2 then 1 else 0), m, d))"

definition pad :: "nat \<Rightarrow> int \<Rightarrow> string" where
  "pad w n = (let s = nat_str (nat n) in repeat_char (w - length s) CHR ''0'' @ s)"

definition year_str :: "int \<Rightarrow> string" where
  "year_str y = (if 0 \<le> y \<and> y \<le> 9999 then pad 4 y
                 else (if y < 0 then ''-'' else ''+'') @ pad 6 \<bar>y\<bar>)"

definition iso_of_ms :: "int \<Rightarrow> string" where
  "iso_of_ms ms =
     (let (y, m, d) = civil_of_days (ms div ms_per_day); t = ms mod ms_per_day
      in year_str y @ ''-'' @ pad 2 m @ ''-'' @ pad 2 d @ ''T'' @
         pad 2 (t div 3600000) @ '':'' @ pad 2 (t div 60000 mod 60) @ '':'' @
         pad 2 (t div 1000 mod 60) @ ''.'' @ pad 3 (t mod 1000) @ ''Z'')"

definition toISOString :: "int \<Rightarrow> js_exn + string" where
  "toISOString ms = (if \<bar>ms\<bar> \<le> max_date then Inr (iso_of_ms ms) else Inl RangeError)"

definition digit_char :: "char \<Rightarrow> bool" where
  "digit_char c \<longleftrightarrow> 48 \<le> byte_of c \<and> byte_of c \<le> 57"

definition iso_char :: "char \<Rightarrow> bool" where
  "iso_char c \<longleftrightarrow> digit_char c \<or> c \<in> set ''-+:.TZ''"

lemma digit_char_of: "(n :: nat) < 10 \<Longrightarrow> digit_char (char_of (48 + n))"
  by (simp add: digit_char_def)

lemma nat_str_digits: "list_all digit_char (nat_str n)"
proof (induction n rule: nat_str.induct)
  case (1 n)
  then show ?case
    by (cases "n < 10") (simp_all add: nat_str.simps [of n] digit_char_of)
qed

lemma pad_digits: "list_all digit_char (pad w n)"
  using nat_str_digits [of "nat n"] by (auto simp: pad_def Let_def repeat_char_def list_all_iff digit_char_def)

text \<open>A formatted instant never contains a quote, so it is safe inside a SQL literal.\<close>

lemma iso_pad: "list_all iso_char (pad w n)"
  using pad_digits by (simp add: list_all_iff iso_char_def)

lemma iso_year: "list_all iso_char (year_str y)"
  by (simp add: year_str_def iso_pad iso_char_def)

lemma iso_chars: "list_all iso_char (iso_of_ms ms)"
  by (simp add: iso_of_ms_def Let_def iso_pad iso_year split: prod.split) (simp add: iso_char_def)

lemma iso_no_quote: "CHR 0x27 \<notin> set (iso_of_ms ms)"
proof
  assume "CHR 0x27 \<in> set (iso_of_ms ms)"
  then have "iso_char CHR 0x27" using iso_chars [of ms] by (simp add: list_all_iff)
  then show False by (simp add: iso_char_def digit_char_def)
qed

end
