(* ===== verification/Logs.thy ===== *)
theory Logs
  imports Widgets ExportCsv JsDate
begin

section \<open>The log explorer (\<open>pages/Logs.tsx\<close>)\<close>

text \<open>
  The state of the page, its filters and the two effects they drive: a refresh (two queries sent
  together) whenever the table, the time column, the searched columns, the range or the query
  changes, and a live tail that is closed and opened again with them. A handler that reads the
  clock gets it from its event. The requests in flight, the open stream and every request sent are
  part of the state. The clock is a valid time value, as \<open>Date.now()\<close> is, so \<open>toISOString\<close>
  does not throw.
\<close>

record log_range =
  rg_label :: string
  rg_seconds :: int
  rg_bucket :: string

definition RANGES :: "log_range list" where
  "RANGES =
     [\<lparr>rg_label = ''5m'', rg_seconds = 300, rg_bucket = ''10s''\<rparr>,
      \<lparr>rg_label = ''15m'', rg_seconds = 900, rg_bucket = ''1m''\<rparr>,
      \<lparr>rg_label = ''1h'', rg_seconds = 3600, rg_bucket = ''5m''\<rparr>,
      \<lparr>rg_label = ''6h'', rg_seconds = 21600, rg_bucket = ''30m''\<rparr>,
      \<lparr>rg_label = ''24h'', rg_seconds = 86400, rg_bucket = ''2h''\<rparr>]"

definition ROW_HEIGHT :: jsnum where "ROW_HEIGHT = Fin 26"
definition LIST_LIMIT :: nat where "LIST_LIMIT = 500"

definition isoAgo :: "int \<Rightarrow> int \<Rightarrow> string" where
  "isoAgo now seconds = iso_of_ms (now - seconds * 1000)"

definition escapeLike :: "string \<Rightarrow> string" where
  "escapeLike q = filter (\<lambda>c. c \<noteq> CHR ''%'' \<and> c \<noteq> CHR ''_'') q"

definition first_name :: "column_info list \<Rightarrow> string" where
  "first_name cols = (case cols of c # cs \<Rightarrow> col_name c | [] \<Rightarrow> [])"

definition time_column :: "column_info list \<Rightarrow> string" where
  "time_column cols =
     (case List.find (\<lambda>c. primary c \<and> col_type c = ''timestamp'') cols of
        Some c \<Rightarrow> col_name c
      | None \<Rightarrow> (case List.find (\<lambda>c. col_type c = ''timestamp'') cols of
                   Some c \<Rightarrow> col_name c
                 | None \<Rightarrow> first_name cols))"

definition findExplorerCols :: "column_info list \<Rightarrow> string \<times> string list" where
  "findExplorerCols cols =
     (let time = time_column cols;
          search = map col_name (filter (\<lambda>c. col_name c \<noteq> time \<and> col_type c = ''string'') cols)
      in (if search = [] then first_name cols else time, search))"

definition quoted :: "string \<Rightarrow> string" where
  "quoted s = [CHR 0x27] @ s @ [CHR 0x27]"

definition histSQL :: "string \<Rightarrow> string \<Rightarrow> string \<Rightarrow> string \<Rightarrow> string" where
  "histSQL table time cond bucket =
     ''SELECT time_bucket('' @ quoted bucket @ '', '' @ time @ '') AS bucket, COUNT(*) AS n FROM '' @ table @
     '' WHERE '' @ cond @ '' GROUP BY time_bucket('' @ quoted bucket @ '', '' @ time @ '')''"

definition like_cond :: "string \<Rightarrow> string \<Rightarrow> string" where
  "like_cond like c = c @ '' LIKE '' @ quoted (''%'' @ like @ ''%'')"

definition nul :: char where "nul = CHR 0x00"

definition buildWhere :: "int \<Rightarrow> string \<Rightarrow> string \<Rightarrow> log_range \<Rightarrow> string \<Rightarrow> string \<Rightarrow> string" where
  "buildWhere now upperIso time rng query searchCols =
     join_on '' AND ''
       ([time @ '' >= '' @ quoted (isoAgo now (rg_seconds rng)), time @ '' < '' @ quoted upperIso] @
        (if query \<noteq> [] \<and> searchCols \<noteq> []
         then [''('' @ join_on '' OR '' (map (like_cond (escapeLike query)) (split_on nul searchCols)) @ '')'']
         else []))"

definition listSQL :: "string \<Rightarrow> string \<Rightarrow> string \<Rightarrow> string" where
  "listSQL table time cond =
     ''SELECT * FROM '' @ table @ '' WHERE '' @ cond @ '' ORDER BY '' @ time @ '' DESC LIMIT '' @ nat_str LIST_LIMIT"

subsection \<open>State\<close>

record hist_point =
  hp_x :: "string option"
  hp_y :: jsnum

record log_state =
  ls_columns :: "string list option"
  ls_rows :: "string list list option"

record log_tail =
  tl_list :: string
  tl_hist :: string
  tl_tick :: nat

text \<open>What a refresh or a tail depends on: the dependency list of \<open>buildWhere\<close> and \<open>refresh\<close>.\<close>

type_synonym filters = "string \<times> string \<times> string \<times> log_range \<times> string"

record logs =
  lg_tables :: "table_info list"
  lg_tableErr :: string
  lg_table :: string
  lg_range :: log_range
  lg_query :: string
  lg_state :: "log_state option"
  lg_hist :: "hist_point list"
  lg_error :: string
  lg_loading :: bool
  lg_live :: bool
  lg_tailErr :: string
  lg_scroll :: jsnum
  lg_refreshes :: "filters list"     \<comment> \<open>refreshes in flight, oldest first\<close>
  lg_asked :: "filters option"       \<comment> \<open>what the newest refresh asked for\<close>
  lg_tail :: "(filters \<times> log_tail) option"
  lg_histqs :: nat                   \<comment> \<open>histogram queries of the tail in flight\<close>
  lg_log :: "http_request list"
  lg_exports :: "(js_exn + export_effect list) list"

definition logs_mount :: logs where
  "logs_mount =
     \<lparr>lg_tables = [], lg_tableErr = [], lg_table = [], lg_range = RANGES ! 2, lg_query = [], lg_state = None,
      lg_hist = [], lg_error = [], lg_loading = False, lg_live = False, lg_tailErr = [], lg_scroll = Fin 0,
      lg_refreshes = [], lg_asked = None, lg_tail = None, lg_histqs = 0, lg_log = [api_tables], lg_exports = []\<rparr>"

definition explorer_cols :: "logs \<Rightarrow> string \<times> string list" where
  "explorer_cols s =
     findExplorerCols (case List.find (\<lambda>t. tbl_name t = lg_table s) (lg_tables s) of
        Some t \<Rightarrow> tbl_columns t | None \<Rightarrow> [])"

definition filters_of :: "logs \<Rightarrow> filters" where
  "filters_of s =
     (lg_table s, fst (explorer_cols s), join_on [nul] (snd (explorer_cols s)), lg_range s, lg_query s)"

definition where_of :: "int \<Rightarrow> string \<Rightarrow> filters \<Rightarrow> string" where
  "where_of now upperIso f = (case f of (table, time, searchCols, rng, query) \<Rightarrow>
     buildWhere now upperIso time rng query searchCols)"

definition list_sql :: "int \<Rightarrow> string \<Rightarrow> filters \<Rightarrow> string" where
  "list_sql now upperIso f = (case f of (table, time, _) \<Rightarrow> listSQL table time (where_of now upperIso f))"

definition hist_sql :: "int \<Rightarrow> string \<Rightarrow> filters \<Rightarrow> string" where
  "hist_sql now upperIso f = (case f of (table, time, searchCols, rng, query) \<Rightarrow>
     histSQL table time (where_of now upperIso f) (rg_bucket rng))"

subsection \<open>Refresh and live tail\<close>

definition refresh_start :: "int \<Rightarrow> logs \<Rightarrow> logs" where
  "refresh_start now s =
     (if lg_table s = [] then s
      else let f = filters_of s; up = iso_of_ms now
           in s\<lparr>lg_loading := True, lg_error := [], lg_refreshes := lg_refreshes s @ [f], lg_asked := Some f,
                lg_log := lg_log s @ [api_query (list_sql now up f), api_query (hist_sql now up f)]\<rparr>)"

definition hist_of :: "query_result \<Rightarrow> hist_point list" where
  "hist_of r =
     map (\<lambda>row. \<lparr>hp_x = at_index row 0,
                 hp_y = (case at_index row 1 of Some v \<Rightarrow> to_number v | None \<Rightarrow> Fin 0)\<rparr>)
       (case qr_rows r of Some rows \<Rightarrow> rows | None \<Rightarrow> [])"

text \<open>The rest of \<open>refresh\<close> after its \<open>await\<close>; a missing \<open>result\<close> throws where it is read.\<close>

definition refresh_done ::
    "nat \<Rightarrow> js_exn + query_result option \<times> query_result option \<Rightarrow> logs \<Rightarrow> logs" where
  "refresh_done i outcome s =
     (if length (lg_refreshes s) \<le> i then s
      else
        let s0 = s\<lparr>lg_refreshes := take i (lg_refreshes s) @ drop (Suc i) (lg_refreshes s), lg_loading := False\<rparr>
        in case outcome of
             Inl e \<Rightarrow> s0\<lparr>lg_error := exn_message e\<rparr>
           | Inr (None, h) \<Rightarrow> s0\<lparr>lg_error := exn_message TypeError\<rparr>
           | Inr (Some l, None) \<Rightarrow>
               s0\<lparr>lg_state := Some \<lparr>ls_columns = qr_columns l, ls_rows = qr_rows l\<rparr>,
                  lg_error := exn_message TypeError\<rparr>
           | Inr (Some l, Some h) \<Rightarrow>
               s0\<lparr>lg_state := Some \<lparr>ls_columns = qr_columns l, ls_rows = qr_rows l\<rparr>, lg_hist := hist_of h\<rparr>)"

text \<open>The second effect: the cleanup closes the open stream, then a new one is opened.\<close>

definition retail :: "int \<Rightarrow> logs \<Rightarrow> logs" where
  "retail now s =
     (if \<not> lg_live s \<or> lg_table s = [] then s\<lparr>lg_tail := None\<rparr>
      else let f = filters_of s; up = iso_of_ms (now + 3600 * 1000);
               t = \<lparr>tl_list = list_sql now up f, tl_hist = hist_sql now up f, tl_tick = 0\<rparr>
           in s\<lparr>lg_tail := Some (f, t), lg_log := lg_log s @ [get_req (tail_url (tl_list t) (Fin 2))]\<rparr>)"

definition frame_ok :: "json \<Rightarrow> query_result option" where
  "frame_ok frame =
     (if js_truthy (prop_of frame ''ok'') \<and> js_truthy (prop_of frame ''result'') then answer_result frame else None)"

definition on_frame :: "json \<Rightarrow> logs \<Rightarrow> logs" where
  "on_frame frame s =
     (case lg_tail s of
        None \<Rightarrow> s
      | Some (f, t) \<Rightarrow>
          if frame = JNull then s
          else
            let s1 = (case frame_ok frame of
                        Some r \<Rightarrow> s\<lparr>lg_state := Some \<lparr>ls_columns = qr_columns r, ls_rows = qr_rows r\<rparr>\<rparr>
                      | None \<Rightarrow> s);
                s2 = s1\<lparr>lg_tail := Some (f, t\<lparr>tl_tick := Suc (tl_tick t)\<rparr>)\<rparr>
            in if tl_tick t mod 3 = 0
               then s2\<lparr>lg_histqs := Suc (lg_histqs s), lg_log := lg_log s @ [api_query (tl_hist t)]\<rparr>
               else s2)"

text \<open>Both effects after a state change, in their order; each runs when its dependencies changed.\<close>

definition run_effects :: "int \<Rightarrow> logs \<Rightarrow> logs \<Rightarrow> logs" where
  "run_effects now old s =
     (let s1 = (if filters_of s \<noteq> filters_of old then refresh_start now s else s)
      in if filters_of s \<noteq> filters_of old \<or> lg_live s \<noteq> lg_live old then retail now s1 else s1)"

subsection \<open>Events\<close>

definition name_has_log :: "string \<Rightarrow> bool" where
  "name_has_log n = str_includes (to_lower n) ''log''"

definition tables_loaded :: "js_exn + table_info list \<Rightarrow> logs \<Rightarrow> logs" where
  "tables_loaded outcome s =
     (case outcome of
        Inl e \<Rightarrow> s\<lparr>lg_tableErr := exn_message e\<rparr>
      | Inr ts \<Rightarrow>
          (case ts of
             [] \<Rightarrow> s\<lparr>lg_tables := []\<rparr>
           | t0 # _ \<Rightarrow>
               let preferred = (case List.find (\<lambda>t. name_has_log (tbl_name t)) ts of Some t \<Rightarrow> t | None \<Rightarrow> t0)
               in s\<lparr>lg_tables := ts,
                    lg_table := (if lg_table s = [] then tbl_name preferred else lg_table s)\<rparr>))"

datatype logs_event =
    LgTables "js_exn + table_info list"
  | LgPickTable string
  | LgPickRange log_range
  | LgQuery string
  | LgRefresh
  | LgRefreshDone nat "js_exn + query_result option \<times> query_result option"
  | LgLive bool
  | LgFrame json
  | LgTailError
  | LgHistDone "js_exn + query_result option"
  | LgScroll jsnum
  | LgExport

definition export_logs :: "logs \<Rightarrow> logs" where
  "export_logs s =
     (case lg_state s of
        None \<Rightarrow> s
      | Some st \<Rightarrow>
          s\<lparr>lg_exports := lg_exports s @
            [exportCSV \<lparr>qr_type = Some ''select'', qr_columns = ls_columns st, qr_rows = ls_rows st,
               qr_affected = Some (Fin 0), qr_note = Some []\<rparr> (lg_table s @ ''.csv'')]\<rparr>)"

fun logs_handle :: "int \<Rightarrow> logs \<Rightarrow> logs_event \<Rightarrow> logs" where
  "logs_handle now s (LgTables r) = tables_loaded r s"
| "logs_handle now s (LgPickTable t) = (if t = [] then s else s\<lparr>lg_table := t\<rparr>)"
| "logs_handle now s (LgPickRange r) = s\<lparr>lg_range := r\<rparr>"
| "logs_handle now s (LgQuery q) = s\<lparr>lg_query := q\<rparr>"
| "logs_handle now s LgRefresh = (if lg_loading s then s else refresh_start now s)"
| "logs_handle now s (LgRefreshDone i r) = refresh_done i r s"
| "logs_handle now s (LgLive b) = s\<lparr>lg_tailErr := [], lg_live := b\<rparr>"
| "logs_handle now s (LgFrame f) = on_frame f s"
| "logs_handle now s LgTailError =
     (if lg_tail s = None then s else s\<lparr>lg_tailErr := ''Live tail disconnected'', lg_live := False\<rparr>)"
| "logs_handle now s (LgHistDone r) =
     (if lg_histqs s = 0 then s
      else (case r of
              Inr (Some h) \<Rightarrow> s\<lparr>lg_histqs := lg_histqs s - 1, lg_hist := hist_of h\<rparr>
            | _ \<Rightarrow> s\<lparr>lg_histqs := lg_histqs s - 1\<rparr>))"
| "logs_handle now s (LgScroll y) = s\<lparr>lg_scroll := y\<rparr>"
| "logs_handle now s LgExport = export_logs s"

text \<open>An event with the clock: the handler, then the effects.\<close>

definition logs_step :: "logs \<Rightarrow> int \<times> logs_event \<Rightarrow> logs" where
  "logs_step s e = (case e of (now, ev) \<Rightarrow> run_effects now s (logs_handle now s ev))"

subsection \<open>What is rendered\<close>

definition nat_of_num :: "jsnum \<Rightarrow> nat" where
  "nat_of_num x = (case x of Fin a \<Rightarrow> nat \<lfloor>a\<rfloor> | _ \<Rightarrow> 0)"

definition list_height :: "nat \<Rightarrow> jsnum \<Rightarrow> jsnum" where
  "list_height n rowHeight = js_min (Fin 560) (js_max (Fin 240) (js_mul (of_nat_num n) rowHeight))"

definition list_view :: "nat \<Rightarrow> jsnum \<Rightarrow> nat" where
  "list_view n rowHeight = nat_of_num (js_ceil (js_div (list_height n rowHeight) rowHeight)) + 4"

definition list_start :: "jsnum \<Rightarrow> jsnum \<Rightarrow> nat" where
  "list_start scrollTop rowHeight =
     nat_of_num (js_max (Fin 0) (js_sub (js_floor (js_div scrollTop rowHeight)) (Fin 4)))"

definition list_slice :: "jsnum \<Rightarrow> 'a list \<Rightarrow> jsnum \<Rightarrow> 'a list" where
  "list_slice scrollTop rows rowHeight =
     (let start = list_start scrollTop rowHeight in slice start (start + list_view (length rows) rowHeight) rows)"

definition VirtualLogs ::
    "jsnum \<Rightarrow> string list \<Rightarrow> string list list \<Rightarrow> jsnum \<Rightarrow> nat option \<Rightarrow> logs_event view" where
  "VirtualLogs scrollTop columns rows rowHeight levelIdx =
     Elem ''div'' [(''height'', Num (list_height (length rows) rowHeight)), (''onScroll'', OnValue (\<lambda>s. LgScroll (to_number s)))]
       [Elem ''div'' [(''height'', Num (js_mul (of_nat_num (length rows)) rowHeight))]
          [Elem ''table'' [(''top'', Num (js_mul (of_nat_num (list_start scrollTop rowHeight)) rowHeight))]
             [Elem ''colgroup'' []
                (map (\<lambda>c. Elem ''col'' [(''width'', Str (if is_level c then ''80'' else ''auto''))] []) columns),
              Elem ''tbody'' []
                (map (\<lambda>row. Elem ''tr'' []
                   (map (\<lambda>ci. Elem ''td'' [(''color'', Str (cell_color levelIdx ci (row ! ci)))] [Text (row ! ci)])
                        [0..<length row])) (list_slice scrollTop rows rowHeight))]]]"

definition logs_chart :: "(string \<Rightarrow> jsnum) \<Rightarrow> hist_point list \<Rightarrow> chart" where
  "logs_chart date_parse hist =
     XY Axis_datetime
       [\<lparr>s_type = ''bar-y'', s_name = ''events'',
         s_data = map (\<lambda>p. \<lparr>pt_x = parse_cell date_parse (hp_x p), pt_y = Some (hp_y p)\<rparr>) hist\<rparr>]"

definition first_nonempty :: "string list \<Rightarrow> string" where
  "first_nonempty ss = (case List.find (\<lambda>s. s \<noteq> []) ss of Some s \<Rightarrow> s | None \<Rightarrow> [])"

definition logs_toolbar :: "logs \<Rightarrow> bool \<Rightarrow> logs_event view" where
  "logs_toolbar s no_rows =
     Elem ''div'' []
       ([Elem ''Text'' [] [Text ''Logs''],
         Elem ''Select'' [(''value'', Str (lg_table s)), (''onUpdate'', OnValue LgPickTable)]
           (map (\<lambda>t. Elem ''option'' [(''value'', Str (tbl_name t))] [Text (tbl_name t)]) (lg_tables s)),
         Elem ''div'' []
           (map (\<lambda>r. Elem ''Button''
              [(''view'', Str (if rg_label r = rg_label (lg_range s) then ''action'' else ''normal'')),
               (''onClick'', On (LgPickRange r))] [Text (rg_label r)]) RANGES),
         Elem ''TextInput'' [(''value'', Str (lg_query s)), (''onUpdate'', OnValue LgQuery)] [],
         Elem ''Button'' [(''disabled'', Flag (lg_loading s)), (''onClick'', On LgRefresh)] [Text ''Refresh''],
         Elem ''Button'' [(''disabled'', Flag no_rows), (''onClick'', On LgExport)] [Text ''Export CSV''],
         Elem ''Switch'' [(''checked'', Flag (lg_live s)), (''onUpdate'', On (LgLive (\<not> lg_live s)))] [Text ''Live tail'']] @
        shown (lg_loading s) (Elem ''Spin'' [] []))"

definition logs_body :: "logs \<Rightarrow> logs_event view list \<Rightarrow> logs_event view list" where
  "logs_body s list_part =
     (let msg = first_nonempty [lg_tableErr s, lg_error s, lg_tailErr s]
      in shown (msg \<noteq> []) (Elem ''Alert'' [(''title'', Str ''Logs''), (''message'', Str msg)] []) @
         shown (lg_table s = [] \<and> lg_tables s = [])
           (Elem ''Alert'' [(''title'', Str ''No tables'')] []) @
         shown (lg_hist s \<noteq> []) (Elem ''Chart'' [] []) @ list_part)"

definition LogPage :: "logs \<Rightarrow> js_exn + logs_event view" where
  "LogPage s =
     (case lg_state s of
        None \<Rightarrow> Inr (Elem ''div'' [] ([logs_toolbar s True] @ logs_body s []))
      | Some st \<Rightarrow>
          (case (ls_columns st, ls_rows st) of
             (Some cols, Some rows) \<Rightarrow>
               Inr (Elem ''div'' [] ([logs_toolbar s (rows = [])] @ logs_body s
                 [Elem ''Text'' [] [Text (nat_str (length rows) @ '' latest rows of '' @ lg_table s @
                    (if lg_live s then '' '' @ [CHR 0xC2, CHR 0xB7] @ '' live'' else []))],
                  VirtualLogs (lg_scroll s) cols rows ROW_HEIGHT (find_index is_level cols)]))
           | _ \<Rightarrow> Inl TypeError))"

subsection \<open>The page asks for what its filters say\<close>

lemma filters_cong:
  "lg_tables s = lg_tables s' \<Longrightarrow> lg_table s = lg_table s' \<Longrightarrow> lg_range s = lg_range s' \<Longrightarrow>
   lg_query s = lg_query s' \<Longrightarrow> filters_of s = filters_of s'"
  by (simp add: filters_of_def explorer_cols_def)

lemma refresh_start_simps [simp]:
  "filters_of (refresh_start now s) = filters_of s" "lg_table (refresh_start now s) = lg_table s"
  "lg_live (refresh_start now s) = lg_live s" "lg_tail (refresh_start now s) = lg_tail s"
  "lg_tailErr (refresh_start now s) = lg_tailErr s"
  by (simp_all add: refresh_start_def filters_of_def explorer_cols_def Let_def)

lemma retail_simps [simp]:
  "filters_of (retail now s) = filters_of s" "lg_table (retail now s) = lg_table s"
  "lg_live (retail now s) = lg_live s" "lg_asked (retail now s) = lg_asked s"
  "lg_loading (retail now s) = lg_loading s" "lg_refreshes (retail now s) = lg_refreshes s"
  "lg_tailErr (retail now s) = lg_tailErr s" "lg_state (retail now s) = lg_state s"
  by (simp_all add: retail_def filters_of_def explorer_cols_def Let_def)

definition tail_filters :: "logs \<Rightarrow> filters option" where
  "tail_filters s = map_option fst (lg_tail s)"

lemma tail_filters_retail:
  "tail_filters (retail now s) = (if lg_live s \<and> lg_table s \<noteq> [] then Some (filters_of s) else None)"
  by (simp add: tail_filters_def retail_def Let_def)

definition asked_ok :: "logs \<Rightarrow> bool" where
  "asked_ok s \<longleftrightarrow> (lg_table s \<noteq> [] \<longrightarrow> lg_asked s = Some (filters_of s))"

definition spinner_ok :: "logs \<Rightarrow> bool" where
  "spinner_ok s \<longleftrightarrow> (lg_loading s \<longrightarrow> lg_refreshes s \<noteq> []) \<and> (lg_tailErr s \<noteq> [] \<longrightarrow> \<not> lg_live s)"

definition logs_inv :: "logs \<Rightarrow> bool" where
  "logs_inv s \<longleftrightarrow> asked_ok s \<and> spinner_ok s \<and>
     tail_filters s = (if lg_live s \<and> lg_table s \<noteq> [] then Some (filters_of s) else None)"

lemma refresh_start_asked: "asked_ok (refresh_start now s)"
  by (simp add: asked_ok_def refresh_start_def filters_of_def explorer_cols_def Let_def)

lemma refresh_start_spinner: "spinner_ok s \<Longrightarrow> spinner_ok (refresh_start now s)"
  by (simp add: spinner_ok_def refresh_start_def Let_def)

lemma run_effects_inv:
  assumes "spinner_ok h" and "filters_of h = filters_of s \<Longrightarrow> asked_ok h"
    and "tail_filters h = tail_filters s" and "logs_inv s"
  shows "logs_inv (run_effects now s h)"
proof (cases "filters_of h = filters_of s")
  case True
  then have t: "lg_table h = lg_table s" by (simp add: filters_of_def)
  show ?thesis
  proof (cases "lg_live h = lg_live s")
    case True
    with assms t \<open>filters_of h = filters_of s\<close> show ?thesis
      by (simp add: run_effects_def Let_def logs_inv_def)
  next
    case False
    with assms t \<open>filters_of h = filters_of s\<close> show ?thesis
      by (simp add: run_effects_def Let_def logs_inv_def tail_filters_retail asked_ok_def spinner_ok_def)
  qed
next
  case False
  then show ?thesis using refresh_start_asked [of now h] refresh_start_spinner [OF assms(1), of now]
    by (simp add: run_effects_def Let_def logs_inv_def tail_filters_retail asked_ok_def spinner_ok_def)
qed

lemma refresh_done_keeps:
  "filters_of (refresh_done i r s) = filters_of s" "lg_asked (refresh_done i r s) = lg_asked s"
  "lg_tail (refresh_done i r s) = lg_tail s" "lg_live (refresh_done i r s) = lg_live s"
  "lg_tailErr (refresh_done i r s) = lg_tailErr s" "lg_table (refresh_done i r s) = lg_table s"
  by (auto simp: refresh_done_def Let_def filters_of_def explorer_cols_def split: sum.split prod.split option.split)

lemma refresh_done_spinner: "spinner_ok s \<Longrightarrow> spinner_ok (refresh_done i r s)"
  by (auto simp: refresh_done_def Let_def spinner_ok_def split: sum.split prod.split option.split)

lemma on_frame_keeps:
  "filters_of (on_frame f s) = filters_of s" "lg_asked (on_frame f s) = lg_asked s"
  "tail_filters (on_frame f s) = tail_filters s" "lg_table (on_frame f s) = lg_table s"
  "lg_loading (on_frame f s) = lg_loading s" "lg_refreshes (on_frame f s) = lg_refreshes s"
  "lg_tailErr (on_frame f s) = lg_tailErr s" "lg_live (on_frame f s) = lg_live s"
  by (auto simp: on_frame_def Let_def filters_of_def explorer_cols_def tail_filters_def split: option.split)

lemma handle_spinner: "spinner_ok s \<Longrightarrow> spinner_ok (logs_handle now s e)"
proof (cases e)
  case LgRefresh
  then show "spinner_ok s \<Longrightarrow> ?thesis" by (simp add: refresh_start_spinner)
next
  case (LgFrame f)
  then show "spinner_ok s \<Longrightarrow> ?thesis" by (simp add: spinner_ok_def on_frame_keeps)
qed (auto simp: refresh_done_spinner, auto simp: spinner_ok_def tables_loaded_def export_logs_def Let_def
     split: sum.split list.split option.split)

lemma handle_asked:
  assumes "asked_ok s" and "filters_of (logs_handle now s e) = filters_of s"
  shows "asked_ok (logs_handle now s e)"
proof -
  have t: "lg_table (logs_handle now s e) = lg_table s" using assms(2) by (simp add: filters_of_def)
  have "lg_asked (logs_handle now s e) = lg_asked s \<or> asked_ok (logs_handle now s e)"
    by (cases e) (auto simp: refresh_start_asked refresh_done_keeps on_frame_keeps tables_loaded_def
        export_logs_def Let_def split: sum.split list.split option.split)
  then show ?thesis using assms t by (auto simp: asked_ok_def)
qed

lemma handle_tail: "tail_filters (logs_handle now s e) = tail_filters s"
proof (cases e)
  case (LgFrame f)
  then show ?thesis by (simp add: on_frame_keeps)
qed (auto simp: tail_filters_def refresh_done_keeps tables_loaded_def export_logs_def Let_def
     split: sum.split list.split option.split)

lemma logs_step_inv: "logs_inv s \<Longrightarrow> logs_inv (logs_step s e)"
proof (cases e)
  case (Pair now ev)
  assume inv: "logs_inv s"
  then have "asked_ok s" "spinner_ok s" by (simp_all add: logs_inv_def)
  then have "logs_inv (run_effects now s (logs_handle now s ev))"
    using inv by (intro run_effects_inv handle_spinner handle_asked handle_tail)
  then show ?thesis by (simp add: logs_step_def Pair)
qed

interpretation logs_machine: machine logs_mount logs_step logs_inv
proof
  show "logs_inv logs_mount"
    by (simp add: logs_inv_def asked_ok_def spinner_ok_def tail_filters_def logs_mount_def)
qed (rule logs_step_inv)

definition logs_table :: table_info where
  "logs_table = \<lparr>tbl_name = ''applogs'', engine = ''CSTORE'', tbl_shards = Fin 1, tbl_size = Fin 0,
     retention = None,
     tbl_columns = [\<lparr>col_name = ''ts'', col_type = ''timestamp'', primary = True\<rparr>,
                    \<lparr>col_name = ''level'', col_type = ''string'', primary = False\<rparr>,
                    \<lparr>col_name = ''msg'', col_type = ''string'', primary = False\<rparr>]\<rparr>"

text \<open>C34: over any run of the log page, once a table is chosen the newest refresh asked for exactly the
  filters on screen; a live stream is open exactly while live tail is on and a table is chosen, it
  follows exactly the filters on screen, and the message about a lost stream never stands beside a
  live one.\<close>

theorem logs_follow_filters:
  "let s = run logs_step logs_mount es
   in (lg_table s \<noteq> [] \<longrightarrow> lg_asked s = Some (filters_of s)) \<and>
      map_option fst (lg_tail s) = (if lg_live s \<and> lg_table s \<noteq> [] then Some (filters_of s) else None) \<and>
      (lg_live s \<longrightarrow> lg_tailErr s = []) \<and> (lg_loading s \<longrightarrow> lg_refreshes s \<noteq> [])"
  using logs_machine.inv_reachable [of es]
  by (simp add: Let_def logs_inv_def asked_ok_def spinner_ok_def tail_filters_def) blast

text \<open>A run in which a table is chosen, live tail is switched on and a refresh is under way.\<close>

lemma refresh_click_loading: "lg_table s \<noteq> [] \<Longrightarrow> lg_loading (logs_step s (now, LgRefresh))"
  by (simp add: logs_step_def run_effects_def Let_def refresh_start_def retail_def)

lemma refresh_click_keeps:
  "lg_table (logs_step s (now, LgRefresh)) = lg_table s" "lg_live (logs_step s (now, LgRefresh)) = lg_live s"
  by (simp_all add: logs_step_def run_effects_def Let_def refresh_start_def retail_def)

theorem logs_follow_filters_witness:
  "let s = run logs_step logs_mount [(0, LgTables (Inr [logs_table])), (0, LgLive True), (0, LgRefresh)]
   in lg_asked s = Some (filters_of s) \<and> lg_tailErr s = [] \<and> lg_refreshes s \<noteq> []"
proof -
  let ?s = "run logs_step logs_mount [(0, LgTables (Inr [logs_table])), (0, LgLive True)]"
  have "lg_table ?s \<noteq> []" "lg_live ?s"
    by (simp_all add: logs_step_def run_effects_def Let_def tables_loaded_def logs_mount_def logs_table_def)
  then have "lg_table (logs_step ?s (0, LgRefresh)) \<noteq> []" "lg_live (logs_step ?s (0, LgRefresh))"
    "lg_loading (logs_step ?s (0, LgRefresh))"
    by (simp_all add: refresh_click_keeps refresh_click_loading del: run_simps)
  then show ?thesis
    using logs_follow_filters [of "[(0, LgTables (Inr [logs_table])), (0, LgLive True), (0, LgRefresh)]"]
    by (simp only: Let_def run_simps) blast
qed

lemma tail_lost_stays:
  assumes "\<not> lg_live s" and "\<forall>(now, e) \<in> set es. e \<noteq> LgLive True"
  shows "\<not> lg_live (run logs_step s es)"
  using assms
proof (induction es arbitrary: s)
  case Nil
  then show ?case by simp
next
  case (Cons p es)
  obtain now e where p: "p = (now, e)" by (cases p)
  have "\<not> lg_live (logs_handle now s e)"
    using Cons.prems p
    by (cases e) (auto simp: refresh_done_keeps on_frame_keeps tables_loaded_def export_logs_def Let_def
        split: sum.split list.split option.split)
  then have "\<not> lg_live (logs_step s p)" by (simp add: logs_step_def p run_effects_def Let_def)
  then show ?case using Cons by simp
qed

text \<open>The loss of the stream: live tail is switched off with a message, the stream is closed, and
  whatever happens afterwards no new stream is opened until the user switches live tail on again.\<close>

lemma tail_error_ends_live:
  assumes "lg_table s \<noteq> []" and "lg_live s" and "\<forall>(now, e) \<in> set es. e \<noteq> LgLive True" and "logs_inv s"
  shows "lg_tailErr (logs_step s (now, LgTailError)) = ''Live tail disconnected'' \<and>
         lg_tail (logs_step s (now, LgTailError)) = None \<and>
         lg_tail (run logs_step (logs_step s (now, LgTailError)) es) = None"
proof -
  let ?t = "logs_step s (now, LgTailError)"
  have f: "filters_of (s\<lparr>lg_tailErr := x, lg_live := False\<rparr>) = filters_of s" for x by (rule filters_cong) simp_all
  have "lg_tail s \<noteq> None"
    using assms(1,2,4) unfolding logs_inv_def tail_filters_def by (cases "lg_tail s") simp_all
  then have t: "?t = retail now (s\<lparr>lg_tailErr := ''Live tail disconnected'', lg_live := False\<rparr>)"
    using assms(2) by (simp add: logs_step_def run_effects_def f Let_def del: not_None_eq)
  have off: "\<not> lg_live ?t" unfolding t by simp
  have inv: "logs_inv ?t" using assms(4) by (rule logs_machine.inv_step)
  have "logs_inv (run logs_step ?t es)" using inv by (rule logs_machine.inv_run)
  moreover have "\<not> lg_live (run logs_step ?t es)" using off assms(3) by (rule tail_lost_stays)
  ultimately have "lg_tail (run logs_step ?t es) = None" by (simp add: logs_inv_def tail_filters_def)
  moreover have "lg_tail ?t = None" using inv off by (simp add: logs_inv_def tail_filters_def)
  moreover have "lg_tailErr ?t = ''Live tail disconnected''" unfolding t by simp
  ultimately show ?thesis by simp
qed

definition live_logs :: logs where
  "live_logs = run logs_step logs_mount [(0, LgTables (Inr [logs_table])), (0, LgLive True)]"

lemma tail_error_ends_live_witness:
  "lg_tail (run logs_step (logs_step live_logs (5000, LgTailError)) [(6000, LgQuery ''x'')]) = None"
proof -
  have inv: "logs_inv live_logs" unfolding live_logs_def by (rule logs_machine.inv_reachable)
  have live: "lg_live live_logs"
    by (simp add: live_logs_def logs_step_def run_effects_def Let_def tables_loaded_def)
  have "lg_table live_logs \<noteq> []"
    by (simp add: live_logs_def logs_step_def run_effects_def Let_def tables_loaded_def logs_mount_def logs_table_def)
  from tail_error_ends_live [OF this live _ inv, of "[(6000, LgQuery ''x'')]" 5000] show ?thesis by simp
qed

subsection \<open>The histogram of the live tail\<close>

lemma frame_step:
  assumes "lg_tail s = Some (f, t)" and "frame \<noteq> JNull"
  shows "lg_tail (logs_step s (now, LgFrame frame)) = Some (f, t\<lparr>tl_tick := Suc (tl_tick t)\<rparr>) \<and>
    lg_log (logs_step s (now, LgFrame frame)) =
      lg_log s @ (if tl_tick t mod 3 = 0 then [api_query (tl_hist t)] else [])"
proof -
  have "logs_step s (now, LgFrame frame) = on_frame frame s"
    by (simp add: logs_step_def run_effects_def on_frame_keeps Let_def)
  then show ?thesis using assms by (auto simp: on_frame_def Let_def split: option.split)
qed

text \<open>The frames \<open>n, n + 1, ..., n + k - 1\<close> of a stream whose number is a multiple of three.\<close>

definition hist_frames :: "nat \<Rightarrow> nat \<Rightarrow> nat" where
  "hist_frames n k = length (filter (\<lambda>i. i mod 3 = 0) [n..<n + k])"

lemma hist_frames_Suc: "hist_frames n (Suc k) = (if n mod 3 = 0 then 1 else 0) + hist_frames (Suc n) k"
  by (simp add: hist_frames_def upt_conv_Cons del: upt_Suc)

lemma frames_log:
  assumes "lg_tail s = Some (f, t)" and "\<forall>(now, fr) \<in> set fs. fr \<noteq> JNull"
  shows "lg_log (run logs_step s (map (\<lambda>(now, fr). (now, LgFrame fr)) fs)) =
    lg_log s @ replicate (hist_frames (tl_tick t) (length fs)) (api_query (tl_hist t))"
  using assms
proof (induction fs arbitrary: s t)
  case Nil
  then show ?case by (simp add: hist_frames_def)
next
  case (Cons p fs)
  obtain now fr where p: "p = (now, fr)" by (cases p)
  have fr: "fr \<noteq> JNull" using Cons.prems(2) p by simp
  note step = frame_step [OF Cons.prems(1) fr, of now]
  have "lg_log (run logs_step (logs_step s (now, LgFrame fr)) (map (\<lambda>(now, fr). (now, LgFrame fr)) fs)) =
      lg_log (logs_step s (now, LgFrame fr)) @
      replicate (hist_frames (Suc (tl_tick t)) (length fs)) (api_query (tl_hist t))"
    using Cons.IH [OF step [THEN conjunct1]] Cons.prems(2) by simp
  then show ?case using step p by (simp add: hist_frames_Suc)
qed

lemma hist_frames_count: "hist_frames 0 k = (k + 2) div 3"
proof (induction k)
  case 0
  then show ?case by (simp add: hist_frames_def)
next
  case (Suc k)
  have "hist_frames 0 (Suc k) = hist_frames 0 k + (if k mod 3 = 0 then 1 else 0)"
    by (simp add: hist_frames_def)
  then show ?case using Suc by (auto; presburger)
qed

text \<open>The slower cadence of the histogram: of the first \<open>k\<close> frames of a stream exactly every third,
  beginning with the first, asks for the histogram again, always with the stream's own query, and
  the frames send nothing else.\<close>

lemma live_histogram_cadence:
  assumes "lg_tail s = Some (f, t)" and "tl_tick t = 0" and "\<forall>(now, fr) \<in> set fs. fr \<noteq> JNull"
  shows "lg_log (run logs_step s (map (\<lambda>(now, fr). (now, LgFrame fr)) fs)) =
    lg_log s @ replicate ((length fs + 2) div 3) (api_query (tl_hist t))"
  using frames_log [OF assms(1,3)] assms(2) by (simp add: hist_frames_count)

definition tailing :: logs where
  "tailing = logs_mount\<lparr>lg_tail := Some (([], [], [], RANGES ! 2, []), \<lparr>tl_list = ''L'', tl_hist = ''H'', tl_tick = 0\<rparr>)\<rparr>"

lemma live_histogram_cadence_witness:
  "lg_log (run logs_step tailing [(1, LgFrame (JObj [])), (2, LgFrame (JObj [])), (3, LgFrame (JObj [])), (4, LgFrame (JObj []))]) =
   lg_log tailing @ [api_query ''H'', api_query ''H'']"
proof -
  have t: "lg_tail tailing = Some (([], [], [], RANGES ! 2, []), \<lparr>tl_list = ''L'', tl_hist = ''H'', tl_tick = 0\<rparr>)"
    by (simp add: tailing_def)
  show ?thesis
    using live_histogram_cadence [OF t, of "[(1, JObj []), (2, JObj []), (3, JObj []), (4, JObj [])]"]
    by (simp add: numeral_2_eq_2 del: run_simps)
qed

subsection \<open>The virtual list\<close>

text \<open>The bounds of a quotient by 26, kept apart from the arithmetic that uses them.\<close>

lemma div_26: "26 * (n div 26) \<le> (n :: nat)" "n \<le> 26 * (n div 26) + 25"
proof -
  have "n = 26 * (n div 26) + n mod 26" "n mod 26 < 26" by simp_all
  then show "26 * (n div 26) \<le> n" "n \<le> 26 * (n div 26) + 25" by auto
qed

lemma k5: "5 \<le> (1074 :: nat)"
  by simp

lemma floor_26:
  assumes "k < 2 ^ 41" and "26 * k \<le> n" and "n \<le> 26 * k + 25"
  shows "js_floor (js_div (Fin (of_nat n)) (Fin 26)) = Fin (of_nat k)"
proof -
  have k: "int k < 2 ^ 41" using assms(1) by (metis of_nat_less_iff of_nat_numeral of_nat_power)
  have d1: "is_double (of_int (int k))" by (rule is_double_int) (use k in simp)
  have d2: "is_double (of_int (32 * int k + 31) / 2 ^ 5)"
    by (rule is_double_frac [OF refl _ k5]) (use k in \<open>simp only: abs_less_iff, simp\<close>)
  have "26 * rat_of_nat k \<le> of_nat n" using assms(2) by (metis of_nat_le_iff of_nat_mult of_nat_numeral)
  moreover have "rat_of_nat n \<le> 26 * of_nat k + 25"
    using of_nat_mono [OF assms(3), where 'a = rat] by simp
  ultimately have "of_int (int k) \<le> rat_of_nat n / 26" "rat_of_nat n / 26 \<le> of_int (32 * int k + 31) / 2 ^ 5"
    by (simp_all add: field_simps)
  from fl_finite [OF d1 d2 this] obtain v where v: "fl (of_nat n / 26) = Fin v" "of_int (int k) \<le> v"
      "v \<le> of_int (32 * int k + 31) / 2 ^ 5" by blast
  then have "\<lfloor>v\<rfloor> = int k" by (simp add: floor_eq_iff field_simps)
  then show ?thesis using v(1) by simp
qed

lemma ceil_26:
  assumes "c < 2 ^ 41" and "n \<le> 26 * c" and "26 * c \<le> n + 25"
  shows "js_ceil (js_div (Fin (of_nat n)) (Fin 26)) = Fin (of_nat c)"
proof -
  have c: "int c < 2 ^ 41" using assms(1) by (metis of_nat_less_iff of_nat_numeral of_nat_power)
  have d1: "is_double (of_int (32 * int c - 31) / 2 ^ 5)"
    by (rule is_double_frac [OF refl _ k5]) (use c in \<open>simp only: abs_less_iff, simp\<close>)
  have d2: "is_double (of_int (int c))" by (rule is_double_int) (use c in simp)
  have "rat_of_nat n \<le> 26 * of_nat c" using assms(2) by (metis of_nat_le_iff of_nat_mult of_nat_numeral)
  moreover have "26 * rat_of_nat c \<le> of_nat n + 25"
    using of_nat_mono [OF assms(3), where 'a = rat] by simp
  ultimately have "of_int (32 * int c - 31) / 2 ^ 5 \<le> rat_of_nat n / 26" "rat_of_nat n / 26 \<le> of_int (int c)"
    by (simp_all add: field_simps)
  from fl_finite [OF d1 d2 this] obtain v where v: "fl (of_nat n / 26) = Fin v"
      "of_int (32 * int c - 31) / 2 ^ 5 \<le> v" "v \<le> of_int (int c)" by blast
  then have "\<lceil>v\<rceil> = int c" by (simp add: ceiling_eq_iff field_simps)
  then show ?thesis using v(1) by simp
qed

lemma floor_div_26:
  assumes "n < 2 ^ 40"
  shows "js_floor (js_div (Fin (of_nat n)) (Fin 26)) = Fin (of_nat (n div 26))"
  by (rule floor_26) (rule le_less_trans [OF div_le_dividend less_trans [OF assms]], simp, rule div_26, rule div_26)

lemma ceil_div_26:
  assumes "n < 2 ^ 40"
  shows "js_ceil (js_div (Fin (of_nat n)) (Fin 26)) = Fin (of_nat ((n + 25) div 26))"
proof (rule ceil_26)
  have "n + 25 < 2 ^ 41" using assms by simp
  then show "(n + 25) div 26 < 2 ^ 41" by (rule le_less_trans [OF div_le_dividend])
  show "n \<le> 26 * ((n + 25) div 26)" using div_26(2) [of "n + 25"] by (rule add_le_imp_le_right)
  show "26 * ((n + 25) div 26) \<le> n + 25" by (rule div_26)
qed

definition height_px :: "nat \<Rightarrow> nat" where
  "height_px n = min 560 (max 240 (26 * n))"

lemma height_px_bounds: "240 \<le> height_px n" "height_px n \<le> 560"
  by (auto simp: height_px_def)

lemma list_height_px:
  assumes "n < 2 ^ 40"
  shows "list_height n ROW_HEIGHT = Fin (of_nat (height_px n))"
proof -
  have "int n < 2 ^ 40" using assms by (metis of_nat_less_iff of_nat_numeral of_nat_power)
  then have "fl (of_int (int n * 26)) = Fin (of_int (int n * 26))" by (intro fl_int) simp
  moreover have "of_nat_num n = Fin (of_nat n)" using assms by (intro of_nat_num_eq) simp
  ultimately have "js_mul (of_nat_num n) (Fin 26) = Fin (of_nat (26 * n))" by (simp add: mult.commute)
  then have h: "list_height n ROW_HEIGHT = js_min (Fin 560) (js_max (Fin 240) (Fin (of_nat (26 * n))))"
    by (simp only: list_height_def ROW_HEIGHT_def)
  consider "26 * n \<le> 240" | "240 < 26 * n" "26 * n < 560" | "560 \<le> 26 * n" by linarith
  then show ?thesis
  proof cases
    case 1
    then have "rat_of_nat (26 * n) \<le> 240" by (metis of_nat_le_iff of_nat_numeral)
    with 1 show ?thesis by (simp add: h js_max_def js_min_def height_px_def)
  next
    case 2
    then have "240 < rat_of_nat (26 * n)" "rat_of_nat (26 * n) < 560" by (metis of_nat_less_iff of_nat_numeral)+
    with 2 show ?thesis by (simp add: h js_max_def js_min_def height_px_def)
  next
    case 3
    then have "560 \<le> rat_of_nat (26 * n)" by (metis of_nat_le_iff of_nat_numeral)
    with 3 show ?thesis by (simp add: h js_max_def js_min_def height_px_def)
  qed
qed

lemma list_view_px:
  assumes "n < 2 ^ 40"
  shows "list_view n ROW_HEIGHT = (height_px n + 25) div 26 + 4"
proof -
  have "height_px n < 2 ^ 40" using height_px_bounds(2) [of n] by simp
  from ceil_div_26 [OF this] show ?thesis
    unfolding list_view_def list_height_px [OF assms] unfolding ROW_HEIGHT_def
    by (simp add: nat_of_num_def del: js_div.simps js_ceil.simps)
qed

lemma start_rows:
  assumes "k < 2 ^ 40"
  shows "nat_of_num (js_max (Fin 0) (js_sub (Fin (of_nat k)) (Fin 4))) = k - 4"
proof -
  have "int k < 2 ^ 40" using assms by (metis of_nat_less_iff of_nat_numeral of_nat_power)
  then have "fl (of_int (int k - 4)) = Fin (of_int (int k - 4))" by (intro fl_int) simp
  then have s: "js_sub (Fin (of_nat k)) (Fin 4) = Fin (of_int (int k - 4))" by (simp add: js_sub_def)
  have "(0 \<le> rat_of_int (int k - 4)) = (4 \<le> k)" by (simp only: of_int_0_le_iff) simp
  moreover have "nat \<lfloor>rat_of_int (int k - 4)\<rfloor> = k - 4" by (simp only: floor_of_int)
  ultimately show ?thesis unfolding s by (simp add: js_max_def nat_of_num_def del: of_int_diff)
qed

lemma list_start_px:
  assumes "n < 2 ^ 40"
  shows "list_start (Fin (of_nat n)) ROW_HEIGHT = n div 26 - 4"
  unfolding list_start_def ROW_HEIGHT_def floor_div_26 [OF assms]
  by (rule start_rows) (rule le_less_trans [OF div_le_dividend assms])

text \<open>C23: the virtual list: whatever the scroll offset, every row that is completely inside the visible
  window is among the rows rendered, at its own index, while no more than 26 rows are rendered.\<close>

theorem virtual_list_covers:
  assumes "st < 2 ^ 40" and "length rows < 2 ^ 40" and "i < length rows"
    and "st \<le> 26 * i" and "26 * i + 26 \<le> st + height_px (length rows)"
  shows "list_height (length rows) ROW_HEIGHT = Fin (of_nat (height_px (length rows))) \<and>
    list_start (Fin (of_nat st)) ROW_HEIGHT \<le> i \<and>
    at_index (list_slice (Fin (of_nat st)) rows ROW_HEIGHT) (i - list_start (Fin (of_nat st)) ROW_HEIGHT) =
      Some (rows ! i) \<and>
    length (list_slice (Fin (of_nat st)) rows ROW_HEIGHT) \<le> 26"
proof -
  define k c where kc: "k = st div 26" "c = (height_px (length rows) + 25) div 26"
  let ?sl = "list_slice (Fin (of_nat st)) rows ROW_HEIGHT"
  have k: "26 * k \<le> st" "st \<le> 26 * k + 25" unfolding kc by (rule div_26)+
  have c: "height_px (length rows) \<le> 26 * c" "26 * c \<le> height_px (length rows) + 25"
    using div_26 [of "height_px (length rows) + 25"] unfolding kc(2) [symmetric] by simp_all
  have "c \<le> 22" using c(2) height_px_bounds(2) [of "length rows"] by linarith
  have lo: "k - 4 \<le> i" using k(1) assms(4) by linarith
  have hi: "i < k - 4 + (c + 4)" using k c assms(5) by linarith
  have st: "list_start (Fin (of_nat st)) ROW_HEIGHT = k - 4" unfolding kc by (rule list_start_px [OF assms(1)])
  have sl: "?sl = slice (k - 4) (k - 4 + (c + 4)) rows"
    by (simp only: list_slice_def Let_def st list_view_px [OF assms(2)] kc(2))
  have len: "length ?sl \<le> 26" unfolding sl length_slice using \<open>c \<le> 22\<close> by linarith
  have "i - (k - 4) < length ?sl" unfolding sl length_slice using lo hi assms(3) by linarith
  then have "at_index ?sl (i - (k - 4)) = Some (rows ! i)"
    unfolding at_index_def using lo nth_slice [of "i - (k - 4)" "k - 4" "k - 4 + (c + 4)" rows] by (simp add: sl)
  then show ?thesis using lo len list_height_px [OF assms(2)] by (simp add: st)
qed

theorem virtual_list_covers_witness:
  "at_index (list_slice (Fin 260) (map nat_str [0..<100]) ROW_HEIGHT) 5 = Some (nat_str 11)"
proof -
  have l: "length (map nat_str [0..<100]) = 100" by simp
  have h: "height_px 100 = 560" by (simp add: height_px_def)
  have "at_index (list_slice (Fin (of_nat 260)) (map nat_str [0..<100]) ROW_HEIGHT)
      (11 - list_start (Fin (of_nat 260)) ROW_HEIGHT) = Some (map nat_str [0..<100] ! 11)"
    by (rule virtual_list_covers [THEN conjunct2, THEN conjunct2, THEN conjunct1]) (simp_all add: h del: upt_Suc)
  moreover have "list_start (Fin (of_nat 260)) ROW_HEIGHT = 6" by (subst list_start_px) simp_all
  ultimately show ?thesis by (simp del: upt_Suc)
qed

text \<open>A row that is only partly inside the window can be missing at its bottom: scrolled to 120 pixels a
  list of 100 rows is cut after row 25, and row 26 begins 4 pixels above the lower edge.\<close>

lemma virtual_list_misses:
  "list_start (Fin (of_nat 120)) ROW_HEIGHT + list_view 100 ROW_HEIGHT = 26 \<and> 26 * 26 < 120 + height_px 100"
  by (subst list_start_px, simp, subst list_view_px) (simp_all add: height_px_def)

subsection \<open>Search\<close>

text \<open>The explorer's columns: the columns searched are exactly the string columns other than the time
  column, and when there is one the time column is the first primary timestamp, else the first
  timestamp, else the first column.\<close>

lemma explorer_columns:
  "snd (findExplorerCols cols) =
     map col_name (filter (\<lambda>c. col_name c \<noteq> time_column cols \<and> col_type c = ''string'') cols) \<and>
   fst (findExplorerCols cols) =
     (if snd (findExplorerCols cols) = [] then first_name cols else time_column cols) \<and>
   (cols = [] \<or> fst (findExplorerCols cols) \<in> col_name ` set cols)"
proof -
  have "time_column cols \<in> col_name ` set cols" if "cols \<noteq> []"
    using that by (auto simp: time_column_def first_name_def split: option.splits list.splits dest!: find_in_set)
  moreover have "first_name cols \<in> col_name ` set cols" if "cols \<noteq> []"
    using that by (auto simp: first_name_def split: list.splits)
  ultimately show ?thesis by (auto simp: findExplorerCols_def Let_def)
qed

text \<open>Without a string column the timestamp found is thrown away and the first column is the time axis.\<close>

lemma explorer_loses_time:
  "findExplorerCols [\<lparr>col_name = ''id'', col_type = ''int64'', primary = False\<rparr>,
     \<lparr>col_name = ''ts'', col_type = ''timestamp'', primary = True\<rparr>] = (''id'', [])"
  by (simp add: findExplorerCols_def time_column_def first_name_def Let_def)

lemma escapeLike_plain: "CHR ''%'' \<notin> set (escapeLike q) \<and> CHR ''_'' \<notin> set (escapeLike q)"
  by (auto simp: escapeLike_def)

text \<open>A quote in the search text ends the pattern literal: the rest of the text becomes part of the query.\<close>

lemma search_injects:
  "like_cond (escapeLike (CHR 0x27 # '' OR 1=1 --'')) ''msg'' =
     ''msg LIKE '' @ [CHR 0x27] @ ''%'' @ [CHR 0x27] @ '' OR 1=1 --%'' @ [CHR 0x27]"
  by (simp add: like_cond_def escapeLike_def quoted_def)

text \<open>Nothing orders the answers of two refreshes: the answer of an older one replaces a newer one's, and
  the rows then shown are not those of the query on screen.\<close>

lemma refresh_out_of_order:
  assumes "lg_refreshes s = [f, g]"
  shows "lg_state (run logs_step s
           [(t1, LgRefreshDone 1 (Inr (Some l2, Some h2))), (t2, LgRefreshDone 0 (Inr (Some l1, Some h1)))]) =
         Some \<lparr>ls_columns = qr_columns l1, ls_rows = qr_rows l1\<rparr>"
proof -
  have step: "logs_step s' (t, LgRefreshDone i r) = refresh_done i r s'" for s' t i r
    by (simp add: logs_step_def run_effects_def refresh_done_keeps Let_def)
  show ?thesis using assms by (simp add: step) (simp add: refresh_done_def Let_def)
qed

end
