(* ===== verification/Dashboards.thy ===== *)
theory Dashboards
  imports Widgets HashRoute
begin

section \<open>The dashboards page (\<open>pages/Dashboards.tsx\<close>)\<close>

text \<open>
  The page is a state machine. Its state is the component's state and refs, the URL hash, the calls
  in flight (each with what its continuation closed over) and the requests sent. An event is a
  handler of the page, the answer of a call, a tick of the refresh timer or a change of the hash;
  after it the effects run (\<open>run_effects\<close>) in the order of the component. An exception in an effect
  or while rendering takes the page down (\<open>db_crashed\<close>); one in a handler leaves the state as it
  was. A stored configuration whose widgets lack fields is outside the model: the page casts it.
\<close>

definition COLS :: jsnum where "COLS = Fin 12"
definition ROW_H :: nat where "ROW_H = 30"
definition NEW_WIDGET_Y :: jsnum where "NEW_WIDGET_Y = Fin 1000000"

definition WIDGET_TYPES :: "widget_type list" where
  "WIDGET_TYPES = [W_line, W_bar, W_pie, W_stat, W_gauge, W_histogram, W_heatmap, W_table, W_log_viewer]"

record editor_state =
  ed_index :: "nat option"  \<comment> \<open>\<open>None\<close> is -1, a new widget\<close>
  ed_type :: widget_type
  ed_title :: string
  ed_sql :: string
  ed_w :: jsnum
  ed_h :: jsnum

definition emptyConfig :: "string \<Rightarrow> dashboard_config" where
  "emptyConfig nm = \<lparr>dc_title = JStr nm, refresh_interval = Fin 30, widgets = []\<rparr>"

definition base36_digit :: "nat \<Rightarrow> char" where
  "base36_digit d = (if d < 10 then char_of (48 + d) else char_of (87 + d))"

fun base36 :: "nat \<Rightarrow> string" where
  "base36 n = (if n < 36 then [base36_digit n] else base36 (n div 36) @ [base36_digit (n mod 36)])"

declare base36.simps [simp del]

text \<open>\<open>newWidgetId\<close>: the id for the counter's next value.\<close>

definition newWidgetId :: "nat \<Rightarrow> nat \<Rightarrow> string" where
  "newWidgetId now uid = ''w'' @ base36 now @ nat_str uid"

text \<open>\<open>update\<close> of \<open>useMeasuredWidth\<close>.\<close>

definition measured_width :: "jsnum \<Rightarrow> jsnum \<Rightarrow> jsnum" where
  "measured_width prev box = (let w = js_round box in if js_lt (Fin 0) w then w else prev)"

subsection \<open>State\<close>

text \<open>The calls in flight. \<open>Op_load b\<close> is a \<open>load\<close>, awaited by \<open>create\<close> when \<open>b\<close>.\<close>

datatype dash_op =
    Op_load bool
  | Op_save dashboard_config
  | Op_update
  | Op_create
  | Op_delete string
  | Op_run dashboard_config

datatype dash_answer =
    A_list "dashboard list"
  | A_done
  | A_id string
  | A_runs "(js_exn + query_result option) list"

record dash_page =
  db_list :: "dashboard list option"
  db_gen :: nat                        \<comment> \<open>the identity of \<open>db_list\<close>\<close>
  db_loading :: bool
  db_error :: string
  db_name :: string
  db_creating :: bool
  db_active :: "string option"
  db_config :: "dashboard_config option"
  db_results :: "(string, query_result option) js_map"
  db_widget_errors :: "(string, string) js_map"
  db_editor :: "editor_state option"
  db_edit_name :: string
  db_refresh :: jsnum
  db_refresh_on :: bool
  db_fp :: string
  db_uid :: nat
  db_width :: jsnum
  db_hash :: string
  db_ops :: "dash_op list"
  db_log :: "http_request list"
  db_crashed :: bool

subsection \<open>Calls\<close>

definition send :: "http_request \<Rightarrow> dash_op \<Rightarrow> dash_page \<Rightarrow> dash_page" where
  "send req op s = s\<lparr>db_log := db_log s @ [req], db_ops := db_ops s @ [op]\<rparr>"

definition load :: "bool \<Rightarrow> dash_page \<Rightarrow> dash_page" where
  "load then_create s = send api_dashboards (Op_load then_create) (s\<lparr>db_loading := True, db_error := []\<rparr>)"

definition put_config :: "string \<Rightarrow> dashboard_config \<Rightarrow> dash_op \<Rightarrow> string \<Rightarrow> dash_page \<Rightarrow> dash_page" where
  "put_config nm c op did s = send (api_dashboardUpdate did nm (json_of_config c)) op s"

text \<open>\<open>activeId\<close> used as a condition: neither null nor empty.\<close>

definition active_id :: "dash_page \<Rightarrow> string option" where
  "active_id s = (case db_active s of Some a \<Rightarrow> if a = [] then None else Some a | None \<Rightarrow> None)"

definition saveConfig :: "dashboard_config \<Rightarrow> dash_page \<Rightarrow> dash_page" where
  "saveConfig next s =
     (case active_id s of
        None \<Rightarrow> s
      | Some a \<Rightarrow> put_config (db_edit_name s) next (Op_save next) a s)"

definition runWidgets :: "dashboard_config \<Rightarrow> dash_page \<Rightarrow> dash_page" where
  "runWidgets cfg s =
     s\<lparr>db_log := db_log s @ map (\<lambda>w. api_widgetQuery (w_sql w) (Fin 5)) (widgets cfg),
       db_ops := db_ops s @ [Op_run cfg]\<rparr>"

subsection \<open>Effects\<close>

definition fingerprint :: "dashboard_config \<Rightarrow> string" where
  "fingerprint c =
     join_on ''|'' (map (\<lambda>w. w_id w @ '':'' @ widget_type_name (w_type w) @ '':'' @ w_sql w) (widgets c))"

definition has_id :: "string \<Rightarrow> dashboard list \<Rightarrow> bool" where
  "has_id a ds = list_ex (\<lambda>d. d_id d = a) ds"

text \<open>The effect of \<open>[activeId]\<close>.\<close>

definition hash_effect :: "dash_page \<Rightarrow> dash_page" where
  "hash_effect s =
     (case db_active s of
        None \<Rightarrow> s
      | Some a \<Rightarrow>
          (case parseDashId (db_hash s) of
             Inl e \<Rightarrow> s\<lparr>db_crashed := True\<rparr>
           | Inr d \<Rightarrow> if d = Some a then s else s\<lparr>db_hash := setDashHash (Some a)\<rparr>))"

text \<open>The effect of \<open>[activeId, dashboards]\<close>.\<close>

definition config_effect :: "dash_page \<Rightarrow> dash_page" where
  "config_effect s =
     (case (active_id s, db_list s) of
        (Some a, Some ds) \<Rightarrow>
          (case List.find (\<lambda>d. d_id d = a) ds of
             None \<Rightarrow> s
           | Some d \<Rightarrow>
               (let raw = parseDashboardConfig (d_config d)
                in s\<lparr>db_config := typed_config raw, db_edit_name := d_name d, db_refresh := raw_refresh raw\<rparr>))
      | _ \<Rightarrow> s)"

text \<open>The effect of \<open>[config]\<close>: when the configuration is the same object nothing changes, since
  \<open>lastFpRef\<close> already holds its fingerprint.\<close>

definition fp_effect :: "dash_page \<Rightarrow> dash_page" where
  "fp_effect s =
     (case db_config s of
        None \<Rightarrow> s
      | Some c \<Rightarrow> if fingerprint c = db_fp s then s else runWidgets c (s\<lparr>db_fp := fingerprint c\<rparr>))"

definition run_effects :: "dash_page \<Rightarrow> dash_page \<Rightarrow> dash_page" where
  "run_effects old s =
     (if db_crashed s then s
      else
        let s1 = (if db_active s \<noteq> db_active old then hash_effect s else s);
            s2 = (if db_active s \<noteq> db_active old \<or> db_gen s \<noteq> db_gen old then config_effect s1 else s1)
        in fp_effect s2)"

subsection \<open>Answers\<close>

text \<open>The end of \<open>load\<close>. Choosing the active dashboard reads the hash only when the current one is gone;
  an exception there is an exception of the state updater.\<close>

definition choose_active :: "string option \<Rightarrow> dashboard list \<Rightarrow> string \<Rightarrow> js_exn + string option" where
  "choose_active cur ds hash =
     (case cur of
        Some a \<Rightarrow> if a \<noteq> [] \<and> has_id a ds then Inr (Some a)
                  else ok_bind (parseDashId hash) (\<lambda>fromHash.
                    Inr (case fromHash of
                           Some f \<Rightarrow> if f \<noteq> [] \<and> has_id f ds then Some f else Some (d_id (hd ds))
                         | None \<Rightarrow> Some (d_id (hd ds))))
      | None \<Rightarrow> ok_bind (parseDashId hash) (\<lambda>fromHash.
                    Inr (case fromHash of
                           Some f \<Rightarrow> if f \<noteq> [] \<and> has_id f ds then Some f else Some (d_id (hd ds))
                         | None \<Rightarrow> Some (d_id (hd ds)))))"

definition loaded :: "bool \<Rightarrow> dashboard list \<Rightarrow> dash_page \<Rightarrow> dash_page" where
  "loaded then_create ds s =
     (let s1 = s\<lparr>db_list := Some ds, db_gen := Suc (db_gen s), db_loading := False,
                 db_creating := (db_creating s \<and> \<not> then_create)\<rparr>
      in if ds = [] then
           (case parseDashId (db_hash s) of
              Inl e \<Rightarrow> s1\<lparr>db_active := None, db_error := exn_message e\<rparr>
            | Inr None \<Rightarrow> s1\<lparr>db_active := None\<rparr>
            | Inr (Some i) \<Rightarrow> s1\<lparr>db_active := None, db_hash := setDashHash None\<rparr>)
         else
           (case choose_active (db_active s) ds (db_hash s) of
              Inl e \<Rightarrow> s1\<lparr>db_crashed := True\<rparr>
            | Inr a \<Rightarrow> s1\<lparr>db_active := a\<rparr>))"

definition load_failed :: "bool \<Rightarrow> js_exn \<Rightarrow> dash_page \<Rightarrow> dash_page" where
  "load_failed then_create e s =
     s\<lparr>db_error := exn_message e, db_loading := False, db_creating := (db_creating s \<and> \<not> then_create)\<rparr>"

fun store_run :: "widget_config list \<Rightarrow> (js_exn + query_result option) list \<Rightarrow>
    (string, query_result option) js_map \<times> (string, string) js_map \<Rightarrow>
    (string, query_result option) js_map \<times> (string, string) js_map" where
  "store_run (w # ws) (r # rs) (fresh, errs) =
     store_run ws rs (case r of Inr v \<Rightarrow> (map_set (w_id w) v fresh, errs)
                              | Inl e \<Rightarrow> (fresh, map_set (w_id w) (exn_message e) errs))"
| "store_run ws rs acc = acc"

definition ran :: "dashboard_config \<Rightarrow> (js_exn + query_result option) list \<Rightarrow> dash_page \<Rightarrow> dash_page" where
  "ran cfg rs s =
     (let (fresh, errs) = store_run (widgets cfg) rs ([], []) in s\<lparr>db_results := fresh, db_widget_errors := errs\<rparr>)"

text \<open>The continuation of the \<open>i\<close>-th call in flight.\<close>

definition continue_op :: "dash_op \<Rightarrow> js_exn + dash_answer \<Rightarrow> dash_page \<Rightarrow> dash_page" where
  "continue_op op r s =
     (case (op, r) of
        (Op_load b, Inr (A_list ds)) \<Rightarrow> loaded b ds s
      | (Op_load b, Inl e) \<Rightarrow> load_failed b e s
      | (Op_save next, Inr A_done) \<Rightarrow> load False (s\<lparr>db_config := Some next\<rparr>)
      | (Op_update, Inr A_done) \<Rightarrow> load False s
      | (Op_create, Inr (A_id i)) \<Rightarrow> load True (s\<lparr>db_active := Some i, db_name := []\<rparr>)
      | (Op_create, Inl e) \<Rightarrow> s\<lparr>db_error := exn_message e, db_creating := False\<rparr>
      | (Op_delete i, Inr A_done) \<Rightarrow>
          load False (s\<lparr>db_active := (if db_active s = Some i then None else db_active s), db_config := None\<rparr>)
      | (Op_run cfg, Inr (A_runs rs)) \<Rightarrow> ran cfg rs s
      | (Op_run cfg, Inl e) \<Rightarrow> s
      | (_, Inl e) \<Rightarrow> s\<lparr>db_error := exn_message e\<rparr>
      | _ \<Rightarrow> s)"

definition answered :: "nat \<Rightarrow> js_exn + dash_answer \<Rightarrow> dash_page \<Rightarrow> dash_page" where
  "answered i r s =
     (case at_index (db_ops s) i of
        None \<Rightarrow> s
      | Some op \<Rightarrow> continue_op op r (s\<lparr>db_ops := take i (db_ops s) @ drop (Suc i) (db_ops s)\<rparr>))"

subsection \<open>Handlers\<close>

definition create_dashboard :: "dash_page \<Rightarrow> dash_page" where
  "create_dashboard s =
     (let nm = trim (db_name s)
      in if nm = [] then s
         else send (api_dashboardCreate nm (json_of_config (emptyConfig nm))) Op_create
                (s\<lparr>db_creating := True, db_error := []\<rparr>))"

definition remove_dashboard :: "string \<Rightarrow> dash_page \<Rightarrow> dash_page" where
  "remove_dashboard i s = send (api_dashboardDelete i) (Op_delete i) s"

definition default_sql :: string where
  "default_sql = ''SELECT COUNT(*) AS total FROM logs WHERE level = '' @ [CHR 0x27] @ ''ERROR'' @ [CHR 0x27]"

definition addWidget :: "dash_page \<Rightarrow> dash_page" where
  "addWidget s =
     s\<lparr>db_editor := Some \<lparr>ed_index = None, ed_type = W_stat, ed_title = [], ed_sql = default_sql,
        ed_w = Fin 3, ed_h = Fin 4\<rparr>\<rparr>"

definition widgetList :: "dash_page \<Rightarrow> widget_config list" where
  "widgetList s = (case db_config s of Some c \<Rightarrow> widgets c | None \<Rightarrow> [])"

definition openEditor :: "nat \<Rightarrow> dash_page \<Rightarrow> dash_page" where
  "openEditor i s =
     (case at_index (widgetList s) i of
        None \<Rightarrow> s
      | Some w \<Rightarrow> s\<lparr>db_editor := Some \<lparr>ed_index = Some i, ed_type = w_type w, ed_title = w_title w,
                     ed_sql = w_sql w, ed_w = w_w w, ed_h = w_h w\<rparr>\<rparr>)"

definition edited :: "editor_state \<Rightarrow> string \<Rightarrow> jsnum \<Rightarrow> jsnum \<Rightarrow> widget_config" where
  "edited e i x y =
     \<lparr>w_id = i, w_type = ed_type e,
      w_title = (if ed_title e = [] then widget_type_name (ed_type e) else ed_title e),
      w_sql = ed_sql e, w_x = x, w_y = y, w_w = ed_w e, w_h = ed_h e\<rparr>"

definition new_x :: "dashboard_config \<Rightarrow> jsnum" where
  "new_x c = Fin (of_nat (length (widgets c) * 3 mod 12))"

definition submitEditor :: "nat \<Rightarrow> dash_page \<Rightarrow> dash_page" where
  "submitEditor now s =
     (case (db_editor s, db_config s) of
        (Some e, Some c) \<Rightarrow>
          (case ed_index e of
             None \<Rightarrow>
               (let uid = Suc (db_uid s);
                    w = edited e (newWidgetId now uid) (new_x c) NEW_WIDGET_Y
                in (saveConfig (c\<lparr>widgets := widgets c @ [w]\<rparr>) (s\<lparr>db_uid := uid\<rparr>))\<lparr>db_editor := None\<rparr>)
           | Some i \<Rightarrow>
               (case at_index (widgets c) i of
                  None \<Rightarrow> s
                | Some old \<Rightarrow>
                    (saveConfig (c\<lparr>widgets := (widgets c)[i := edited e (w_id old) (w_x old) (w_y old)]\<rparr>) s)
                      \<lparr>db_editor := None\<rparr>))
      | _ \<Rightarrow> s)"

definition removeWidget :: "nat \<Rightarrow> dash_page \<Rightarrow> dash_page" where
  "removeWidget i s =
     (case db_config s of
        None \<Rightarrow> s
      | Some c \<Rightarrow> saveConfig (c\<lparr>widgets := take i (widgets c) @ drop (Suc i) (widgets c)\<rparr>) s)"

record layout_item =
  li_i :: string
  li_x :: jsnum
  li_y :: jsnum
  li_w :: jsnum
  li_h :: jsnum

definition differs :: "layout_item \<Rightarrow> widget_config \<Rightarrow> bool" where
  "differs l w \<longleftrightarrow> \<not> js_eq (li_x l) (w_x w) \<or> \<not> js_eq (li_y l) (w_y w) \<or> \<not> js_eq (li_w l) (w_w w) \<or>
     \<not> js_eq (li_h l) (w_h w)"

definition moved :: "layout_item list \<Rightarrow> widget_config \<Rightarrow> layout_item option" where
  "moved layout w =
     (case map_of (map_from (map (\<lambda>l. (li_i l, l)) layout)) (w_id w) of
        Some l \<Rightarrow> if differs l w then Some l else None
      | None \<Rightarrow> None)"

definition place :: "layout_item list \<Rightarrow> widget_config \<Rightarrow> widget_config" where
  "place layout w =
     (case moved layout w of
        Some l \<Rightarrow> w\<lparr>w_x := li_x l, w_y := li_y l, w_w := li_w l, w_h := li_h l\<rparr>
      | None \<Rightarrow> w)"

definition persistLayout :: "layout_item list \<Rightarrow> dash_page \<Rightarrow> dash_page" where
  "persistLayout layout s =
     (case (db_config s, active_id s) of
        (Some c, Some a) \<Rightarrow>
          if list_ex (\<lambda>w. moved layout w \<noteq> None) (widgets c)
          then (let next = c\<lparr>widgets := map (place layout) (widgets c)\<rparr>
                in put_config (db_edit_name s) next Op_update a (s\<lparr>db_config := Some next\<rparr>))
          else s
      | _ \<Rightarrow> s)"

definition active_dash :: "dash_page \<Rightarrow> dashboard option" where
  "active_dash s =
     (case db_list s of
        None \<Rightarrow> None
      | Some ds \<Rightarrow> List.find (\<lambda>d. Some (d_id d) = db_active s) ds)"

text \<open>\<open>onBlur\<close> of the name field.\<close>

definition renameBlur :: "dash_page \<Rightarrow> dash_page" where
  "renameBlur s =
     (case (active_dash s, db_config s) of
        (Some d, Some c) \<Rightarrow>
          if trim (db_edit_name s) \<noteq> [] \<and> db_edit_name s \<noteq> d_name d
          then put_config (trim (db_edit_name s)) c Op_update (d_id d) s
          else s
      | _ \<Rightarrow> s)"

definition pickRefresh :: "string \<Rightarrow> dash_page \<Rightarrow> dash_page" where
  "pickRefresh v s =
     (let n = to_number v; s1 = s\<lparr>db_refresh := n\<rparr>
      in case db_config s of
           Some c \<Rightarrow> saveConfig (c\<lparr>refresh_interval := n\<rparr>) s1
         | None \<Rightarrow> s1)"

definition number_or :: "string \<Rightarrow> jsnum \<Rightarrow> jsnum" where
  "number_or v d = (if num_truthy (to_number v) then to_number v else d)"

definition edit_w :: "string \<Rightarrow> jsnum" where
  "edit_w v = js_max (Fin 1) (js_min COLS (number_or v (Fin 1)))"

definition edit_h :: "string \<Rightarrow> jsnum" where
  "edit_h v = js_max (Fin 2) (number_or v (Fin 2))"

text \<open>The listener of \<open>hashchange\<close>.\<close>

definition onHash :: "dash_page \<Rightarrow> dash_page" where
  "onHash s =
     (case parseDashId (db_hash s) of
        Inr (Some i) \<Rightarrow>
          if i = [] then s
          else
            let s1 = s\<lparr>db_active := Some i\<rparr>
            in if (case db_list s of Some ds \<Rightarrow> has_id i ds | None \<Rightarrow> False) then s1 else load False s1
      | _ \<Rightarrow> s)"

subsection \<open>Events\<close>

datatype dash_event =
    DbSelect string | DbName string | DbCreate | DbRefresh
  | DbEditName string | DbBlur | DbInterval string | DbAuto bool | DbRun | DbDelete
  | DbAdd | DbOpen nat | DbRemove nat | DbLayout "layout_item list"
  | EdTitle string | EdType widget_type | EdSql string | EdW string | EdH string | EdClose | EdSubmit nat
  | DbTick | DbHashSet string | DbHashChange | DbMeasure jsnum
  | DbAnswer nat "js_exn + dash_answer"

definition on_editor :: "(editor_state \<Rightarrow> editor_state) \<Rightarrow> dash_page \<Rightarrow> dash_page" where
  "on_editor f s = s\<lparr>db_editor := map_option f (db_editor s)\<rparr>"

definition with_config :: "(dashboard_config \<Rightarrow> dash_page \<Rightarrow> dash_page) \<Rightarrow> dash_page \<Rightarrow> dash_page" where
  "with_config f s = (case db_config s of Some c \<Rightarrow> f c s | None \<Rightarrow> s)"

fun dash_handle :: "dash_page \<Rightarrow> dash_event \<Rightarrow> dash_page" where
  "dash_handle s (DbSelect a) = (if a = [] then s else s\<lparr>db_active := Some a\<rparr>)"
| "dash_handle s (DbName n) = s\<lparr>db_name := n\<rparr>"
| "dash_handle s DbCreate = (if db_creating s then s else create_dashboard s)"
| "dash_handle s DbRefresh = load False s"
| "dash_handle s (DbEditName n) = s\<lparr>db_edit_name := n\<rparr>"
| "dash_handle s DbBlur = renameBlur s"
| "dash_handle s (DbInterval v) = pickRefresh v s"
| "dash_handle s (DbAuto b) = s\<lparr>db_refresh_on := b\<rparr>"
| "dash_handle s DbRun = with_config runWidgets s"
| "dash_handle s DbDelete = (case active_dash s of Some d \<Rightarrow> remove_dashboard (d_id d) s | None \<Rightarrow> s)"
| "dash_handle s DbAdd = addWidget s"
| "dash_handle s (DbOpen i) = openEditor i s"
| "dash_handle s (DbRemove i) = removeWidget i s"
| "dash_handle s (DbLayout l) = persistLayout l s"
| "dash_handle s (EdTitle v) = on_editor (ed_title_update (\<lambda>_. v)) s"
| "dash_handle s (EdType t) = on_editor (ed_type_update (\<lambda>_. t)) s"
| "dash_handle s (EdSql v) = on_editor (ed_sql_update (\<lambda>_. v)) s"
| "dash_handle s (EdW v) = on_editor (ed_w_update (\<lambda>_. edit_w v)) s"
| "dash_handle s (EdH v) = on_editor (ed_h_update (\<lambda>_. edit_h v)) s"
| "dash_handle s EdClose = s\<lparr>db_editor := None\<rparr>"
| "dash_handle s (EdSubmit now) = submitEditor now s"
| "dash_handle s DbTick = (if db_refresh_on s \<and> active_id s \<noteq> None then with_config runWidgets s else s)"
| "dash_handle s (DbHashSet h) = s\<lparr>db_hash := h\<rparr>"
| "dash_handle s DbHashChange = onHash s"
| "dash_handle s (DbMeasure b) = s\<lparr>db_width := measured_width (db_width s) b\<rparr>"
| "dash_handle s (DbAnswer i r) = answered i r s"

definition dash_step :: "dash_page \<Rightarrow> dash_event \<Rightarrow> dash_page" where
  "dash_step s e = (if db_crashed s then s else run_effects s (dash_handle s e))"

definition dash_empty :: "string \<Rightarrow> dash_page" where
  "dash_empty hash =
     \<lparr>db_list = None, db_gen = 0, db_loading = False, db_error = [], db_name = [], db_creating = False,
      db_active = None, db_config = None, db_results = [], db_widget_errors = [], db_editor = None,
      db_edit_name = [], db_refresh = Fin 30, db_refresh_on = False, db_fp = [], db_uid = 0, db_width = Fin 0,
      db_hash = hash, db_ops = [], db_log = [], db_crashed = False\<rparr>"

definition dash_mount :: "string \<Rightarrow> dash_page" where
  "dash_mount hash = load False (dash_empty hash)"

subsection \<open>What is rendered\<close>

definition toolbar :: "dash_page \<Rightarrow> dash_event view" where
  "toolbar s =
     Elem ''div'' []
       ([Elem ''Text'' [] [Text ''Dashboards''],
         Elem ''Select'' [(''value'', Str (opt_text (active_id s))), (''onUpdate'', OnValue DbSelect)]
           (map (\<lambda>d. Elem ''option'' [(''value'', Str (d_id d))] [Text (d_name d)])
              (case db_list s of Some ds \<Rightarrow> ds | None \<Rightarrow> [])),
         Elem ''TextInput'' [(''value'', Str (db_name s)), (''onUpdate'', OnValue DbName)] [],
         Elem ''Button''
           [(''disabled'', Flag (db_creating s \<or> trim (db_name s) = [])), (''onClick'', On DbCreate)]
           [Text (if db_creating s then ''Creating'' @ [CHR 0xE2, CHR 0x80, CHR 0xA6] else ''Create'')],
         Elem ''Button'' [(''onClick'', On DbRefresh)] [Text ''Refresh'']] @
        shown (db_loading s) (Elem ''Spin'' [] []))"

definition dash_controls :: "dash_page \<Rightarrow> dash_event view" where
  "dash_controls s =
     Elem ''div'' []
       [Elem ''TextInput'' [(''value'', Str (db_edit_name s)), (''onUpdate'', OnValue DbEditName), (''onBlur'', On DbBlur)] [],
        Elem ''Select'' [(''value'', Str (num_to_string (db_refresh s))), (''onUpdate'', OnValue DbInterval)]
          (map (\<lambda>n. Elem ''option'' [(''value'', Str (nat_str n))] [Text (''refresh '' @ nat_str n @ ''s'')])
             [5, 10, 15, 30, 60, 300]),
        Elem ''Switch'' [(''checked'', Flag (db_refresh_on s)), (''onUpdate'', On (DbAuto (\<not> db_refresh_on s)))]
          [Text ''Auto-refresh''],
        Elem ''Button'' [(''onClick'', On DbRun)] [Text ''Run''],
        Elem ''Button'' [(''onClick'', On DbAdd)] [Text ''Add widget''],
        Elem ''Button'' [(''onClick'', On DbDelete)] [Text ''Delete'']]"

text \<open>What a widget shows: its error, its result, or a spinner while it has neither.\<close>

definition widget_body ::
    "(string \<Rightarrow> jsnum) \<Rightarrow> (jsnum \<Rightarrow> string) \<Rightarrow> dash_page \<Rightarrow> widget_config \<Rightarrow> js_exn + dash_event view" where
  "widget_body date_parse locale_str s w =
     (let err = opt_text (map_of (db_widget_errors s) (w_id w))
      in if err \<noteq> [] then Inr (Elem ''div'' [] [Elem ''Text'' [(''color'', Str ''danger'')] [Text err]])
         else (case map_of (db_results s) (w_id w) of
                 Some (Some r) \<Rightarrow>
                   map_sum id (\<lambda>v. case v of View x \<Rightarrow> x | Chart d \<Rightarrow> Elem ''Chart'' [] [])
                     (WidgetRenderer date_parse locale_str (w_type w) (w_title w) r)
               | _ \<Rightarrow> Inr (Elem ''div'' [] [Elem ''Spin'' [] []])))"

definition widget_card :: "nat \<Rightarrow> widget_config \<Rightarrow> dash_event view \<Rightarrow> dash_event view" where
  "widget_card i w body =
     Elem ''div'' [(''key'', Str (w_id w))]
       [Elem ''div'' [(''className'', Str ''drag-handle'')]
          [Elem ''Text'' [] [Text (w_title w @ '' '' @ [CHR 0xC2, CHR 0xB7] @ '' '' @ widget_type_name (w_type w))],
           Elem ''Button'' [(''onClick'', On (DbOpen i))] [Elem ''Pencil'' [] []],
           Elem ''Button'' [(''onClick'', On (DbRemove i))] [Elem ''TrashBin'' [] []]],
        Elem ''div'' [] [body]]"

fun widget_cards ::
    "(string \<Rightarrow> jsnum) \<Rightarrow> (jsnum \<Rightarrow> string) \<Rightarrow> dash_page \<Rightarrow> nat \<Rightarrow> widget_config list \<Rightarrow>
     js_exn + dash_event view list" where
  "widget_cards dp ls s i [] = Inr []"
| "widget_cards dp ls s i (w # ws) =
     ok_bind (widget_body dp ls s w) (\<lambda>b.
       ok_bind (widget_cards dp ls s (Suc i) ws) (\<lambda>vs. Inr (widget_card i w b # vs)))"

definition example_queries :: "string list" where
  "example_queries =
     [''SELECT time_bucket('' @ [CHR 0x27] @ ''5m'' @ [CHR 0x27] @ '', ts) AS t, COUNT(*) FROM logs GROUP BY 1'',
      ''SELECT COUNT(*) AS total FROM logs WHERE level = '' @ [CHR 0x27] @ ''ERROR'' @ [CHR 0x27],
      ''SELECT level, COUNT(*) FROM logs GROUP BY 1'',
      ''SELECT ts, level, msg FROM logs ORDER BY ts DESC LIMIT 50'']"

definition editor_dialog :: "nat \<Rightarrow> editor_state \<Rightarrow> dash_event view" where
  "editor_dialog now e =
     Elem ''Dialog'' [(''onClose'', On EdClose)]
       ([Elem ''Dialog.Header'' [(''caption'', Str (if ed_index e = None then ''Add widget'' else ''Edit widget''))] [],
         Elem ''TextInput'' [(''value'', Str (ed_title e)), (''onUpdate'', OnValue EdTitle)] [],
         Elem ''Select'' [(''value'', Str (widget_type_name (ed_type e)))]
           (map (\<lambda>t. Elem ''option'' [(''onUpdate'', On (EdType t))] [Text (widget_type_name t)]) WIDGET_TYPES),
         Elem ''TextInput'' [(''value'', Str (ed_sql e)), (''onUpdate'', OnValue EdSql)] [],
         Elem ''TextInput'' [(''value'', Str (num_to_string (ed_w e))), (''onUpdate'', OnValue EdW)] [],
         Elem ''TextInput'' [(''value'', Str (num_to_string (ed_h e))), (''onUpdate'', OnValue EdH)] []] @
        map (\<lambda>q. Elem ''Button'' [(''onClick'', On (EdSql q))] [Text q]) example_queries @
        [Elem ''Button'' [(''onClick'', On (EdSubmit now))] [Text (if ed_index e = None then ''Add'' else ''Save'')],
         Elem ''Button'' [(''onClick'', On EdClose)] [Text ''Cancel'']])"

text \<open>The page; \<open>now\<close> is the clock a click on Apply would read.\<close>

definition DashboardPage ::
    "(string \<Rightarrow> jsnum) \<Rightarrow> (jsnum \<Rightarrow> string) \<Rightarrow> nat \<Rightarrow> dash_page \<Rightarrow> js_exn + dash_event view" where
  "DashboardPage date_parse locale_str now s =
     (let open_dash = (active_dash s \<noteq> None \<and> db_config s \<noteq> None);
          cards = (if open_dash \<and> js_lt (Fin 0) (db_width s) then widget_cards date_parse locale_str s 0 (widgetList s)
                   else Inr [])
      in ok_bind cards (\<lambda>cs.
           Inr (Elem ''div'' []
             ([toolbar s] @
              shown open_dash (dash_controls s) @
              shown (db_error s \<noteq> []) (Elem ''Alert'' [(''title'', Str ''Dashboards''), (''message'', Str (db_error s))] []) @
              shown open_dash (Elem ''div'' [] [Elem ''GridLayout'' [] cs]) @
              shown (open_dash \<and> widgetList s = []) (Elem ''Alert'' [(''title'', Str ''Empty dashboard'')] []) @
              shown (active_dash s = None \<and> db_list s = Some []) (Elem ''Alert'' [(''title'', Str ''No dashboards'')] []) @
              (case (db_editor s, db_config s) of (Some e, Some c) \<Rightarrow> [editor_dialog now e] | _ \<Rightarrow> [])))))"

end
