(* ===== verification/DashboardFacts.thy ===== *)
theory DashboardFacts
  imports Dashboards
begin

section \<open>The dashboards page: what holds of it\<close>

text \<open>
  Three invariants of the page's state machine, each discharged as an interpretation of \<open>machine\<close>:
  what is stored reads back (\<open>store_inv\<close>), the fingerprint of the last fetched widget set is that of
  the configuration shown (\<open>fp_ok\<close>), one creation at a time (\<open>create_inv\<close>); then the behaviour of the
  handlers and answers, and the states in which the page goes wrong.
\<close>

subsection \<open>The editor\<close>

text \<open>Whatever is typed into the size fields of the editor, the width stays between 1 and 12 columns
  and the height is at least 2 units; neither is ever NaN.\<close>

lemma editor_clamps:
  "js_le (Fin 1) (edit_w v) \<and> js_le (edit_w v) (Fin 12) \<and> js_le (Fin 2) (edit_h v)"
proof -
  have n: "number_or v d \<noteq> JNaN" if "d \<noteq> JNaN" for d
    using that by (simp add: number_or_def num_truthy_def)
  have "js_le (Fin 2) (js_max (Fin 2) (number_or v (Fin 2)))"
    using n [of "Fin 2"] js_le_linear [of "Fin 2" "number_or v (Fin 2)"] by (auto simp: js_max_def)
  then show ?thesis using js_clamp [of "Fin 1" "Fin 12" "number_or v (Fin 1)"] n [of "Fin 1"]
    by (simp add: edit_w_def edit_h_def COLS_def)
qed

lemma edit_w_finite: "is_finite (edit_w v)"
proof -
  have "js_le (edit_w v) (Fin 12)" "js_le (Fin 1) (edit_w v)"
    using js_clamp [of "Fin 1" "Fin 12" "number_or v (Fin 1)"]
    by (auto simp: edit_w_def COLS_def number_or_def num_truthy_def)
  then show ?thesis by (cases "edit_w v") (auto simp: js_le_def)
qed

lemma edit_h_finite: "to_number v \<noteq> JInf \<Longrightarrow> is_finite (edit_h v)"
  by (cases "to_number v") (auto simp: edit_h_def number_or_def num_truthy_def js_max_def js_le_def)

subsection \<open>Every configuration stored reads back\<close>

lemma map_fixed: "map f xs = xs \<Longrightarrow> x \<in> set xs \<Longrightarrow> f x = x"
  by (induction xs) auto

lemma wire_prop: "json_wire v = v \<Longrightarrow> prop_of v k = Some u \<Longrightarrow> json_wire u = u"
proof (cases v)
  case (JObj fs)
  assume "json_wire v = v" "prop_of v k = Some u"
  with JObj have "map (\<lambda>(k, v). (k, json_wire v)) fs = fs" "(k, u) \<in> set fs"
    by (auto dest: map_of_SomeD)
  from map_fixed [OF this] show ?thesis by simp
qed simp_all

lemma wire_num:
  assumes "json_wire v = v" and "as_num (prop_of v k) = Some n"
  shows "is_finite n"
proof (cases "prop_of v k")
  case (Some u)
  have "json_wire u = u" using assms(1) Some by (rule wire_prop)
  moreover have "u = JNum n" using assms(2) Some by (cases u) simp_all
  ultimately show ?thesis by (simp split: if_splits)
qed (use assms in simp)

lemma eight_some:
  "(case (a, b, c, d, e, f, g, h) of
      (Some i, Some t, Some ti, Some q, Some x, Some y, Some ww, Some hh) \<Rightarrow>
        Some \<lparr>w_id = i, w_type = t, w_title = ti, w_sql = q, w_x = x, w_y = y, w_w = ww, w_h = hh\<rparr>
    | _ \<Rightarrow> None) = Some w \<Longrightarrow>
   e = Some (w_x w) \<and> f = Some (w_y w) \<and> g = Some (w_w w) \<and> h = Some (w_h w)"
  by (cases a, simp, cases b, simp, cases c, simp, cases d, simp, cases e, simp, cases f, simp,
      cases g, simp, cases h, simp, auto)

lemma widget_of_json_finite:
  assumes "json_wire v = v" and "widget_of_json v = Some w"
  shows "widget_finite w"
  using eight_some [OF assms(2) [unfolded widget_of_json_def]] wire_num [OF assms(1)]
  unfolding widget_finite_def by blast

lemma wire_array: "json_wire (JArr vs) = JArr vs \<Longrightarrow> v \<in> set vs \<Longrightarrow> json_wire v = v"
  by (induction vs) auto

lemma raw_widgets_wire:
  assumes "json_wire v = v" and "x \<in> set (raw_widgets (parseDashboardConfig v))"
  shows "json_wire x = x"
proof -
  define c where "c = (if v = JNull then JObj [] else v)"
  have c: "json_wire c = c" using assms(1) by (simp add: c_def)
  obtain vs where "prop_of c ''widgets'' = Some (JArr vs)" "x \<in> set vs"
    using assms(2) unfolding parseDashboardConfig_def Let_def c_def [symmetric]
    by (cases "prop_of c ''widgets''") (auto split: json.splits)
  then show ?thesis using wire_prop [OF c] wire_array by metis
qed

lemma raw_title_wire:
  assumes "json_wire v = v"
  shows "raw_title (parseDashboardConfig v) \<noteq> JNull \<and>
    json_wire (raw_title (parseDashboardConfig v)) = raw_title (parseDashboardConfig v)"
proof -
  define c where "c = (if v = JNull then JObj [] else v)"
  have c: "json_wire c = c" using assms(1) by (simp add: c_def)
  have t: "raw_title (parseDashboardConfig v) = or_else (prop_of c ''title'') (JStr [])"
    by (simp add: parseDashboardConfig_def Let_def c_def)
  show ?thesis unfolding t using wire_prop [OF c, of "''title''"]
    by (cases "prop_of c ''title''") (auto simp: or_else_def)
qed

lemma raw_refresh_wire:
  assumes "json_wire v = v"
  shows "is_finite (raw_refresh (parseDashboardConfig v))"
proof -
  define c where "c = (if v = JNull then JObj [] else v)"
  have c: "json_wire c = c" using assms(1) by (simp add: c_def)
  have t: "raw_refresh (parseDashboardConfig v) =
      (case as_num (prop_of c ''refresh_interval'') of Some n \<Rightarrow> n | None \<Rightarrow> Fin 30)"
    by (auto simp: parseDashboardConfig_def Let_def c_def split: option.splits json.splits)
  show ?thesis unfolding t using wire_num [OF c] by (auto split: option.split)
qed

lemma typed_config_storable:
  assumes "json_wire v = v" and "typed_config (parseDashboardConfig v) = Some c"
  shows "config_storable c"
proof -
  let ?r = "parseDashboardConfig v"
  have c: "dc_title c = raw_title ?r" "refresh_interval c = raw_refresh ?r"
    "widgets c = map (\<lambda>x. the (widget_of_json x)) (raw_widgets ?r)" "None \<notin> widget_of_json ` set (raw_widgets ?r)"
    using assms(2) by (auto simp: typed_config_def Let_def o_def split: if_splits)
  have "widget_finite (the (widget_of_json x))" if "x \<in> set (raw_widgets ?r)" for x
  proof -
    have "widget_of_json x \<noteq> None" using that c(4) by (metis image_eqI)
    then obtain w where "widget_of_json x = Some w" by blast
    then show ?thesis using widget_of_json_finite [OF raw_widgets_wire [OF assms(1) that]] by simp
  qed
  then show ?thesis using c raw_title_wire [OF assms(1)] raw_refresh_wire [OF assms(1)]
    by (simp add: config_storable_def list_all_iff)
qed

definition config_ok :: "dashboard_config option \<Rightarrow> bool" where
  "config_ok c \<longleftrightarrow> (\<forall>x. c = Some x \<longrightarrow> config_storable x)"

definition editor_ok :: "editor_state option \<Rightarrow> bool" where
  "editor_ok e \<longleftrightarrow> (\<forall>x. e = Some x \<longrightarrow> is_finite (ed_w x) \<and> is_finite (ed_h x))"

definition list_ok :: "dashboard list option \<Rightarrow> bool" where
  "list_ok l \<longleftrightarrow> (\<forall>ds. l = Some ds \<longrightarrow> list_all (\<lambda>d. json_wire (d_config d) = d_config d) ds)"

definition op_ok :: "dash_op \<Rightarrow> bool" where
  "op_ok op \<longleftrightarrow> (\<forall>c. op = Op_save c \<longrightarrow> config_storable c)"

definition request_ok :: "http_request \<Rightarrow> bool" where
  "request_ok r \<longleftrightarrow> is_dashboard_write r \<and> req_body r \<noteq> None \<longrightarrow>
     (\<exists>nm c. config_storable c \<and> req_body r = Some (json_wire (dashboard_body nm (json_of_config c))))"

definition store_inv :: "dash_page \<Rightarrow> bool" where
  "store_inv s \<longleftrightarrow> config_ok (db_config s) \<and> editor_ok (db_editor s) \<and> list_ok (db_list s) \<and>
     list_all op_ok (db_ops s) \<and> list_all request_ok (db_log s)"

lemma oks [simp]: "config_ok None" "config_ok (Some c) = config_storable c" "editor_ok None"
  "editor_ok (Some e) = (is_finite (ed_w e) \<and> is_finite (ed_h e))" "list_ok None"
  "list_ok (Some ds) = list_all (\<lambda>d. json_wire (d_config d) = d_config d) ds"
  "op_ok (Op_load b)" "op_ok (Op_save c) = config_storable c" "op_ok Op_update" "op_ok Op_create"
  "op_ok (Op_delete i)" "op_ok (Op_run c)"
  by (simp_all add: config_ok_def editor_ok_def list_ok_def op_ok_def)

lemma requests_ok [simp]:
  "request_ok api_dashboards" "request_ok (api_dashboardDelete i)" "request_ok (api_widgetQuery q t)"
  by (simp_all add: request_ok_def is_dashboard_write_def api_dashboards_def get_req_def
      api_dashboardDelete_def api_widgetQuery_def post_def starts_with_def)

lemma request_put_ok: "config_storable c \<Longrightarrow> request_ok (api_dashboardUpdate did nm (json_of_config c))"
  by (auto simp: request_ok_def api_dashboardUpdate_def put_def)

lemma request_create_ok: "config_storable c \<Longrightarrow> request_ok (api_dashboardCreate nm (json_of_config c))"
  by (auto simp: request_ok_def api_dashboardCreate_def post_def)

lemma store_send: "store_inv s \<Longrightarrow> request_ok r \<Longrightarrow> op_ok op \<Longrightarrow> store_inv (send r op s)"
  by (simp add: store_inv_def send_def)

text \<open>Changes outside these five components are free.\<close>

lemma store_cong:
  "db_config s = db_config t \<Longrightarrow> db_editor s = db_editor t \<Longrightarrow> db_list s = db_list t \<Longrightarrow>
   db_ops s = db_ops t \<Longrightarrow> db_log s = db_log t \<Longrightarrow> store_inv t \<Longrightarrow> store_inv s"
  by (simp add: store_inv_def)

lemma store_load: "store_inv s \<Longrightarrow> store_inv (load b s)"
  unfolding load_def by (rule store_send) (simp_all add: store_inv_def)

lemma store_put: "store_inv s \<Longrightarrow> config_storable c \<Longrightarrow> op_ok op \<Longrightarrow> store_inv (put_config nm c op a s)"
  unfolding put_config_def by (rule store_send) (simp_all add: request_put_ok)

lemma store_save: "store_inv s \<Longrightarrow> config_storable c \<Longrightarrow> store_inv (saveConfig c s)"
  by (simp add: saveConfig_def store_put split: option.split)

lemma store_run_widgets: "store_inv s \<Longrightarrow> store_inv (runWidgets c s)"
  by (auto simp: store_inv_def runWidgets_def list_all_iff)

lemma store_with_run: "store_inv s \<Longrightarrow> store_inv (with_config runWidgets s)"
  by (simp add: with_config_def store_run_widgets split: option.split)

lemma store_hash_effect: "store_inv s \<Longrightarrow> store_inv (hash_effect s)"
  by (auto simp: hash_effect_def store_inv_def split: option.split sum.split)

lemma store_config_effect:
  assumes "store_inv s"
  shows "store_inv (config_effect s)"
proof (cases "active_id s")
  case (Some a)
  show ?thesis
  proof (cases "db_list s")
    case (Some ds)
    have ok: "config_ok (typed_config (parseDashboardConfig (d_config d)))"
      if "List.find (\<lambda>d. d_id d = a) ds = Some d" for d
      using assms that Some typed_config_storable find_in_set [OF that]
      by (auto simp: store_inv_def list_all_iff config_ok_def)
    show ?thesis using assms \<open>active_id s = Some a\<close> Some
      by (cases "List.find (\<lambda>d. d_id d = a) ds")
         (simp_all add: config_effect_def Let_def, simp add: store_inv_def ok)
  qed (simp add: config_effect_def \<open>active_id s = Some a\<close> assms)
qed (simp add: config_effect_def assms)

lemma store_fp_effect: "store_inv s \<Longrightarrow> store_inv (fp_effect s)"
proof -
  assume s: "store_inv s"
  then have "store_inv (s\<lparr>db_fp := f\<rparr>)" for f by (simp add: store_inv_def)
  with s show ?thesis by (simp add: fp_effect_def store_run_widgets split: option.split)
qed

lemma store_effects: "store_inv s \<Longrightarrow> store_inv (run_effects old s)"
  by (simp add: run_effects_def Let_def store_fp_effect store_config_effect store_hash_effect)

lemma store_loaded:
  "store_inv s \<Longrightarrow> list_all (\<lambda>d. json_wire (d_config d) = d_config d) ds \<Longrightarrow> store_inv (loaded b ds s)"
  by (auto simp: loaded_def Let_def store_inv_def split: sum.split option.split)

lemma store_ran: "store_inv s \<Longrightarrow> store_inv (ran c rs s)"
  by (simp add: ran_def store_inv_def split: prod.split)

lemma store_continue:
  assumes "store_inv s" and "op_ok op"
    and "\<And>ds. r = Inr (A_list ds) \<Longrightarrow> list_all (\<lambda>d. json_wire (d_config d) = d_config d) ds"
  shows "store_inv (continue_op op r s)"
proof -
  have "store_inv (s\<lparr>db_error := e, db_loading := l, db_creating := c\<rparr>)"
    "store_inv (s\<lparr>db_error := e, db_creating := c\<rparr>)" "store_inv (s\<lparr>db_error := e\<rparr>)"
    "store_inv (s\<lparr>db_active := i, db_name := n\<rparr>)" "store_inv (s\<lparr>db_active := i, db_config := None\<rparr>)"
    "store_inv (s\<lparr>db_config := None\<rparr>)" for e l c i n
    using assms(1) by (simp_all add: store_inv_def)
  moreover have "store_inv (s\<lparr>db_config := Some c\<rparr>)" if "op = Op_save c" for c
    using assms(1,2) that by (simp add: store_inv_def)
  ultimately show ?thesis using assms
    by (cases op; cases r) (auto simp: continue_op_def load_failed_def store_loaded store_load store_ran
        split: dash_answer.split)
qed

lemma store_answered:
  assumes "store_inv s"
    and "\<And>ds. r = Inr (A_list ds) \<Longrightarrow> list_all (\<lambda>d. json_wire (d_config d) = d_config d) ds"
  shows "store_inv (answered i r s)"
proof (cases "at_index (db_ops s) i")
  case (Some op)
  then have op: "op \<in> set (db_ops s)" by (auto simp: at_index_Some)
  have "store_inv (s\<lparr>db_ops := take i (db_ops s) @ drop (Suc i) (db_ops s)\<rparr>)"
    using assms(1) by (auto simp: store_inv_def list_all_iff dest: in_set_takeD in_set_dropD)
  moreover have "op_ok op" using assms(1) op by (simp add: store_inv_def list_all_iff)
  ultimately show ?thesis using Some store_continue assms(2) by (simp add: answered_def)
qed (simp add: answered_def assms)

lemma storable_widgets:
  "config_storable c \<Longrightarrow> list_all widget_finite ws \<Longrightarrow> config_storable (c\<lparr>widgets := ws\<rparr>)"
  by (simp add: config_storable_def)

lemma edited_finite:
  "is_finite (ed_w e) \<Longrightarrow> is_finite (ed_h e) \<Longrightarrow> is_finite x \<Longrightarrow> is_finite y \<Longrightarrow> widget_finite (edited e i x y)"
  by (simp add: widget_finite_def edited_def)

lemma store_submit:
  assumes "store_inv s"
  shows "store_inv (submitEditor now s)"
proof (cases "db_editor s")
  case (Some e)
  show ?thesis
  proof (cases "db_config s")
    case (Some c)
    have f: "config_storable c" "is_finite (ed_w e)" "is_finite (ed_h e)" "list_all widget_finite (widgets c)"
      using assms Some \<open>db_editor s = Some e\<close> by (auto simp: store_inv_def config_storable_def)
    have closed: "store_inv (t\<lparr>db_editor := None\<rparr>)" if "store_inv t" for t
      using that by (simp add: store_inv_def)
    have uid: "store_inv (s\<lparr>db_uid := u\<rparr>)" for u using assms by (simp add: store_inv_def)
    show ?thesis
    proof (cases "ed_index e")
      case None
      have "widget_finite (edited e (newWidgetId now (Suc (db_uid s))) (new_x c) NEW_WIDGET_Y)"
        using f by (intro edited_finite) (simp_all add: new_x_def NEW_WIDGET_Y_def)
      then have "config_storable (c\<lparr>widgets := widgets c @ [edited e (newWidgetId now (Suc (db_uid s))) (new_x c) NEW_WIDGET_Y]\<rparr>)"
        using f by (intro storable_widgets) simp_all
      then show ?thesis using Some \<open>db_editor s = Some e\<close> None
        by (simp add: submitEditor_def Let_def closed store_save uid)
    next
      case (Some i)
      show ?thesis
      proof (cases "at_index (widgets c) i")
        case (Some old)
        then have "old \<in> set (widgets c)" by (auto simp: at_index_Some)
        then have "widget_finite (edited e (w_id old) (w_x old) (w_y old))"
          using f by (intro edited_finite) (auto simp: list_all_iff widget_finite_def)
        then have "list_all widget_finite ((widgets c)[i := edited e (w_id old) (w_x old) (w_y old)])"
          using f(4) by (auto simp: list_all_iff dest!: set_update_subset_insert [THEN subsetD])
        then have "config_storable (c\<lparr>widgets := (widgets c)[i := edited e (w_id old) (w_x old) (w_y old)]\<rparr>)"
          by (rule storable_widgets [OF f(1)])
        then show ?thesis
          using Some \<open>ed_index e = Some i\<close> \<open>db_editor s = Some e\<close> \<open>db_config s = Some c\<close> assms
          by (simp add: submitEditor_def closed store_save)
      qed (use Some \<open>db_editor s = Some e\<close> \<open>db_config s = Some c\<close> assms in \<open>simp add: submitEditor_def\<close>)
    qed
  qed (simp add: submitEditor_def \<open>db_editor s = Some e\<close> assms)
qed (simp add: submitEditor_def assms)

lemma store_remove:
  assumes "store_inv s"
  shows "store_inv (removeWidget i s)"
proof (cases "db_config s")
  case (Some c)
  then have "config_storable c" using assms by (simp add: store_inv_def)
  moreover from this have "list_all widget_finite (take i (widgets c) @ drop (Suc i) (widgets c))"
    by (auto simp: config_storable_def list_all_iff dest: in_set_takeD in_set_dropD)
  ultimately have "config_storable (c\<lparr>widgets := take i (widgets c) @ drop (Suc i) (widgets c)\<rparr>)"
    by (rule storable_widgets)
  then show ?thesis using assms Some by (simp add: removeWidget_def store_save)
qed (simp add: removeWidget_def assms)

definition item_finite :: "layout_item \<Rightarrow> bool" where
  "item_finite l \<longleftrightarrow> is_finite (li_x l) \<and> is_finite (li_y l) \<and> is_finite (li_w l) \<and> is_finite (li_h l)"

lemma moved_in_layout: "moved layout w = Some l \<Longrightarrow> l \<in> set layout \<and> li_i l = w_id w \<and> differs l w"
proof -
  assume m: "moved layout w = Some l"
  then have "map_of (rev (map (\<lambda>l. (li_i l, l)) layout)) (w_id w) = Some l" "differs l w"
    by (auto simp: moved_def map_of_map_from split: option.splits if_splits)
  moreover from this have "(w_id w, l) \<in> set (map (\<lambda>l. (li_i l, l)) layout)"
    using map_of_SomeD [of "rev (map (\<lambda>l. (li_i l, l)) layout)"] by simp
  ultimately show ?thesis by auto
qed

lemma place_finite: "list_all item_finite layout \<Longrightarrow> widget_finite w \<Longrightarrow> widget_finite (place layout w)"
  by (auto simp: place_def widget_finite_def item_finite_def list_all_iff split: option.split dest!: moved_in_layout)

lemma store_layout:
  assumes "store_inv s" and "list_all item_finite layout"
  shows "store_inv (persistLayout layout s)"
proof (cases "db_config s")
  case (Some c)
  then have "config_storable c" using assms by (simp add: store_inv_def)
  moreover from this have "list_all widget_finite (map (place layout) (widgets c))"
    using assms(2) place_finite by (auto simp: config_storable_def list_all_iff)
  ultimately have c: "config_storable (c\<lparr>widgets := map (place layout) (widgets c)\<rparr>)"
    by (rule storable_widgets)
  then have "store_inv (s\<lparr>db_config := Some (c\<lparr>widgets := map (place layout) (widgets c)\<rparr>)\<rparr>)"
    using assms(1) by (simp add: store_inv_def)
  then show ?thesis using assms Some c by (auto simp: persistLayout_def Let_def store_put split: option.split)
qed (simp add: persistLayout_def assms)

text \<open>What the environment has to provide: configurations that came from JSON, finite geometry from the
  grid, finite numbers in the two number fields.\<close>

definition dash_event_ok :: "dash_event \<Rightarrow> bool" where
  "dash_event_ok e =
     (case e of
        DbAnswer i (Inr (A_list ds)) \<Rightarrow> list_all (\<lambda>d. json_wire (d_config d) = d_config d) ds
      | DbLayout l \<Rightarrow> list_all item_finite l
      | EdH v \<Rightarrow> to_number v \<noteq> JInf
      | DbInterval v \<Rightarrow> is_finite (to_number v)
      | _ \<Rightarrow> True)"

lemma store_interval:
  assumes "store_inv s" and "is_finite (to_number v)"
  shows "store_inv (pickRefresh v s)"
proof (cases "db_config s")
  case (Some c)
  then have "config_storable (c\<lparr>refresh_interval := to_number v\<rparr>)"
    using assms by (simp add: store_inv_def config_storable_def)
  moreover have "store_inv (s\<lparr>db_refresh := to_number v\<rparr>)" using assms(1) by (simp add: store_inv_def)
  ultimately show ?thesis using Some by (simp add: pickRefresh_def Let_def store_save)
qed (use assms in \<open>simp add: pickRefresh_def Let_def store_inv_def\<close>)

lemma store_blur: "store_inv s \<Longrightarrow> store_inv (renameBlur s)"
  by (auto simp: renameBlur_def store_put store_inv_def [of s] split: option.split intro: store_put)

lemma store_editor_update:
  "store_inv s \<Longrightarrow> (\<And>e. is_finite (ed_w e) \<Longrightarrow> is_finite (ed_h e) \<Longrightarrow> is_finite (ed_w (f e)) \<and> is_finite (ed_h (f e))) \<Longrightarrow>
   store_inv (on_editor f s)"
  by (cases "db_editor s") (simp_all add: store_inv_def on_editor_def)

lemma store_opened:
  assumes "store_inv s"
  shows "store_inv (openEditor i s)"
proof (cases "at_index (widgetList s) i")
  case (Some w)
  then obtain c where c: "db_config s = Some c" "w \<in> set (widgets c)"
    by (auto simp: widgetList_def at_index_Some split: option.splits)
  then have "widget_finite w" using assms by (auto simp: store_inv_def config_storable_def list_all_iff)
  then show ?thesis using Some assms by (simp add: openEditor_def store_inv_def widget_finite_def)
qed (simp add: openEditor_def assms)

lemma emptyConfig_storable: "config_storable (emptyConfig nm)"
  by (simp add: config_storable_def emptyConfig_def)

lemma store_create: "store_inv s \<Longrightarrow> store_inv (create_dashboard s)"
proof -
  assume "store_inv s"
  then have "store_inv (s\<lparr>db_creating := True, db_error := []\<rparr>)" by (simp add: store_inv_def)
  then show ?thesis using \<open>store_inv s\<close>
    by (simp add: create_dashboard_def Let_def store_send request_create_ok emptyConfig_storable)
qed

lemma store_onHash: "store_inv s \<Longrightarrow> store_inv (onHash s)"
proof -
  assume "store_inv s"
  then have "store_inv (s\<lparr>db_active := a\<rparr>)" for a by (simp add: store_inv_def)
  then show ?thesis using \<open>store_inv s\<close>
    by (auto simp: onHash_def Let_def store_load split: sum.split option.split)
qed

lemma store_handle:
  assumes "store_inv s" and "dash_event_ok e"
  shows "store_inv (dash_handle s e)"
proof (cases e)
  case (DbAnswer i r)
  then show ?thesis using assms by (auto simp: dash_event_ok_def intro!: store_answered)
next
  case DbDelete
  then show ?thesis using assms by (auto simp: remove_dashboard_def store_send split: option.split)
next
  case (DbSelect a)
  then show ?thesis using assms by (simp add: store_inv_def)
next
  case DbAdd
  then show ?thesis using assms by (simp add: store_inv_def addWidget_def)
next
  case EdClose
  then show ?thesis using assms by (simp add: store_inv_def)
qed (use assms in \<open>auto simp: dash_event_ok_def store_create store_load store_blur store_interval store_with_run
      store_opened store_remove store_layout store_submit store_onHash edit_w_finite edit_h_finite
      intro!: store_editor_update intro: store_cong\<close>)

text \<open>The page driven by a well-behaved environment: events that are not are dropped.\<close>

definition dash_guarded :: "dash_page \<Rightarrow> dash_event \<Rightarrow> dash_page" where
  "dash_guarded s e = (if dash_event_ok e then dash_step s e else s)"

interpretation dash_store: machine "dash_mount h" dash_guarded store_inv
proof
  show "store_inv (dash_mount h)"
    unfolding dash_mount_def by (rule store_load) (simp add: store_inv_def dash_empty_def)
  fix s e
  assume "store_inv s"
  then show "store_inv (dash_guarded s e)"
    by (simp add: dash_guarded_def dash_step_def store_effects store_handle)
qed

lemma run_guarded: "list_all dash_event_ok es \<Longrightarrow> run dash_guarded s es = run dash_step s es"
  by (induction es arbitrary: s) (simp_all add: dash_guarded_def)

text \<open>C2: nothing the page stores is lost: over any run in which the backend answers with JSON and the
  grid reports finite positions, every request that creates or updates a dashboard carries a
  configuration which the page, reading the stored text back, gets again as it was, widget by
  widget (a position that JSON cannot hold would be lost).\<close>

theorem stored_configs_read_back:
  assumes "list_all dash_event_ok es" and "r \<in> set (db_log (run dash_step (dash_mount h) es))"
    and "is_dashboard_write r" and "req_body r \<noteq> None"
  shows "\<exists>nm c. req_body r = Some (json_wire (dashboard_body nm (json_of_config c))) \<and>
    typed_config (parseDashboardConfig (json_wire (json_of_config c))) = Some c"
proof -
  have "store_inv (run dash_step (dash_mount h) es)"
    using dash_store.inv_reachable [of h es] run_guarded [OF assms(1)] by simp
  then have "request_ok r" using assms(2) by (auto simp: store_inv_def list_all_iff)
  then obtain nm c where "config_storable c" "req_body r = Some (json_wire (dashboard_body nm (json_of_config c)))"
    using assms(3,4) by (auto simp: request_ok_def)
  then show ?thesis using stored_config.dec_enc by blast
qed

definition new_dash_events :: "dash_event list" where
  "new_dash_events = [DbAnswer 0 (Inr (A_list [])), DbName ''ops'', DbCreate]"

theorem stored_configs_read_back_witness:
  "\<exists>nm c. req_body (api_dashboardCreate ''ops'' (json_of_config (emptyConfig ''ops''))) =
      Some (json_wire (dashboard_body nm (json_of_config c))) \<and>
    typed_config (parseDashboardConfig (json_wire (json_of_config c))) = Some c"
proof (rule stored_configs_read_back)
  show "list_all dash_event_ok new_dash_events" by (simp add: new_dash_events_def dash_event_ok_def)
  have t: "trim ''ops'' = ''ops''" by code_simp
  have p: "parseDashId [] = Inr None" by (simp add: parseDashId_def starts_with_def dash_prefix_def)
  show "api_dashboardCreate ''ops'' (json_of_config (emptyConfig ''ops'')) \<in>
      set (db_log (run dash_step (dash_mount []) new_dash_events))"
    by (simp add: new_dash_events_def dash_mount_def dash_empty_def load_def send_def dash_step_def answered_def
        continue_op_def loaded_def p create_dashboard_def t run_effects_def config_effect_def fp_effect_def
        active_id_def Let_def)
  show "is_dashboard_write (api_dashboardCreate ''ops'' (json_of_config (emptyConfig ''ops'')))"
    by (simp add: is_dashboard_write_def api_dashboardCreate_def post_def starts_with_def)
  show "req_body (api_dashboardCreate ''ops'' (json_of_config (emptyConfig ''ops''))) \<noteq> None"
    by (simp add: api_dashboardCreate_def post_def)
qed

subsection \<open>Refetching only when the widget set changes\<close>

definition fp_ok :: "dash_page \<Rightarrow> bool" where
  "fp_ok s \<longleftrightarrow> db_crashed s \<or> (\<forall>c. db_config s = Some c \<longrightarrow> fingerprint c = db_fp s)"

lemma fp_effect_ok: "fp_ok (fp_effect s)"
  by (auto simp: fp_ok_def fp_effect_def runWidgets_def split: option.split)

interpretation dash_fp: machine "dash_mount h" dash_step fp_ok
proof
  show "fp_ok (dash_mount h)" by (simp add: fp_ok_def dash_mount_def load_def send_def dash_empty_def)
  fix s e
  assume "fp_ok s"
  then show "fp_ok (dash_step s e)"
    by (auto simp: dash_step_def run_effects_def Let_def fp_effect_ok, auto simp: fp_ok_def)
qed

lemma effects_idle:
  assumes "\<not> db_crashed s" and "db_active s = db_active old" and "db_gen s = db_gen old"
    and "\<forall>c. db_config s = Some c \<longrightarrow> fingerprint c = db_fp s"
  shows "run_effects old s = s"
  using assms by (simp add: run_effects_def fp_effect_def split: option.split)

lemma place_keeps [simp]:
  "w_id (place l w) = w_id w" "w_type (place l w) = w_type w" "w_title (place l w) = w_title w"
  "w_sql (place l w) = w_sql w"
  by (simp_all add: place_def split: option.split)

lemma fingerprint_place: "fingerprint (c\<lparr>widgets := map (place l) (widgets c)\<rparr>) = fingerprint c"
  by (simp add: fingerprint_def o_def)

definition layout_result :: "layout_item list \<Rightarrow> dash_page \<Rightarrow> dash_page \<Rightarrow> bool" where
  "layout_result l s t =
     (case (db_config s, active_id s) of
        (Some c, Some a) \<Rightarrow>
          if list_ex (\<lambda>w. moved l w \<noteq> None) (widgets c)
          then db_config t = Some (c\<lparr>widgets := map (place l) (widgets c)\<rparr>) \<and>
               db_log t = db_log s @
                 [api_dashboardUpdate a (db_edit_name s) (json_of_config (c\<lparr>widgets := map (place l) (widgets c)\<rparr>))]
          else t = s
      | _ \<Rightarrow> t = s)"

lemma layout_handled:
  assumes "\<not> db_crashed s" and "fp_ok s"
  shows "layout_result l s (dash_step s (DbLayout l))"
proof (cases "db_config s")
  case None
  then show ?thesis using assms effects_idle [of s s]
    by (simp add: layout_result_def dash_step_def persistLayout_def)
next
  case (Some c)
  then have fp: "fingerprint c = db_fp s" using assms by (simp add: fp_ok_def)
  show ?thesis
  proof (cases "active_id s")
    case None
    then show ?thesis using assms fp effects_idle [of s s] Some
      by (simp add: layout_result_def dash_step_def persistLayout_def)
  next
    case (Some a)
    let ?h = "persistLayout l s"
    show ?thesis
    proof (cases "list_ex (\<lambda>w. moved l w \<noteq> None) (widgets c)")
      case True
      have h: "db_active ?h = db_active s" "db_gen ?h = db_gen s" "\<not> db_crashed ?h"
        "db_config ?h = Some (c\<lparr>widgets := map (place l) (widgets c)\<rparr>)" "db_fp ?h = db_fp s"
        "db_log ?h = db_log s @
           [api_dashboardUpdate a (db_edit_name s) (json_of_config (c\<lparr>widgets := map (place l) (widgets c)\<rparr>))]"
        using True Some \<open>db_config s = Some c\<close> assms(1)
        by (simp_all add: persistLayout_def Let_def put_config_def send_def)
      then have "run_effects s ?h = ?h" using fp by (intro effects_idle) (simp_all add: fingerprint_place)
      then show ?thesis using True Some \<open>db_config s = Some c\<close> assms(1) h
        by (simp add: layout_result_def dash_step_def)
    next
      case False
      then show ?thesis using assms fp effects_idle [of s s] Some \<open>db_config s = Some c\<close>
        by (simp add: layout_result_def dash_step_def persistLayout_def)
    qed
  qed
qed


subsection \<open>Editing widgets\<close>

text \<open>The ids of the editor's widgets. A time in milliseconds has eight digits to the base 36 from 1972 to 2059, so
  that time and counter can be told apart in an id.\<close>

lemma base36_nonempty: "base36 n \<noteq> []"
  by (subst base36.simps) simp

lemma base36_digit_inj: "base36_digit a = base36_digit b \<Longrightarrow> a < 36 \<Longrightarrow> b < 36 \<Longrightarrow> a = b"
  by (auto simp: base36_digit_def split: if_splits)

lemma base36_inj: "base36 m = base36 n \<Longrightarrow> m = n"
proof (induction m arbitrary: n rule: base36.induct)
  case (1 m)
  have e: "(if m < 36 then [] else base36 (m div 36)) @ [base36_digit (m mod 36)] =
      (if n < 36 then [] else base36 (n div 36)) @ [base36_digit (n mod 36)]"
    using 1(2) by (subst (asm) base36.simps, subst (asm) (2) base36.simps) (auto split: if_splits)
  then have d: "m mod 36 = n mod 36" by (auto intro: base36_digit_inj)
  from e consider "m < 36" "n < 36" | "\<not> m < 36" "\<not> n < 36" "base36 (m div 36) = base36 (n div 36)"
    using base36_nonempty base36_nonempty [symmetric] by (auto split: if_splits)
  then show ?case
  proof cases
    case 2
    then have "m div 36 = n div 36" using 1(1) by blast
    then show ?thesis using d by (metis div_mult_mod_eq)
  qed (use d in simp)
qed

lemma base36_length: "36 ^ k \<le> n \<Longrightarrow> n < 36 ^ Suc k \<Longrightarrow> length (base36 n) = Suc k"
proof (induction k arbitrary: n)
  case 0
  then show ?case by (subst base36.simps) simp
next
  case (Suc k)
  have "36 \<le> n" using Suc.prems(1) by (simp add: le_trans [of 36 "36 * 36 ^ k"])
  moreover have "36 ^ k \<le> n div 36" "n div 36 < 36 ^ Suc k"
    using Suc.prems by (simp_all add: less_eq_div_iff_mult_less_eq div_less_iff_less_mult mult.commute)
  ultimately show ?case using Suc.IH [of "n div 36"] by (subst base36.simps) simp
qed

definition id_time :: "nat \<Rightarrow> bool" where
  "id_time t \<longleftrightarrow> 36 ^ 7 \<le> t \<and> t < 36 ^ 8"

lemma newWidgetId_inj:
  assumes "newWidgetId t u = newWidgetId t' u'" and "id_time t" and "id_time t'"
  shows "t = t' \<and> u = u'"
proof -
  have "length (base36 t) = 8" "length (base36 t') = 8"
    using base36_length [of 7 t] base36_length [of 7 t'] assms(2,3) by (simp_all add: id_time_def)
  then have "base36 t = base36 t'" "nat_str u = nat_str u'" using assms(1) by (simp_all add: newWidgetId_def)
  then show ?thesis using base36_inj nat_str_inj by blast
qed

text \<open>Made by the editor at an earlier time, or earlier in this page's life; or not by the editor.\<close>

definition made_earlier :: "nat \<Rightarrow> nat \<Rightarrow> string \<Rightarrow> bool" where
  "made_earlier now uid i \<longleftrightarrow> i = [] \<or> hd i \<noteq> CHR ''w'' \<or> (\<exists>t u. i = newWidgetId t u \<and> id_time t \<and> (t < now \<or> u < uid))"

lemma made_earlier_fresh: "made_earlier now uid i \<Longrightarrow> id_time now \<Longrightarrow> i \<noteq> newWidgetId now uid"
proof
  assume a: "made_earlier now uid i" "id_time now" "i = newWidgetId now uid"
  have "i \<noteq> []" "hd i = CHR ''w''" using a(3) by (simp_all add: newWidgetId_def)
  then obtain t u where "i = newWidgetId t u" "id_time t" "t < now \<or> u < uid" using a(1) by (auto simp: made_earlier_def)
  then show False using newWidgetId_inj [of now uid t u] a(2,3) by auto
qed

text \<open>What the editor sets in a widget.\<close>

definition edited_content :: "editor_state \<Rightarrow> widget_config \<Rightarrow> bool" where
  "edited_content e w \<longleftrightarrow> w_type w = ed_type e \<and> w_sql w = ed_sql e \<and> w_w w = ed_w e \<and> w_h w = ed_h e \<and>
     w_title w = (if ed_title e = [] then widget_type_name (ed_type e) else ed_title e)"

text \<open>C33: applying the editor. For a new widget one update of the active dashboard is sent, with its widgets as they were
  and the new one behind them: its id is that of no widget made earlier, it stands at y = 1000000, from where
  the grid moves it up, and at the column three times the number of widgets, modulo twelve, and it has the editor's type, text,
  query and size. For an edited one, one update with that widget alone replaced, keeping its id and position.
  The dialog closes; what is shown stays until the answer. An index that no longer exists
  changes nothing.\<close>

theorem editor_submit:
  assumes "fp_ok s" and "\<not> db_crashed s" and "db_editor s = Some e" and "db_config s = Some c"
    and "active_id s = Some a" and "id_time now" and "list_all (\<lambda>w. made_earlier now (Suc (db_uid s)) (w_id w)) (widgets c)"
  shows "let t = dash_step s (EdSubmit now);
           put = (\<lambda>ws. db_log t = db_log s @ [api_dashboardUpdate a (db_edit_name s) (json_of_config (c\<lparr>widgets := ws\<rparr>))] \<and>
             db_editor t = None \<and> db_config t = Some c)
    in case ed_index e of
         None \<Rightarrow> (\<exists>w. put (widgets c @ [w]) \<and> edited_content e w \<and> w_id w \<notin> w_id ` set (widgets c) \<and>
           w_y w = Fin 1000000 \<and> w_x w = Fin (of_nat (length (widgets c) * 3 mod 12)))
       | Some i \<Rightarrow>
           if i < length (widgets c)
           then (\<exists>w. put ((widgets c)[i := w]) \<and> edited_content e w \<and> w_id w = w_id (widgets c ! i) \<and>
             w_x w = w_x (widgets c ! i) \<and> w_y w = w_y (widgets c ! i))
           else t = s"
proof -
  have fp: "fingerprint c = db_fp s" using assms by (simp add: fp_ok_def)
  have idle: "run_effects s t = t"
    if "db_active t = db_active s" "db_gen t = db_gen s" "db_crashed t = db_crashed s" "db_config t = Some c"
      "db_fp t = db_fp s" for t
    using that fp assms(2) by (intro effects_idle) simp_all
  have a: "active_id (s\<lparr>db_uid := u\<rparr>) = Some a" for u using assms(5) by (simp add: active_id_def)
  have ec: "edited_content e (edited e i x y)" for i x y by (simp add: edited_content_def edited_def)
  show ?thesis
  proof (cases "ed_index e")
    case None
    let ?w = "edited e (newWidgetId now (Suc (db_uid s))) (new_x c) NEW_WIDGET_Y"
    have "w_id v \<noteq> newWidgetId now (Suc (db_uid s))" if "v \<in> set (widgets c)" for v
      using made_earlier_fresh assms(6,7) that by (simp add: list_all_iff)
    then have "newWidgetId now (Suc (db_uid s)) \<notin> w_id ` set (widgets c)" by fastforce
    then have "w_id ?w \<notin> w_id ` set (widgets c)" by (simp add: edited_def)
    then show ?thesis using None assms(1-5) a ec
      by (auto simp: dash_step_def submitEditor_def Let_def saveConfig_def put_config_def send_def idle edited_def new_x_def
          NEW_WIDGET_Y_def intro!: exI [of _ ?w])
  next
    case (Some i)
    show ?thesis
    proof (cases "i < length (widgets c)")
      case True
      let ?o = "widgets c ! i"
      let ?w = "edited e (w_id ?o) (w_x ?o) (w_y ?o)"
      show ?thesis using assms(1-5) Some True ec
        by (auto simp: dash_step_def submitEditor_def at_index_def saveConfig_def put_config_def
            send_def idle edited_def Let_def intro!: exI [of _ ?w])
    next
      case False
      then show ?thesis using assms(1-5) Some
        by (simp add: dash_step_def submitEditor_def at_index_def idle)
    qed
  qed
qed

definition editing :: dash_page where
  "editing = (dash_empty [])\<lparr>db_active := Some ''d1'', db_config := Some (emptyConfig ''ops''),
     db_edit_name := ''ops'', db_fp := fingerprint (emptyConfig ''ops''),
     db_editor := Some \<lparr>ed_index = None, ed_type = W_stat, ed_title = [], ed_sql = ''SELECT 1'', ed_w = Fin 3, ed_h = Fin 4\<rparr>\<rparr>"

text \<open>The second of two widgets of a dashboard, made a millisecond after the first.\<close>

theorem editor_submit_witness:
  "let w1 = \<lparr>w_id = newWidgetId 1786000000000 1, w_type = W_stat, w_title = ''a'', w_sql = ''SELECT 1'', w_x = Fin 0, w_y = Fin 0,
         w_w = Fin 3, w_h = Fin 4\<rparr>;
       s = editing\<lparr>db_config := Some (emptyConfig ''ops''\<lparr>widgets := [w1]\<rparr>), db_fp := fingerprint (emptyConfig ''ops''\<lparr>widgets := [w1]\<rparr>)\<rparr>
   in \<exists>w. db_log (dash_step s (EdSubmit 1786000000001)) =
       [api_dashboardUpdate ''d1'' ''ops'' (json_of_config (emptyConfig ''ops''\<lparr>widgets := [w1, w]\<rparr>))] \<and>
     w_id w \<noteq> w_id w1 \<and> w_y w = Fin 1000000 \<and> w_x w = Fin 3 \<and> w_title w = ''stat''"
proof -
  let ?w1 = "\<lparr>w_id = newWidgetId 1786000000000 1, w_type = W_stat, w_title = ''a'', w_sql = ''SELECT 1'', w_x = Fin 0, w_y = Fin 0,
    w_w = Fin 3, w_h = Fin 4\<rparr>"
  let ?c = "emptyConfig ''ops''\<lparr>widgets := [?w1]\<rparr>"
  let ?s = "editing\<lparr>db_config := Some ?c, db_fp := fingerprint ?c\<rparr>"
  let ?e = "\<lparr>ed_index = None, ed_type = W_stat, ed_title = [], ed_sql = ''SELECT 1'', ed_w = Fin 3, ed_h = Fin 4\<rparr>"
  have h: "fp_ok ?s" "\<not> db_crashed ?s" "db_editor ?s = Some ?e" "db_config ?s = Some ?c" "active_id ?s = Some ''d1''"
    by (simp_all add: editing_def fp_ok_def dash_empty_def active_id_def)
  have t: "id_time 1786000000001" "id_time 1786000000000" by (simp_all add: id_time_def)
  have "made_earlier 1786000000001 (Suc (db_uid ?s)) (w_id ?w1)" unfolding made_earlier_def using t(2) by force
  then have m: "list_all (\<lambda>w. made_earlier 1786000000001 (Suc (db_uid ?s)) (w_id w)) (widgets ?c)"
    by (simp add: emptyConfig_def)
  have "(3::nat) mod 12 = 3" by simp
  then show ?thesis using editor_submit [OF h t(1) m]
    by (auto simp: editing_def dash_empty_def Let_def edited_content_def emptyConfig_def simp del: dash_step_def)
qed

subsection \<open>Which dashboard is shown\<close>

text \<open>After the list is loaded and is not empty, the dashboard shown is one of the list: the current
  one if it still exists, else the one the URL names if that exists, else the first; with a URL that
  cannot be decoded this throws unless the current one still exists.\<close>

lemma active_after_load:
  assumes "ds \<noteq> []"
  shows "case choose_active cur ds hash of
      Inr a \<Rightarrow> a = (if \<exists>c. cur = Some c \<and> c \<noteq> [] \<and> has_id c ds then cur
                   else if \<exists>f. parseDashId hash = Inr (Some f) \<and> f \<noteq> [] \<and> has_id f ds then projr (parseDashId hash)
                   else Some (d_id (hd ds))) \<and>
               (\<exists>i. a = Some i \<and> has_id i ds)
    | Inl e \<Rightarrow> parseDashId hash = Inl e \<and> (\<nexists>c. cur = Some c \<and> c \<noteq> [] \<and> has_id c ds)"
proof -
  have hd: "has_id (d_id (hd ds)) ds" using assms by (cases ds) (simp_all add: has_id_def)
  show ?thesis
  proof (cases "\<exists>c. cur = Some c \<and> c \<noteq> [] \<and> has_id c ds")
    case True
    then show ?thesis by (auto simp: choose_active_def)
  next
    case False
    then have "choose_active cur ds hash = ok_bind (parseDashId hash) (\<lambda>fromHash.
        Inr (case fromHash of
               Some f \<Rightarrow> if f \<noteq> [] \<and> has_id f ds then Some f else Some (d_id (hd ds))
             | None \<Rightarrow> Some (d_id (hd ds))))"
      by (cases cur) (auto simp: choose_active_def)
    then show ?thesis using False hd by (cases "parseDashId hash") (auto split: option.split)
  qed
qed

lemma active_after_load_witness:
  "choose_active (Some ''gone'') [\<lparr>d_id = ''d1'', d_name = [], d_config = JNull, d_updated = []\<rparr>] [] = Inr (Some ''d1'')"
proof -
  have p: "parseDashId [] = Inr None" by (simp add: parseDashId_def starts_with_def dash_prefix_def)
  show ?thesis
    using active_after_load [of "[\<lparr>d_id = ''d1'', d_name = [], d_config = JNull, d_updated = []\<rparr>]",
        where cur = "Some ''gone''" and hash = "[]"]
    by (simp add: p has_id_def split: sum.splits)
qed

lemma hash_effect_follows:
  assumes "\<not> db_crashed (hash_effect s)" and "db_active s = Some a" and "utf8_ok a" and "a \<noteq> []"
  shows "parseDashId (db_hash (hash_effect s)) = Inr (Some a)"
  using assms parse_set_hash [of a] by (auto simp: hash_effect_def split: sum.splits if_splits)

lemma later_effects_hash [simp]:
  "db_hash (config_effect s) = db_hash s" "db_hash (fp_effect s) = db_hash s"
  "db_active (config_effect s) = db_active s" "db_active (fp_effect s) = db_active s"
  "db_crashed (config_effect s) = db_crashed s" "db_crashed (fp_effect s) = db_crashed s"
  "db_active (hash_effect s) = db_active s"
  by (auto simp: config_effect_def fp_effect_def runWidgets_def hash_effect_def Let_def
      split: option.split sum.split)

text \<open>C35: the URL follows the dashboard shown: whenever an event changes it, by a click, by the end of a
  load, a creation or a deletion, the hash afterwards names the new one, so the link can be shared.\<close>

theorem hash_follows_active:
  assumes "db_active (dash_step s e) = Some a" and "db_active s \<noteq> Some a" and "utf8_ok a" and "a \<noteq> []"
    and "\<not> db_crashed (dash_step s e)"
  shows "parseDashId (db_hash (dash_step s e)) = Inr (Some a)"
proof -
  have s: "\<not> db_crashed s" using assms by (auto simp: dash_step_def)
  have h: "\<not> db_crashed (dash_handle s e)" using assms(5) s by (auto simp: dash_step_def run_effects_def)
  have act: "db_active (dash_handle s e) = Some a"
    using assms(1) s h by (auto simp: dash_step_def run_effects_def Let_def split: if_splits)
  then have ne: "db_active (dash_handle s e) \<noteq> db_active s" using assms(2) by simp
  then have step: "dash_step s e = fp_effect (config_effect (hash_effect (dash_handle s e)))"
    using s h by (simp add: dash_step_def run_effects_def)
  then show ?thesis using hash_effect_follows [of "dash_handle s e" a] assms act by simp
qed

theorem hash_follows_active_witness:
  "parseDashId (db_hash (dash_step (dash_empty ''#/dashboards'') (DbSelect ''d1''))) = Inr (Some ''d1'')"
proof (rule hash_follows_active)
  have p: "parseDashId ''#/dashboards'' = Inr None"
    by (simp add: parseDashId_def starts_with_def dash_prefix_def)
  show "db_active (dash_step (dash_empty ''#/dashboards'') (DbSelect ''d1'')) = Some ''d1''"
    by (simp add: dash_step_def dash_empty_def run_effects_def Let_def)
  show "\<not> db_crashed (dash_step (dash_empty ''#/dashboards'') (DbSelect ''d1''))"
    by (simp add: dash_step_def dash_empty_def run_effects_def Let_def hash_effect_def p)
  show "utf8_ok ''d1''" by (rule utf8_ok_ascii) simp
qed (simp_all add: dash_empty_def)

subsection \<open>Results of the widgets\<close>

lemma store_run_other:
  "i \<notin> w_id ` set ws \<Longrightarrow> length rs = length ws \<Longrightarrow>
   map_of (fst (store_run ws rs (f, e))) i = map_of f i \<and> map_of (snd (store_run ws rs (f, e))) i = map_of e i"
proof (induction ws arbitrary: rs f e)
  case Nil
  then show ?case by simp
next
  case (Cons w ws)
  then obtain r rs' where "rs = r # rs'" by (cases rs) auto
  with Cons show ?case by (cases r) (auto simp: map_of_map_set)
qed

lemma store_run_own:
  assumes "distinct (map w_id ws)" and "length rs = length ws" and "i < length ws"
    and "\<forall>w \<in> set ws. map_of f (w_id w) = None \<and> map_of e (w_id w) = None"
  shows "(map_of (fst (store_run ws rs (f, e))) (w_id (ws ! i)), map_of (snd (store_run ws rs (f, e))) (w_id (ws ! i))) =
    (case rs ! i of Inr v \<Rightarrow> (Some v, None) | Inl x \<Rightarrow> (None, Some (exn_message x)))"
  using assms
proof (induction ws arbitrary: rs f e i)
  case Nil
  then show ?case by simp
next
  case (Cons w ws)
  then obtain r rs' where rs: "rs = r # rs'" by (cases rs) auto
  define fe where "fe = (case r of Inr v \<Rightarrow> (map_set (w_id w) v f, e) | Inl x \<Rightarrow> (f, map_set (w_id w) (exn_message x) e))"
  obtain f' e' where fe': "fe = (f', e')" by (cases fe)
  have run: "store_run (w # ws) rs (f, e) = store_run ws rs' (f', e')"
    using fe' by (simp add: rs fe_def)
  show ?case
  proof (cases i)
    case 0
    have "w_id w \<notin> w_id ` set ws" using Cons.prems(1) by simp
    then show ?thesis using 0 store_run_other [of "w_id w" ws rs' f' e'] Cons.prems fe' rs
      by (cases r) (auto simp: run fe_def map_of_map_set)
  next
    case (Suc j)
    have clean: "\<forall>x \<in> set ws. map_of f' (w_id x) = None \<and> map_of e' (w_id x) = None"
    proof
      fix x
      assume x: "x \<in> set ws"
      then have "w_id x \<in> w_id ` set ws" by (rule imageI)
      then have "w_id x \<noteq> w_id w" using Cons.prems(1) by auto
      then show "map_of f' (w_id x) = None \<and> map_of e' (w_id x) = None"
        using Cons.prems(4) fe' x by (cases r) (auto simp: fe_def map_of_map_set)
    qed
    have "distinct (map w_id ws)" "length rs' = length ws" "j < length ws"
      using Cons.prems Suc rs by simp_all
    from Cons.IH [OF this clean] show ?thesis unfolding run Suc nth_Cons_Suc unfolding rs nth_Cons_Suc .
  qed
qed

text \<open>After a run of the widgets' queries every widget shows its own outcome, its result or its
  error message and never both, whichever of its neighbours failed.\<close>

lemma widget_outcomes:
  assumes "distinct (map w_id (widgets c))" and "length rs = length (widgets c)" and "i < length (widgets c)"
  shows "(map_of (db_results (ran c rs s)) (w_id (widgets c ! i)),
          map_of (db_widget_errors (ran c rs s)) (w_id (widgets c ! i))) =
    (case rs ! i of Inr v \<Rightarrow> (Some v, None) | Inl x \<Rightarrow> (None, Some (exn_message x)))"
  using store_run_own [OF assms, of "[]" "[]"]
  by (cases "store_run (widgets c) rs ([], [])") (simp add: ran_def)

definition two_widgets :: dashboard_config where
  "two_widgets = \<lparr>dc_title = JStr [], refresh_interval = Fin 30,
     widgets = [\<lparr>w_id = ''a'', w_type = W_stat, w_title = [], w_sql = ''A'', w_x = Fin 0, w_y = Fin 0, w_w = Fin 3, w_h = Fin 4\<rparr>,
                \<lparr>w_id = ''b'', w_type = W_stat, w_title = [], w_sql = ''B'', w_x = Fin 3, w_y = Fin 0, w_w = Fin 3, w_h = Fin 4\<rparr>]\<rparr>"

lemma widget_outcomes_witness:
  "map_of (db_widget_errors (ran two_widgets [Inl (ErrorMsg ''boom''), Inr None] (dash_mount []))) ''a'' = Some ''boom''"
  using widget_outcomes [of two_widgets "[Inl (ErrorMsg ''boom''), Inr None]" 0 "dash_mount []"]
  by (simp add: two_widgets_def)

subsection \<open>Creating\<close>

definition is_create :: "dash_op \<Rightarrow> bool" where
  "is_create op \<longleftrightarrow> op = Op_create \<or> op = Op_load True"

definition creations :: "dash_page \<Rightarrow> nat" where
  "creations s = length (filter is_create (db_ops s))"

definition create_inv :: "dash_page \<Rightarrow> bool" where
  "create_inv s \<longleftrightarrow> creations s \<le> (if db_creating s then 1 else 0)"

lemma create_inv_send:
  "\<not> is_create op \<Longrightarrow> create_inv (send r op s) = create_inv s"
  by (simp add: create_inv_def creations_def send_def)

lemma create_inv_cong:
  "db_ops s = db_ops t \<Longrightarrow> db_creating s = db_creating t \<Longrightarrow> create_inv t \<Longrightarrow> create_inv s"
  by (simp add: create_inv_def creations_def)

lemma create_inv_load: "create_inv s \<Longrightarrow> create_inv (load False s)"
  by (simp add: load_def create_inv_send is_create_def) (simp add: create_inv_def creations_def)

lemma create_inv_save: "create_inv s \<Longrightarrow> create_inv (saveConfig c s)"
  by (simp add: saveConfig_def put_config_def create_inv_send is_create_def split: option.split)

lemma create_inv_run: "create_inv s \<Longrightarrow> create_inv (runWidgets c s)"
  by (simp add: runWidgets_def create_inv_def creations_def is_create_def)

lemma create_inv_effects: "create_inv s \<Longrightarrow> create_inv (run_effects old s)"
proof -
  have h: "create_inv t \<Longrightarrow> create_inv (hash_effect t)" for t
    by (auto simp: hash_effect_def create_inv_def creations_def split: option.split sum.split)
  have c: "create_inv t \<Longrightarrow> create_inv (config_effect t)" for t
    by (auto simp: config_effect_def create_inv_def creations_def Let_def split: option.split)
  have f: "create_inv (fp_effect t)" if "create_inv t" for t
  proof -
    have "create_inv (t\<lparr>db_fp := x\<rparr>)" for x by (rule create_inv_cong [OF _ _ that]) simp_all
    then show ?thesis using that by (simp add: fp_effect_def create_inv_run split: option.split)
  qed
  show "create_inv s \<Longrightarrow> ?thesis" by (simp add: run_effects_def Let_def h c f)
qed

lemma drop_op_count:
  assumes "at_index ops i = Some op"
  shows "length (filter is_create (take i ops @ drop (Suc i) ops)) + (if is_create op then 1 else 0) =
    length (filter is_create ops)"
proof -
  have "ops = take i ops @ op # drop (Suc i) ops" using assms by (auto simp: at_index_Some id_take_nth_drop)
  then have "length (filter is_create ops) = length (filter is_create (take i ops @ op # drop (Suc i) ops))" by simp
  then show ?thesis by simp
qed

lemma create_inv_loaded:
  "creations t = 0 \<or> (db_creating t \<and> \<not> b \<and> create_inv t) \<Longrightarrow> create_inv (loaded b ds t)"
  by (auto simp: loaded_def Let_def create_inv_def creations_def split: sum.split option.split)

lemma create_inv_continue:
  assumes t: "creations t + (if is_create op then 1 else 0) \<le> (if db_creating t then 1 else 0)"
  shows "create_inv (continue_op op r t)"
proof -
  have inv: "create_inv t" using t by (simp add: create_inv_def)
  have same: "create_inv u" if "db_ops u = db_ops t" "db_creating u = db_creating t" for u
    by (rule create_inv_cong [OF that inv])
  have none: "creations t = 0" if "is_create op" using t that by (simp split: if_splits)
  have over: "create_inv u" if "is_create op" "db_ops u = db_ops t" for u
    using none [OF that(1)] that(2) by (simp add: create_inv_def creations_def)
  have reload: "create_inv (load False u)" if "db_ops u = db_ops t" "db_creating u = db_creating t" for u
    by (rule create_inv_load [OF same [OF that]])
  have await: "create_inv (load True u)" if "is_create op" "db_ops u = db_ops t" "db_creating u = db_creating t" for u
    using t that none by (simp add: load_def send_def create_inv_def creations_def is_create_def split: if_splits)
  have list: "create_inv (loaded b ds t)" if "op = Op_load b" for b ds
    using none inv that by (intro create_inv_loaded) (auto simp: is_create_def create_inv_def split: if_splits)
  show ?thesis
  proof (cases op)
    case (Op_load b)
    then show ?thesis using list
      by (cases r) (cases b, auto simp: continue_op_def load_failed_def is_create_def split: dash_answer.split
          intro: same over)
  next
    case Op_create
    then have "is_create op" by (simp add: is_create_def)
    then show ?thesis using Op_create inv
      by (cases r) (auto simp: continue_op_def split: dash_answer.split intro: over intro!: await)
  qed (use inv in \<open>cases r; auto simp: continue_op_def ran_def split: dash_answer.split prod.split intro!: reload intro: same\<close>)+
qed

lemma create_inv_answered:
  assumes "create_inv s"
  shows "create_inv (answered i r s)"
proof (cases "at_index (db_ops s) i")
  case (Some op)
  then have "answered i r s = continue_op op r (s\<lparr>db_ops := take i (db_ops s) @ drop (Suc i) (db_ops s)\<rparr>)"
    by (simp add: answered_def)
  moreover have "creations (s\<lparr>db_ops := take i (db_ops s) @ drop (Suc i) (db_ops s)\<rparr>) + (if is_create op then 1 else 0) \<le>
      (if db_creating (s\<lparr>db_ops := take i (db_ops s) @ drop (Suc i) (db_ops s)\<rparr>) then 1 else 0)"
    using drop_op_count [OF Some] assms by (simp add: create_inv_def creations_def)
  ultimately show ?thesis by (simp only: create_inv_continue)
qed (simp add: answered_def assms)

lemma create_inv_handle:
  assumes "create_inv s"
  shows "create_inv (dash_handle s e)"
proof (cases e)
  case DbCreate
  show ?thesis
  proof (cases "db_creating s")
    case False
    then have "filter is_create (db_ops s) = []" using assms by (simp add: create_inv_def creations_def)
    then show ?thesis using DbCreate False assms
      by (simp add: create_dashboard_def Let_def send_def create_inv_def creations_def is_create_def)
  qed (use assms DbCreate in simp)
next
  case (EdSubmit now)
  have "create_inv (saveConfig c (s\<lparr>db_uid := u\<rparr>))" for c u
    by (rule create_inv_save, rule create_inv_cong [OF _ _ assms]) simp_all
  then have "create_inv ((saveConfig c (s\<lparr>db_uid := u\<rparr>))\<lparr>db_editor := None\<rparr>)"
    "create_inv ((saveConfig c s)\<lparr>db_editor := None\<rparr>)" for c u
    using create_inv_save [OF assms] by (simp_all add: create_inv_def creations_def)
  then show ?thesis using EdSubmit assms
    by (auto simp: submitEditor_def Let_def split: option.split)
next
  case (DbLayout l)
  then show ?thesis using assms
    by (auto simp: persistLayout_def Let_def put_config_def send_def create_inv_def creations_def is_create_def
        split: option.split)
next
  case (DbInterval v)
  have "create_inv (s\<lparr>db_refresh := n\<rparr>)" for n using assms by (simp add: create_inv_def creations_def)
  then show ?thesis using DbInterval by (simp add: pickRefresh_def Let_def create_inv_save split: option.split)
next
  case DbHashChange
  have "create_inv (s\<lparr>db_active := a\<rparr>)" for a using assms by (simp add: create_inv_def creations_def)
  then show ?thesis using DbHashChange assms
    by (auto simp: onHash_def Let_def create_inv_load split: sum.split option.split)
qed (use assms in \<open>auto simp: create_inv_load create_inv_answered create_inv_save create_inv_run renameBlur_def
      put_config_def create_inv_send is_create_def with_config_def remove_dashboard_def removeWidget_def
      split: option.split intro: create_inv_cong\<close>,
    auto simp: create_inv_def creations_def addWidget_def openEditor_def on_editor_def split: option.split)

interpretation dash_create: machine "dash_mount h" dash_step create_inv
proof
  have "create_inv (dash_empty h)" by (simp add: create_inv_def creations_def dash_empty_def)
  then show "create_inv (dash_mount h)" unfolding dash_mount_def by (rule create_inv_load)
  fix s e
  assume "create_inv s"
  then show "create_inv (dash_step s e)" by (simp add: dash_step_def create_inv_effects create_inv_handle)
qed

text \<open>A dashboard is created once: over any run there is never more than one creation under way, and
  while there is one the Create button is disabled.\<close>

lemma one_creation_at_a_time:
  "let s = run dash_step (dash_mount h) es
   in length (filter (\<lambda>op. op = Op_create \<or> op = Op_load True) (db_ops s)) \<le> (if db_creating s then 1 else 0)"
  using dash_create.inv_reachable [of h es]
  unfolding create_inv_def creations_def is_create_def Let_def .

subsection \<open>What the page gets wrong\<close>

text \<open>The URL hash is decoded without a guard: with a malformed percent sequence in it, selecting a
  dashboard throws in an effect, and so does the end of a load in a state update.\<close>

lemma bad_hash_parse: "parseDashId ''#/dashboards/%'' = Inl URIError"
  by code_simp

lemma malformed_hash_crashes:
  "db_crashed (dash_step (dash_empty ''#/dashboards/%'') (DbSelect ''d1''))"
  "db_crashed (dash_step (dash_mount ''#/dashboards/%'')
     (DbAnswer 0 (Inr (A_list [\<lparr>d_id = ''d1'', d_name = [], d_config = JNull, d_updated = []\<rparr>]))))"
  using bad_hash_parse
  by (simp_all add: dash_step_def dash_mount_def dash_empty_def load_def send_def run_effects_def Let_def
      hash_effect_def answered_def continue_op_def loaded_def choose_active_def)

text \<open>A save that ends after another dashboard was chosen puts the saved configuration on the page under
  the other one's id; the next change is then stored into the wrong dashboard.\<close>

lemma save_crosses_dashboards:
  assumes "db_ops s = [Op_save c]" and "db_active s = Some ''b''" and "\<not> db_crashed s" and "length (widgets c) = Suc n"
  shows "let t = dash_step s (DbAnswer 0 (Inr A_done)) in
    db_config t = Some c \<and> db_active t = Some ''b'' \<and>
    db_log (dash_handle t (DbRemove n)) =
      db_log t @ [api_dashboardUpdate ''b'' (db_edit_name s) (json_of_config (c\<lparr>widgets := take n (widgets c)\<rparr>))]"
  using assms
  by (simp add: dash_step_def answered_def continue_op_def load_def send_def run_effects_def Let_def fp_effect_def
      runWidgets_def removeWidget_def saveConfig_def put_config_def active_id_def)

text \<open>Two runs of the widgets are not ordered: the older one's answers replace the newer one's.\<close>

lemma widget_runs_out_of_order:
  assumes "db_ops s = [Op_run old, Op_run new]" and "\<not> db_crashed s" and "fp_ok s"
  shows "db_results (run dash_step s [DbAnswer 1 (Inr (A_runs rs)), DbAnswer 0 (Inr (A_runs qs))]) =
    fst (store_run (widgets old) qs ([], []))"
proof -
  have step: "dash_step t (DbAnswer i (Inr (A_runs r))) = answered i (Inr (A_runs r)) t"
    if "\<not> db_crashed t" "fp_ok t" "at_index (db_ops t) i = Some (Op_run c)" for t i r c
  proof -
    have "run_effects t (answered i (Inr (A_runs r)) t) = answered i (Inr (A_runs r)) t"
      using that by (intro effects_idle) (auto simp: answered_def continue_op_def ran_def fp_ok_def split: prod.split)
    then show ?thesis using that(1) by (simp add: dash_step_def)
  qed
  have a: "answered 1 (Inr (A_runs rs)) s = (ran new rs s)\<lparr>db_ops := [Op_run old]\<rparr>"
    using assms(1) by (simp add: answered_def continue_op_def ran_def split: prod.split)
  have t: "\<not> db_crashed (answered 1 (Inr (A_runs rs)) s)" "fp_ok (answered 1 (Inr (A_runs rs)) s)"
    using assms(2,3) unfolding a by (auto simp: ran_def fp_ok_def split: prod.split)
  show ?thesis using step [OF assms(2,3), of 1 new rs] step [OF t, of 0 old qs] assms(1)
    by (simp add: a answered_def continue_op_def ran_def split: prod.split)
qed

text \<open>The fingerprint joins its parts without quoting, so two different widget sets can share one, and
  then the change does not run the queries.\<close>

lemma fingerprint_collides:
  "fingerprint \<lparr>dc_title = t, refresh_interval = r,
      widgets = [\<lparr>w_id = ''a'', w_type = W_stat, w_title = [], w_sql = ''X|b:stat:Y'', w_x = x, w_y = x, w_w = x, w_h = x\<rparr>]\<rparr> =
   fingerprint \<lparr>dc_title = t, refresh_interval = r,
      widgets = [\<lparr>w_id = ''a'', w_type = W_stat, w_title = [], w_sql = ''X'', w_x = x, w_y = x, w_w = x, w_h = x\<rparr>,
                 \<lparr>w_id = ''b'', w_type = W_stat, w_title = [], w_sql = ''Y'', w_x = x, w_y = x, w_w = x, w_h = x\<rparr>]\<rparr>"
  by (simp add: fingerprint_def)

end
