(* ===== verification/QaHarness.thy ===== *)
theory QaHarness
  imports Api
begin

section \<open>Browser scripts (\<open>verify-*.mjs\<close>): what they share\<close>

text \<open>
  A script drives a browser and the HTTP API. It is a tree: it hands an operation to the outside
  world and goes on with the answer. The world is arbitrary: \<open>br_do\<close> answers an operation, tells
  which events the page raised meanwhile, and moves on; \<open>br_see\<close> is the document that a function
  given to \<open>page.evaluate\<close> runs on. Such a function is a function of the snapshot that throws or
  returns what it did to the page. Progress output is left out, the verdict lines are kept.
\<close>

subsection \<open>Documents\<close>

record rect =
  rc_left :: jsnum
  rc_top :: jsnum
  rc_right :: jsnum
  rc_bottom :: jsnum
  rc_width :: jsnum

record node =
  nd_id :: nat                       \<comment> \<open>the identity of the element\<close>
  nd_tag :: string
  nd_class :: "string list"
  nd_attrs :: "(string \<times> string) list"
  nd_inner :: string                 \<comment> \<open>\<open>innerText\<close>\<close>
  nd_text :: string                  \<comment> \<open>\<open>textContent\<close>\<close>
  nd_value :: string                 \<comment> \<open>\<open>value\<close> of an input\<close>
  nd_box :: rect

datatype dom = Dom node "dom list"

fun node_of :: "dom \<Rightarrow> node" where
  "node_of (Dom n ks) = n"

abbreviation inner_text :: "dom \<Rightarrow> string" where
  "inner_text d \<equiv> nd_inner (node_of d)"

record snapshot =
  sn_body :: dom
  sn_hash :: string
  sn_scrollH :: jsnum
  sn_clientH :: jsnum
  sn_margin :: string

datatype simple_selector =
    Tag string
  | Cls string
  | Attr string string               \<comment> \<open>\<open>[k="v"]\<close>\<close>
  | AttrStarts string string         \<comment> \<open>\<open>[k^="v"]\<close>\<close>
  | ClassHas string                  \<comment> \<open>\<open>[class*="v"]\<close>\<close>

datatype selector = One simple_selector | Inside simple_selector simple_selector

fun matches :: "simple_selector \<Rightarrow> node \<Rightarrow> bool" where
  "matches (Tag t) n = (nd_tag n = t)"
| "matches (Cls c) n = (c \<in> set (nd_class n))"
| "matches (Attr k v) n = (map_of (nd_attrs n) k = Some v)"
| "matches (AttrStarts k v) n = (case map_of (nd_attrs n) k of Some x \<Rightarrow> starts_with v x | None \<Rightarrow> False)"
| "matches (ClassHas v) n = str_includes (join_on '' '' (nd_class n)) v"

text \<open>The descendants that match, in document order; the flag tells whether an ancestor matched.\<close>

fun collect :: "(node \<Rightarrow> bool) \<Rightarrow> (node \<Rightarrow> bool) \<Rightarrow> bool \<Rightarrow> dom \<Rightarrow> dom list" where
  "collect anc p f (Dom n ks) =
     concat (map (\<lambda>k. (if (f \<or> anc n) \<and> p (node_of k) then [k] else []) @ collect anc p (f \<or> anc n) k) ks)"

fun select_all :: "selector \<Rightarrow> dom \<Rightarrow> dom list" where
  "select_all (One s) d = collect (\<lambda>_. True) (matches s) True d"
| "select_all (Inside a s) d = collect (matches a) (matches s) False d"

definition select_one :: "selector \<Rightarrow> dom \<Rightarrow> dom option" where
  "select_one q d = (case select_all q d of [] \<Rightarrow> None | x # _ \<Rightarrow> Some x)"

text \<open>\<open>Array.from(d.querySelectorAll('button')).find((b) => b.innerText.trim() === t)\<close>.\<close>

definition find_button :: "string \<Rightarrow> dom \<Rightarrow> dom option" where
  "find_button t d = List.find (\<lambda>b. trim (inner_text b) = t) (select_all (One (Tag ''button'')) d)"

text \<open>\<open>e.parentElement\<close> of the element with an id.\<close>

fun parents_of :: "nat \<Rightarrow> dom \<Rightarrow> node list" where
  "parents_of i (Dom n ks) =
     (if list_ex (\<lambda>k. nd_id (node_of k) = i) ks then [n] else []) @ concat (map (parents_of i) ks)"

subsection \<open>What the listeners collect\<close>

datatype page_event =
    PageResponse nat string          \<comment> \<open>status and URL\<close>
  | PageError string
  | PageConsole string string        \<comment> \<open>type and text\<close>
  | PageRequest string               \<comment> \<open>method\<close>

record listeners =
  ls_errors :: "string list"
  ls_notFound :: "string list"
  ls_puts :: nat

definition no_events :: listeners where
  "no_events = \<lparr>ls_errors = [], ls_notFound = [], ls_puts = 0\<rparr>"

fun hear :: "listeners \<Rightarrow> page_event \<Rightarrow> listeners" where
  "hear l (PageResponse status url) =
     (if status = 404 then l\<lparr>ls_notFound := ls_notFound l @ [url]\<rparr> else l)"
| "hear l (PageError m) = l\<lparr>ls_errors := ls_errors l @ [''pageerror: '' @ m]\<rparr>"
| "hear l (PageConsole ty m) = (if ty = ''error'' then l\<lparr>ls_errors := ls_errors l @ [''console: '' @ m]\<rparr> else l)"
| "hear l (PageRequest m) = (if m = ''PUT'' then l\<lparr>ls_puts := Suc (ls_puts l)\<rparr> else l)"

text \<open>The text up to the next line terminator (LF, CR, U+2028, U+2029), which \<open>.\<close> does not match.\<close>

fun first_line :: "string \<Rightarrow> string" where
  "first_line [] = []"
| "first_line (c # s) =
     (if byte_of c = 10 \<or> byte_of c = 13 \<or>
         (byte_of c = 0xE2 \<and> (map byte_of (take 2 s) = [0x80, 0xA8] \<or> map byte_of (take 2 s) = [0x80, 0xA9]))
      then [] else c # first_line s)"

text \<open>\<open>/Failed to load resource.*status of 404/.test(e)\<close>.\<close>

fun is_404_noise :: "string \<Rightarrow> bool" where
  "is_404_noise [] = False"
| "is_404_noise (c # s) =
     ((starts_with ''Failed to load resource'' (c # s) \<and>
       str_includes (first_line (drop (length ''Failed to load resource'') (c # s))) ''status of 404'') \<or>
      is_404_noise s)"

definition realErrors :: "string list \<Rightarrow> string list" where
  "realErrors es = filter (\<lambda>e. \<not> str_includes e ''favicon'' \<and> \<not> is_404_noise e) es"

definition nonFav404 :: "string list \<Rightarrow> string list" where
  "nonFav404 us = filter (\<lambda>u. \<not> str_includes u ''favicon'') us"

definition quiet :: "listeners \<Rightarrow> bool" where
  "quiet l \<longleftrightarrow> realErrors (ls_errors l) = [] \<and> nonFav404 (ls_notFound l) = []"

subsection \<open>Scripts\<close>

datatype act = Click nat | Focus nat | SetInput nat string | SetHash string

datatype op =
    Launch nat nat | NewPage | SetViewport nat nat | ClosePage | CloseBrowser | AllowDownloads string
  | Goto string | Reload | GoBack
  | WaitFor selector nat | WaitText string nat | Sleep nat
  | Perform "act list" | ClickSelector selector | ClickElement nat
  | Elements selector | ElementIn nat selector | BoxOf nat
  | MouseMove jsnum jsnum nat | MouseDown | MouseUp
  | KeyDown string | KeyUp string | KeyPress string | KeyType string
  | Fetch string http_request
  | MkDir string | ListDir string | RemoveFile string | ReadFile string
  | Screenshot string | Clock

datatype reply =
    R_ok
  | R_throw js_exn
  | R_http http_response
  | R_ids "nat list"
  | R_point jsnum jsnum
  | R_names "string list"
  | R_text string
  | R_time int

datatype script =
    Await op "reply \<Rightarrow> script"
  | Caught op script                               \<comment> \<open>\<open>await ... .catch(() => {})\<close>\<close>
  | Look "snapshot \<Rightarrow> js_exn + act list" "snapshot \<Rightarrow> script"
  | Heard "listeners \<Rightarrow> script"
  | Listen script                                  \<comment> \<open>fresh listeners\<close>
  | ResetPuts script
  | Say string script
  | Throw js_exn
  | Exit nat

type_synonym trace = "(op \<times> reply) list"

record 'w browser =
  br_do :: "'w \<Rightarrow> op \<Rightarrow> reply \<times> page_event list \<times> 'w"
  br_see :: "'w \<Rightarrow> snapshot"

text \<open>A run: the exit code or the exception that ended it, the operations with their answers, the output.\<close>

type_synonym outcome = "(js_exn + nat) \<times> trace \<times> string list"

definition did :: "op \<Rightarrow> reply \<Rightarrow> outcome \<Rightarrow> outcome" where
  "did q r res = (case res of (x, tr, out) \<Rightarrow> (x, (q, r) # tr, out))"

primrec exec :: "'w browser \<Rightarrow> script \<Rightarrow> 'w \<Rightarrow> listeners \<Rightarrow> outcome" where
  "exec br (Await q k) = (\<lambda>w l.
     case br_do br w q of (r, evs, w') \<Rightarrow>
       did q r (case r of R_throw e \<Rightarrow> (Inl e, [], []) | _ \<Rightarrow> exec br (k r) w' (foldl hear l evs)))"
| "exec br (Caught q s) = (\<lambda>w l.
     case br_do br w q of (r, evs, w') \<Rightarrow> did q r (exec br s w' (foldl hear l evs)))"
| "exec br (Look f k) = (\<lambda>w l.
     case f (br_see br w) of
       Inl e \<Rightarrow> (Inl e, [], [])
     | Inr acts \<Rightarrow> (case br_do br w (Perform acts) of (r, evs, w') \<Rightarrow>
                     did (Perform acts) r
                       (case r of R_throw e \<Rightarrow> (Inl e, [], [])
                        | _ \<Rightarrow> exec br (k (br_see br w)) w' (foldl hear l evs))))"
| "exec br (Heard k) = (\<lambda>w l. exec br (k l) w l)"
| "exec br (Listen s) = (\<lambda>w l. exec br s w no_events)"
| "exec br (ResetPuts s) = (\<lambda>w l. exec br s w (l\<lparr>ls_puts := 0\<rparr>))"
| "exec br (Say m s) = (\<lambda>w l. case exec br s w l of (x, tr, out) \<Rightarrow> (x, tr, m # out))"
| "exec br (Throw e) = (\<lambda>w l. (Inl e, [], []))"
| "exec br (Exit n) = (\<lambda>w l. (Inr n, [], []))"

text \<open>The exit code of the process: an exception nobody caught ends it with 1.\<close>

definition exit_code :: "outcome \<Rightarrow> nat" where
  "exit_code res = (case fst res of Inl e \<Rightarrow> 1 | Inr n \<Rightarrow> n)"

subsection \<open>Combinators\<close>

definition await :: "op \<Rightarrow> script \<Rightarrow> script" where
  "await q s = Await q (\<lambda>_. s)"

text \<open>\<open>await page.evaluate(f)\<close>.\<close>

definition evaluate :: "(snapshot \<Rightarrow> js_exn + 'a \<times> act list) \<Rightarrow> ('a \<Rightarrow> script) \<Rightarrow> script" where
  "evaluate f k = Look (\<lambda>s. map_sum id snd (f s)) (\<lambda>s. k (fst (projr (f s))))"

text \<open>A function that only reads the document.\<close>

definition inspect :: "(snapshot \<Rightarrow> 'a) \<Rightarrow> ('a \<Rightarrow> script) \<Rightarrow> script" where
  "inspect f k = evaluate (\<lambda>s. Inr (f s, [])) k"

definition lift :: "js_exn + 'a \<Rightarrow> ('a \<Rightarrow> script) \<Rightarrow> script" where
  "lift v k = (case v of Inl e \<Rightarrow> Throw e | Inr a \<Rightarrow> k a)"

definition fetch :: "string \<Rightarrow> http_request \<Rightarrow> (http_response \<Rightarrow> script) \<Rightarrow> script" where
  "fetch base req k = Await (Fetch base req) (\<lambda>r. case r of R_http h \<Rightarrow> k h | _ \<Rightarrow> Throw TypeError)"

text \<open>\<open>(await fetch(...)).json()\<close>; \<open>None\<close> as the body is a text that is not JSON.\<close>

definition fetch_json :: "string \<Rightarrow> http_request \<Rightarrow> (json \<Rightarrow> script) \<Rightarrow> script" where
  "fetch_json base req k =
     fetch base req (\<lambda>h. case http_body h of Some v \<Rightarrow> k v | None \<Rightarrow> Throw (ErrorMsg ''Unexpected token''))"

text \<open>\<open>console.log(ok ? good : bad); await browser.close(); process.exit(ok ? 0 : 1)\<close>.\<close>

definition verdict :: "bool \<Rightarrow> string \<Rightarrow> script" where
  "verdict ok bad = Say (if ok then ''RESULT: OK'' else bad) (await CloseBrowser (Exit (if ok then 0 else 1)))"

subsection \<open>All behaviours of a script\<close>

text \<open>\<open>always Q s t\<close>: after the trace \<open>t\<close> the script ends only in ways that \<open>Q\<close> allows, whatever the
  world answers. The rules of \<open>always\<close> compute it along the script, and it is sound for \<open>exec\<close>.\<close>

primrec always :: "(js_exn + nat \<Rightarrow> trace \<Rightarrow> bool) \<Rightarrow> script \<Rightarrow> trace \<Rightarrow> bool" where
  "always Q (Await q k) = (\<lambda>t. (\<forall>e. Q (Inl e) (t @ [(q, R_throw e)])) \<and> (\<forall>r. always Q (k r) (t @ [(q, r)])))"
| "always Q (Caught q s) = (\<lambda>t. \<forall>r. always Q s (t @ [(q, r)]))"
| "always Q (Look f k) = (\<lambda>t. \<forall>s. (\<forall>e. f s = Inl e \<longrightarrow> Q (Inl e) t) \<and>
     (\<forall>a. f s = Inr a \<longrightarrow> (\<forall>e. Q (Inl e) (t @ [(Perform a, R_throw e)])) \<and>
                            (\<forall>r. always Q (k s) (t @ [(Perform a, r)]))))"
| "always Q (Heard k) = (\<lambda>t. \<forall>l. always Q (k l) t)"
| "always Q (Listen s) = always Q s"
| "always Q (ResetPuts s) = always Q s"
| "always Q (Say m s) = always Q s"
| "always Q (Throw e) = Q (Inl e)"
| "always Q (Exit n) = Q (Inr n)"

lemma did_simps [simp]: "fst (did q r res) = fst res" "fst (snd (did q r res)) = (q, r) # fst (snd res)"
  by (simp_all add: did_def split: prod.split)

lemma always_sound:
  "always Q s t \<Longrightarrow> Q (fst (exec br s w l)) (t @ fst (snd (exec br s w l)))"
proof (induction s arbitrary: t w l)
  case (Await q k)
  obtain r evs w' where d: "br_do br w q = (r, evs, w')" by (cases "br_do br w q")
  show ?case using Await.prems Await.IH [OF rangeI, of r "t @ [(q, r)]" w' "foldl hear l evs"]
    by (cases r) (simp_all add: d)
next
  case (Caught q s)
  obtain r evs w' where d: "br_do br w q = (r, evs, w')" by (cases "br_do br w q")
  show ?case using Caught.prems Caught.IH [of "t @ [(q, r)]" w' "foldl hear l evs"] by (simp add: d)
next
  case (Look f k)
  show ?case
  proof (cases "f (br_see br w)")
    case (Inl e)
    then show ?thesis using Look.prems by simp
  next
    case (Inr a)
    obtain r evs w' where d: "br_do br w (Perform a) = (r, evs, w')" by (cases "br_do br w (Perform a)")
    show ?thesis using Look.prems Inr
        Look.IH [OF rangeI, of "br_see br w" "t @ [(Perform a, r)]" w' "foldl hear l evs"]
      by (cases r) (simp_all add: d)
  qed
next
  case (Heard k)
  then show ?case using Heard.IH [OF rangeI] by simp
next
  case (Say m s)
  show ?case using Say.prems Say.IH [of t w l] by (cases "exec br s w l") simp
qed simp_all

lemma always_run: "always Q s [] \<Longrightarrow> Q (fst (exec br s w l)) (fst (snd (exec br s w l)))"
  using always_sound [of Q s "[]"] by simp

text \<open>The same for the combinators.\<close>

lemma always_await [simp]:
  "always Q (await q s) t = ((\<forall>e. Q (Inl e) (t @ [(q, R_throw e)])) \<and> (\<forall>r. always Q s (t @ [(q, r)])))"
  by (simp add: await_def)

lemma always_evaluate [simp]:
  "always Q (evaluate f k) t \<longleftrightarrow>
     (\<forall>s. case f s of
            Inl e \<Rightarrow> Q (Inl e) t
          | Inr (v, a) \<Rightarrow> (\<forall>e. Q (Inl e) (t @ [(Perform a, R_throw e)])) \<and> (\<forall>r. always Q (k v) (t @ [(Perform a, r)])))"
  (is "?l = (\<forall>s. ?r s)")
proof -
  have "((\<forall>e. map_sum id snd (f s) = Inl e \<longrightarrow> Q (Inl e) t) \<and>
     (\<forall>a. map_sum id snd (f s) = Inr a \<longrightarrow> (\<forall>e. Q (Inl e) (t @ [(Perform a, R_throw e)])) \<and>
            (\<forall>r. always Q (k (fst (projr (f s)))) (t @ [(Perform a, r)])))) = ?r s" for s
    by (cases "f s") auto
  then show ?thesis by (simp add: evaluate_def)
qed

lemma always_inspect [simp]:
  "always Q (inspect f k) t \<longleftrightarrow>
     (\<forall>s. (\<forall>e. Q (Inl e) (t @ [(Perform [], R_throw e)])) \<and> (\<forall>r. always Q (k (f s)) (t @ [(Perform [], r)])))"
  by (simp add: inspect_def)

lemma always_fetch [simp]:
  "always Q (fetch base req k) t \<longleftrightarrow>
     (\<forall>e. Q (Inl e) (t @ [(Fetch base req, R_throw e)])) \<and>
     (\<forall>r. case r of R_http h \<Rightarrow> always Q (k h) (t @ [(Fetch base req, r)])
                  | _ \<Rightarrow> Q (Inl TypeError) (t @ [(Fetch base req, r)]))"
  by (simp add: fetch_def split: reply.split)

text \<open>A condition on the regular end of a script only: exceptions need not be followed.\<close>

definition on_exit :: "(nat \<Rightarrow> trace \<Rightarrow> bool) \<Rightarrow> js_exn + nat \<Rightarrow> trace \<Rightarrow> bool" where
  "on_exit P res tr = (case res of Inl e \<Rightarrow> True | Inr n \<Rightarrow> P n tr)"

lemma on_exit_simps [simp]: "on_exit P (Inl e) t" "on_exit P (Inr n) t = P n t"
  by (simp_all add: on_exit_def)

lemma always_on_exit [simp]:
  "always (on_exit P) (await q s) t = (\<forall>r. always (on_exit P) s (t @ [(q, r)]))"
  "always (on_exit P) (Await q k) t = (\<forall>r. always (on_exit P) (k r) (t @ [(q, r)]))"
  "always (on_exit P) (inspect f g) t = (\<forall>s r. always (on_exit P) (g (f s)) (t @ [(Perform [], r)]))"
  "always (on_exit P) (Throw e) t"
  "always (on_exit P) (lift v l) t = (\<forall>a. v = Inr a \<longrightarrow> always (on_exit P) (l a) t)"
  "always (on_exit P) (fetch_json base req j) t =
     (\<forall>h b. http_body h = Some b \<longrightarrow> always (on_exit P) (j b) (t @ [(Fetch base req, R_http h)]))"
  "always (on_exit P) (verdict ok bad) t = (\<forall>r. P (if ok then 0 else 1) (t @ [(CloseBrowser, r)]))"
  by (auto simp: lift_def fetch_json_def verdict_def split: sum.split reply.split option.split)

end
