(* ===== verification/QaScripts.thy ===== *)
theory QaScripts
  imports QaHarness ExportCsv JsDate
begin

section \<open>The browser scripts (\<open>verify-*.mjs\<close>)\<close>

text \<open>
  One definition per script, cut into the parts its comments name. The environment variables are
  parameters where a script reads the URL from one. A list of answers that the script indexes
  throws where JavaScript would.
\<close>

definition HOST :: string where "HOST = ''http://127.0.0.1:8080''"

definition open_browser :: "nat \<Rightarrow> nat \<Rightarrow> script \<Rightarrow> script" where
  "open_browser w h s = await (Launch w h) (await NewPage (Listen s))"

text \<open>\<open>${v}\<close>, \<open>v[0]\<close>, \<open>a === b\<close> on values of answers, and \<open>xs.some((d) => d.id === i)\<close>.\<close>

definition template :: "json option \<Rightarrow> string" where
  "template v = (case v of None \<Rightarrow> ''undefined'' | Some j \<Rightarrow> json_to_string j)"

definition first_of :: "json option \<Rightarrow> js_exn + json option" where
  "first_of v = (case v of
     None \<Rightarrow> Inl TypeError
   | Some JNull \<Rightarrow> Inl TypeError
   | Some (JArr (x # _)) \<Rightarrow> Inr (Some x)
   | Some (JStr (c # _)) \<Rightarrow> Inr (Some (JStr [c]))
   | Some _ \<Rightarrow> Inr None)"

definition prop_opt :: "json option \<Rightarrow> string \<Rightarrow> js_exn + json option" where
  "prop_opt v k = (case v of None \<Rightarrow> Inl TypeError | Some j \<Rightarrow> json_prop j k)"

fun strict_eq :: "json option \<Rightarrow> json option \<Rightarrow> bool" where
  "strict_eq (Some (JNum a)) (Some (JNum b)) = js_eq a b"
| "strict_eq (Some (JArr a)) b = False"
| "strict_eq (Some (JObj a)) b = False"
| "strict_eq a b = (a = b)"

fun some_with_id :: "json option \<Rightarrow> json list \<Rightarrow> js_exn + bool" where
  "some_with_id i [] = Inr False"
| "some_with_id i (d # ds) =
     ok_bind (json_prop d ''id'') (\<lambda>x. if strict_eq x i then Inr True else some_with_id i ds)"

definition lists_id :: "json option \<Rightarrow> json \<Rightarrow> js_exn + bool" where
  "lists_id i answer =
     ok_bind (json_prop answer ''dashboards'') (\<lambda>ds.
       case ds of Some (JArr vs) \<Rightarrow> some_with_id i vs | _ \<Rightarrow> Inl TypeError)"

definition obj_of :: "(string \<times> json option) list \<Rightarrow> json" where
  "obj_of fs = JObj (concat (map (\<lambda>(k, v). case v of Some j \<Rightarrow> [(k, j)] | None \<Rightarrow> []) fs))"

definition quoted_lit :: "string \<Rightarrow> string" where
  "quoted_lit v = [CHR 0x27] @ v @ [CHR 0x27]"

subsection \<open>Grid geometry (\<open>verify-grid.mjs\<close>, \<open>verify-dash.mjs\<close>)\<close>

definition grid_items :: "snapshot \<Rightarrow> rect list" where
  "grid_items s = map (\<lambda>d. nd_box (node_of d)) (select_all (One (Cls ''react-grid-item'')) (sn_body s))"

definition grid_right :: "snapshot \<Rightarrow> jsnum" where
  "grid_right s =
     (case select_one (One (Cls ''react-grid-layout'')) (sn_body s) of
        None \<Rightarrow> Fin 0
      | Some c \<Rightarrow> (case parents_of (nd_id (node_of c)) (sn_body s) of p # _ \<Rightarrow> rc_right (nd_box p) | [] \<Rightarrow> Fin 0))"

definition apart :: "rect \<Rightarrow> rect \<Rightarrow> bool" where
  "apart a b \<longleftrightarrow>
     js_le (rc_right a) (js_add (rc_left b) (Fin 1)) \<or> js_le (rc_right b) (js_add (rc_left a) (Fin 1)) \<or>
     js_le (rc_bottom a) (js_add (rc_top b) (Fin 1)) \<or> js_le (rc_bottom b) (js_add (rc_top a) (Fin 1))"

definition overlap :: "rect list \<Rightarrow> bool" where
  "overlap items =
     list_ex (\<lambda>i. list_ex (\<lambda>j. \<not> apart (items ! i) (items ! j)) [Suc i..<length items]) [0..<length items]"

definition inside :: "jsnum \<Rightarrow> rect \<Rightarrow> bool" where
  "inside cr r \<longleftrightarrow> \<not> js_lt (js_add cr (Fin 1)) (rc_right r) \<and> \<not> js_lt (rc_left r) (Fin 0)"

definition grid_ok :: "jsnum \<Rightarrow> rect list \<Rightarrow> bool" where
  "grid_ok cr items \<longleftrightarrow> list_all (inside cr) items \<and> \<not> overlap items"

definition verify_grid :: "string \<Rightarrow> script" where
  "verify_grid url =
     open_browser 1440 900
       (await (Goto url)
       (await (WaitFor (One (Cls ''react-grid-item'')) 30000)
       (await (Sleep 1500)
       (inspect (\<lambda>s. (grid_right s, grid_items s)) (\<lambda>(cr, items).
          Heard (\<lambda>l. verdict (grid_ok cr items \<and> quiet l) ''RESULT: PROBLEMS FOUND''))))))"

subsection \<open>Dashboards (\<open>verify-dash.mjs\<close>)\<close>

definition CANON :: string where "CANON = ''QA Dash''"

definition qa_widget :: "string \<Rightarrow> string \<Rightarrow> string \<Rightarrow> nat \<Rightarrow> json" where
  "qa_widget i title sql x =
     JObj [(''id'', JStr i), (''type'', JStr ''stat''), (''title'', JStr title), (''sql'', JStr sql),
       (''x'', JNum (Fin (of_nat x))), (''y'', JNum (Fin 0)), (''w'', JNum (Fin 3)), (''h'', JNum (Fin 4))]"

definition empty_dashboard :: "string \<Rightarrow> json list \<Rightarrow> json" where
  "empty_dashboard nm ws =
     JObj [(''name'', JStr nm),
       (''config'', JObj [(''title'', JStr nm), (''refresh_interval'', JNum (Fin 30)), (''widgets'', JArr ws)])]"

definition canonical :: json where
  "canonical = empty_dashboard CANON
     [qa_widget ''qa1'' ''One'' ''SELECT COUNT(*) AS total FROM logs'' 0,
      qa_widget ''qa2'' ''Two''
        (''SELECT COUNT(*) AS total FROM logs WHERE level = '' @ [CHR 0x27] @ ''ERROR'' @ [CHR 0x27]) 3]"

definition dash_url :: "json option \<Rightarrow> string" where
  "dash_url i = ''/api/v1/dashboards/'' @ template i"

definition put_dash :: "string \<Rightarrow> json option \<Rightarrow> json \<Rightarrow> (json \<Rightarrow> script) \<Rightarrow> script" where
  "put_dash base i body k = fetch_json base (put (dash_url i) body) k"

text \<open>1) drag the first item: exactly one PUT.\<close>

definition dash_drag :: "(bool \<Rightarrow> script) \<Rightarrow> script" where
  "dash_drag k =
     ResetPuts (Await (Elements (One (Cls ''react-grid-item''))) (\<lambda>r1.
       case r1 of
         R_ids (item # _) \<Rightarrow>
           Await (ElementIn item (One (Cls ''drag-handle''))) (\<lambda>r2.
             case r2 of
               R_ids (handle # _) \<Rightarrow>
                 Await (BoxOf handle) (\<lambda>r3.
                   case r3 of
                     R_point x y \<Rightarrow>
                       await (MouseMove (js_add x (Fin 40)) (js_add y (Fin 12)) 1)
                       (await MouseDown
                       (await (MouseMove (js_add (js_add x (Fin 40)) (Fin 150)) (js_add (js_add y (Fin 12)) (Fin 40)) 15)
                       (await MouseUp
                       (await (Sleep 1200)
                       (Heard (\<lambda>l. k (ls_puts l = 1)))))))
                   | _ \<Rightarrow> Throw TypeError)
             | _ \<Rightarrow> Throw TypeError)
       | _ \<Rightarrow> Throw TypeError))"

text \<open>2) rename through the input and its blur: exactly one PUT.\<close>

definition focus_input :: "string \<Rightarrow> snapshot \<Rightarrow> js_exn + bool \<times> act list" where
  "focus_input nm s =
     (case List.find (\<lambda>i. nd_value (node_of i) = nm) (select_all (One (Tag ''input'')) (sn_body s)) of
        None \<Rightarrow> Inr (False, [])
      | Some i \<Rightarrow> Inr (True, [Focus (nd_id (node_of i))]))"

definition renamed_value :: "snapshot \<Rightarrow> string option" where
  "renamed_value s =
     map_option (\<lambda>i. nd_value (node_of i))
       (List.find (\<lambda>i. str_includes (nd_value (node_of i)) ''renamed'') (select_all (One (Tag ''input'')) (sn_body s)))"

definition dash_rename :: "(bool \<Rightarrow> script) \<Rightarrow> script" where
  "dash_rename k =
     ResetPuts (evaluate (focus_input CANON) (\<lambda>_.
       await (KeyDown ''Control'') (await (KeyPress ''KeyA'') (await (KeyUp ''Control'')
       (await (KeyType (CANON @ '' renamed'')) (await (KeyPress ''Tab'') (await (Sleep 1500)
       (inspect renamed_value (\<lambda>nameNow.
          Heard (\<lambda>l. k (nameNow = Some (CANON @ '' renamed'') \<and> ls_puts l = 1)))))))))))"

text \<open>3) add a widget: exactly one PUT.\<close>

definition click_found :: "(snapshot \<Rightarrow> dom option) \<Rightarrow> snapshot \<Rightarrow> js_exn + bool \<times> act list" where
  "click_found f s =
     (case f s of None \<Rightarrow> Inr (False, []) | Some b \<Rightarrow> Inr (True, [Click (nd_id (node_of b))]))"

definition dash_add :: "(bool \<Rightarrow> script) \<Rightarrow> script" where
  "dash_add k =
     ResetPuts (evaluate (click_found (\<lambda>s. List.find (\<lambda>b. str_includes (trim (inner_text b)) ''Add widget'')
         (select_all (One (Tag ''button'')) (sn_body s)))) (\<lambda>_.
       await (Sleep 1000)
       (evaluate (click_found (\<lambda>s. find_button ''Add'' (sn_body s))) (\<lambda>_.
       await (Sleep 1500)
       (Heard (\<lambda>l. k (ls_puts l = 1)))))))"

text \<open>5) create, list and delete through the API.\<close>

definition dash_crud :: "string \<Rightarrow> (bool \<Rightarrow> script) \<Rightarrow> script" where
  "dash_crud base k =
     fetch_json base (post ''/api/v1/dashboards'' (empty_dashboard ''QA temp'' [])) (\<lambda>tmp.
       lift (json_prop tmp ''ok'') (\<lambda>tok.
       if js_truthy tok \<and> js_truthy (prop_of tmp ''id'')
       then
         (let i = prop_of tmp ''id'' in
          fetch_json base api_dashboards (\<lambda>l2.
          lift (lists_id i l2) (\<lambda>found.
          fetch_json base (api_dashboardDelete (template i)) (\<lambda>del.
          fetch_json base api_dashboards (\<lambda>l3.
          lift (lists_id i l3) (\<lambda>listed.
          lift (json_prop del ''ok'') (\<lambda>dok.
            k (found \<and> js_truthy dok \<and> \<not> listed))))))))
       else k False))"

definition dash_checks :: "string \<Rightarrow> json option \<Rightarrow> json \<Rightarrow> script" where
  "dash_checks base i original =
     await (Goto (base @ ''/#/dashboards''))
     (await (WaitFor (One (Cls ''react-grid-item'')) 30000)
     (await (Sleep 1500)
     (inspect (\<lambda>s. inner_text (sn_body s)) (\<lambda>pageText.
     dash_drag (\<lambda>dragOk.
     dash_rename (\<lambda>renameOk.
     dash_add (\<lambda>addOk.
     inspect grid_items (\<lambda>items.
     dash_crud base (\<lambda>crudOk.
     put_dash base i original (\<lambda>_.
     Heard (\<lambda>l. verdict (dragOk \<and> renameOk \<and> addOk \<and> \<not> overlap items \<and> crudOk \<and>
          (str_includes pageText ''One'' \<and> str_includes pageText ''Two'') \<and> quiet l)
        ''RESULT: PROBLEMS'')))))))))))"

definition verify_dash :: "string \<Rightarrow> script" where
  "verify_dash base =
     open_browser 1440 900
       (fetch_json base api_dashboards (\<lambda>answer.
        lift (ok_bind (json_prop answer ''dashboards'') first_of) (\<lambda>target.
        if \<not> js_truthy target
        then Say ''RESULT: PROBLEMS (no dashboards)'' (await CloseBrowser (Exit 1))
        else
          lift (prop_opt target ''name'') (\<lambda>nm.
          lift (prop_opt target ''config'') (\<lambda>cfg.
          lift (prop_opt target ''id'') (\<lambda>i.
          put_dash base i canonical (\<lambda>setup.
          lift (json_prop setup ''ok'') (\<lambda>ok.
          if \<not> js_truthy ok
          then Say ''RESULT: PROBLEMS (setup PUT failed)'' (await CloseBrowser (Exit 1))
          else dash_checks base i (obj_of [(''name'', nm), (''config'', cfg)])))))))))"

subsection \<open>Deep links (\<open>verify-dashhash.mjs\<close>)\<close>

text \<open>\<open>check\<close> folds a condition into \<open>ok\<close>; the hash is read twice, once for the message.\<close>

definition check_hash :: "string \<Rightarrow> bool \<Rightarrow> (bool \<Rightarrow> script) \<Rightarrow> script" where
  "check_hash expected ok k = inspect sn_hash (\<lambda>h. inspect sn_hash (\<lambda>_. k (ok \<and> h = expected)))"

definition check_shows :: "string \<Rightarrow> bool \<Rightarrow> (bool \<Rightarrow> script) \<Rightarrow> script" where
  "check_shows x ok k = inspect (\<lambda>s. str_includes (inner_text (sn_body s)) x) (\<lambda>b. k (ok \<and> b))"

definition check_click :: "(snapshot \<Rightarrow> dom option) \<Rightarrow> bool \<Rightarrow> (bool \<Rightarrow> script) \<Rightarrow> script" where
  "check_click f ok k = evaluate (click_found f) (\<lambda>b. k (ok \<and> b))"

definition set_hash :: "string \<Rightarrow> script \<Rightarrow> script" where
  "set_hash h s = evaluate (\<lambda>_. Inr ((), [SetHash h])) (\<lambda>_. s)"

definition dash_hash :: "json option \<Rightarrow> string" where
  "dash_hash i = ''#/dashboards/'' @ template i"

definition HASH_QA :: string where "HASH_QA = ''Hash QA Dash''"

definition dash_select_button :: "snapshot \<Rightarrow> dom option" where
  "dash_select_button s =
     List.find (\<lambda>b. trim (inner_text b) = HASH_QA) (select_all (One (Cls ''g-select-control__button'')) (sn_body s))"

definition dash_select_option :: "json option \<Rightarrow> snapshot \<Rightarrow> dom option" where
  "dash_select_option nm s =
     List.find (\<lambda>e. Some (JStr (trim (nd_text (node_of e)))) = nm)
       (select_all (One (Cls ''g-select-list__option-default-label'')) (sn_body s))"

definition dashhash_checks :: "json option \<Rightarrow> json option \<Rightarrow> json option \<Rightarrow> bool \<Rightarrow> script" where
  "dashhash_checks dashA nameA dashB ok2 =
     set_hash (''/dashboards/'' @ template dashB)
     (await (Sleep 1500)
     (check_shows HASH_QA ok2 (\<lambda>ok3.
     check_hash (dash_hash dashB) ok3 (\<lambda>ok4.
     check_click dash_select_button ok4 (\<lambda>ok5.
     await (WaitFor (One (Cls ''g-select-list__option-default-label'')) 5000)
     (check_click (dash_select_option nameA) ok5 (\<lambda>ok6.
     await (Sleep 1000)
     (check_hash (dash_hash dashA) ok6 (\<lambda>ok7.
     check_shows (template nameA) ok7 (\<lambda>ok8.
     await GoBack
     (await (Sleep 1200)
     (check_hash (dash_hash dashB) ok8 (\<lambda>ok9.
     check_shows HASH_QA ok9 (\<lambda>ok10.
     set_hash ''/dashboards/does-not-exist-123''
     (await (Sleep 1500)
     (check_hash (dash_hash dashA) ok10 (\<lambda>ok11.
     fetch_json HOST (api_dashboardDelete (template dashB)) (\<lambda>_.
     Heard (\<lambda>l. verdict (ok11 \<and> quiet l) ''RESULT: PROBLEMS'')))))))))))))))))))"

definition verify_dashhash :: script where
  "verify_dashhash =
     open_browser 1440 900
       (await (Goto (HOST @ ''/#/dashboards''))
       (await (Sleep 2000)
       (fetch_json HOST api_dashboards (\<lambda>answer.
        lift (ok_bind (json_prop answer ''dashboards'') first_of) (\<lambda>d.
        lift (prop_opt d ''id'') (\<lambda>dashA.
        lift (prop_opt d ''name'') (\<lambda>nameA.
        check_hash (dash_hash dashA) True (\<lambda>ok1.
        check_shows (template nameA) ok1 (\<lambda>ok2.
        fetch_json HOST (post ''/api/v1/dashboards'' (empty_dashboard HASH_QA [])) (\<lambda>created.
        lift (json_prop created ''id'') (\<lambda>dashB. dashhash_checks dashA nameA dashB ok2)))))))))))"

subsection \<open>Every page (\<open>verify-pages.mjs\<close>)\<close>

definition logo_and_collapse :: "snapshot \<Rightarrow> bool \<times> bool" where
  "logo_and_collapse s =
     (select_one (Inside (Cls ''ydbgo-logo__badge'') (Tag ''svg'')) (sn_body s) \<noteq> None,
      select_one (One (Cls ''ydbgo-collapse'')) (sn_body s) \<noteq> None)"

fun check_pages :: "string list \<Rightarrow> bool \<Rightarrow> (bool \<Rightarrow> script) \<Rightarrow> script" where
  "check_pages [] ok k = k ok"
| "check_pages (p # ps) ok k =
     await NewPage (Listen
       (await (Goto (HOST @ ''/#/'' @ p))
       (await (Sleep 1500)
       (inspect logo_and_collapse (\<lambda>(logo, btn).
        Heard (\<lambda>l. inspect (\<lambda>_. ()) (\<lambda>_.
        await ClosePage (check_pages ps (ok \<and> quiet l \<and> logo \<and> btn) k))))))))"

definition page_names :: "string list" where
  "page_names = [''cluster'', ''sql'', ''dashboards'', ''logs'']"

definition verify_pages :: script where
  "verify_pages =
     await (Launch 1440 900) (check_pages page_names True (\<lambda>ok. verdict ok ''RESULT: PROBLEMS''))"

subsection \<open>Scrolling (\<open>verify-scroll.mjs\<close>)\<close>

definition has_scrollbar :: "snapshot \<Rightarrow> bool" where
  "has_scrollbar s \<longleftrightarrow> js_lt (sn_clientH s) (sn_scrollH s)"

fun check_short :: "string list \<Rightarrow> bool \<Rightarrow> (bool \<Rightarrow> script) \<Rightarrow> script" where
  "check_short [] ok k = k ok"
| "check_short (p # ps) ok k =
     await NewPage
       (await (Goto (HOST @ ''/#/'' @ p))
       (await (Sleep 1500)
       (inspect (\<lambda>s. \<not> has_scrollbar s \<and> sn_margin s = ''0px'') (\<lambda>noBar.
        await ClosePage (check_short ps (ok \<and> noBar) k)))))"

definition seed_row :: "int \<Rightarrow> nat \<Rightarrow> string" where
  "seed_row nowMs i =
     ''('' @ quoted_lit (iso_of_ms (nowMs - int i * 3000)) @ '','' @ quoted_lit ''INFO'' @ '','' @
     quoted_lit (''scroll check '' @ nat_str i) @ '',0.5)''"

definition seed_sql :: "int \<Rightarrow> string" where
  "seed_sql nowMs = ''INSERT INTO logs VALUES '' @ join_on '','' (map (seed_row nowMs) [0..<200])"

definition scroll_tall :: "bool \<Rightarrow> script" where
  "scroll_tall ok =
     await NewPage
     (await (SetViewport 1440 600)
     (Await Clock (\<lambda>r. case r of
        R_time nowMs \<Rightarrow>
          fetch HOST (api_query (seed_sql nowMs)) (\<lambda>h.
          if \<not> http_ok h then Throw (ErrorMsg (''seed insert failed: '' @ nat_str (http_status h)))
          else
            await (Goto (HOST @ ''/#/logs''))
            (await (WaitFor (Inside (Tag ''tbody'') (Tag ''tr'')) 10000)
            (await (Sleep 500)
            (inspect has_scrollbar (\<lambda>tall. verdict (ok \<and> tall) ''RESULT: PROBLEMS'')))))
      | _ \<Rightarrow> Throw TypeError)))"

definition verify_scroll :: script where
  "verify_scroll =
     await (Launch 1440 900)
     (check_short [''sql'', ''dashboards'', ''logs''] True (\<lambda>ok.
      await NewPage
      (await (Goto (HOST @ ''/#/cluster''))
      (await (Sleep 3000)
      (inspect (\<lambda>s. sn_margin s = ''0px'' \<and> has_scrollbar s) (\<lambda>scrollable.
       await ClosePage (scroll_tall (ok \<and> scrollable))))))))"

subsection \<open>Metrics (\<open>verify-metrics.mjs\<close>)\<close>

record chart_card =
  cc_qa :: string
  cc_svg :: bool
  cc_paths :: nat

definition chart_cards :: "snapshot \<Rightarrow> chart_card list" where
  "chart_cards s =
     map (\<lambda>c. \<lparr>cc_qa = (case map_of (nd_attrs (node_of c)) ''data-qa'' of Some v \<Rightarrow> v | None \<Rightarrow> []),
               cc_svg = (select_one (One (Tag ''svg'')) c \<noteq> None),
               cc_paths = length (select_all (One (Tag ''path'')) c)\<rparr>)
       (select_all (One (AttrStarts ''data-qa'' ''chart-'')) (sn_body s))"

definition node_chips :: "snapshot \<Rightarrow> string list" where
  "node_chips s =
     map (\<lambda>b. trim (nd_text (node_of b))) (select_all (One (AttrStarts ''data-qa'' ''metrics-node-'')) (sn_body s))"

definition allSvgs :: "chart_card list \<Rightarrow> bool" where
  "allSvgs cards = list_all cc_svg cards"

definition chartGrew :: "chart_card list \<Rightarrow> chart_card list \<Rightarrow> string \<Rightarrow> bool" where
  "chartGrew s1 s2 qa =
     (case (List.find (\<lambda>c. cc_qa c = qa) s1, List.find (\<lambda>c. cc_qa c = qa) s2) of
        (Some a, Some b) \<Rightarrow> 0 < cc_paths b
      | _ \<Rightarrow> False)"

definition ingest_row :: "nat \<Rightarrow> json list" where
  "ingest_row i =
     [JStr ''2026-08-17T10:00:00Z'', JStr ''info'', JStr (''verify-metrics '' @ nat_str i),
      JNum (js_add (fl (3 / 10)) (Fin (of_nat i)))]"

fun fetch_each :: "http_request list \<Rightarrow> script \<Rightarrow> script" where
  "fetch_each [] k = k"
| "fetch_each (r # rs) k = fetch HOST r (\<lambda>_. fetch_each rs k)"

definition metrics_load :: "http_request list" where
  "metrics_load =
     map (\<lambda>i. api_ingest ''logs'' [''ts'', ''level'', ''msg'', ''lat''] [ingest_row i]) [0..<6] @
     map (\<lambda>i. api_query ''SELECT count(*) FROM logs'') [0..<6]"

definition chipsHaveNodes :: "string list \<Rightarrow> bool" where
  "chipsHaveNodes chips \<longleftrightarrow> 2 \<le> length chips \<and> list_ex (starts_with ''n1'') chips"

definition metrics_ok ::
    "chart_card list \<Rightarrow> string list \<Rightarrow> chart_card list \<Rightarrow> chart_card list \<Rightarrow> bool" where
  "metrics_ok before chips after_load single \<longleftrightarrow>
     length before = 4 \<and> allSvgs before \<and> allSvgs after_load \<and>
     chartGrew before after_load ''chart-write-rps'' \<and> chartGrew before after_load ''chart-read-rps'' \<and>
     chipsHaveNodes chips \<and> allSvgs single"

definition verify_metrics :: script where
  "verify_metrics =
     open_browser 1600 1000
       (await (Goto (HOST @ ''/#/cluster''))
       (await (WaitFor (One (Attr ''data-qa'' ''metrics-node-n1'')) 30000)
       (await (Sleep 8000)
       (inspect (\<lambda>s. (chart_cards s, node_chips s)) (\<lambda>(before, chips).
        fetch_each metrics_load
        (await (Sleep 12000)
        (inspect chart_cards (\<lambda>after_load.
         await (ClickSelector (One (Attr ''data-qa'' ''metrics-node-n1'')))
         (await (Sleep 2000)
         (inspect chart_cards (\<lambda>single.
          Heard (\<lambda>l. verdict (metrics_ok before chips after_load single \<and> quiet l) ''RESULT: PROBLEMS''))))))))))))"

subsection \<open>Export (\<open>verify-export.mjs\<close>)\<close>

fun remove_all :: "string \<Rightarrow> string list \<Rightarrow> script \<Rightarrow> script" where
  "remove_all dir [] s = s"
| "remove_all dir (f # fs) s = await (RemoveFile (dir @ ''/'' @ f)) (remove_all dir fs s)"

definition list_dir :: "string \<Rightarrow> (string list \<Rightarrow> script) \<Rightarrow> script" where
  "list_dir dir k = Await (ListDir dir) (\<lambda>r. case r of R_names fs \<Rightarrow> k fs | _ \<Rightarrow> Throw TypeError)"

text \<open>The polling loop: up to \<open>n\<close> looks at the directory, half a second apart.\<close>

fun poll_download :: "nat \<Rightarrow> string \<Rightarrow> string list \<Rightarrow> (string option \<Rightarrow> script) \<Rightarrow> script" where
  "poll_download 0 dir before k = k None"
| "poll_download (Suc n) dir before k =
     await (Sleep 500)
       (list_dir dir (\<lambda>fs.
          case filter (\<lambda>f. f \<notin> set before) fs of
            file # _ \<Rightarrow> k (Some file)
          | [] \<Rightarrow> poll_download n dir before k))"

text \<open>\<open>btns.find(...).click()\<close>: without such a button this throws.\<close>

definition click_needed :: "(snapshot \<Rightarrow> dom option) \<Rightarrow> snapshot \<Rightarrow> js_exn + unit \<times> act list" where
  "click_needed f s =
     (case f s of None \<Rightarrow> Inl TypeError | Some b \<Rightarrow> Inr ((), [Click (nd_id (node_of b))]))"

definition export_button :: "snapshot \<Rightarrow> dom option" where
  "export_button s =
     List.find (\<lambda>b. str_includes (inner_text b) ''Export CSV'') (select_all (One (Tag ''button'')) (sn_body s))"

definition csv_accepted :: "string \<Rightarrow> bool" where
  "csv_accepted csv \<longleftrightarrow> starts_with bom csv \<and> 3 \<le> length (split_on (CHR 0x0A) csv)"

definition download_csv :: "string \<Rightarrow> (string option \<Rightarrow> script) \<Rightarrow> script" where
  "download_csv dir k =
     list_dir dir (\<lambda>before.
     evaluate (click_needed export_button) (\<lambda>_.
     poll_download 20 dir before (\<lambda>file.
       case file of
         None \<Rightarrow> k None
       | Some f \<Rightarrow> Await (ReadFile (dir @ ''/'' @ f)) (\<lambda>r. case r of R_text t \<Rightarrow> k (Some t) | _ \<Rightarrow> Throw TypeError))))"

definition export_verdict :: "bool \<Rightarrow> string option \<Rightarrow> script" where
  "export_verdict hasExport csv =
     Heard (\<lambda>l. verdict (hasExport \<and> (case csv of Some t \<Rightarrow> csv_accepted t | None \<Rightarrow> False) \<and> quiet l)
       ''RESULT: PROBLEMS'')"

definition verify_export :: "string \<Rightarrow> script" where
  "verify_export dir =
     await (MkDir dir) (list_dir dir (\<lambda>old. remove_all dir old
       (await (Launch 1440 900)
       (await (AllowDownloads dir)
       (await NewPage (Listen
       (await (Goto (HOST @ ''/#/sql''))
       (await (WaitFor (One (Tag ''button'')) 30000)
       (evaluate (click_needed (\<lambda>s. find_button ''Run'' (sn_body s))) (\<lambda>_.
        await (Sleep 2000)
        (inspect (\<lambda>s. export_button s \<noteq> None) (\<lambda>hasExport.
         if hasExport then download_csv dir (\<lambda>csv. export_verdict True csv)
         else export_verdict False None))))))))))))"

subsection \<open>Logo (\<open>verify-logo.mjs\<close>)\<close>

definition rect_of :: "dom option \<Rightarrow> js_exn + rect" where
  "rect_of d = (case d of None \<Rightarrow> Inl TypeError | Some e \<Rightarrow> Inr (nd_box (node_of e)))"

definition centre_x :: "rect \<Rightarrow> jsnum" where
  "centre_x r = js_round (js_add (rc_left r) (js_div (rc_width r) (Fin 2)))"

definition left_x :: "rect \<Rightarrow> jsnum" where
  "left_x r = js_round (rc_left r)"

record expanded =
  ex_bolt :: jsnum
  ex_icon :: "jsnum option"
  ex_text :: "string option"
  ex_textLeft :: "jsnum option"
  ex_titleLeft :: jsnum
  ex_btnBottom :: jsnum
  ex_asideBottom :: jsnum

definition logo_badge :: selector where
  "logo_badge = Inside (Cls ''ydbgo-logo__badge'') (Tag ''svg'')"

definition menu_icon :: selector where
  "menu_icon = Inside (ClassHas ''gn-aside-header__menu-item'') (Tag ''svg'')"

definition logo_text :: "snapshot \<Rightarrow> dom option" where
  "logo_text s = select_one (One (Cls ''ydbgo-logo__text'')) (sn_body s)"

definition read_expanded :: "snapshot \<Rightarrow> js_exn + expanded \<times> act list" where
  "read_expanded s =
     ok_bind (rect_of (select_one logo_badge (sn_body s))) (\<lambda>badge.
     ok_bind (rect_of (select_one (One (ClassHas ''gn-composite-bar-item__title'')) (sn_body s))) (\<lambda>title.
     ok_bind (rect_of (select_one (One (Cls ''ydbgo-collapse'')) (sn_body s))) (\<lambda>btn.
     ok_bind (rect_of (select_one (One (ClassHas ''gn-aside-header__aside'')) (sn_body s))) (\<lambda>aside.
     ok_bind (rect_of (select_one (One (Cls ''ydbgo-logo'')) (sn_body s))) (\<lambda>logo.
       Inr (\<lparr>ex_bolt = centre_x badge,
              ex_icon = map_option (\<lambda>d. centre_x (nd_box (node_of d))) (select_one menu_icon (sn_body s)),
              ex_text = map_option inner_text (logo_text s),
              ex_textLeft = map_option (\<lambda>d. left_x (nd_box (node_of d))) (logo_text s),
              ex_titleLeft = left_x title,
              ex_btnBottom = js_round (rc_bottom btn),
              ex_asideBottom = js_round (rc_bottom aside)\<rparr>, []))))))"

definition read_collapsed :: "snapshot \<Rightarrow> js_exn + (jsnum \<times> jsnum \<times> bool) \<times> act list" where
  "read_collapsed s =
     ok_bind (rect_of (select_one logo_badge (sn_body s))) (\<lambda>badge.
     ok_bind (rect_of (select_one (One (ClassHas ''gn-aside-header__aside'')) (sn_body s))) (\<lambda>aside.
       Inr ((centre_x badge, centre_x aside, logo_text s = None), [])))"

definition logo_ok :: "expanded \<Rightarrow> jsnum \<times> jsnum \<times> bool \<Rightarrow> bool" where
  "logo_ok ex co \<longleftrightarrow>
     (case co of (bolt, aside, textHidden) \<Rightarrow>
       (case ex_icon ex of Some i \<Rightarrow> js_eq (ex_bolt ex) i | None \<Rightarrow> False) \<and> ex_text ex = Some ''YADBGO'' \<and>
       (case ex_textLeft ex of Some x \<Rightarrow> js_eq x (ex_titleLeft ex) | None \<Rightarrow> False) \<and>
       js_le (js_sub (ex_asideBottom ex) (ex_btnBottom ex)) (Fin 20) \<and>
       js_eq bolt aside \<and> textHidden)"

definition verify_logo :: script where
  "verify_logo =
     open_browser 1440 900
       (await (Goto (HOST @ ''/#/cluster''))
       (await (Sleep 1500)
       (evaluate read_expanded (\<lambda>ex.
        evaluate (click_needed (\<lambda>s. select_one (One (Cls ''ydbgo-collapse'')) (sn_body s))) (\<lambda>_.
        await (Sleep 800)
        (evaluate read_collapsed (\<lambda>co.
         Heard (\<lambda>l.
           let ok = (logo_ok ex co \<and> quiet l)
           in Say (if ok then ''RESULT: OK'' else ''RESULT: PROBLEMS'')
                (await (Screenshot ''/tmp/ui-expanded.png'')
                (await CloseBrowser (Exit (if ok then 0 else 1))))))))))))"

end
