(* ===== verification/QaAdmin.thy ===== *)
theory QaAdmin
  imports QaScripts
begin

section \<open>The script of the admin dialogs (\<open>verify-admin.mjs\<close>)\<close>

text \<open>
  Opens the peers of a shard, splits \<open>logs\<close> through the dialog, then makes a table with a
  two-column key and splits it. A handle of an element that was not found has no \<open>click\<close>.
\<close>

text \<open>\<open>s.slice(0, n)\<close> counts UTF-16 units; half of a surrogate pair at the end is dropped.\<close>

fun take16 :: "nat \<Rightarrow> string \<Rightarrow> string" where
  "take16 n [] = []"
| "take16 n (c # s) =
     (if cont_byte (byte_of c) then c # take16 n s
      else let u = (if 0xF0 \<le> byte_of c then 2 else 1)
           in if n < u then [] else c # take16 (n - u) s)"

definition click_handle :: "(snapshot \<Rightarrow> dom option) \<Rightarrow> script \<Rightarrow> script" where
  "click_handle f k =
     inspect (\<lambda>s. map_option (\<lambda>d. nd_id (node_of d)) (f s)) (\<lambda>h.
       case h of None \<Rightarrow> Throw TypeError | Some i \<Rightarrow> await (ClickElement i) k)"

definition dialogs :: "snapshot \<Rightarrow> dom list" where
  "dialogs s = select_all (One (Cls ''g-dialog'')) (sn_body s)"

definition close_dialogs :: "snapshot \<Rightarrow> js_exn + unit \<times> act list" where
  "close_dialogs s =
     Inr ((), map (\<lambda>b. Click (nd_id (node_of b))) (select_all (Inside (Cls ''g-dialog'') (Tag ''button'')) (sn_body s)))"

definition key_dialog :: "snapshot \<Rightarrow> dom option" where
  "key_dialog s = List.find (\<lambda>d. str_includes (inner_text d) ''primary-key'') (dialogs s)"

text \<open>The row of the table grid with a button of that name.\<close>

definition row_of :: "string \<Rightarrow> snapshot \<Rightarrow> dom option" where
  "row_of nm s =
     List.find (\<lambda>tr. find_button nm tr \<noteq> None) (select_all (Inside (Tag ''tbody'') (Tag ''tr'')) (sn_body s))"

definition row_button :: "string \<Rightarrow> string \<Rightarrow> snapshot \<Rightarrow> dom option" where
  "row_button nm label s = Option.bind (row_of nm s) (find_button label)"

definition shards_text :: "string \<Rightarrow> snapshot \<Rightarrow> string" where
  "shards_text mark s =
     (let tbs = select_all (One (Tag ''table'')) (sn_body s)
      in case List.find (\<lambda>t. str_includes (inner_text t) mark) tbs of
           Some t \<Rightarrow> inner_text t
         | None \<Rightarrow> if tbs = [] then ''none'' else inner_text (last tbs))"

definition peers_ok :: "snapshot \<Rightarrow> bool" where
  "peers_ok s =
     list_ex (\<lambda>d. let t = take16 400 (inner_text d)
                 in str_includes t ''SHARD-PEERS'' \<and> str_includes t ''ID'' \<and> str_includes t ''Addr'') (dialogs s)"

subsection \<open>Peers\<close>

definition admin_peers :: "(bool \<Rightarrow> script) \<Rightarrow> script" where
  "admin_peers k =
     click_handle (\<lambda>s. find_button ''Peers'' (sn_body s))
       (await (Sleep 1500)
       (inspect peers_ok (\<lambda>ok.
        evaluate close_dialogs (\<lambda>_. await (Sleep 800) (k ok)))))"

subsection \<open>Splitting \<open>logs\<close>\<close>

definition type_key :: "snapshot \<Rightarrow> js_exn + bool \<times> act list" where
  "type_key s =
     (case Option.bind (key_dialog s) (select_one (One (Tag ''input''))) of
        None \<Rightarrow> Inr (False, [])
      | Some i \<Rightarrow> Inr (True, [SetInput (nd_id (node_of i)) ''2026-08-17T15:00:00+03:00'']))"

text \<open>The dialog's Split button: apply it when it is there, then close every dialog.\<close>

definition apply_split :: "bool \<Rightarrow> (bool \<Rightarrow> script) \<Rightarrow> script" where
  "apply_split ok k =
     inspect (\<lambda>s. map_option (\<lambda>d. nd_id (node_of d)) (Option.bind (key_dialog s) (find_button ''Split''))) (\<lambda>btn.
       case btn of
         None \<Rightarrow> k False
       | Some i \<Rightarrow>
           await (ClickElement i)
           (await (Sleep 2500)
           (evaluate close_dialogs (\<lambda>_. await (Sleep 1500) (k ok)))))"

definition admin_split :: "bool \<Rightarrow> (bool \<Rightarrow> script) \<Rightarrow> script" where
  "admin_split ok k =
     inspect (\<lambda>s. filter (\<lambda>b. trim (inner_text b) = ''Split'') (select_all (One (Tag ''button'')) (sn_body s))) (\<lambda>splits.
       if splits = [] then k ok
       else
         evaluate (click_found (row_button ''logs'' ''Split'')) (\<lambda>_.
         await (Sleep 800)
         (evaluate type_key (\<lambda>_.
         await (Sleep 400) (apply_split ok k)))))"

definition check_shards :: "string \<Rightarrow> string \<Rightarrow> bool \<Rightarrow> (bool \<Rightarrow> script) \<Rightarrow> script" where
  "check_shards first second ok k =
     inspect (shards_text first) (\<lambda>t. k (ok \<and> str_includes t first \<and> str_includes t second))"

subsection \<open>A key of two columns\<close>

definition kvp_ddl :: string where
  "kvp_ddl = ''CREATE TABLE kvp (k string, n int64, v string, PRIMARY KEY (k, n))''"

text \<open>Inputs of the dialog: how many there are, and whether each key column has one.\<close>

definition kvp_inputs :: "snapshot \<Rightarrow> (nat \<times> bool \<times> bool) option" where
  "kvp_inputs s =
     map_option (\<lambda>d. (length (select_all (One (Tag ''input'')) d),
         select_one (One (Attr ''data-qa'' ''split-input-k'')) d \<noteq> None,
         select_one (One (Attr ''data-qa'' ''split-input-n'')) d \<noteq> None)) (key_dialog s)"

definition qa_input :: "string \<Rightarrow> snapshot \<Rightarrow> dom option" where
  "qa_input qa s =
     (case select_all (One (Attr ''data-qa'' qa)) (sn_body s) of
        [] \<Rightarrow> None
      | d # _ \<Rightarrow>
          (case concat (map (\<lambda>e. select_all (One (Tag ''input'')) e) (select_all (One (Attr ''data-qa'' qa)) (sn_body s))) of
             i # _ \<Rightarrow> Some i
           | [] \<Rightarrow> Some d))"

definition type_kvp :: "snapshot \<Rightarrow> js_exn + bool \<times> act list" where
  "type_kvp s =
     (case (qa_input ''split-input-k'' s, qa_input ''split-input-n'' s) of
        (Some k, Some n) \<Rightarrow> Inr (True, [SetInput (nd_id (node_of k)) ''alpha'', SetInput (nd_id (node_of n)) ''42''])
      | _ \<Rightarrow> Inr (False, []))"

definition kvp_dialog :: "bool \<Rightarrow> (bool \<Rightarrow> script) \<Rightarrow> script" where
  "kvp_dialog ok k =
     inspect kvp_inputs (\<lambda>inputs.
       case inputs of
         None \<Rightarrow> k False
       | Some (n, hasK, hasN) \<Rightarrow>
           evaluate type_kvp (\<lambda>_. await (Sleep 400) (apply_split (ok \<and> n = 2 \<and> hasK \<and> hasN) k)))"

definition admin_kvp :: "bool \<Rightarrow> (bool \<Rightarrow> script) \<Rightarrow> script" where
  "admin_kvp ok k =
     fetch HOST (api_query kvp_ddl) (\<lambda>_.
     await Reload
     (await (WaitText ''kvp'' 30000)
     (await (Sleep 1200)
     (evaluate (click_found (row_button ''kvp'' ''Split'')) (\<lambda>_.
     await (Sleep 800)
     (kvp_dialog ok (\<lambda>ok2.
     evaluate (click_found (row_button ''kvp'' ''kvp'')) (\<lambda>_.
     Caught (WaitText ''Shards of kvp'' 30000)
     (await (Sleep 1200)
     (check_shards ''kvp-0'' ''kvp-0-1'' ok2 (\<lambda>ok3.
     fetch HOST (api_query ''DROP TABLE kvp'') (\<lambda>_. k ok3))))))))))))"

definition verify_admin :: script where
  "verify_admin =
     open_browser 1440 900
       (await (Goto (HOST @ ''/#/cluster''))
       (await (WaitFor (One (Tag ''button'')) 30000)
       (click_handle (\<lambda>s. find_button ''logs'' (sn_body s))
       (await (WaitText ''Shards of'' 30000)
       (await (Sleep 800)
       (admin_peers (\<lambda>ok1.
        admin_split ok1 (\<lambda>ok2.
        check_shards ''logs-0'' ''logs-0-1'' ok2 (\<lambda>ok3.
        admin_kvp ok3 (\<lambda>ok4.
        Heard (\<lambda>l. verdict (ok4 \<and> quiet l) ''RESULT: PROBLEMS'')))))))))))"

end
