(* ===== verification/QaFacts.thy ===== *)
theory QaFacts
  imports QaAdmin AppShell
begin

section \<open>What the browser scripts guarantee\<close>

text \<open>
  Statements about every run of a script, whatever the browser and the server answer, and about the
  agreement of the scripts' checks with the code they check.
\<close>

subsection \<open>\<open>verify-dash.mjs\<close> restores the dashboard it uses\<close>

definition script_puts :: "trace \<Rightarrow> http_request list" where
  "script_puts tr =
     concat (map (\<lambda>(q, r). case q of Fetch b req \<Rightarrow> if req_method req = PUT then [req] else [] | _ \<Rightarrow> []) tr)"

definition target_put :: "json \<Rightarrow> json \<Rightarrow> http_request" where
  "target_put target body = put (dash_url (prop_of target ''id'')) body"

definition original_of :: "json \<Rightarrow> json" where
  "original_of target = obj_of [(''name'', prop_of target ''name''), (''config'', prop_of target ''config'')]"

text \<open>The first dashboard of the answer to the first request.\<close>

definition listed_first :: "string \<Rightarrow> trace \<Rightarrow> json \<Rightarrow> bool" where
  "listed_first base tr target \<longleftrightarrow>
     (\<exists>h answer. tr ! 2 = (Fetch base api_dashboards, R_http h) \<and> http_body h = Some answer \<and>
        ok_bind (json_prop answer ''dashboards'') first_of = Inr (Some target))"

definition restores :: "string \<Rightarrow> nat \<Rightarrow> trace \<Rightarrow> bool" where
  "restores base n tr \<longleftrightarrow>
     (n = 1 \<and> length (script_puts tr) \<le> 1) \<or>
     (\<exists>target. listed_first base tr target \<and>
        script_puts tr = [target_put target canonical, target_put target (original_of target)])"

lemma script_puts_simps [simp]:
  "script_puts [] = []"
  "script_puts ((q, r) # tr) =
     (case q of Fetch b req \<Rightarrow> if req_method req = PUT then [req] else [] | _ \<Rightarrow> []) @ script_puts tr"
  "script_puts (t @ u) = script_puts t @ script_puts u"
  by (simp_all add: script_puts_def)

lemma api_methods [simp]:
  "req_method (post p b) = POST" "req_method (put p b) = PUT" "req_method api_dashboards = GET"
  "req_method (api_dashboardDelete i) = DELETE"
  by (simp_all add: post_def put_def api_dashboards_def get_req_def api_dashboardDelete_def)

text \<open>The parts of the script send no PUT of their own.\<close>

definition adds :: "trace \<Rightarrow> trace \<Rightarrow> bool" where
  "adds t t' \<longleftrightarrow> (\<exists>u. t' = t @ u \<and> script_puts u = [])"

lemma adds_refl [simp]: "adds t t"
  by (simp add: adds_def)

lemma adds_snoc [simp]: "adds t t' \<Longrightarrow> script_puts [(q, r)] = [] \<Longrightarrow> adds t (t' @ [(q, r)])"
  by (auto simp: adds_def)

lemma dash_parts_add:
  assumes "\<And>b t'. adds t t' \<Longrightarrow> always (on_exit P) (k b) t'"
  shows "always (on_exit P) (dash_drag k) t" "always (on_exit P) (dash_rename k) t"
    "always (on_exit P) (dash_add k) t" "always (on_exit P) (dash_crud base k) t"
  using assms
  by (auto simp: dash_drag_def dash_rename_def focus_input_def dash_add_def click_found_def dash_crud_def Let_def
      split: reply.split list.split option.split simp del: append_assoc)

definition dash_set_up :: "string \<Rightarrow> json \<Rightarrow> trace \<Rightarrow> bool" where
  "dash_set_up base target t \<longleftrightarrow>
     2 < length t \<and> listed_first base t target \<and> script_puts t = [target_put target canonical]"

lemma listed_first_append: "2 < length t \<Longrightarrow> listed_first base (t @ u) target = listed_first base t target"
  by (simp add: listed_first_def nth_append)

lemma dash_set_up_adds: "dash_set_up base target t \<Longrightarrow> adds t t' \<Longrightarrow> dash_set_up base target t'"
  by (auto simp: dash_set_up_def adds_def listed_first_append)

lemma dash_set_up_append [simp]:
  "dash_set_up base target t \<Longrightarrow> script_puts u = [] \<Longrightarrow> dash_set_up base target (t @ u)"
  by (rule dash_set_up_adds) (auto simp: adds_def)

lemma dash_parts:
  assumes "dash_set_up base target t"
    and "\<And>b t'. dash_set_up base target t' \<Longrightarrow> always (on_exit P) (k b) t'"
  shows "always (on_exit P) (dash_drag k) t" "always (on_exit P) (dash_rename k) t"
    "always (on_exit P) (dash_add k) t" "always (on_exit P) (dash_crud b k) t"
  using assms dash_set_up_adds by (blast intro: dash_parts_add)+

lemma dash_restored:
  "dash_set_up base target t \<Longrightarrow>
   restores base n (t @ [(Fetch base (target_put target (original_of target)), r), (CloseBrowser, r')])"
  by (auto simp: restores_def dash_set_up_def target_put_def listed_first_append)

lemma dash_checks_restore:
  assumes "dash_set_up base target t"
  shows "always (on_exit (restores base)) (dash_checks base (prop_of target ''id'') (original_of target)) t"
proof -
  let ?fin = "\<lambda>b. put_dash base (prop_of target ''id'') (original_of target) (\<lambda>_. Heard (\<lambda>l. verdict (b l) ''RESULT: PROBLEMS''))"
  have e: "always (on_exit (restores base)) (?fin b) t'" if "dash_set_up base target t'" for b t'
    using dash_restored [OF that] by (simp add: put_dash_def target_put_def [symmetric])
  show ?thesis
    unfolding dash_checks_def
    using assms
    by (simp, intro allI)
      (rule dash_parts(1) [of base target], simp,
       rule dash_parts(2) [of base target], assumption,
       rule dash_parts(3) [of base target], assumption, simp, intro allI,
       rule dash_parts(4) [of base target], simp, rule e)
qed

lemma js_truthy_some: "js_truthy v \<Longrightarrow> \<exists>j. v = Some j \<and> j \<noteq> JNull"
  by (cases v) (auto simp: js_truthy_def)

lemma json_prop_not_null [simp]: "j \<noteq> JNull \<Longrightarrow> json_prop j k = Inr (prop_of j k)"
  by (cases j) simp_all

lemma verify_dash_always: "always (on_exit (restores base)) (verify_dash base) []"
proof -
  have "always (on_exit (restores base)) (dash_checks base (prop_of target ''id'') (original_of target))
      ([(Launch 1440 900, r), (NewPage, r'), (Fetch base api_dashboards, R_http h)] @
       [(Fetch base (put (dash_url (prop_of target ''id'')) canonical), r'')])"
    if "http_body h = Some answer" "ok_bind (json_prop answer ''dashboards'') first_of = Inr (Some target)"
    for r r' r'' h answer target
    by (rule dash_checks_restore) (use that in \<open>auto simp: dash_set_up_def listed_first_def target_put_def\<close>)
  then show ?thesis
    by (auto simp: verify_dash_def open_browser_def put_dash_def prop_opt_def original_of_def
        restores_def [of base "Suc 0"] dest!: js_truthy_some)
qed

text \<open>C40: whatever the browser, the page and the server do, when the dashboard script reaches its own
  end, with exit code 0 or after more than one PUT, it has sent exactly two PUTs: the canonical
  configuration and then the name and configuration it found, both to the first dashboard listed.\<close>

theorem verify_dash_restores:
  assumes "fst (exec br (verify_dash base) w l) = Inr n"
    and "n = 0 \<or> 1 < length (script_puts (fst (snd (exec br (verify_dash base) w l))))"
  shows "\<exists>target. listed_first base (fst (snd (exec br (verify_dash base) w l))) target \<and>
    script_puts (fst (snd (exec br (verify_dash base) w l))) =
      [target_put target canonical, target_put target (original_of target)]"
  using always_run [OF verify_dash_always, of base br w l] assms by (auto simp: restores_def)

text \<open>A world in which the script passes: answers in the order of its operations, one document.\<close>

definition mock :: "snapshot \<Rightarrow> (reply \<times> page_event list) list browser" where
  "mock s = \<lparr>br_do = (\<lambda>w q. case w of [] \<Rightarrow> (R_ok, [], []) | (r, evs) # w' \<Rightarrow> (r, evs, w')), br_see = (\<lambda>_. s)\<rparr>"

definition no_box :: rect where
  "no_box = \<lparr>rc_left = Fin 0, rc_top = Fin 0, rc_right = Fin 0, rc_bottom = Fin 0, rc_width = Fin 0\<rparr>"

definition element :: "nat \<Rightarrow> string \<Rightarrow> string \<Rightarrow> string \<Rightarrow> dom list \<Rightarrow> dom" where
  "element i t txt v ks = Dom \<lparr>nd_id = i, nd_tag = t, nd_class = [], nd_attrs = [], nd_inner = txt, nd_text = txt,
     nd_value = v, nd_box = no_box\<rparr> ks"

definition dash_page_shown :: snapshot where
  "dash_page_shown =
     \<lparr>sn_body = element 0 ''body'' ''One Two'' []
        [element 1 ''input'' [] ''QA Dash renamed'' [], element 2 ''button'' ''Add widget'' [] [],
         element 3 ''button'' ''Add'' [] []],
      sn_hash = [], sn_scrollH = Fin 0, sn_clientH = Fin 0, sn_margin = []\<rparr>"

definition reply_ok :: "(string \<times> json) list \<Rightarrow> reply" where
  "reply_ok fs = R_http \<lparr>http_ok = True, http_status = 200, http_body = Some (JObj ((''ok'', JBool True) # fs))\<rparr>"

definition dash_named :: "string \<Rightarrow> json" where
  "dash_named i = JObj [(''id'', JStr i), (''name'', JStr ''ops''), (''config'', JObj [])]"

definition good_answers :: "(reply \<times> page_event list) list" where
  "good_answers =
     map (\<lambda>r. (r, [])) [R_ok, R_ok, reply_ok [(''dashboards'', JArr [dash_named ''d1''])], reply_ok []] @
     map (\<lambda>r. (r, [])) [R_ok, R_ok, R_ok, R_ok, R_ids [1], R_ids [2], R_point (Fin 0) (Fin 0), R_ok, R_ok, R_ok] @
     [(R_ok, [PageRequest ''PUT'']), (R_ok, [])] @
     map (\<lambda>r. (r, [])) [R_ok, R_ok, R_ok, R_ok, R_ok] @ [(R_ok, [PageRequest ''PUT'']), (R_ok, [])] @
     map (\<lambda>r. (r, [])) [R_ok, R_ok, R_ok] @ [(R_ok, [PageRequest ''PUT'']), (R_ok, [])] @
     map (\<lambda>r. (r, [])) [R_ok, reply_ok [(''id'', JStr ''t1'')],
       reply_ok [(''dashboards'', JArr [dash_named ''d1'', dash_named ''t1''])], reply_ok [],
       reply_ok [(''dashboards'', JArr [dash_named ''d1''])], reply_ok [], R_ok]"

lemma fst_say [simp]: "fst (case res of (x, tr, out) \<Rightarrow> (x, tr, m # out)) = fst res"
  by (simp split: prod.split)

lemmas run_script = await_def fetch_json_def fetch_def put_dash_def lift_def inspect_def evaluate_def verdict_def

lemma dash_run_passes: "fst (exec (mock dash_page_shown) (verify_dash []) good_answers no_events) = Inr 0"
  apply (simp add: verify_dash_def open_browser_def run_script prop_opt_def
      mock_def good_answers_def reply_ok_def dash_named_def first_of_def js_truthy_def)
  apply (simp add: dash_checks_def run_script dash_drag_def dash_rename_def dash_add_def
      dash_page_shown_def element_def focus_input_def renamed_value_def click_found_def find_button_def starts_with_def)
  apply (simp add: dash_crud_def run_script js_truthy_def Let_def lists_id_def grid_items_def
      overlap_def quiet_def realErrors_def nonFav404_def no_events_def canonical_def empty_dashboard_def CANON_def)
  done

theorem verify_dash_restores_witness:
  "\<exists>target. script_puts (fst (snd (exec (mock dash_page_shown) (verify_dash []) good_answers no_events))) =
     [target_put target canonical, target_put target (original_of target)]"
  using verify_dash_restores [OF dash_run_passes] by blast

text \<open>The comment of the script promises to restore the original afterwards; an exception in between
  ends it without: here the grid does not appear in time.\<close>

definition stuck_page :: "unit browser" where
  "stuck_page =
     \<lparr>br_do = (\<lambda>w q. (case q of
          Fetch b r \<Rightarrow> reply_ok [(''dashboards'', JArr [dash_named ''d1''])]
        | WaitFor s n \<Rightarrow> R_throw (ErrorMsg ''Waiting failed'')
        | _ \<Rightarrow> R_ok, [], w)),
      br_see = (\<lambda>_. dash_page_shown)\<rparr>"

lemma verify_dash_left_canonical:
  "let res = exec stuck_page (verify_dash []) () no_events
   in exit_code res = 1 \<and> script_puts (fst (snd res)) = [target_put (dash_named ''d1'') canonical]"
  by (simp add: Let_def verify_dash_def open_browser_def run_script stuck_page_def reply_ok_def dash_named_def
      first_of_def prop_opt_def js_truthy_def dash_checks_def exit_code_def target_put_def)

text \<open>Its comment also promises that grid items stay inside the container; the right edge is only
  printed, so an item beyond it does not fail the script.\<close>

lemma dash_ignores_overflow: "\<not> overlap [r]" "js_lt (js_add cr (Fin 1)) (rc_right r) \<Longrightarrow> \<not> grid_ok cr [r]"
  by (simp_all add: overlap_def grid_ok_def inside_def)

subsection \<open>The geometry checks\<close>

text \<open>A rectangle on whole pixels, more than one pixel wide and high.\<close>

definition at_px :: "rect \<Rightarrow> int \<times> int \<times> int \<times> int \<Rightarrow> bool" where
  "at_px r p \<longleftrightarrow> (case p of (x, y, x', y') \<Rightarrow>
     rc_left r = Fin (of_int x) \<and> rc_top r = Fin (of_int y) \<and> rc_right r = Fin (of_int x') \<and> rc_bottom r = Fin (of_int y') \<and>
     \<bar>x\<bar> < 2 ^ 52 \<and> \<bar>y\<bar> < 2 ^ 52 \<and> x + 1 < x' \<and> y + 1 < y')"

definition common_area :: "int \<times> int \<times> int \<times> int \<Rightarrow> int \<times> int \<times> int \<times> int \<Rightarrow> bool" where
  "common_area p q = (case (p, q) of ((x, y, x', y'), (u, v, u', v')) \<Rightarrow>
     1 < min x' u' - max x u \<and> 1 < min y' v' - max y v)"

lemma le_next_px: "\<bar>b\<bar> < 2 ^ 52 \<Longrightarrow> js_le (Fin (of_int a)) (js_add (Fin (of_int b)) (Fin 1)) = (a \<le> b + 1)"
proof -
  assume "\<bar>b\<bar> < 2 ^ 52"
  then have "fl (of_int (b + 1)) = Fin (of_int (b + 1))" by (intro fl_int) simp
  then have "js_add (Fin (of_int b)) (Fin 1) = Fin (of_int (b + 1))" by simp
  moreover have "(rat_of_int a \<le> of_int (b + 1)) = (a \<le> b + 1)" by (simp only: of_int_le_iff)
  ultimately show ?thesis by simp
qed

lemma overlap_all_pairs:
  "overlap items = (\<exists>i j. i < j \<and> j < length items \<and> \<not> apart (items ! i) (items ! j))"
proof
  assume "overlap items"
  then show "\<exists>i j. i < j \<and> j < length items \<and> \<not> apart (items ! i) (items ! j)"
    unfolding overlap_def list_ex_iff by (auto simp: Suc_le_eq) blast
next
  assume "\<exists>i j. i < j \<and> j < length items \<and> \<not> apart (items ! i) (items ! j)"
  then obtain i j where ij: "i < j" "j < length items" "\<not> apart (items ! i) (items ! j)" by blast
  then have "i \<in> set [0..<length items]" "j \<in> set [Suc i..<length items]" by auto
  with ij(3) show "overlap items" unfolding overlap_def list_ex_iff by blast
qed

lemma apart_px: "at_px r p \<Longrightarrow> at_px s q \<Longrightarrow> apart r s = (\<not> common_area p q)"
  by (cases p; cases q) (auto simp: at_px_def apart_def common_area_def le_next_px simp del: js_add.simps)

text \<open>The overlap check of the grid is exact: for items on whole pixels it reports an overlap exactly
  when two different items share an area more than one pixel wide and more than one pixel high.\<close>

lemma overlap_exact:
  assumes "list_all2 at_px items ps"
  shows "overlap items = (\<exists>i j. i < j \<and> j < length ps \<and> common_area (ps ! i) (ps ! j))"
proof -
  have len: "length items = length ps" using assms by (rule list_all2_lengthD)
  have *: "apart (items ! i) (items ! j) = (\<not> common_area (ps ! i) (ps ! j))" if "i < j" "j < length ps" for i j
    using assms that by (intro apart_px) (auto simp: list_all2_conv_all_nth)
  have "overlap items = (\<exists>i j. i < j \<and> j < length ps \<and> \<not> apart (items ! i) (items ! j))"
    unfolding overlap_all_pairs len ..
  then show ?thesis using * by auto
qed

definition box :: "int \<Rightarrow> int \<Rightarrow> int \<Rightarrow> int \<Rightarrow> rect" where
  "box x y x' y' = \<lparr>rc_left = Fin (of_int x), rc_top = Fin (of_int y), rc_right = Fin (of_int x'),
     rc_bottom = Fin (of_int y'), rc_width = Fin (of_int (x' - x))\<rparr>"

lemma overlap_exact_witness:
  "overlap [box 0 0 100 50, box 99 0 200 50, box 150 20 250 70] = True"
proof -
  have "list_all2 at_px [box 0 0 100 50, box 99 0 200 50, box 150 20 250 70]
      [(0, 0, 100, 50), (99, 0, 200, 50), (150, 20, 250, 70)]"
    by (simp add: at_px_def box_def)
  from overlap_exact [OF this] have "overlap [box 0 0 100 50, box 99 0 200 50, box 150 20 250 70] =
      (\<exists>i j. i < j \<and> j < length [(0, 0, 100, 50), (99, 0, 200, 50), (150 :: int, 20 :: int, 250 :: int, 70 :: int)] \<and> common_area ([(0, 0, 100, 50), (99, 0, 200, 50), (150, 20, 250, 70)] ! i)
        ([(0, 0, 100, 50), (99, 0, 200, 50), (150, 20, 250, 70)] ! j))" .
  also have "\<dots>"
    by (rule exI [of _ 1], rule exI [of _ 2]) (simp add: common_area_def)
  finally show ?thesis by simp
qed

subsection \<open>The export check\<close>

lemma split_on_length: "length (split_on c s) = Suc (length (filter (\<lambda>x. x = c) s))"
  by (induction s) (auto split: list.split)

lemma join_on_seps: "ws \<noteq> [] \<Longrightarrow> length ws \<le> Suc (length (filter (\<lambda>x. x = c) (join_on [c] ws)))"
  by (induction "[c]" ws rule: join_on.induct) auto

lemma bom_one_line: "filter (\<lambda>x. x = CHR 0x0A) bom = []"
  by (simp add: bom_def)

text \<open>The export script accepts every file that the console exports for a result with columns and at
  least two rows, whatever the cells hold.\<close>

lemma export_file_accepted:
  assumes "qr_columns r = Some (c # cs)" and "qr_rows r = Some rows" and "2 \<le> length rows"
  shows "\<exists>text. exportCSV r name = Inr [Download name text, RevokeUrlAfter 1000] \<and> csv_accepted text"
proof -
  let ?lines = "csv_line (c # cs) # map csv_line rows"
  have "3 \<le> length ?lines" using assms(3) by simp
  also have "\<dots> \<le> Suc (length (filter (\<lambda>x. x = CHR 0x0A) (join_on [CHR 0x0A] ?lines)))"
    by (rule join_on_seps) simp
  finally have "3 \<le> length (split_on (CHR 0x0A) (bom @ join_on [CHR 0x0A] ?lines))"
    by (simp only: split_on_length filter_append bom_one_line append_Nil)
  then have "csv_accepted (bom @ join_on [CHR 0x0A] ?lines)"
    by (simp add: csv_accepted_def starts_with_def)
  then show ?thesis using assms(1,2) by (simp add: exportCSV_def export_lines_def)
qed

lemma export_file_accepted_witness:
  "\<exists>text. exportCSV export_sample ''q.csv'' = Inr [Download ''q.csv'' text, RevokeUrlAfter 1000] \<and> csv_accepted text"
  by (rule export_file_accepted, simp add: export_sample_def, simp add: export_sample_def, simp)

subsection \<open>Time\<close>

definition slept :: "trace \<Rightarrow> nat" where
  "slept tr = sum_list (map (\<lambda>(q, r). case q of Sleep n \<Rightarrow> n | _ \<Rightarrow> 0) tr)"

lemma slept_simps [simp]:
  "slept [] = 0" "slept ((q, r) # tr) = (case q of Sleep n \<Rightarrow> n | _ \<Rightarrow> 0) + slept tr" "slept (t @ u) = slept t + slept u"
  by (simp_all add: slept_def)

lemma remove_all_time:
  assumes "\<And>t'. slept t' = slept t \<Longrightarrow> always Q s t'" and "\<And>e t'. Q (Inl e) t'"
  shows "always Q (remove_all dir fs s) t"
  using assms(1)
proof (induction fs arbitrary: t)
  case (Cons f fs)
  show ?case using assms(2) by (auto intro!: Cons.IH Cons.prems)
qed simp

lemma poll_time:
  assumes "\<And>f t'. slept t' \<le> slept t + 500 * n \<Longrightarrow> always (on_exit P) (k f) t'"
  shows "always (on_exit P) (poll_download n dir before k) t"
  using assms
proof (induction n arbitrary: t)
  case (Suc n)
  show ?case
    by (auto simp: list_dir_def split: reply.split list.split intro!: Suc.IH Suc.prems)
qed simp

lemma download_time:
  assumes "\<And>f t'. slept t' \<le> slept t + 10000 \<Longrightarrow> always (on_exit P) (k f) t'"
  shows "always (on_exit P) (download_csv dir k) t"
  unfolding download_csv_def
  by (auto simp: list_dir_def click_needed_def split: reply.split option.split intro!: poll_time assms)

lemma verify_export_time: "always (on_exit (\<lambda>n tr. slept tr \<le> 12000)) (verify_export dir) []"
  by (auto simp: verify_export_def export_verdict_def list_dir_def click_needed_def split: reply.split option.split
      intro!: remove_all_time download_time)

text \<open>The export script gives up: a run that ends regularly has waited for at most twelve seconds, two
  for the query and half a second for each of at most twenty looks at the download directory.\<close>

lemma verify_export_waits:
  "case fst (exec br (verify_export dir) w l) of
     Inl e \<Rightarrow> True | Inr n \<Rightarrow> slept (fst (snd (exec br (verify_export dir) w l))) \<le> 12000"
  using always_run [OF verify_export_time [of dir], of br w l] by (simp add: on_exit_def)

subsection \<open>Every page of the shell is visited\<close>

definition visited :: "trace \<Rightarrow> string list" where
  "visited tr = concat (map (\<lambda>(q, r). case q of Goto u \<Rightarrow> [u] | _ \<Rightarrow> []) tr)"

lemma visited_simps [simp]:
  "visited [] = []" "visited ((q, r) # tr) = (case q of Goto u \<Rightarrow> [u] | _ \<Rightarrow> []) @ visited tr"
  "visited (t @ u) = visited t @ visited u"
  by (simp_all add: visited_def)

lemma check_pages_visits:
  assumes "\<And>b t'. visited t' = visited t @ map (\<lambda>p. HOST @ ''/#/'' @ p) ps \<Longrightarrow> always (on_exit P) (k b) t'"
  shows "always (on_exit P) (check_pages ps ok k) t"
  using assms
proof (induction ps arbitrary: ok t)
  case (Cons p ps)
  show ?case by (auto split: prod.split intro!: Cons.IH Cons.prems)
qed simp

text \<open>A run of the page script that reaches its verdict has opened every page of the shell once, in the
  order of the menu, by a URL whose hash selects that page.\<close>

lemma verify_pages_visits_all:
  "(case fst (exec br verify_pages w l) of
      Inl e \<Rightarrow> True
    | Inr n \<Rightarrow> visited (fst (snd (exec br verify_pages w l))) =
        map (\<lambda>p. HOST @ ''/'' @ hash_of (''/'' @ page_name p)) PAGE_IDS) \<and>
   list_all (\<lambda>p. pageFromHash (hash_of (''/'' @ page_name p)) = p) PAGE_IDS"
proof -
  have "always (on_exit (\<lambda>n tr. visited tr = map (\<lambda>p. HOST @ ''/#/'' @ p) page_names)) verify_pages []"
    unfolding verify_pages_def by (auto intro!: check_pages_visits)
  from always_run [OF this, of br w l]
  moreover have "map (\<lambda>p. HOST @ ''/#/'' @ p) page_names = map (\<lambda>p. HOST @ ''/'' @ hash_of (''/'' @ page_name p)) PAGE_IDS"
    by (simp add: PAGE_IDS_def page_names_def hash_of_def)
  ultimately have "case fst (exec br verify_pages w l) of
      Inl e \<Rightarrow> True
    | Inr n \<Rightarrow> visited (fst (snd (exec br verify_pages w l))) =
        map (\<lambda>p. HOST @ ''/'' @ hash_of (''/'' @ page_name p)) PAGE_IDS"
    by (simp only: on_exit_def)
  moreover have "list_all (\<lambda>p. pageFromHash (hash_of (''/'' @ page_name p)) = p) PAGE_IDS"
    by code_simp
  ultimately show ?thesis by blast
qed

subsection \<open>Cleaning up\<close>

definition requests :: "trace \<Rightarrow> http_request list" where
  "requests tr = concat (map (\<lambda>(q, r). case q of Fetch b req \<Rightarrow> [req] | _ \<Rightarrow> []) tr)"

lemma requests_simps [simp]:
  "requests [] = []" "requests ((q, r) # tr) = (case q of Fetch b req \<Rightarrow> [req] | _ \<Rightarrow> []) @ requests tr"
  "requests (t @ u) = requests t @ requests u"
  by (simp_all add: requests_def)

text \<open>\<open>keeps t t'\<close>: from \<open>t\<close> to \<open>t'\<close> the script has sent no request.\<close>

definition keeps :: "trace \<Rightarrow> trace \<Rightarrow> bool" where
  "keeps t t' \<longleftrightarrow> (\<exists>u. t' = t @ u \<and> requests u = [])"

lemma keeps_refl [simp]: "keeps t t"
  by (simp add: keeps_def)

lemma keeps_snoc [simp]: "keeps t t' \<Longrightarrow> requests [(q, r)] = [] \<Longrightarrow> keeps t (t' @ [(q, r)])"
  by (auto simp: keeps_def)

lemma keeps_after: "keeps (t @ [(q, r)]) t' \<Longrightarrow> requests [(q, r)] = [] \<Longrightarrow> keeps t t'"
  by (auto simp: keeps_def)

lemma keeps_requests: "keeps t t' \<Longrightarrow> requests t' = requests t"
  by (auto simp: keeps_def)

lemma quiet_steps:
  assumes "\<And>b t'. keeps t t' \<Longrightarrow> always (on_exit P) (k b) t'"
  shows "always (on_exit P) (check_hash h ok k) t" "always (on_exit P) (check_shows x ok k) t"
    "always (on_exit P) (check_click f ok k) t" "always (on_exit P) (check_shards m1 m2 ok k) t"
    "always (on_exit P) (admin_peers k) t" "always (on_exit P) (apply_split ok k) t"
  using assms
  by (auto simp: check_hash_def check_shows_def check_click_def check_shards_def admin_peers_def click_handle_def
      apply_split_def close_dialogs_def click_found_def split: option.split simp del: append_assoc)

lemma quiet_steps2:
  assumes "\<And>b t'. keeps t t' \<Longrightarrow> always (on_exit P) (k b) t'"
  shows "always (on_exit P) (admin_split ok k) t" "always (on_exit P) (kvp_dialog ok k) t"
  using assms
  by (auto simp: admin_split_def kvp_dialog_def click_found_def type_key_def type_kvp_def
      split: option.split prod.split simp del: append_assoc intro!: quiet_steps dest!: keeps_after)

definition create_qa :: http_request where
  "create_qa = post ''/api/v1/dashboards'' (empty_dashboard HASH_QA [])"

text \<open>The id the server gave to the dashboard the script made.\<close>

definition created_id :: "trace \<Rightarrow> json option \<Rightarrow> bool" where
  "created_id tr i \<longleftrightarrow>
     (\<exists>h v. (Fetch HOST create_qa, R_http h) \<in> set tr \<and> http_body h = Some v \<and> json_prop v ''id'' = Inr i)"

definition made :: "json option \<Rightarrow> trace \<Rightarrow> bool" where
  "made i t \<longleftrightarrow> requests t = [api_dashboards, create_qa] \<and> created_id t i"

lemma made_keeps: "made i t \<Longrightarrow> keeps t t' \<Longrightarrow> made i t'"
  by (auto simp: made_def keeps_def created_id_def)

lemma made_snoc [simp]: "made i t \<Longrightarrow> requests u = [] \<Longrightarrow> made i (t @ u)"
  by (rule made_keeps) (auto simp: keeps_def)

lemma made_steps:
  assumes "made i t" and "\<And>b t'. made i t' \<Longrightarrow> always (on_exit P) (k b) t'"
  shows "always (on_exit P) (check_hash h ok k) t" "always (on_exit P) (check_shows x ok k) t"
    "always (on_exit P) (check_click f ok k) t"
  using assms by (blast intro: quiet_steps made_keeps)+

definition deletes_made :: "nat \<Rightarrow> trace \<Rightarrow> bool" where
  "deletes_made n tr \<longleftrightarrow>
     (\<exists>i. requests tr = [api_dashboards, create_qa, api_dashboardDelete (template i)] \<and> created_id tr i)"

lemma made_deleted:
  "made i t \<Longrightarrow> deletes_made n (t @ [(Fetch HOST (api_dashboardDelete (template i)), r), (CloseBrowser, r')])"
  by (auto simp: deletes_made_def made_def created_id_def)

lemma dashhash_ends:
  assumes "made i t"
  shows "always (on_exit deletes_made) (dashhash_checks dashA nameA i ok) t"
  using assms
  by (auto simp: dashhash_checks_def set_hash_def made_deleted intro!: made_steps [where i = i])

lemma made_by_answer:
  "requests t = [api_dashboards] \<Longrightarrow> http_body h = Some v \<Longrightarrow> json_prop v ''id'' = Inr i \<Longrightarrow>
   made i (t @ [(Fetch HOST create_qa, R_http h)])"
  by (auto simp: made_def created_id_def)

lemma dashhash_always: "always (on_exit deletes_made) verify_dashhash []"
  unfolding verify_dashhash_def open_browser_def create_qa_def [symmetric]
  by (auto dest!: keeps_requests intro!: quiet_steps dashhash_ends made_by_answer)

lemma admin_always:
  "always (on_exit (\<lambda>n tr. requests tr = [api_query kvp_ddl, api_query ''DROP TABLE kvp''])) verify_admin []"
  unfolding verify_admin_def open_browser_def click_handle_def admin_kvp_def
  by (auto simp: click_found_def split: option.split reply.split dest!: keeps_requests intro!: quiet_steps quiet_steps2)

text \<open>The scripts clean up: a run of the deep-link script that ends regularly has sent three requests,
  the last of which deletes the dashboard it made, by the id the server gave it; one of the admin
  script has sent two, the second drops the table that the first made.\<close>

lemma scripts_clean_up:
  "(case fst (exec br verify_dashhash w l) of
      Inl e \<Rightarrow> True
    | Inr n \<Rightarrow> (\<exists>i. requests (fst (snd (exec br verify_dashhash w l))) =
          [api_dashboards, create_qa, api_dashboardDelete (template i)] \<and>
          created_id (fst (snd (exec br verify_dashhash w l))) i)) \<and>
   (case fst (exec br verify_admin w l) of
      Inl e \<Rightarrow> True
    | Inr n \<Rightarrow> requests (fst (snd (exec br verify_admin w l))) =
          [api_query kvp_ddl, api_query ''DROP TABLE kvp''])"
  using always_run [OF dashhash_always, of br w l] always_run [OF admin_always, of br w l]
  by (simp only: on_exit_def deletes_made_def)

subsection \<open>The hash the scripts expect\<close>

lemma encode_unreserved: "list_all unreserved s \<Longrightarrow> encodeURIComponent s = s"
  by (induction s) (simp_all add: encodeURIComponent_def)

lemma nat_str_unreserved: "list_all unreserved (nat_str n)"
proof (induction n rule: nat_str.induct)
  case (1 n)
  have d: "unreserved (char_of (48 + k))" if "k < 10" for k :: nat
    using that by (simp add: unreserved_def unreserved_codes_def) presburger
  show ?case using 1 by (subst nat_str.simps) (simp add: d)
qed

text \<open>For every id the server makes, a \<open>d\<close> and a number, the hash the console writes is the hash the
  deep-link script compares with, and the console reads the id back from it.\<close>

lemma expected_hash_written:
  "dash_hash (Some (JStr (''d'' @ nat_str n))) = setDashHash (Some (''d'' @ nat_str n)) \<and>
   parseDashId (dash_hash (Some (JStr (''d'' @ nat_str n)))) = Inr (Some (''d'' @ nat_str n))"
proof -
  have u: "list_all unreserved (''d'' @ nat_str n)"
    using nat_str_unreserved [of n] by (simp add: unreserved_def unreserved_codes_def)
  then have "dash_hash (Some (JStr (''d'' @ nat_str n))) = setDashHash (Some (''d'' @ nat_str n))"
    by (simp add: dash_hash_def template_def setDashHash_def hash_of_def encode_unreserved)
  moreover have "utf8_ok (''d'' @ nat_str n)"
    by (rule utf8_ok_ascii) (use u in \<open>auto simp: unreserved_def unreserved_codes_def list_all_iff\<close>)
  ultimately show ?thesis by (simp add: parse_set_hash)
qed

subsection \<open>What the scripts do not check\<close>

text \<open>\<open>chartGrew\<close> compares nothing with the earlier snapshot: any two snapshots with the card pass as
  soon as the later one has a path, even when nothing was drawn since.\<close>

lemma chart_grew_unchanged: "chartGrew s s qa = (case List.find (\<lambda>c. cc_qa c = qa) s of Some c \<Rightarrow> 0 < cc_paths c | None \<Rightarrow> False)"
  by (simp add: chartGrew_def split: option.split)

end
