(* ===== verification/SqlLexer.thy ===== *)
theory SqlLexer
  imports JsConvert "HOL-Library.Word"
begin

section \<open>The lexer of the SQL dialect (\<open>sql/lexer.go\<close>)\<close>

text \<open>
  The tokens of a statement, as the server reads them. The lexer's state is its position in the
  source; here it is the source from that position on, and a position is the length of the whole
  source less the length of the rest. Bytes are classified as Latin-1 letters, as the code does
  with \<open>unicode.IsLetter(rune(c))\<close> on single bytes. An integer literal is \<open>strconv.ParseInt\<close> of
  digits into 64 bits, a float literal \<open>strconv.ParseFloat\<close>, correctly rounded and failing on
  overflow.
\<close>

subsection \<open>Tokens\<close>

datatype tok_kind =
    TokEOF | TokIdent | TokString | TokNumber | TokOp | TokLParen | TokRParen | TokComma | TokStar
  | TokSemicolon | TokDot

record token =
  tk_kind :: tok_kind
  tk_text :: string
  tk_pos :: nat
  tk_isFloat :: bool
  tk_intVal :: "64 word"
  tk_fltVal :: jsnum

datatype lex_error = Syntax_near char nat | Unterminated nat | Bad_number string | Bad_integer string

definition plain_token :: "tok_kind \<Rightarrow> string \<Rightarrow> nat \<Rightarrow> token" where
  "plain_token k text p =
     \<lparr>tk_kind = k, tk_text = text, tk_pos = p, tk_isFloat = False, tk_intVal = 0, tk_fltVal = Fin 0\<rparr>"

definition go_digit :: "char \<Rightarrow> bool" where
  "go_digit c \<longleftrightarrow> 48 \<le> byte_of c \<and> byte_of c \<le> 57"

definition latin1_letter :: "char \<Rightarrow> bool" where
  "latin1_letter c =
     (let b = byte_of c
      in 65 \<le> b \<and> b \<le> 90 \<or> 97 \<le> b \<and> b \<le> 122 \<or> b = 170 \<or> b = 181 \<or> b = 186 \<or>
         192 \<le> b \<and> b \<noteq> 215 \<and> b \<noteq> 247)"

definition ident_start :: "char \<Rightarrow> bool" where
  "ident_start c \<longleftrightarrow> c = CHR ''_'' \<or> latin1_letter c"

definition ident_char :: "char \<Rightarrow> bool" where
  "ident_char c \<longleftrightarrow> ident_start c \<or> go_digit c"

definition sql_blank :: "char \<Rightarrow> bool" where
  "sql_blank c \<longleftrightarrow> c = CHR '' '' \<or> c = CHR 0x09 \<or> c = CHR 0x0A \<or> c = CHR 0x0D"

subsection \<open>Identifiers, strings, numbers\<close>

text \<open>Each gives the text of its token and the rest of the source.\<close>

fun lexIdent :: "string \<Rightarrow> string \<times> string" where
  "lexIdent [] = ([], [])"
| "lexIdent (c # s) =
     (if ident_start c then (c # takeWhile ident_char s, dropWhile ident_char s) else ([], c # s))"

text \<open>After the opening quote; \<open>None\<close> is an unterminated literal.\<close>

fun string_body :: "char \<Rightarrow> string \<Rightarrow> (string \<times> string) option" where
  "string_body q [] = None"
| "string_body q [c] = (if c = q then Some ([], []) else None)"
| "string_body q (c # d # s) =
     (if c = q then
        (if d = q then map_option (\<lambda>(t, r). (q # t, r)) (string_body q s) else Some ([], d # s))
      else map_option (\<lambda>(t, r). (c # t, r)) (string_body q (d # s)))"

text \<open>The characters of a number: its length, and whether a point or an exponent was seen.\<close>

fun number_span :: "string \<Rightarrow> nat \<times> bool" where
  "number_span [] = (0, False)"
| "number_span (c # s) =
     (if go_digit c then (case number_span s of (n, f) \<Rightarrow> (Suc n, f))
      else if c = CHR ''.'' then (case number_span s of (n, f) \<Rightarrow> (Suc n, True))
      else if c = CHR ''e'' \<or> c = CHR ''E'' then
        (case s of
           d # s' \<Rightarrow>
             if d = CHR ''+'' \<or> d = CHR ''-'' then (case number_span s' of (n, f) \<Rightarrow> (Suc (Suc n), True))
             else (case number_span s of (n, f) \<Rightarrow> (Suc n, True))
         | [] \<Rightarrow> (1, True))
      else (0, False))"

definition parse_int64 :: "string \<Rightarrow> 64 word option" where
  "parse_int64 ds =
     (let n = digits_value 10 ds
      in if ds \<noteq> [] \<and> list_all (is_digit_in 10) ds \<and> n < 2 ^ 63 then Some (of_nat n) else None)"

definition parse_float64 :: "string \<Rightarrow> jsnum option" where
  "parse_float64 s =
     (case unsigned_decimal s of None \<Rightarrow> None | Some q \<Rightarrow> (if fl q = JInf then None else Some (fl q)))"

definition lexNumber :: "nat \<Rightarrow> string \<Rightarrow> lex_error + token \<times> string" where
  "lexNumber p s =
     (let (n, isFloat) = number_span s; text = take n s; rest = drop n s; t = plain_token TokNumber text p
      in if isFloat
         then (case parse_float64 text of
                 None \<Rightarrow> Inl (Bad_number text)
               | Some x \<Rightarrow> Inr (t\<lparr>tk_isFloat := True, tk_fltVal := x\<rparr>, rest))
         else (case parse_int64 text of
                 None \<Rightarrow> Inl (Bad_integer text)
               | Some i \<Rightarrow> Inr (t\<lparr>tk_intVal := i\<rparr>, rest)))"

subsection \<open>The next token\<close>

definition two_char_ops :: "string list" where
  "two_char_ops = [''=='', ''>='', ''<='', ''<>'', ''!='']"

definition lex_token :: "nat \<Rightarrow> char \<Rightarrow> string \<Rightarrow> lex_error + token \<times> string" where
  "lex_token p c s =
     (if c = CHR '','' then Inr (plain_token TokComma [c] p, s)
      else if c = CHR ''('' then Inr (plain_token TokLParen [c] p, s)
      else if c = CHR '')'' then Inr (plain_token TokRParen [c] p, s)
      else if c = CHR ''*'' then Inr (plain_token TokStar [c] p, s)
      else if c = CHR '';'' then Inr (plain_token TokSemicolon [c] p, s)
      else if c = CHR ''.'' then
        (if s \<noteq> [] \<and> go_digit (hd s) then lexNumber p (c # s) else Inr (plain_token TokDot [c] p, s))
      else if c = CHR 0x27 \<or> c = CHR 0x22 then
        (case string_body c s of
           None \<Rightarrow> Inl (Unterminated p)
         | Some (t, r) \<Rightarrow> Inr (plain_token TokString t p, r))
      else if go_digit c then lexNumber p (c # s)
      else if ident_start c then
        (case lexIdent (c # s) of (t, r) \<Rightarrow> Inr (plain_token TokIdent t p, r))
      else if take 2 (c # s) \<in> set two_char_ops then Inr (plain_token TokOp (take 2 (c # s)) p, drop 1 s)
      else if c \<in> set ''+-*/=<>'' then Inr (plain_token TokOp [c] p, s)
      else Inl (Syntax_near c p))"

definition lex_next :: "nat \<Rightarrow> string \<Rightarrow> lex_error + token \<times> string" where
  "lex_next n src =
     (case dropWhile sql_blank src of
        [] \<Rightarrow> Inr (plain_token TokEOF [] n, [])
      | c # s \<Rightarrow> lex_token (n - length (c # s)) c s)"

text \<open>Every token but the last takes something from the source, so \<open>tokenize\<close> ends.\<close>

lemma string_body_shorter: "string_body q s = Some (t, r) \<Longrightarrow> length r < length s"
  by (induction q s arbitrary: t rule: string_body.induct) (auto split: if_splits)

lemma number_span_digit: "go_digit c \<Longrightarrow> fst (number_span (c # s)) \<noteq> 0"
  by (simp split: prod.split)

lemma number_span_dot: "fst (number_span (CHR ''.'' # s)) \<noteq> 0"
  by (simp split: prod.split add: go_digit_def)

lemma lexNumber_shorter:
  "fst (number_span s) \<noteq> 0 \<Longrightarrow> s \<noteq> [] \<Longrightarrow> lexNumber p s = Inr (t, r) \<Longrightarrow> length r < length s"
  by (auto simp: lexNumber_def Let_def split: prod.splits if_splits option.splits)

definition shorter :: "string \<Rightarrow> lex_error + token \<times> string \<Rightarrow> bool" where
  "shorter src res = (case res of Inl e \<Rightarrow> True | Inr (t, r) \<Rightarrow> length r < length src)"

lemma shorter_if: "(b \<Longrightarrow> shorter src x) \<Longrightarrow> (\<not> b \<Longrightarrow> shorter src y) \<Longrightarrow> shorter src (if b then x else y)"
  by simp

lemma shorter_Inr: "length r < length src \<Longrightarrow> shorter src (Inr (t, r))"
  by (simp add: shorter_def)

lemma shorter_number: "go_digit c \<or> c = CHR ''.'' \<Longrightarrow> shorter (c # s) (lexNumber p (c # s))"
  using lexNumber_shorter [of "c # s" p] number_span_digit [of c s] number_span_dot [of s]
  by (auto simp: shorter_def split: sum.split)

lemma shorter_string:
  "shorter (c # s) (case string_body c s of None \<Rightarrow> Inl e | Some (t, r) \<Rightarrow> Inr (f t, r))"
  by (auto simp: shorter_def split: option.split dest: string_body_shorter)

lemma shorter_ident:
  "ident_start c \<Longrightarrow> shorter (c # s) (case lexIdent (c # s) of (t, r) \<Rightarrow> Inr (f t, r))"
  using length_dropWhile_le [of ident_char s] by (simp add: shorter_def)

lemma lex_token_shorter: "shorter (c # s) (lex_token p c s)"
  unfolding lex_token_def
  by (intro shorter_if shorter_Inr) (simp_all only: shorter_number shorter_string shorter_ident simp_thms, simp_all add: shorter_def)

lemma lex_next_shorter:
  assumes "lex_next n src = Inr (t, r)" and "tk_kind t \<noteq> TokEOF"
  shows "length r < length src"
proof (cases "dropWhile sql_blank src")
  case Nil
  then have "t = plain_token TokEOF [] n" using assms(1) by (simp add: lex_next_def del: dropWhile_eq_Nil_conv)
  then show ?thesis using assms(2) by (simp add: plain_token_def)
next
  case (Cons c s)
  then have "length r < length (c # s)"
    using assms(1) lex_token_shorter [of c s "n - length (c # s)"] by (simp add: lex_next_def shorter_def)
  then show ?thesis using length_dropWhile_le [of sql_blank src] Cons by simp
qed

function tokens_from :: "nat \<Rightarrow> string \<Rightarrow> lex_error + token list" where
  "tokens_from n src =
     (case lex_next n src of
        Inl e \<Rightarrow> Inl e
      | Inr (t, rest) \<Rightarrow>
          if tk_kind t = TokEOF then Inr [t]
          else (case tokens_from n rest of Inl e \<Rightarrow> Inl e | Inr ts \<Rightarrow> Inr (t # ts)))"
  by pat_completeness auto
termination
  by (relation "measure (\<lambda>(n, src). length src)") (auto dest: lex_next_shorter)

definition tokenize :: "string \<Rightarrow> lex_error + token list" where
  "tokenize src = tokens_from (length src) src"

declare tokens_from.simps [simp del]

subsection \<open>Reading a statement piece by piece\<close>

definition tok_texts :: "lex_error + token list \<Rightarrow> (tok_kind \<times> string) list option" where
  "tok_texts r = (case r of Inl e \<Rightarrow> None | Inr ts \<Rightarrow> Some (map (\<lambda>t. (tk_kind t, tk_text t)) ts))"

definition reads_as :: "string \<Rightarrow> (tok_kind \<times> string) list \<Rightarrow> bool" where
  "reads_as src ts \<longleftrightarrow> (\<forall>n. tok_texts (tokens_from n src) = Some ts)"

named_theorems reading \<open>how the pieces of a statement are read\<close>

lemma reads_end [reading]: "reads_as [] [(TokEOF, [])]"
  by (simp add: reads_as_def tokens_from.simps lex_next_def plain_token_def tok_texts_def)

lemma tok_step:
  assumes "\<And>p. lex_token p c s = Inr (plain_token k x p, r)" and "k \<noteq> TokEOF" and "\<not> sql_blank c"
  shows "tok_texts (tokens_from n (c # s)) = map_option ((#) (k, x)) (tok_texts (tokens_from n r))"
proof -
  have "lex_next n (c # s) = Inr (plain_token k x (n - length (c # s)), r)"
    using assms(1,3) by (simp add: lex_next_def)
  moreover have "tk_kind (plain_token k x p) = k" "tk_text (plain_token k x p) = x" for p
    by (simp_all add: plain_token_def)
  ultimately show ?thesis using assms(2)
    by (auto simp: tok_texts_def tokens_from.simps [of _ "c # s"] split: sum.splits)
qed

lemma reads_token:
  assumes "\<And>p. lex_token p c s = Inr (plain_token k x p, r)" and "k \<noteq> TokEOF" and "\<not> sql_blank c"
    and "reads_as r ts"
  shows "reads_as (c # s) ((k, x) # ts)"
  using assms(4) by (simp add: reads_as_def tok_step [OF assms(1-3)])

lemma tokens_from_blank: "tokens_from n (CHR '' '' # s) = tokens_from n s"
proof -
  have "lex_next n (CHR '' '' # s) = lex_next n s" by (simp add: lex_next_def sql_blank_def)
  then show ?thesis by (simp add: tokens_from.simps [of n "CHR '' '' # s"] tokens_from.simps [of n s])
qed

lemma reads_blank [reading]: "reads_as s ts \<Longrightarrow> reads_as (CHR '' '' # s) ts"
  by (simp add: reads_as_def tokens_from_blank)

lemma reads_punct [reading]:
  "reads_as s ts \<Longrightarrow> reads_as (CHR '','' # s) ((TokComma, '','') # ts)"
  "reads_as s ts \<Longrightarrow> reads_as (CHR ''('' # s) ((TokLParen, ''('') # ts)"
  "reads_as s ts \<Longrightarrow> reads_as (CHR '')'' # s) ((TokRParen, '')'') # ts)"
  by (auto intro!: reads_token simp: lex_token_def sql_blank_def)

lemma reads_equals [reading]: "reads_as (CHR '' '' # s) ts \<Longrightarrow> reads_as (CHR ''='' # CHR '' '' # s) ((TokOp, ''='') # ts)"
  by (rule reads_token [where r = "CHR '' '' # s"])
    (simp_all add: lex_token_def sql_blank_def two_char_ops_def go_digit_def ident_start_def latin1_letter_def)

lemma ident_start_other:
  "ident_start c \<Longrightarrow> c \<notin> {CHR '','', CHR ''('', CHR '')'', CHR ''*'', CHR '';'', CHR ''.'', CHR 0x27, CHR 0x22} \<and>
     \<not> go_digit c \<and> \<not> sql_blank c"
  by (auto simp: ident_start_def latin1_letter_def go_digit_def sql_blank_def)

text \<open>A word of a statement, with the blank after it.\<close>

definition sql_word :: "string \<Rightarrow> bool" where
  "sql_word w \<longleftrightarrow> w \<noteq> [] \<and> ident_start (hd w) \<and> list_all ident_char (tl w)"

text \<open>What may follow a word or a number.\<close>

definition ends_token :: "string \<Rightarrow> bool" where
  "ends_token r \<longleftrightarrow> r = [] \<or> \<not> ident_char (hd r) \<and> hd r \<noteq> CHR ''.''"

lemma ends_token_simps [simp]:
  "ends_token []" "ends_token (CHR '' '' # r)" "ends_token (CHR '','' # r)" "ends_token (CHR ''('' # r)" "ends_token (CHR '')'' # r)"
  by (simp_all add: ends_token_def ident_char_def ident_start_def latin1_letter_def go_digit_def)

lemma tok_ident:
  assumes "sql_word w" and "ends_token r"
  shows "tok_texts (tokens_from n (w @ r)) = map_option ((#) (TokIdent, w)) (tok_texts (tokens_from n r))"
proof -
  obtain c v where w: "w = c # v" "ident_start c" "list_all ident_char v"
    using assms(1) by (cases w) (auto simp: sql_word_def)
  have "takeWhile ident_char (v @ r) = v" "dropWhile ident_char (v @ r) = r"
    using w(3) assms(2) by (induction v) (cases r; auto simp: ends_token_def)+
  then have "lex_token p c (v @ r) = Inr (plain_token TokIdent w p, r)" for p
    using w(1,2) ident_start_other [OF w(2)] by (simp add: lex_token_def)
  then show ?thesis using tok_step [of c _ TokIdent w] ident_start_other [OF w(2)] w(1) by simp
qed

lemma tok_word:
  "sql_word w \<Longrightarrow> tok_texts (tokens_from n (w @ CHR '' '' # r)) = map_option ((#) (TokIdent, w)) (tok_texts (tokens_from n r))"
  by (simp add: tok_ident tokens_from_blank)

lemma reads_ident: "sql_word w \<Longrightarrow> ends_token r \<Longrightarrow> reads_as r ts \<Longrightarrow> reads_as (w @ r) ((TokIdent, w) # ts)"
  by (simp add: reads_as_def tok_ident)

lemma reads_word: "sql_word w \<Longrightarrow> reads_as r ts \<Longrightarrow> reads_as (w @ CHR '' '' # r) ((TokIdent, w) # ts)"
  by (simp add: reads_as_def tok_word)

text \<open>A quoted text gives its content back; what a literal consumes is its content, with each quote twice.\<close>

lemma string_body_quoted:
  "r = [] \<or> hd r \<noteq> q \<Longrightarrow> string_body q (replace_all q [q, q] v @ q # r) = Some (v, r)"
proof (induction v)
  case Nil
  then show ?case by (cases r) auto
next
  case (Cons c v)
  obtain d t where "replace_all q [q, q] v @ q # r = d # t" by (cases "replace_all q [q, q] v") auto
  then show ?case using Cons by auto
qed

lemma string_body_length:
  "string_body q s = Some (t, r) \<Longrightarrow> length s = length t + count_list t q + 1 + length r"
  by (induction q s arbitrary: t rule: string_body.induct) (auto split: if_splits)

lemma string_body_plain: "q \<notin> set t \<Longrightarrow> string_body q (t @ [q]) = Some (t, [])"
proof (induction t)
  case (Cons c t)
  then show ?case by (cases t) auto
qed simp

lemma tok_string:
  "tok_texts (tokens_from n (CHR 0x27 # s)) =
     (case string_body (CHR 0x27) s of
        None \<Rightarrow> None | Some (t, r) \<Rightarrow> map_option ((#) (TokString, t)) (tok_texts (tokens_from n r)))"
proof (cases "string_body (CHR 0x27) s")
  case None
  then show ?thesis
    by (simp add: tokens_from.simps [of n "CHR 0x27 # s"] lex_next_def sql_blank_def lex_token_def tok_texts_def)
next
  case (Some tr)
  then show ?thesis
    using tok_step [of "CHR 0x27" s TokString "fst tr" "snd tr"] by (cases tr) (simp add: lex_token_def sql_blank_def)
qed

lemma reads_quoted:
  "r = [] \<or> hd r \<noteq> CHR 0x27 \<Longrightarrow> reads_as r ts \<Longrightarrow>
   reads_as (CHR 0x27 # replace_all (CHR 0x27) [CHR 0x27, CHR 0x27] v @ CHR 0x27 # r) ((TokString, v) # ts)"
  by (rule reads_token [where r = r]) (simp_all add: lex_token_def string_body_quoted sql_blank_def)

text \<open>A number written in digits.\<close>

lemma number_span_digits:
  "list_all go_digit ds \<Longrightarrow> ends_token r \<Longrightarrow> number_span (ds @ r) = (length ds, False)"
proof (induction ds)
  case Nil
  then show ?case by (cases r) (auto simp: ends_token_def ident_char_def ident_start_def latin1_letter_def go_digit_def)
qed simp

lemma digit_is_go_digit: "is_digit_in 10 c \<Longrightarrow> go_digit c"
  by (auto simp: is_digit_in_def digit_val_def go_digit_def Let_def split: if_splits)

lemma nat_str_go_digits: "list_all go_digit (nat_str n)"
proof -
  have "list_all (is_digit_in 10) (nat_str n)" by (simp add: digits_value_nat_str)
  then show ?thesis by (simp add: list_all_iff digit_is_go_digit)
qed

lemma parse_int64_nat_str: "n < 2 ^ 63 \<Longrightarrow> parse_int64 (nat_str n) = Some (of_nat n)"
  using digits_value_nat_str [of n] by (simp add: parse_int64_def Let_def)

lemma reads_number:
  assumes "n < 2 ^ 63" and "ends_token r" and "reads_as r ts"
  shows "reads_as (nat_str n @ r) ((TokNumber, nat_str n) # ts)"
proof -
  obtain c ds where c: "nat_str n = c # ds" "go_digit c"
    using nat_str_go_digits [of n] digits_value_nat_str [of n] by (cases "nat_str n") auto
  define t where "t p = (plain_token TokNumber (nat_str n) p)\<lparr>tk_intVal := of_nat n\<rparr>" for p
  have span: "number_span (nat_str n @ r) = (length (nat_str n), False)"
    by (rule number_span_digits [OF nat_str_go_digits assms(2)])
  have "lexNumber p (nat_str n @ r) = Inr (t p, r)" for p
    unfolding lexNumber_def span Let_def prod.case by (simp add: parse_int64_nat_str [OF assms(1)] t_def)
  moreover have "c \<notin> {CHR '','', CHR ''('', CHR '')'', CHR ''*'', CHR '';'', CHR ''.'', CHR 0x27, CHR 0x22}"
    using c(2) by (auto simp: go_digit_def)
  ultimately have l: "lex_token p c (ds @ r) = Inr (t p, r)" for p
    using c by (simp add: lex_token_def)
  have b: "\<not> sql_blank c" using c(2) by (auto simp: go_digit_def sql_blank_def)
  have "tok_texts (tokens_from m (c # ds @ r)) = map_option ((#) (TokNumber, nat_str n)) (tok_texts (tokens_from m r))" for m
  proof -
    have "lex_next m (c # ds @ r) = Inr (t (m - length (c # ds @ r)), r)" using l b by (simp add: lex_next_def)
    moreover have "tk_kind (t p) = TokNumber" "tk_text (t p) = nat_str n" for p
      by (simp_all add: t_def plain_token_def)
    ultimately show ?thesis by (auto simp: tok_texts_def tokens_from.simps [of _ "c # ds @ r"] split: sum.splits)
  qed
  then show ?thesis using assms(3) c(1) by (simp add: reads_as_def)
qed

lemma reads_minus: "reads_as r ts \<Longrightarrow> reads_as (CHR ''-'' # r) ((TokOp, ''-'') # ts)"
  by (rule reads_token [where r = r])
    (auto simp: lex_token_def sql_blank_def two_char_ops_def go_digit_def ident_start_def latin1_letter_def)

definition comma :: "tok_kind \<times> string" where
  "comma = (TokComma, '','')"

fun comma_tokens :: "(tok_kind \<times> string) list list \<Rightarrow> (tok_kind \<times> string) list" where
  "comma_tokens [] = []"
| "comma_tokens [x] = x"
| "comma_tokens (x # y # xs) = x @ comma # comma_tokens (y # xs)"

text \<open>Pieces joined with commas, each of which is read whatever follows it that ends it.\<close>

definition piece :: "(string \<Rightarrow> bool) \<Rightarrow> string \<Rightarrow> (tok_kind \<times> string) list \<Rightarrow> bool" where
  "piece ends l tk \<longleftrightarrow> (\<forall>r ts. ends r \<longrightarrow> reads_as r ts \<longrightarrow> reads_as (l @ r) (tk @ ts))"

lemma reads_join:
  assumes "list_all2 (piece ends) ls tks" and "sep = '','' \<or> sep = '', ''" and "\<And>r. ends (CHR '','' # r)" and "ends r" and "reads_as r ts"
  shows "reads_as (join_on sep ls @ r) (comma_tokens tks @ ts)"
  using assms(1)
proof (induction tks arbitrary: ls rule: comma_tokens.induct)
  case 1
  then show ?case using assms(5) by simp
next
  case (2 x)
  then show ?case using assms(4,5) by (auto simp: list_all2_Cons2 piece_def)
next
  case (3 x y xs)
  then obtain l l' ls' where ls: "ls = l # l' # ls'" "piece ends l x" "list_all2 (piece ends) (l' # ls') (y # xs)"
    by (auto simp: list_all2_Cons2)
  then have "reads_as (sep @ join_on sep (l' # ls') @ r) (comma # comma_tokens (y # xs) @ ts)"
    using reads_punct(1) [OF 3(1) [OF ls(3)]] reads_punct(1) [OF reads_blank [OF 3(1) [OF ls(3)]]] assms(2)
    unfolding comma_def by auto
  moreover have "ends (sep @ u)" for u using assms(2,3) by auto
  ultimately show ?case using ls(1,2) by (simp add: piece_def)
qed

lemma tokenize_reads: "reads_as src ts \<Longrightarrow> tok_texts (tokenize src) = Some ts"
  by (simp add: reads_as_def tokenize_def)

subsection \<open>The tokens of a whole source\<close>

definition at_position :: "nat \<Rightarrow> lex_error + token \<times> string \<Rightarrow> bool" where
  "at_position p res = (case res of Inl e \<Rightarrow> True | Inr (t, r) \<Rightarrow> tk_pos t = p \<and> tk_kind t \<noteq> TokEOF)"

lemma at_position_if: "(b \<Longrightarrow> at_position p x) \<Longrightarrow> (\<not> b \<Longrightarrow> at_position p y) \<Longrightarrow> at_position p (if b then x else y)"
  by simp

lemma at_position_plain [simp]: "at_position p (Inr (plain_token k x p, r)) = (k \<noteq> TokEOF)"
  by (simp add: at_position_def plain_token_def)

lemma at_position_number: "at_position p (lexNumber p s)"
  by (auto simp: at_position_def lexNumber_def Let_def plain_token_def split: sum.split prod.splits if_splits option.splits)

lemma lex_token_position: "at_position p (lex_token p c s)"
  unfolding lex_token_def
  by (intro at_position_if at_position_number)
    (auto simp: at_position_def plain_token_def split: option.split prod.split)

lemma lex_next_position:
  assumes "lex_next n src = Inr (t, r)" and "length src \<le> n"
  shows "(tk_kind t = TokEOF \<and> tk_pos t = n) \<or>
    (tk_kind t \<noteq> TokEOF \<and> n - length src \<le> tk_pos t \<and> tk_pos t < n - length r \<and> length r < length src)"
proof (cases "dropWhile sql_blank src")
  case Nil
  then have "t = plain_token TokEOF [] n" using assms(1) by (simp add: lex_next_def del: dropWhile_eq_Nil_conv)
  then show ?thesis by (simp add: plain_token_def)
next
  case (Cons c s)
  let ?p = "n - length (c # s)"
  have l: "length (c # s) \<le> length src" using length_dropWhile_le [of sql_blank src] unfolding Cons .
  have e: "lex_token ?p c s = Inr (t, r)" using assms(1) Cons by (simp add: lex_next_def)
  have "tk_pos t = ?p" "tk_kind t \<noteq> TokEOF"
    using lex_token_position [of ?p c s] unfolding e by (simp_all add: at_position_def)
  moreover have "length r < length (c # s)" using lex_token_shorter [of c s ?p] unfolding e by (simp add: shorter_def)
  ultimately show ?thesis using l assms(2) by auto
qed

text \<open>Where an error is reported.\<close>

fun error_within :: "nat \<Rightarrow> lex_error \<Rightarrow> bool" where
  "error_within n (Syntax_near c p) = (p < n)"
| "error_within n (Unterminated p) = (p < n)"
| "error_within n (Bad_number x) = True"
| "error_within n (Bad_integer x) = True"

definition fails_within :: "nat \<Rightarrow> lex_error + token \<times> string \<Rightarrow> bool" where
  "fails_within n res = (case res of Inl e \<Rightarrow> error_within n e | Inr x \<Rightarrow> True)"

lemma fails_within_if: "(b \<Longrightarrow> fails_within n x) \<Longrightarrow> (\<not> b \<Longrightarrow> fails_within n y) \<Longrightarrow> fails_within n (if b then x else y)"
  by simp

lemma fails_within_number: "fails_within n (lexNumber p s)"
  by (auto simp: fails_within_def lexNumber_def Let_def split: sum.split prod.splits if_splits option.splits)

lemma lex_token_fails: "p < n \<Longrightarrow> fails_within n (lex_token p c s)"
  unfolding lex_token_def
  by (intro fails_within_if fails_within_number) (auto simp: fails_within_def split: option.split prod.split)

lemma lex_next_fails:
  assumes "lex_next n src = Inl e" and "length src \<le> n"
  shows "error_within n e"
proof (cases "dropWhile sql_blank src")
  case (Cons c s)
  have "length (c # s) \<le> length src" using length_dropWhile_le [of sql_blank src] unfolding Cons .
  then have "n - length (c # s) < n" using assms(2) by simp
  from lex_token_fails [OF this, of c s] show ?thesis using assms(1) Cons by (simp add: lex_next_def fails_within_def)
qed (use assms(1) in \<open>simp add: lex_next_def del: dropWhile_eq_Nil_conv\<close>)

lemma tokens_from_shape:
  "length src \<le> n \<Longrightarrow>
   (case tokens_from n src of
      Inl e \<Rightarrow> error_within n e
    | Inr ts \<Rightarrow> tk_kind (last ts) = TokEOF \<and> tk_pos (last ts) = n \<and> ts \<noteq> [] \<and>
        list_all (\<lambda>t. tk_kind t \<noteq> TokEOF \<and> n - length src \<le> tk_pos t) (butlast ts) \<and>
        sorted_wrt (<) (map tk_pos ts) \<and> length ts \<le> length src + 1)"
proof (induction n src rule: tokens_from.induct)
  case (1 n src)
  show ?case
  proof (cases "lex_next n src")
    case (Inl e)
    then show ?thesis using lex_next_fails 1(2) by (simp add: tokens_from.simps [of n src])
  next
    case (Inr tr)
    obtain t r where tr: "tr = (t, r)" by (cases tr)
    note pos = lex_next_position [OF Inr [unfolded tr] 1(2)]
    show ?thesis
    proof (cases "tk_kind t = TokEOF")
      case True
      then show ?thesis using pos Inr tr by (simp add: tokens_from.simps [of n src])
    next
      case False
      then have p: "n - length src \<le> tk_pos t" "tk_pos t < n - length r" "length r < length src" using pos by simp_all
      then have IH: "case tokens_from n r of
          Inl e \<Rightarrow> error_within n e
        | Inr ts \<Rightarrow> tk_kind (last ts) = TokEOF \<and> tk_pos (last ts) = n \<and> ts \<noteq> [] \<and>
            list_all (\<lambda>t. tk_kind t \<noteq> TokEOF \<and> n - length r \<le> tk_pos t) (butlast ts) \<and>
            sorted_wrt (<) (map tk_pos ts) \<and> length ts \<le> length r + 1"
        using 1(1) [OF Inr, of t r] tr False 1(2) by simp
      show ?thesis
      proof (cases "tokens_from n r")
        case (Inl e)
        then show ?thesis using IH Inr tr False by (simp add: tokens_from.simps [of n src])
      next
        case (Inr ts)
        have "tk_pos t < tk_pos u" if "u \<in> set ts" for u
        proof (cases "u \<in> set (butlast ts)")
          case True
          then show ?thesis using IH Inr p by (auto simp: list_all_iff)
        next
          case False
          then have "u = last ts" using that by (metis append_butlast_last_id empty_iff empty_set insertE list.simps(15) rotate1.simps(2) set_rotate1)
          then show ?thesis using IH Inr p by simp
        qed
        moreover have "tokens_from n src = Inr (t # ts)"
          using \<open>lex_next n src = Inr tr\<close> tr False Inr by (simp add: tokens_from.simps [of n src])
        ultimately show ?thesis using IH Inr p False by (auto simp: list_all_iff)
      qed
    qed
  qed
qed

text \<open>\<open>tokenize\<close> ends on every source, after at most one token per character and the closing one: it gives tokens at
  strictly increasing positions, of which only the last one is the end of the source, at the position
  after it, or an error whose position lies within the source.\<close>

lemma tokenize_ends:
  "case tokenize src of
     Inl e \<Rightarrow> error_within (length src) e
   | Inr ts \<Rightarrow> ts \<noteq> [] \<and> tk_kind (last ts) = TokEOF \<and> tk_pos (last ts) = length src \<and>
       list_all (\<lambda>t. tk_kind t \<noteq> TokEOF) (butlast ts) \<and> sorted_wrt (<) (map tk_pos ts) \<and>
       length ts \<le> length src + 1"
  using tokens_from_shape [of src "length src"] unfolding tokenize_def by (auto simp: list_all_iff split: sum.splits)

end
