(* ===== verification/LogSearch.thy ===== *)
theory LogSearch
  imports Logs SqlLexer
begin

section \<open>The log search as the server reads it\<close>

text \<open>
  The condition the log page builds for one searched column (\<open>pages/Logs.tsx\<close>), through the server's
  lexer (\<open>sql/lexer.go\<close>). The page removes the wildcards from the text typed, but does not double
  its quotes.
\<close>

lemma like_cond_eq:
  "like_cond x c = c @ CHR '' '' # ''LIKE'' @ CHR '' '' # CHR 0x27 # (CHR ''%'' # x @ [CHR ''%'']) @ [CHR 0x27]"
  by (simp add: like_cond_def quoted_def)

text \<open>C30: the condition of a log search is read by the server as the column, \<open>LIKE\<close> and one literal
  holding the text searched between wildcards exactly when that text contains no quote; with a quote
  in it the server reads something else.\<close>

theorem log_search_read:
  assumes "sql_word c"
  shows "tok_texts (tokenize (like_cond (escapeLike query) c)) =
           Some [(TokIdent, c), (TokIdent, ''LIKE''), (TokString, ''%'' @ escapeLike query @ ''%''), (TokEOF, [])]
         \<longleftrightarrow> CHR 0x27 \<notin> set query"
proof -
  let ?x = "''%'' @ escapeLike query @ ''%''"
  have like: "sql_word ''LIKE''" by code_simp
  have "tok_texts (tokens_from n (like_cond (escapeLike query) c)) =
      map_option (\<lambda>ts. (TokIdent, c) # (TokIdent, ''LIKE'') # ts)
        (tok_texts (tokens_from n (CHR 0x27 # ?x @ [CHR 0x27])))" for n
    using tok_word [OF assms] tok_word [OF like] by (simp add: like_cond_eq option.map_comp comp_def)
  then have "tok_texts (tokenize (like_cond (escapeLike query) c)) =
        Some [(TokIdent, c), (TokIdent, ''LIKE''), (TokString, ?x), (TokEOF, [])] \<longleftrightarrow>
      (\<exists>r. string_body (CHR 0x27) (?x @ [CHR 0x27]) = Some (?x, r) \<and>
           tok_texts (tokens_from (length (like_cond (escapeLike query) c)) r) = Some [(TokEOF, [])])"
    by (auto simp: tokenize_def tok_string split: option.splits)
  also have "\<dots> \<longleftrightarrow> CHR 0x27 \<notin> set ?x"
  proof
    assume "CHR 0x27 \<notin> set ?x"
    then have "string_body (CHR 0x27) (?x @ [CHR 0x27]) = Some (?x, [])" by (rule string_body_plain)
    moreover have "tok_texts (tokens_from (length (like_cond (escapeLike query) c)) []) = Some [(TokEOF, [])]"
      using reads_end by (simp add: reads_as_def)
    ultimately show "\<exists>r. string_body (CHR 0x27) (?x @ [CHR 0x27]) = Some (?x, r) \<and>
        tok_texts (tokens_from (length (like_cond (escapeLike query) c)) r) = Some [(TokEOF, [])]" by blast
  next
    assume "\<exists>r. string_body (CHR 0x27) (?x @ [CHR 0x27]) = Some (?x, r) \<and>
        tok_texts (tokens_from (length (like_cond (escapeLike query) c)) r) = Some [(TokEOF, [])]"
    then obtain r where "string_body (CHR 0x27) (?x @ [CHR 0x27]) = Some (?x, r)" by blast
    then have "count_list ?x (CHR 0x27) = 0" using string_body_length by fastforce
    then show "CHR 0x27 \<notin> set ?x" by (metis count_list_0_iff)
  qed
  also have "\<dots> \<longleftrightarrow> CHR 0x27 \<notin> set query" by (auto simp: escapeLike_def)
  finally show ?thesis by simp
qed

theorem log_search_read_witness:
  "tok_texts (tokenize (like_cond (escapeLike ''disk 90%'') ''msg'')) =
     Some [(TokIdent, ''msg''), (TokIdent, ''LIKE''), (TokString, ''%disk 90%''), (TokEOF, [])] \<and>
   tok_texts (tokenize (like_cond (escapeLike [CHR 0x27]) ''msg'')) \<noteq>
     Some [(TokIdent, ''msg''), (TokIdent, ''LIKE''), (TokString, ''%'' @ [CHR 0x27] @ ''%''), (TokEOF, [])]"
proof -
  have w: "sql_word ''msg''" by code_simp
  have e: "escapeLike ''disk 90%'' = ''disk 90''" "escapeLike [CHR 0x27] = [CHR 0x27]" by code_simp+
  show ?thesis
    using log_search_read [OF w, of "''disk 90%''"] log_search_read [OF w, of "[CHR 0x27]"] unfolding e by simp
qed

end
