(* ===== verification/QueryCache.thy ===== *)
theory QueryCache
  imports JsString "HOL-Library.Word"
begin

section \<open>The widget query endpoint and its cache (\<open>ui/widget.go\<close>)\<close>

text \<open>
  The server side of a dashboard widget: the cache of query results and the handler of
  \<open>POST /api/v1/widget/query\<close>. The cache is locked during \<open>get\<close> and during \<open>put\<close> but not while the
  backend works, so requests interleave: a request that misses the cache waits in a list until its
  answer event, and any sequence of events is a schedule. Every event carries the clock reading of
  the call it makes (nanoseconds). A duration is a signed 64-bit integer, and the product of the
  request's seconds with \<open>time.Second\<close> wraps. Every reply is logged.
\<close>

subsection \<open>The cache\<close>

record 'r qentry =
  qe_expires :: int
  qe_result :: 'r

record 'r query_cache =
  qc_max :: nat
  qc_entries :: "string \<Rightarrow> 'r qentry option"
  qc_order :: "string list"

definition newQueryCache :: "nat \<Rightarrow> 'r query_cache" where
  "newQueryCache m = \<lparr>qc_max = m, qc_entries = Map.empty, qc_order = []\<rparr>"

definition cache_get :: "int \<Rightarrow> string \<Rightarrow> 'r query_cache \<Rightarrow> 'r option \<times> 'r query_cache" where
  "cache_get now sql c =
     (case qc_entries c sql of
        None \<Rightarrow> (None, c)
      | Some e \<Rightarrow>
          if qe_expires e < now then (None, c)
          else (Some (qe_result e), c\<lparr>qc_order := remove1 sql (qc_order c) @ [sql]\<rparr>))"

text \<open>The loop of \<open>put\<close>: the oldest entries go until the order is no longer than the maximum.\<close>

fun evict :: "nat \<Rightarrow> string list \<Rightarrow> (string \<Rightarrow> 'r qentry option) \<Rightarrow> string list \<times> (string \<Rightarrow> 'r qentry option)" where
  "evict m [] es = ([], es)"
| "evict m (lru # order) es =
     (if m < length (lru # order) then evict m order (es(lru := None)) else (lru # order, es))"

definition cache_put :: "int \<Rightarrow> string \<Rightarrow> 64 word \<Rightarrow> 'r \<Rightarrow> 'r query_cache \<Rightarrow> 'r query_cache" where
  "cache_put now sql ttl result c =
     (let order = (if qc_entries c sql = None then qc_order c @ [sql] else qc_order c);
          es = (qc_entries c)(sql \<mapsto> \<lparr>qe_expires = now + sint ttl, qe_result = result\<rparr>);
          (order', es') = evict (qc_max c) order es
      in c\<lparr>qc_order := order', qc_entries := es'\<rparr>)"

subsection \<open>The handler\<close>

record payload =
  pl_type :: string
  pl_columns :: "string list"
  pl_rows :: "string list list"
  pl_affected :: "64 word"

record proto_response =
  pr_ok :: bool
  pr_error :: string
  pr_result :: "payload option"

text \<open>A result on the wire: \<open>None\<close> is \<open>{"type": "ok"}\<close>, for a response without a payload.\<close>

datatype widget_reply = Bad_request string | Served "payload option" bool

record widget_server =
  ws_cache :: "payload option query_cache"
  ws_pending :: "(string \<times> 64 word) list"
  ws_log :: "(int \<times> string \<times> 64 word \<times> widget_reply) list"

datatype widget_event = Ask int string "64 word" | Backend int nat proto_response

definition reply :: "int \<Rightarrow> string \<Rightarrow> 64 word \<Rightarrow> widget_reply \<Rightarrow> widget_server \<Rightarrow> widget_server" where
  "reply now sql ttl r s = s\<lparr>ws_log := ws_log s @ [(now, sql, ttl, r)]\<rparr>"

definition SECOND :: "64 word" where "SECOND = 1000000000"

definition widget_ask :: "int \<Rightarrow> string \<Rightarrow> 64 word \<Rightarrow> widget_server \<Rightarrow> widget_server" where
  "widget_ask now sql secs s =
     (let ttl = secs * SECOND
      in if sql = [] then reply now sql ttl (Bad_request ''sql required'') s
         else if 0 < sint ttl
         then (case cache_get now sql (ws_cache s) of
                 (Some r, c) \<Rightarrow> reply now sql ttl (Served r True) (s\<lparr>ws_cache := c\<rparr>)
               | (None, c) \<Rightarrow> s\<lparr>ws_cache := c, ws_pending := ws_pending s @ [(sql, ttl)]\<rparr>)
         else s\<lparr>ws_pending := ws_pending s @ [(sql, ttl)]\<rparr>)"

definition widget_answer :: "int \<Rightarrow> nat \<Rightarrow> proto_response \<Rightarrow> widget_server \<Rightarrow> widget_server" where
  "widget_answer now i resp s =
     (case at_index (ws_pending s) i of
        None \<Rightarrow> s
      | Some (sql, ttl) \<Rightarrow>
          let s' = s\<lparr>ws_pending := take i (ws_pending s) @ drop (Suc i) (ws_pending s)\<rparr>
          in if \<not> pr_ok resp then reply now sql ttl (Bad_request (pr_error resp)) s'
             else let c = (if 0 < sint ttl then cache_put now sql ttl (pr_result resp) (ws_cache s) else ws_cache s)
                  in reply now sql ttl (Served (pr_result resp) False) (s'\<lparr>ws_cache := c\<rparr>))"

fun widget_step :: "widget_server \<Rightarrow> widget_event \<Rightarrow> widget_server" where
  "widget_step s (Ask now sql secs) = widget_ask now sql secs s"
| "widget_step s (Backend now i resp) = widget_answer now i resp s"

definition widget_server_init :: widget_server where
  "widget_server_init = \<lparr>ws_cache = newQueryCache 128, ws_pending = [], ws_log = []\<rparr>"

subsection \<open>The order of the entries\<close>

text \<open>What every operation keeps: each entry is in the order exactly once, and there are no more than the maximum.\<close>

definition cache_ok :: "'r query_cache \<Rightarrow> bool" where
  "cache_ok c \<longleftrightarrow> distinct (qc_order c) \<and> set (qc_order c) = dom (qc_entries c) \<and> length (qc_order c) \<le> qc_max c"

lemma evict_eq:
  "evict m order es = (drop (length order - m) order, es |` (- set (take (length order - m) order)))"
proof (induction order arbitrary: es)
  case Nil
  show ?case by simp
next
  case (Cons q order)
  show ?case
  proof (cases "m < length (q # order)")
    case True
    then have "length (q # order) - m = Suc (length order - m)" by simp
    then show ?thesis using True Cons by (auto simp: restrict_map_def fun_eq_iff)
  qed (simp add: restrict_map_def)
qed

lemma cache_ok_new: "cache_ok (newQueryCache m)"
  by (simp add: cache_ok_def newQueryCache_def)

lemma cache_ok_get: "cache_ok c \<Longrightarrow> cache_ok (snd (cache_get now q c))"
proof (cases "qc_entries c q")
  case (Some e)
  moreover assume ok: "cache_ok c"
  ultimately have "q \<in> set (qc_order c)" by (auto simp: cache_ok_def)
  then have "Suc (length (qc_order c) - 1) = length (qc_order c)"
    using length_pos_if_in_set by fastforce
  then show ?thesis using ok Some
    by (auto simp: cache_ok_def cache_get_def set_remove1_eq length_remove1)
qed (simp add: cache_get_def)

lemma cache_put_parts:
  "qc_max (cache_put now q ttl r c) = qc_max c"
  "qc_entries (cache_put now q ttl r c) q' = Some e \<Longrightarrow>
     (if q' = q then e = \<lparr>qe_expires = now + sint ttl, qe_result = r\<rparr> else qc_entries c q' = Some e)"
  by (auto simp: cache_put_def evict_eq Let_def restrict_map_def split: if_splits)

lemma cache_ok_put:
  assumes "cache_ok c"
  shows "cache_ok (cache_put now q ttl r c)"
proof -
  define order where "order = (if qc_entries c q = None then qc_order c @ [q] else qc_order c)"
  define n where "n = length order - qc_max c"
  define es where "es = (qc_entries c)(q \<mapsto> \<lparr>qe_expires = now + sint ttl, qe_result = r\<rparr>)"
  have put: "cache_put now q ttl r c = c\<lparr>qc_order := drop n order, qc_entries := es |` (- set (take n order))\<rparr>"
    by (simp add: cache_put_def evict_eq Let_def order_def n_def es_def)
  have d: "distinct order" and s: "set order = dom es"
    using assms by (auto simp: cache_ok_def order_def es_def)
  have "set order = set (take n order) \<union> set (drop n order)"
    by (metis append_take_drop_id set_append)
  moreover have "set (take n order) \<inter> set (drop n order) = {}"
    using d by (metis append_take_drop_id distinct_append)
  ultimately have "set (drop n order) = dom es \<inter> - set (take n order)" using s by blast
  moreover have "length order - n \<le> qc_max c" by (simp add: n_def)
  ultimately show ?thesis using d by (simp add: put cache_ok_def)
qed

subsection \<open>Fresh answers\<close>

text \<open>
  The newest result stored for a statement: the reply that was not served from the cache and had a
  positive lifetime, with the time it was given and its lifetime.
\<close>

definition stored_by :: "string \<Rightarrow> int \<times> string \<times> 64 word \<times> widget_reply \<Rightarrow> (int \<times> 64 word \<times> payload option) option" where
  "stored_by sql e =
     (case e of (t, q, l, Served r False) \<Rightarrow> if q = sql \<and> 0 < sint l then Some (t, l, r) else None | _ \<Rightarrow> None)"

fun newest_stored :: "string \<Rightarrow> (int \<times> string \<times> 64 word \<times> widget_reply) list \<Rightarrow> (int \<times> 64 word \<times> payload option) option" where
  "newest_stored sql [] = None"
| "newest_stored sql (e # hist) =
     (case newest_stored sql hist of None \<Rightarrow> stored_by sql e | Some x \<Rightarrow> Some x)"

lemma newest_stored_snoc:
  "newest_stored sql (hist @ [e]) = (case stored_by sql e of None \<Rightarrow> newest_stored sql hist | Some x \<Rightarrow> Some x)"
  by (induction hist) (auto split: option.split)

text \<open>One reply, after the replies before it: from the cache only what was stored last, and not later than its lifetime.\<close>

definition reply_ok ::
    "(int \<times> string \<times> 64 word \<times> widget_reply) list \<Rightarrow> int \<times> string \<times> 64 word \<times> widget_reply \<Rightarrow> bool" where
  "reply_ok hist e =
     (case e of (t, q, l, Served r True) \<Rightarrow>
        (case newest_stored q hist of Some (t0, l0, r0) \<Rightarrow> r = r0 \<and> t \<le> t0 + sint l0 | None \<Rightarrow> False)
      | _ \<Rightarrow> True)"

definition log_ok :: "(int \<times> string \<times> 64 word \<times> widget_reply) list \<Rightarrow> bool" where
  "log_ok hist \<longleftrightarrow> (\<forall>i < length hist. reply_ok (take i hist) (hist ! i))"

lemma log_ok_snoc: "log_ok (hist @ [e]) \<longleftrightarrow> log_ok hist \<and> reply_ok hist e"
  by (auto simp: log_ok_def nth_append less_Suc_eq)

definition widget_inv :: "widget_server \<Rightarrow> bool" where
  "widget_inv s \<longleftrightarrow> cache_ok (ws_cache s) \<and> qc_max (ws_cache s) = 128 \<and> log_ok (ws_log s) \<and>
     (\<forall>q e. qc_entries (ws_cache s) q = Some e \<longrightarrow>
        (\<exists>t l. newest_stored q (ws_log s) = Some (t, l, qe_result e) \<and> qe_expires e = t + sint l))"

lemma widget_inv_init: "widget_inv widget_server_init"
  by (simp add: widget_inv_def widget_server_init_def cache_ok_new log_ok_def, simp add: newQueryCache_def)

text \<open>A reply that stores nothing keeps the link between the cache and the log.\<close>

lemma widget_inv_reply:
  assumes "widget_inv s" and "reply_ok (ws_log s) (t, q, l, r)" and "\<And>p. stored_by p (t, q, l, r) = None"
  shows "widget_inv (reply t q l r s)"
  using assms by (simp add: widget_inv_def reply_def log_ok_snoc newest_stored_snoc)

lemma widget_inv_get:
  "widget_inv s \<Longrightarrow> widget_inv (s\<lparr>ws_cache := snd (cache_get now q (ws_cache s))\<rparr>)"
  using cache_ok_get [of "ws_cache s" now q]
  by (auto simp: widget_inv_def cache_get_def split: option.splits)

lemma widget_inv_pending [simp]: "widget_inv (s\<lparr>ws_pending := p\<rparr>) = widget_inv s"
  by (simp add: widget_inv_def)

lemma get_hit:
  assumes "widget_inv s" and "cache_get now q (ws_cache s) = (Some r, c)"
  shows "reply_ok (ws_log s) (now, q, l, Served r True)"
proof -
  from assms(2) obtain e where e: "qc_entries (ws_cache s) q = Some e" "r = qe_result e" "now \<le> qe_expires e"
    by (auto simp: cache_get_def split: option.splits if_splits)
  then show ?thesis using assms(1) by (fastforce simp: widget_inv_def reply_ok_def)
qed

lemma widget_ask_inv: "widget_inv s \<Longrightarrow> widget_inv (widget_ask now q secs s)"
proof -
  assume s: "widget_inv s"
  obtain h c where g: "cache_get now q (ws_cache s) = (h, c)" by (cases "cache_get now q (ws_cache s)")
  then have c: "widget_inv (s\<lparr>ws_cache := c\<rparr>)" using widget_inv_get [OF s, of now q] by simp
  have bad: "widget_inv (reply now q l (Bad_request m) s)" for l m
    by (rule widget_inv_reply [OF s]) (simp_all add: reply_ok_def stored_by_def)
  have hit: "widget_inv (reply now q l (Served r True) (s\<lparr>ws_cache := c\<rparr>))" if "h = Some r" for l r
    using get_hit [OF s, of now q r c l] g that
    by (intro widget_inv_reply [OF c]) (simp_all add: stored_by_def)
  have "widget_inv (s\<lparr>ws_cache := c, ws_pending := p\<rparr>)" for p using c by (simp add: widget_inv_def)
  then show ?thesis using s bad hit g
    by (auto simp: widget_ask_def Let_def split: option.split)
qed

lemma widget_answer_inv: "widget_inv s \<Longrightarrow> widget_inv (widget_answer now i resp s)"
proof (cases "at_index (ws_pending s) i")
  case (Some p)
  assume s: "widget_inv s"
  obtain q l where p: "p = (q, l)" by (cases p)
  let ?s = "s\<lparr>ws_pending := take i (ws_pending s) @ drop (Suc i) (ws_pending s)\<rparr>"
  have s': "widget_inv ?s" using s by simp
  have bad: "widget_inv (reply now q l (Bad_request m) ?s)" for m
    by (rule widget_inv_reply [OF s']) (simp_all add: reply_ok_def stored_by_def)
  have plain: "widget_inv (reply now q l (Served r False) ?s)" if "\<not> 0 < sint l" for r
    by (rule widget_inv_reply [OF s']) (use that in \<open>simp_all add: reply_ok_def stored_by_def\<close>)
  have put: "widget_inv (reply now q l (Served r False) (?s\<lparr>ws_cache := cache_put now q l r (ws_cache s)\<rparr>))"
    if "0 < sint l" for r
    using s that cache_ok_put [of "ws_cache s" now q l r]
    by (auto simp: widget_inv_def reply_def log_ok_snoc reply_ok_def newest_stored_snoc stored_by_def cache_put_parts(1)
        dest!: cache_put_parts(2) split: if_splits)
  have same: "?s\<lparr>ws_cache := ws_cache s\<rparr> = ?s" by simp
  show ?thesis using bad plain put Some p same by (auto simp: widget_answer_def Let_def)
qed (simp add: widget_answer_def)

lemma widget_step_inv: "widget_inv s \<Longrightarrow> widget_inv (widget_step s e)"
  by (cases e) (simp_all add: widget_ask_inv widget_answer_inv)

interpretation widget_machine: machine widget_server_init widget_step widget_inv
  by unfold_locales (simp_all add: widget_inv_init widget_step_inv)

text \<open>C26: over any schedule of widget queries and backend answers, the cache never holds more than 128
  results, each listed once in its order, and every reply served from the cache is the newest result
  the backend gave for that very statement, not older than the lifetime it was stored with.\<close>

theorem widget_cache_fresh:
  "let s = run widget_step widget_server_init es
   in length (qc_order (ws_cache s)) \<le> 128 \<and> distinct (qc_order (ws_cache s)) \<and>
      set (qc_order (ws_cache s)) = dom (qc_entries (ws_cache s)) \<and>
      (\<forall>i < length (ws_log s). case ws_log s ! i of
         (t, q, l, Served r True) \<Rightarrow>
           (case newest_stored q (take i (ws_log s)) of
              Some (t0, l0, r0) \<Rightarrow> r = r0 \<and> t \<le> t0 + sint l0 | None \<Rightarrow> False)
       | _ \<Rightarrow> True)"
proof -
  have "widget_inv (run widget_step widget_server_init es)" by (rule widget_machine.inv_reachable)
  then show ?thesis by (simp add: widget_inv_def cache_ok_def log_ok_def reply_ok_def Let_def)
qed

text \<open>A second query for the same statement within the five seconds the dashboards page asks for.\<close>

theorem widget_cache_fresh_witness:
  "let s = run widget_step widget_server_init
       [Ask 0 ''q'' 5, Backend 10 0 \<lparr>pr_ok = True, pr_error = [], pr_result = None\<rparr>, Ask 100 ''q'' 5]
   in ws_log s = [(10, ''q'', 5000000000, Served None False), (100, ''q'', 5000000000, Served None True)] \<and>
      (case newest_stored ''q'' (take 1 (ws_log s)) of
         Some (t0, l0, r0) \<Rightarrow> None = r0 \<and> 100 \<le> t0 + sint l0 | None \<Rightarrow> False)"
proof -
  let ?es = "[Ask 0 ''q'' 5, Backend 10 0 \<lparr>pr_ok = True, pr_error = [], pr_result = None\<rparr>, Ask 100 ''q'' 5]"
  have l: "ws_log (run widget_step widget_server_init ?es) =
      [(10, ''q'', 5000000000, Served None False), (100, ''q'', 5000000000, Served None True)]"
    by (simp add: widget_server_init_def widget_ask_def widget_answer_def cache_get_def cache_put_def
        newQueryCache_def reply_def SECOND_def Let_def)
  have "1 < length (ws_log (run widget_step widget_server_init ?es))" unfolding l by simp
  then have "case ws_log (run widget_step widget_server_init ?es) ! 1 of
         (t, q, l, Served r True) \<Rightarrow>
           (case newest_stored q (take 1 (ws_log (run widget_step widget_server_init ?es))) of
              Some (t0, l0, r0) \<Rightarrow> r = r0 \<and> t \<le> t0 + sint l0 | None \<Rightarrow> False)
       | _ \<Rightarrow> True"
    by (rule widget_cache_fresh [of ?es, unfolded Let_def, THEN conjunct2, THEN conjunct2, THEN conjunct2, rule_format])
  then show ?thesis unfolding Let_def l by simp
qed

subsection \<open>What is evicted, and when a lifetime wraps\<close>

lemma put_evicts_oldest:
  assumes "cache_ok c" and "qc_entries c q = None" and "qc_order c = old # rest" and "length (qc_order c) = qc_max c"
  shows "qc_order (cache_put now q ttl r c) = rest @ [q]" and "qc_entries (cache_put now q ttl r c) old = None"
  using assms by (auto simp: cache_put_def evict_eq Let_def restrict_map_def)

text \<open>Storing again the result of a statement whose entry has expired does not count as a use of it: neither
  the failed \<open>get\<close> nor the \<open>put\<close> moves it, so a statement asked for all the time, always after its
  lifetime, stays the first to be evicted.\<close>

lemma refetch_keeps_place:
  assumes "cache_ok c" and "qc_entries c q = Some e" and "qe_expires e < now"
  shows "cache_get now q c = (None, c)" and "qc_order (cache_put now q ttl r c) = qc_order c"
  using assms by (auto simp: cache_get_def cache_put_def evict_eq Let_def cache_ok_def)

text \<open>Five seconds are five seconds; from 9223372037 seconds on the product wraps, here to no caching at all.\<close>

lemma page_lifetime: "sint (5 * SECOND) = 5 * 10 ^ 9"
  by (simp add: SECOND_def)

lemma lifetime_wraps: "sint (9223372037 * SECOND) < 0"
  by (simp add: SECOND_def)

end
