(* ===== verification/DashboardStore.thy ===== *)
theory DashboardStore
  imports SqlLexer QueryCache
begin

section \<open>The dashboard endpoints (\<open>ui/dashboards.go\<close>)\<close>

text \<open>
  The handlers behind the dashboards page. They keep nothing but whether the table was created and
  whether that failed; everything else is statements sent to the backend, which is an interface of the
  code: \<open>handle\<close> answers a statement and changes a backend state of any type. A request body arrives
  decoded, or as the message of the decoder's error; the clock readings of a request are
  arguments. A reply is its status code and its body.
\<close>

record dashboard_row =
  dr_id :: string
  dr_name :: string
  dr_config :: string
  dr_updated :: string

record dashboard_request =
  rq_name :: string
  rq_config :: string

datatype dash_reply = Dash_error nat string | Dash_list "dashboard_row list" | Dash_created string | Dash_done

record 'b dash_server =
  ds_once :: bool
  ds_err :: "string option"
  ds_backend :: 'b

type_synonym 'b backend = "string \<Rightarrow> 'b \<Rightarrow> proto_response \<times> 'b"

subsection \<open>Statements\<close>

definition dashboardsTable :: string where
  "dashboardsTable = ''_dashboards''"

definition dashboardsDDL :: string where
  "dashboardsDDL = ''CREATE TABLE '' @ dashboardsTable @
     '' (id string primary key, name string, config string, updated string) ENGINE=TABLE''"

definition go_quote :: "string \<Rightarrow> string" where
  "go_quote s = [CHR 0x27] @ replace_all (CHR 0x27) [CHR 0x27, CHR 0x27] s @ [CHR 0x27]"

definition list_sql :: string where
  "list_sql = ''SELECT id, name, config, updated FROM '' @ dashboardsTable"

definition delete_sql :: "string \<Rightarrow> string" where
  "delete_sql i = ''DELETE FROM '' @ dashboardsTable @ '' WHERE id = '' @ go_quote i"

definition upsert_sql :: "string \<Rightarrow> string \<Rightarrow> string \<Rightarrow> string \<Rightarrow> string" where
  "upsert_sql i name config updated =
     ''INSERT INTO '' @ dashboardsTable @ '' VALUES ('' @ go_quote i @ '', '' @ go_quote name @ '', '' @
       go_quote config @ '', '' @ go_quote updated @ '')''"

subsection \<open>Handlers\<close>

definition call_backend :: "'b backend \<Rightarrow> string \<Rightarrow> 'b dash_server \<Rightarrow> proto_response \<times> 'b dash_server" where
  "call_backend handle sql s = (case handle sql (ds_backend s) of (r, b) \<Rightarrow> (r, s\<lparr>ds_backend := b\<rparr>))"

definition ensureDashboards :: "'b backend \<Rightarrow> 'b dash_server \<Rightarrow> 'b dash_server" where
  "ensureDashboards handle s =
     (if ds_once s then s
      else case call_backend handle dashboardsDDL s of
             (r, s') \<Rightarrow>
               s'\<lparr>ds_once := True,
                  ds_err := if pr_ok r then ds_err s' else Some (''ensure dashboards table: '' @ pr_error r)\<rparr>)"

definition row_at :: "string list \<Rightarrow> nat \<Rightarrow> string" where
  "row_at row i = (if i < length row then row ! i else [])"

definition dashboard_of_row :: "string list \<Rightarrow> dashboard_row" where
  "dashboard_of_row rw = \<lparr>dr_id = row_at rw 0, dr_name = row_at rw 1, dr_config = row_at rw 2, dr_updated = row_at rw 3\<rparr>"

definition handleDashboardsList :: "'b backend \<Rightarrow> 'b dash_server \<Rightarrow> dash_reply \<times> 'b dash_server" where
  "handleDashboardsList handle s =
     (let s1 = ensureDashboards handle s
      in case ds_err s1 of
           Some e \<Rightarrow> (Dash_error 500 e, s1)
         | None \<Rightarrow>
             (case call_backend handle list_sql s1 of
                (r, s2) \<Rightarrow>
                  if \<not> pr_ok r then (Dash_error 400 (pr_error r), s2)
                  else (Dash_list (case pr_result r of None \<Rightarrow> [] | Some p \<Rightarrow> map dashboard_of_row (pl_rows p)), s2)))"

definition upsertDashboard ::
    "'b backend \<Rightarrow> string \<Rightarrow> string \<Rightarrow> string \<Rightarrow> string \<Rightarrow> 'b dash_server \<Rightarrow> string option \<times> 'b dash_server" where
  "upsertDashboard handle i name config updated s =
     (case call_backend handle (upsert_sql i name config updated) s of
        (r, s') \<Rightarrow> (if pr_ok r then None else Some (pr_error r), s'))"

text \<open>What create and update have in common: the checks of the body, the table, the statement.\<close>

definition save_dashboard ::
    "'b backend \<Rightarrow> dash_reply \<Rightarrow> string \<Rightarrow> string + dashboard_request \<Rightarrow> string \<Rightarrow> 'b dash_server \<Rightarrow>
     dash_reply \<times> 'b dash_server" where
  "save_dashboard handle done i body updated s =
     (case body of
        Inl e \<Rightarrow> (Dash_error 400 (''bad json: '' @ e), s)
      | Inr d \<Rightarrow>
          if rq_name d = [] \<or> rq_config d = [] then (Dash_error 400 ''name and config required'', s)
          else let s1 = ensureDashboards handle s
               in case ds_err s1 of
                    Some e \<Rightarrow> (Dash_error 500 e, s1)
                  | None \<Rightarrow>
                      (case upsertDashboard handle i (rq_name d) (rq_config d) updated s1 of
                         (Some e, s2) \<Rightarrow> (Dash_error 400 e, s2)
                       | (None, s2) \<Rightarrow> (done, s2)))"

definition handleDashboardCreate ::
    "'b backend \<Rightarrow> nat \<Rightarrow> string \<Rightarrow> string + dashboard_request \<Rightarrow> 'b dash_server \<Rightarrow> dash_reply \<times> 'b dash_server" where
  "handleDashboardCreate handle nanos updated body s =
     (let i = ''d'' @ nat_str nanos in save_dashboard handle (Dash_created i) i body updated s)"

definition handleDashboardUpdate ::
    "'b backend \<Rightarrow> string \<Rightarrow> string \<Rightarrow> string + dashboard_request \<Rightarrow> 'b dash_server \<Rightarrow> dash_reply \<times> 'b dash_server" where
  "handleDashboardUpdate handle i updated body s = save_dashboard handle Dash_done i body updated s"

definition handleDashboardDelete :: "'b backend \<Rightarrow> string \<Rightarrow> 'b dash_server \<Rightarrow> dash_reply \<times> 'b dash_server" where
  "handleDashboardDelete handle i s =
     (case call_backend handle (delete_sql i) s of
        (r, s') \<Rightarrow> (if pr_ok r then Dash_done else Dash_error 400 (pr_error r), s'))"

subsection \<open>What the statements say\<close>

lemma reads_go_quote:
  "r = [] \<or> hd r \<noteq> CHR 0x27 \<Longrightarrow> reads_as r ts \<Longrightarrow> reads_as (go_quote v @ r) ((TokString, v) # ts)"
  using reads_quoted [of r ts v] by (simp add: go_quote_def)

text \<open>A literal and its reader are a \<open>codec\<close>: two texts never become the same literal.\<close>

definition read_literal :: "string \<Rightarrow> string option" where
  "read_literal s =
     (case tok_texts (tokenize s) of Some [(TokString, v), (TokEOF, x)] \<Rightarrow> Some v | _ \<Rightarrow> None)"

interpretation sql_literal: codec go_quote read_literal "\<lambda>_. True"
proof unfold_locales
  fix v :: string
  have "reads_as (go_quote v @ []) [(TokString, v), (TokEOF, [])]" by (intro reads_go_quote reads_end) simp
  then show "read_literal (go_quote v) = Some v" by (simp add: read_literal_def tokenize_reads)
qed

lemma go_quote_inj: "go_quote a = go_quote b \<Longrightarrow> a = b"
  by (rule sql_literal.enc_inj) simp_all

text \<open>C14: the statements that store and delete a dashboard are read by the server's lexer as the fixed
  words of the statement with one string token for each of its texts, whose content is the text
  itself: no id, name, configuration or time, whatever quotes it contains, can add to the statement.\<close>

theorem dashboard_statements_read:
  "tok_texts (tokenize (upsert_sql i name config updated)) = Some
     [(TokIdent, ''INSERT''), (TokIdent, ''INTO''), (TokIdent, ''_dashboards''), (TokIdent, ''VALUES''),
      (TokLParen, ''(''), (TokString, i), (TokComma, '',''), (TokString, name), (TokComma, '',''),
      (TokString, config), (TokComma, '',''), (TokString, updated), (TokRParen, '')''), (TokEOF, [])] \<and>
   tok_texts (tokenize (delete_sql i)) = Some
     [(TokIdent, ''DELETE''), (TokIdent, ''FROM''), (TokIdent, ''_dashboards''), (TokIdent, ''WHERE''),
      (TokIdent, ''id''), (TokOp, ''=''), (TokString, i), (TokEOF, [])]"
proof -
  have q: "reads_as (go_quote v @ CHR '','' # CHR '' '' # r) ((TokString, v) # (TokComma, '','') # ts)"
    if "reads_as r ts" for v r ts
    using that by (intro reads_go_quote reads_punct reads_blank) simp_all
  have l: "reads_as (go_quote v @ '')'') [(TokString, v), (TokRParen, '')''), (TokEOF, [])]" for v
    by (intro reads_go_quote reads_punct reads_end) simp
  have e: "reads_as (go_quote v @ []) [(TokString, v), (TokEOF, [])]" for v
    by (intro reads_go_quote reads_end) simp
  have w: "sql_word ''INSERT''" "sql_word ''INTO''" "sql_word ''_dashboards''" "sql_word ''VALUES''"
    "sql_word ''DELETE''" "sql_word ''FROM''" "sql_word ''WHERE''" "sql_word ''id''" by code_simp+
  note u = reads_word [OF w(1) reads_word [OF w(2) reads_word [OF w(3) reads_word [OF w(4)
      reads_punct(2) [OF q [OF q [OF q [OF l]]]]]]]]
  note d = reads_word [OF w(5) reads_word [OF w(6) reads_word [OF w(3) reads_word [OF w(7) reads_word [OF w(8)
      reads_equals [OF reads_blank [OF e]]]]]]]
  show ?thesis
    using tokenize_reads [OF u, of i name config updated] tokenize_reads [OF d, of i]
    by (simp add: upsert_sql_def delete_sql_def dashboardsTable_def)
qed

text \<open>The table is created at most once, and a failure is kept for good: from then on every list, create
  and update is answered with that error without asking the backend, while deletions still go to it.\<close>

lemma ensure_error_sticks:
  assumes "ds_once s" and "ds_err s = Some e"
  shows "handleDashboardsList handle s = (Dash_error 500 e, s)"
    and "rq_name d \<noteq> [] \<Longrightarrow> rq_config d \<noteq> [] \<Longrightarrow> handleDashboardUpdate handle i updated (Inr d) s = (Dash_error 500 e, s)"
    and "rq_name d \<noteq> [] \<Longrightarrow> rq_config d \<noteq> [] \<Longrightarrow> handleDashboardCreate handle n updated (Inr d) s = (Dash_error 500 e, s)"
  using assms by (simp_all add: handleDashboardsList_def handleDashboardUpdate_def handleDashboardCreate_def
      save_dashboard_def ensureDashboards_def Let_def)

end
