(* ===== verification/HttpServer.thy ===== *)
theory HttpServer
  imports Api JsDate DashboardStore
begin

section \<open>The HTTP server of the console (\<open>ui/ui.go\<close>)\<close>

text \<open>
  The routes of the server, with the matching rules of the library's mux that they use, the bodies of the
  handlers that run a statement, answer a list or insert rows, and the interval of the live tail. The order of the
  keys of an object is of no account. A
  request body arrives decoded, or as the message of the decoder's error; the decoder's message for a
  value of another type (\<open>mismatch\<close>) and the text of a number that is no integer (\<open>%g\<close>) are parameters. The Prometheus page and the headers are not modelled.
\<close>

subsection \<open>Percent-decoding\<close>

fun path_unescape :: "string \<Rightarrow> string option" where
  "path_unescape [] = Some []"
| "path_unescape (c # s) =
     (if c = CHR ''%'' then
        (case s of
           a # b # r \<Rightarrow>
             (case (hex_value a, hex_value b) of
                (Some h, Some l) \<Rightarrow> map_option ((#) (char_of (16 * h + l))) (path_unescape r)
              | _ \<Rightarrow> None)
         | _ \<Rightarrow> None)
      else map_option ((#) c) (path_unescape s))"

definition unescape_segment :: "string \<Rightarrow> string" where
  "unescape_segment s = (case path_unescape s of Some t \<Rightarrow> t | None \<Rightarrow> s)"

definition query_unescape :: "string \<Rightarrow> string option" where
  "query_unescape s = path_unescape (map (\<lambda>c. if c = CHR ''+'' then CHR '' '' else c) s)"

text \<open>\<open>r.URL.Query().Get(name)\<close>: the first value of the name, or the empty string.\<close>

definition query_param :: "string \<Rightarrow> string \<Rightarrow> string" where
  "query_param name query =
     (let pairs = List.map_filter (\<lambda>p. case cut_at CHR ''='' p of (k, v) \<Rightarrow>
            (if p = [] \<or> CHR '';'' \<in> set p then None
             else case (query_unescape k, query_unescape v) of (Some k', Some v') \<Rightarrow> Some (k', v') | _ \<Rightarrow> None))
          (split_on CHR ''&'' query)
      in case map_of pairs name of Some v \<Rightarrow> v | None \<Rightarrow> [])"

subsection \<open>Routes\<close>

datatype handler =
    H_query | H_admin | H_tables | H_shards | H_nodes | H_metrics | H_prom | H_health | H_dashboards
  | H_dashboard_create | H_dashboard_update | H_dashboard_delete | H_widget | H_ingest | H_tail | H_static

datatype segment = Lit string | Wild

definition api_path :: "string list \<Rightarrow> segment list" where
  "api_path ws = map Lit ([''api'', ''v1''] @ ws)"

definition routes :: "(http_method \<times> segment list \<times> handler) list" where
  "routes =
    [(POST, api_path [''query''], H_query),
     (POST, api_path [''admin''], H_admin),
     (GET, api_path [''tables''], H_tables),
     (GET, api_path [''shards''], H_shards),
     (GET, api_path [''nodes''], H_nodes),
     (GET, api_path [''metrics''], H_metrics),
     (GET, [Lit ''metrics''], H_prom),
     (GET, api_path [''health''], H_health),
     (GET, api_path [''dashboards''], H_dashboards),
     (POST, api_path [''dashboards''], H_dashboard_create),
     (PUT, api_path [''dashboards''] @ [Wild], H_dashboard_update),
     (DELETE, api_path [''dashboards''] @ [Wild], H_dashboard_delete),
     (POST, api_path [''widget'', ''query''], H_widget),
     (POST, api_path [''ingest''], H_ingest),
     (GET, api_path [''tail''], H_tail)]"

text \<open>A pattern against the segments of a path: the value of the wildcard, which is never empty.\<close>

fun match_segments :: "segment list \<Rightarrow> string list \<Rightarrow> string list option" where
  "match_segments [] [] = Some []"
| "match_segments (Lit w # ps) (x # xs) = (if unescape_segment x = w then match_segments ps xs else None)"
| "match_segments (Wild # ps) (x # xs) =
     (if x = [] then None else map_option ((#) (unescape_segment x)) (match_segments ps xs))"
| "match_segments _ _ = None"

text \<open>The mux redirects a path with an empty, \<open>.\<close> or \<open>..\<close> segment; no two routes match one request.\<close>

definition clean_path :: "string \<Rightarrow> bool" where
  "clean_path p \<longleftrightarrow> p \<noteq> [] \<and> hd p = CHR ''/'' \<and>
     (let xs = split_on CHR ''/'' (tl p) in list_all (\<lambda>x. x \<noteq> [] \<and> x \<noteq> ''.'' \<and> x \<noteq> ''..'') (butlast xs) \<and>
       last xs \<noteq> ''.'' \<and> last xs \<noteq> ''..'')"

fun first_route :: "http_method \<Rightarrow> string list \<Rightarrow> (http_method \<times> segment list \<times> handler) list \<Rightarrow> handler \<times> string list" where
  "first_route m xs [] = (H_static, [])"
| "first_route m xs ((m', ps, h) # rs) =
     (if m = m' then (case match_segments ps xs of Some vs \<Rightarrow> (h, vs) | None \<Rightarrow> first_route m xs rs)
      else first_route m xs rs)"

text \<open>\<open>None\<close> is a redirect.\<close>

definition dispatch :: "http_request \<Rightarrow> (handler \<times> string list) option" where
  "dispatch r =
     (let p = fst (cut_at CHR ''?'' (req_path r))
      in if clean_path p then Some (first_route (req_method r) (split_on CHR ''/'' (tl p)) routes) else None)"

subsection \<open>Bodies\<close>

text \<open>A string field of a decoded body: missing and \<open>null\<close> give the empty string, another type is an error.\<close>

definition string_field :: "string \<Rightarrow> json \<Rightarrow> string option" where
  "string_field k body =
     (case body of
        JObj kvs \<Rightarrow> (case map_of kvs k of None \<Rightarrow> Some [] | Some JNull \<Rightarrow> Some [] | Some (JStr s) \<Rightarrow> Some s | _ \<Rightarrow> None)
      | JNull \<Rightarrow> Some []
      | _ \<Rightarrow> None)"

record result_payload =
  rp_type :: string
  rp_columns :: "string list option"
  rp_rows :: "string list list option"
  rp_affected :: "64 word"
  rp_note :: string

record backend_response =
  br_ok :: bool
  br_error :: string
  br_result :: "result_payload option"

text \<open>A nil slice is \<open>null\<close> on the wire.\<close>

definition slice_json :: "('a \<Rightarrow> json) \<Rightarrow> 'a list option \<Rightarrow> json" where
  "slice_json f xs = (case xs of None \<Rightarrow> JNull | Some ys \<Rightarrow> JArr (map f ys))"

definition result_json :: "result_payload option \<Rightarrow> json" where
  "result_json r =
     (case r of
        None \<Rightarrow> JObj [(''type'', JStr ''ok'')]
      | Some p \<Rightarrow> JObj
          [(''affected'', JNum (fl (of_int (sint (rp_affected p))))),
           (''columns'', slice_json JStr (rp_columns p)),
           (''note'', JStr (rp_note p)),
           (''rows'', slice_json (\<lambda>row. JArr (map JStr row)) (rp_rows p)),
           (''type'', JStr (rp_type p))])"

definition json_reply :: "nat \<Rightarrow> json \<Rightarrow> http_response" where
  "json_reply code body = \<lparr>http_ok = (200 \<le> code \<and> code < 300), http_status = code, http_body = Some body\<rparr>"

definition error_reply :: "nat \<Rightarrow> string \<Rightarrow> http_response" where
  "error_reply code e = json_reply code (JObj [(''error'', JStr e), (''ok'', JBool False)])"

type_synonym 'b sql_backend = "string \<Rightarrow> 'b \<Rightarrow> backend_response \<times> 'b"

definition execSQL :: "'b sql_backend \<Rightarrow> string \<Rightarrow> 'b \<Rightarrow> http_response \<times> 'b" where
  "execSQL handle sql b =
     (case handle sql b of
        (resp, b') \<Rightarrow>
          (if \<not> br_ok resp then error_reply 400 (br_error resp)
           else json_reply 200 (JObj [(''ok'', JBool True), (''result'', result_json (br_result resp))]), b'))"

text \<open>\<open>handleQuery\<close> and \<open>handleAdmin\<close>: the name of the field that holds the statement is all they differ in.\<close>

definition sql_handler ::
    "(json \<Rightarrow> string) \<Rightarrow> 'b sql_backend \<Rightarrow> string \<Rightarrow> string + json \<Rightarrow> 'b \<Rightarrow> http_response \<times> 'b" where
  "sql_handler mismatch handle k body b =
     (case body of
        Inl e \<Rightarrow> (error_reply 400 (''bad json: '' @ e), b)
      | Inr j \<Rightarrow>
          (case string_field k j of
             None \<Rightarrow> (error_reply 400 (''bad json: '' @ mismatch j), b)
           | Some sql \<Rightarrow> execSQL handle sql b))"

definition handleQuery ::
    "(json \<Rightarrow> string) \<Rightarrow> 'b sql_backend \<Rightarrow> string + json \<Rightarrow> 'b \<Rightarrow> http_response \<times> 'b" where
  "handleQuery mismatch handle = sql_handler mismatch handle ''sql''"

definition handleAdmin ::
    "(json \<Rightarrow> string) \<Rightarrow> 'b sql_backend \<Rightarrow> string + json \<Rightarrow> 'b \<Rightarrow> http_response \<times> 'b" where
  "handleAdmin mismatch handle = sql_handler mismatch handle ''cmd''"

definition handleShards :: "(string \<Rightarrow> string + json) \<Rightarrow> string \<Rightarrow> http_response" where
  "handleShards shards query =
     (let table = query_param ''table'' query
      in if table = [] then error_reply 400 ''missing ?table=''
         else case shards table of
                Inl e \<Rightarrow> error_reply 404 e
              | Inr xs \<Rightarrow> json_reply 200 (JObj [(''ok'', JBool True), (''shards'', xs)]))"

definition list_reply :: "string \<Rightarrow> json \<Rightarrow> http_response" where
  "list_reply k xs = json_reply 200 (JObj [(''ok'', JBool True), (k, xs)])"

subsection \<open>Bulk insertion\<close>

record ingest_request =
  ig_table :: string
  ig_columns :: "string list"
  ig_rows :: "json list list"

definition decode_list :: "(json \<Rightarrow> 'a option) \<Rightarrow> string \<Rightarrow> json \<Rightarrow> 'a list option" where
  "decode_list f k body =
     (case prop_of body k of
        None \<Rightarrow> Some []
      | Some JNull \<Rightarrow> Some []
      | Some (JArr vs) \<Rightarrow> those (map f vs)
      | _ \<Rightarrow> None)"

definition decode_ingest :: "json \<Rightarrow> ingest_request option" where
  "decode_ingest body =
     (case (string_field ''table'' body,
            decode_list (\<lambda>v. case v of JStr s \<Rightarrow> Some s | JNull \<Rightarrow> Some [] | _ \<Rightarrow> None) ''columns'' body,
            decode_list (\<lambda>v. case v of JArr vs \<Rightarrow> Some vs | JNull \<Rightarrow> Some [] | _ \<Rightarrow> None) ''rows'' body) of
        (Some t, Some cs, Some rs) \<Rightarrow> Some \<lparr>ig_table = t, ig_columns = cs, ig_rows = rs\<rparr>
      | _ \<Rightarrow> None)"

text \<open>\<open>int64(v)\<close> of a whole number; outside the range the language leaves it open, amd64 gives the least integer.\<close>

definition go_int64 :: "rat \<Rightarrow> int" where
  "go_int64 q = (if - (2 ^ 63) \<le> q \<and> q < 2 ^ 63 then \<lfloor>q\<rfloor> else - (2 ^ 63))"

definition int_text :: "int \<Rightarrow> string" where
  "int_text i = (if i < 0 then CHR ''-'' # nat_str (nat (- i)) else nat_str (nat i))"

fun writeLiteral :: "(rat \<Rightarrow> string) \<Rightarrow> json \<Rightarrow> string option" where
  "writeLiteral fmt_g JNull = Some ''NULL''"
| "writeLiteral fmt_g (JStr s) = Some (go_quote s)"
| "writeLiteral fmt_g (JNum (Fin q)) = Some (if of_int \<lfloor>q\<rfloor> = q then int_text (go_int64 q) else fmt_g q)"
| "writeLiteral fmt_g (JBool b) = Some (if b then ''TRUE'' else ''FALSE'')"
| "writeLiteral fmt_g v = None"

definition row_sql :: "(rat \<Rightarrow> string) \<Rightarrow> json list \<Rightarrow> string option" where
  "row_sql fmt_g row = map_option (\<lambda>ls. ''('' @ join_on '','' ls @ '')'') (those (map (writeLiteral fmt_g) row))"

definition ingest_sql :: "(rat \<Rightarrow> string) \<Rightarrow> ingest_request \<Rightarrow> string option" where
  "ingest_sql fmt_g r =
     map_option (\<lambda>rows. ''INSERT INTO '' @ ig_table r @
         (if ig_columns r \<noteq> [] then '' ('' @ join_on '','' (ig_columns r) @ '')'' else []) @
         '' VALUES '' @ join_on '','' rows)
       (those (map (row_sql fmt_g) (ig_rows r)))"

text \<open>The Go type of the first cell that has no literal.\<close>

definition bad_cell_type :: "json list list \<Rightarrow> string" where
  "bad_cell_type rows =
     (case List.find (\<lambda>v. case v of JArr vs \<Rightarrow> True | JObj kvs \<Rightarrow> True | _ \<Rightarrow> False) (concat rows) of
        Some (JArr vs) \<Rightarrow> ''[]interface {}''
      | _ \<Rightarrow> ''map[string]interface {}'')"

definition handleIngest ::
    "(rat \<Rightarrow> string) \<Rightarrow> (json \<Rightarrow> string) \<Rightarrow> 'b sql_backend \<Rightarrow> string + json \<Rightarrow> 'b \<Rightarrow> http_response \<times> 'b" where
  "handleIngest fmt_g mismatch handle body b =
     (case body of
        Inl e \<Rightarrow> (error_reply 400 (''bad json: '' @ e), b)
      | Inr j \<Rightarrow>
          (case decode_ingest j of
             None \<Rightarrow> (error_reply 400 (''bad json: '' @ mismatch j), b)
           | Some r \<Rightarrow>
               if ig_table r = [] then (error_reply 400 ''missing table'', b)
               else if 10000 < length (ig_rows r) then (error_reply 400 ''too many rows (max 10000)'', b)
               else case ingest_sql fmt_g r of
                      None \<Rightarrow> (error_reply 400 (''unsupported cell type '' @ bad_cell_type (ig_rows r)), b)
                    | Some sql \<Rightarrow>
                        (case handle sql b of
                           (resp, b') \<Rightarrow>
                             (if \<not> br_ok resp then error_reply 400 (br_error resp)
                              else json_reply 200 (JObj [(''affected'', JNum (case br_result resp of
                                       None \<Rightarrow> Fin 0 | Some p \<Rightarrow> fl (of_int (sint (rp_affected p))))),
                                     (''ok'', JBool True)]), b'))))"

subsection \<open>The interval of the live tail\<close>

text \<open>\<open>None\<close> is an interval that does not parse; the ticker panics on a step that is not positive.\<close>

definition tail_interval :: "jsnum option \<Rightarrow> jsnum" where
  "tail_interval x =
     (let i = (case x of None \<Rightarrow> Fin 2 | Some v \<Rightarrow> if num_le v (Fin 0) then Fin 2 else v)
      in if num_le i (Fin 30) \<or> i = JNaN then i else Fin 30)"

definition tail_step :: "jsnum option \<Rightarrow> int option" where
  "tail_step x =
     (case tail_interval x of
        Fin q \<Rightarrow> (case fl (q * 10 ^ 9) of Fin p \<Rightarrow> (if \<lfloor>p\<rfloor> \<le> 0 then None else Some \<lfloor>p\<rfloor>) | _ \<Rightarrow> None)
      | _ \<Rightarrow> None)"

subsection \<open>The console's requests\<close>

lemma path_unescape_encode: "path_unescape (encodeURIComponent s) = Some s"
proof (induction s)
  case (Cons c s)
  have e: "encodeURIComponent (c # s) = (if unreserved c then [c] else pct (byte_of c)) @ encodeURIComponent s"
    by (simp add: encodeURIComponent_def)
  have "16 * (byte_of c div 16) + byte_of c mod 16 = byte_of c" by simp
  moreover have "hex_value (hex_digit (byte_of c div 16)) = Some (byte_of c div 16)"
    "hex_value (hex_digit (byte_of c mod 16)) = Some (byte_of c mod 16)"
    using byte_of_lt [of c] by (simp_all add: hex_value_digit less_mult_imp_div_less)
  ultimately show ?case using Cons unreserved_not_pct unfolding e by (auto simp: pct_def)
qed simp

lemma query_unescape_encode: "query_unescape (encodeURIComponent s) = Some s"
proof -
  have plus: "\<not> unreserved CHR ''+''" by (simp add: unreserved_def unreserved_codes_def)
  have "map (\<lambda>c. if c = CHR ''+'' then CHR '' '' else c) (encodeURIComponent s) = encodeURIComponent s"
    using encode_chars [of "CHR ''+''" s] plus by (intro map_idI) auto
  then show ?thesis by (simp add: query_unescape_def path_unescape_encode)
qed

definition plain_id :: "string \<Rightarrow> bool" where
  "plain_id d \<longleftrightarrow> d \<noteq> [] \<and> list_all unreserved d \<and> d \<noteq> ''.'' \<and> d \<noteq> ''..''"

lemma plain_id_chars:
  assumes "plain_id d"
  shows "CHR ''/'' \<notin> set d" and "CHR ''?'' \<notin> set d" and "unescape_segment d = d"
proof -
  have u: "list_all unreserved d" using assms by (simp add: plain_id_def)
  then show "CHR ''/'' \<notin> set d" "CHR ''?'' \<notin> set d"
    by (auto simp: list_all_iff unreserved_def unreserved_codes_def)
  have "encodeURIComponent d = d" using u by (induction d) (simp_all add: encodeURIComponent_def)
  then show "unescape_segment d = d" using path_unescape_encode [of d] by (simp add: unescape_segment_def)
qed

lemma cut_at_none: "c \<notin> set p \<Longrightarrow> cut_at c p = (p, [])"
  by (induction p) (auto simp: cut_at_def)

lemmas dispatching =
  dispatch_def clean_path_def routes_def api_path_def unescape_segment_def cut_at_none Let_def

lemma dispatch_dashboard:
  assumes "plain_id d"
  shows "dispatch \<lparr>req_method = PUT, req_path = ''/api/v1/dashboards/'' @ d, req_body = b\<rparr> = Some (H_dashboard_update, [d])"
    and "dispatch \<lparr>req_method = DELETE, req_path = ''/api/v1/dashboards/'' @ d, req_body = b\<rparr> = Some (H_dashboard_delete, [d])"
proof -
  note c = plain_id_chars [OF assms]
  have s: "split_on CHR ''/'' (tl (''/api/v1/dashboards/'' @ d)) = [''api'', ''v1'', ''dashboards'', d]"
    using split_on_no_sep [OF c(1)] by simp
  have p: "fst (cut_at CHR ''?'' (''/api/v1/dashboards/'' @ d)) = ''/api/v1/dashboards/'' @ d"
    using c(2) by (subst cut_at_none) simp_all
  have k: "clean_path (''/api/v1/dashboards/'' @ d)"
    using assms unfolding clean_path_def s Let_def by (simp add: plain_id_def)
  have "dispatch \<lparr>req_method = m, req_path = ''/api/v1/dashboards/'' @ d, req_body = b\<rparr> =
      Some (first_route m [''api'', ''v1'', ''dashboards'', d] routes)" for m
    unfolding dispatch_def http_request.simps p Let_def s using k by (simp only: if_True)
  moreover have "d \<noteq> []" using assms by (simp add: plain_id_def)
  ultimately show "dispatch \<lparr>req_method = PUT, req_path = ''/api/v1/dashboards/'' @ d, req_body = b\<rparr> = Some (H_dashboard_update, [d])"
    "dispatch \<lparr>req_method = DELETE, req_path = ''/api/v1/dashboards/'' @ d, req_body = b\<rparr> = Some (H_dashboard_delete, [d])"
    using c(3) by (simp_all add: routes_def api_path_def unescape_segment_def)
qed

lemma dispatch_fixed:
  "dispatch (api_query sql) = Some (H_query, [])"
  "dispatch (api_admin cmd) = Some (H_admin, [])"
  "dispatch api_tables = Some (H_tables, [])"
  "dispatch api_nodes = Some (H_nodes, [])"
  "dispatch api_metrics = Some (H_metrics, [])"
  "dispatch api_dashboards = Some (H_dashboards, [])"
  "dispatch (api_dashboardCreate nm config) = Some (H_dashboard_create, [])"
  "dispatch (api_widgetQuery sql ttl) = Some (H_widget, [])"
  "dispatch (api_ingest table cols rws) = Some (H_ingest, [])"
  by (simp_all add: dispatching post_def get_req_def api_query_def api_admin_def api_tables_def api_nodes_def
      api_metrics_def api_dashboards_def api_dashboardCreate_def api_widgetQuery_def api_ingest_def)

lemma dispatch_query:
  assumes "CHR ''?'' \<notin> set p"
  shows "dispatch \<lparr>req_method = m, req_path = p @ CHR ''?'' # q, req_body = b\<rparr> =
    dispatch \<lparr>req_method = m, req_path = p, req_body = b\<rparr>"
  using assms by (simp add: dispatch_def cut_at_append cut_at_none)

lemma query_param_last:
  assumes "set name \<inter> {CHR ''='', CHR ''&'', CHR '';'', CHR ''+'', CHR ''%''} = {}"
  shows "query_param name (name @ CHR ''='' # encodeURIComponent v) = v"
proof -
  have n: "CHR ''='' \<notin> set name" "CHR ''&'' \<notin> set name" "CHR '';'' \<notin> set name" using assms by auto
  have semi: "\<not> unreserved CHR '';''" by (simp add: unreserved_def unreserved_codes_def)
  have e: "CHR '';'' \<notin> set (encodeURIComponent v)"
    using encode_chars [of "CHR '';''" v] semi by auto
  have u: "query_unescape name = Some name"
    using assms by (induction name) (auto simp: query_unescape_def)
  have "split_on CHR ''&'' (name @ CHR ''='' # encodeURIComponent v) = [name @ CHR ''='' # encodeURIComponent v]"
    using n(2) encode_no_sep(1) [of v] by (intro split_on_no_sep) auto
  then show ?thesis using n e u
    by (simp add: query_param_def Let_def cut_at_append query_unescape_encode map_filter_simps)
qed

lemma dispatch_shards:
  "dispatch (api_shards table) = Some (H_shards, []) \<and>
   query_param ''table'' (snd (cut_at CHR ''?'' (req_path (api_shards table)))) = table"
proof -
  have p: "req_path (api_shards table) = ''/api/v1/shards'' @ CHR ''?'' # ''table'' @ CHR ''='' # encodeURIComponent table"
    by (simp add: api_shards_def get_req_def)
  have "dispatch (api_shards table) = dispatch \<lparr>req_method = GET, req_path = ''/api/v1/shards'', req_body = None\<rparr>"
    using dispatch_query [of "''/api/v1/shards''" GET "''table'' @ CHR ''='' # encodeURIComponent table" None]
    by (simp add: api_shards_def get_req_def)
  moreover have "dispatch \<lparr>req_method = GET, req_path = ''/api/v1/shards'', req_body = None\<rparr> = Some (H_shards, [])"
    by (simp add: dispatching)
  moreover have "snd (cut_at CHR ''?'' (req_path (api_shards table))) = ''table'' @ CHR ''='' # encodeURIComponent table"
    unfolding p by (subst cut_at_append) simp_all
  ultimately show ?thesis using query_param_last [of "''table''" table] by simp
qed

lemma amp_notin_nat_str: "CHR ''&'' \<notin> set (nat_str n)"
  using nat_str_digits [of n] by (auto simp: list_all_iff digit_char_def)

lemma amp_notin_number: "CHR ''&'' \<notin> set (num_to_string x)"
proof -
  have d: "CHR ''&'' \<notin> set (fst (shortest_digits a))" for a
    by (simp add: shortest_digits_def Let_def amp_notin_nat_str)
  have "CHR ''&'' \<notin> set (finite_mag_str a)" for a
    using d [of a] by (auto simp: finite_mag_str_def Let_def repeat_char_def amp_notin_nat_str split_beta
        dest: in_set_takeD in_set_dropD split: if_splits)
  then show ?thesis by (cases x) simp_all
qed

lemma dispatch_tail:
  "dispatch (get_req (tail_url sql i)) = Some (H_tail, []) \<and>
   query_param ''sql'' (snd (cut_at CHR ''?'' (tail_url sql i))) = sql"
proof -
  let ?i = "''interval='' @ num_to_string i" and ?q = "''sql'' @ CHR ''='' # encodeURIComponent sql"
  have p: "tail_url sql i = ''/api/v1/tail'' @ CHR ''?'' # ?i @ CHR ''&'' # ?q"
    by (simp add: tail_url_def)
  have "dispatch (get_req (tail_url sql i)) = dispatch \<lparr>req_method = GET, req_path = ''/api/v1/tail'', req_body = None\<rparr>"
    unfolding get_req_def p by (rule dispatch_query) simp
  moreover have "dispatch \<lparr>req_method = GET, req_path = ''/api/v1/tail'', req_body = None\<rparr> = Some (H_tail, [])"
    by (simp add: dispatching)
  moreover have "snd (cut_at CHR ''?'' (tail_url sql i)) = ?i @ CHR ''&'' # ?q"
    unfolding p by (subst cut_at_append) simp_all
  moreover have "query_param ''sql'' (?i @ CHR ''&'' # r) = query_param ''sql'' r" for r
  proof -
    have s: "split_on CHR ''&'' (?i @ CHR ''&'' # r) = ?i # split_on CHR ''&'' r"
      using amp_notin_number [of i] by (intro split_on_append) simp
    have u: "query_unescape ''interval'' = Some ''interval''" by (simp add: query_unescape_def)
    have "cut_at CHR ''='' ?i = (''interval'', num_to_string i)"
      using cut_at_append [of "CHR ''=''" "''interval''" "num_to_string i"] by simp
    then show ?thesis unfolding query_param_def s Let_def by (simp add: map_filter_simps u split: option.split)
  qed
  ultimately show ?thesis using query_param_last [of "''sql''" sql] by simp
qed

text \<open>The ids the server makes are plain.\<close>

lemma made_id_plain: "plain_id (''d'' @ nat_str n)"
proof -
  have "unreserved c" if "digit_char c" for c
    using that unfolding digit_char_def unreserved_def unreserved_codes_def by (simp, presburger)
  then have "list_all unreserved (nat_str n)" using nat_str_digits [of n] by (auto simp: list_all_iff)
  then show ?thesis by (simp add: plain_id_def unreserved_def unreserved_codes_def)
qed

lemma created_id:
  "fst (handleDashboardCreate handle nanos updated body s) = Dash_created i \<Longrightarrow> i = ''d'' @ nat_str nanos"
  by (auto simp: handleDashboardCreate_def save_dashboard_def Let_def split: sum.splits prod.splits option.splits if_splits)

text \<open>C21: every request of the client has a handler of its own on the server and carries what the handler
  decodes: a statement its text, whatever characters it has, a shard list the table, the live stream
  its query; a change of a dashboard carries its id when the server made the id, and generally when the id
  is made of the characters that a URL keeps and is not a dot segment. Other ids, which the client does not
  encode, are not part of it.\<close>

theorem requests_reach_handlers:
  "dispatch (api_query sql) = Some (H_query, []) \<and> Option.bind (req_body (api_query sql)) (string_field ''sql'') = Some sql \<and>
    dispatch (api_admin cmd) = Some (H_admin, []) \<and> Option.bind (req_body (api_admin cmd)) (string_field ''cmd'') = Some cmd \<and>
    dispatch api_tables = Some (H_tables, []) \<and> dispatch api_nodes = Some (H_nodes, []) \<and>
    dispatch api_metrics = Some (H_metrics, []) \<and> dispatch api_dashboards = Some (H_dashboards, []) \<and>
    dispatch (api_shards table) = Some (H_shards, []) \<and>
    query_param ''table'' (snd (cut_at CHR ''?'' (req_path (api_shards table)))) = table \<and>
    dispatch (api_dashboardCreate nm config) = Some (H_dashboard_create, []) \<and>
    (case fst (handleDashboardCreate handle nanos updated body st) of
       Dash_created i \<Rightarrow> dispatch (api_dashboardUpdate i nm config) = Some (H_dashboard_update, [i]) \<and>
         dispatch (api_dashboardDelete i) = Some (H_dashboard_delete, [i])
     | _ \<Rightarrow> True) \<and>
    (plain_id did \<longrightarrow> dispatch (api_dashboardUpdate did nm config) = Some (H_dashboard_update, [did]) \<and>
      dispatch (api_dashboardDelete did) = Some (H_dashboard_delete, [did])) \<and>
    dispatch (api_widgetQuery sql ttl) = Some (H_widget, []) \<and>
    Option.bind (req_body (api_widgetQuery sql ttl)) (string_field ''sql'') = Some sql \<and>
    dispatch (api_ingest table cols rws) = Some (H_ingest, []) \<and>
    dispatch (get_req (tail_url sql i)) = Some (H_tail, []) \<and>
    query_param ''sql'' (snd (cut_at CHR ''?'' (tail_url sql i))) = sql"
proof -
  have "string_field ''sql'' (JObj ((''sql'', JStr sql) # kvs)) = Some sql" "string_field ''cmd'' (JObj [(''cmd'', JStr cmd)]) = Some cmd"
    for kvs by (simp_all add: string_field_def)
  then have b: "Option.bind (req_body (api_query sql)) (string_field ''sql'') = Some sql"
    "Option.bind (req_body (api_admin cmd)) (string_field ''cmd'') = Some cmd"
    "Option.bind (req_body (api_widgetQuery sql ttl)) (string_field ''sql'') = Some sql"
    by (simp_all add: api_query_def api_admin_def api_widgetQuery_def post_def)
  have d: "dispatch (api_dashboardUpdate did nm config) = Some (H_dashboard_update, [did])"
    "dispatch (api_dashboardDelete did) = Some (H_dashboard_delete, [did])" if "plain_id did" for did
    using dispatch_dashboard [OF that] by (simp_all add: api_dashboardUpdate_def api_dashboardDelete_def put_def)
  have c: "case fst (handleDashboardCreate handle nanos updated body st) of
       Dash_created i \<Rightarrow> dispatch (api_dashboardUpdate i nm config) = Some (H_dashboard_update, [i]) \<and>
         dispatch (api_dashboardDelete i) = Some (H_dashboard_delete, [i])
     | _ \<Rightarrow> True"
    using d made_id_plain created_id [of handle nanos updated body st] by (auto split: dash_reply.split)
  show ?thesis using dispatch_fixed dispatch_shards dispatch_tail b c d by (intro conjI impI; blast)
qed

theorem requests_reach_handlers_witness:
  "dispatch (api_dashboardDelete ''ops'') = Some (H_dashboard_delete, [''ops''])"
proof -
  have "plain_id ''ops''" by (simp add: plain_id_def unreserved_def unreserved_codes_def)
  then show ?thesis using requests_reach_handlers [where did = "''ops''"] by blast
qed

text \<open>The client puts the id of a dashboard into the path as it is: one with a slash is sent to no handler, a question
  mark cuts it off, and what looks like an encoded character arrives decoded.\<close>

lemma other_ids_misread:
  "dispatch (api_dashboardDelete ''a/b'') = Some (H_static, [])"
  "dispatch (api_dashboardDelete ''a?b'') = Some (H_dashboard_delete, [''a''])"
  "dispatch (api_dashboardDelete ''%41'') = Some (H_dashboard_delete, [''A''])"
  by code_simp+

subsection \<open>Answers\<close>

lemma str_list_strings: "str_list (JArr (map JStr xs)) = xs"
  by (induction xs) (simp_all add: str_list_def map_filter_simps)

text \<open>C25: what the page's client makes of the answer to a statement: a failure is thrown with the backend's
  message, or the status when it is empty; a result is read with the type, the rows, the note and the
  number of rows of the backend's payload, with columns and rows missing exactly when the payload has
  none, and only the type \<open>ok\<close> when there is no payload.\<close>

theorem query_answers_typed:
  "let resp = fst (handle sql b); answer = call path (Inr (fst (execSQL handle sql b)))
   in if br_ok resp
      then \<exists>body. answer = Inr body \<and> answer_result body = Some (case br_result resp of
             None \<Rightarrow> \<lparr>qr_type = Some ''ok'', qr_columns = None, qr_rows = None, qr_affected = None, qr_note = None\<rparr>
           | Some p \<Rightarrow> \<lparr>qr_type = Some (rp_type p), qr_columns = rp_columns p, qr_rows = rp_rows p,
               qr_affected = Some (fl (of_int (sint (rp_affected p)))), qr_note = Some (rp_note p)\<rparr>)
      else answer = Inl (ErrorMsg (if br_error resp = [] then request_failed_msg 400 else br_error resp))"
proof (cases "handle sql b")
  case (Pair resp b')
  show ?thesis
  proof (cases "br_ok resp")
    case True
    let ?body = "JObj [(''ok'', JBool True), (''result'', result_json (br_result resp))]"
    have "call path (Inr (fst (execSQL handle sql b))) = Inr ?body"
      using Pair True by (simp add: execSQL_def json_reply_def call_ok_iff js_truthy_def)
    moreover have "map str_list (map (\<lambda>row. JArr (map JStr row)) rows) = rows" for rows
      by (induction rows) (simp_all add: str_list_strings)
    then have "answer_result ?body = Some (case br_result resp of
             None \<Rightarrow> \<lparr>qr_type = Some ''ok'', qr_columns = None, qr_rows = None, qr_affected = None, qr_note = None\<rparr>
           | Some p \<Rightarrow> \<lparr>qr_type = Some (rp_type p), qr_columns = rp_columns p, qr_rows = rp_rows p,
               qr_affected = Some (fl (of_int (sint (rp_affected p)))), qr_note = Some (rp_note p)\<rparr>)"
      by (auto simp: answer_result_def query_result_of_def result_json_def slice_json_def str_list_strings
          split: option.split)
    ultimately show ?thesis using Pair True by simp
  next
    case False
    then show ?thesis using Pair
      by (simp add: execSQL_def error_reply_def json_reply_def call_def str_or_def js_truthy_def)
  qed
qed

subsection \<open>What an insertion says\<close>

fun cell_tokens :: "json \<Rightarrow> (tok_kind \<times> string) list" where
  "cell_tokens JNull = [(TokIdent, ''NULL'')]"
| "cell_tokens (JBool b) = [(TokIdent, if b then ''TRUE'' else ''FALSE'')]"
| "cell_tokens (JNum (Fin q)) =
     (if q < 0 then [(TokOp, ''-''), (TokNumber, nat_str (nat \<lfloor>- q\<rfloor>))] else [(TokNumber, nat_str (nat \<lfloor>q\<rfloor>))])"
| "cell_tokens (JStr s) = [(TokString, s)]"
| "cell_tokens v = []"

text \<open>Cells whose literal is exact: a string, a truth value, \<open>null\<close>, or a whole number that fits.\<close>

fun cell_ok :: "json \<Rightarrow> bool" where
  "cell_ok (JNum (Fin q)) = (of_int \<lfloor>q\<rfloor> = q \<and> \<bar>q\<bar> < 2 ^ 63)"
| "cell_ok (JNum n) = False"
| "cell_ok (JArr vs) = False"
| "cell_ok (JObj kvs) = False"
| "cell_ok v = True"

definition stops :: "string \<Rightarrow> bool" where
  "stops r \<longleftrightarrow> r \<noteq> [] \<and> (hd r = CHR '','' \<or> hd r = CHR '')'')"

lemma stops_Cons [simp]: "stops (CHR '','' # r)" "stops (CHR '')'' # r)"
  by (simp_all add: stops_def)

lemma stops_ends: "stops r \<Longrightarrow> ends_token r"
  by (auto simp: stops_def neq_Nil_conv)

lemma literal_words: "sql_word ''NULL''" "sql_word ''TRUE''" "sql_word ''FALSE''"
  by code_simp+

lemma reads_cell:
  assumes "cell_ok v" and "writeLiteral fmt_g v = Some l" and "stops r" and "reads_as r ts"
  shows "reads_as (l @ r) (cell_tokens v @ ts)"
proof (cases v)
  case JNull
  then show ?thesis using assms reads_ident [OF literal_words(1) stops_ends assms(4)] assms(3) by simp
next
  case (JBool b)
  then show ?thesis using assms(2) reads_ident [OF literal_words(2) stops_ends assms(4)] reads_ident [OF literal_words(3) stops_ends assms(4)] assms(3)
    by (cases b) simp_all
next
  case (JStr s)
  have "hd r \<noteq> CHR 0x27" using assms(3) by (auto simp: stops_def)
  then show ?thesis using assms(2,4) JStr reads_go_quote [of r ts s] by simp
next
  case (JNum n)
  then obtain q where q: "n = Fin q" "of_int \<lfloor>q\<rfloor> = q" "\<bar>q\<bar> < 2 ^ 63" using assms(1) by (cases n) auto
  define i where "i = \<lfloor>q\<rfloor>"
  have "q = of_int i" by (simp only: i_def q(2))
  moreover from this have "rat_of_int \<bar>i\<bar> < rat_of_int (2 ^ 63)" using q(3) by simp
  then have "\<bar>i\<bar> < 2 ^ 63" by (simp only: of_int_less_iff)
  ultimately have i: "q = of_int i" "\<bar>i\<bar> < 2 ^ 63" .
  have l: "l = int_text i" using assms(2) JNum q(1) i by (auto simp: go_int64_def abs_less_iff split: if_splits)
  show ?thesis
  proof (cases "i < 0")
    case True
    then have "nat (- i) < 2 ^ 63" using i(2) by (simp add: nat_less_iff)
    from reads_minus [OF reads_number [OF this stops_ends [OF assms(3)] assms(4)]] show ?thesis
      using True l JNum q(1) i(1) by (simp add: int_text_def flip: of_int_minus)
  next
    case False
    then have "nat i < 2 ^ 63" using i(2) by (simp add: nat_less_iff)
    from reads_number [OF this stops_ends [OF assms(3)] assms(4)] show ?thesis
      using False l JNum q(1) i(1) by (simp add: int_text_def)
  qed
qed (use assms(1) in simp_all)

lemma those_map_Some: "those (map f xs) = Some ys \<Longrightarrow> list_all2 (\<lambda>x y. f x = Some y) xs ys"
  by (induction xs arbitrary: ys) (auto split: option.splits)

lemma those_all: "list_all (\<lambda>x. f x \<noteq> None) xs \<Longrightarrow> \<exists>ys. those (map f xs) = Some ys"
  by (induction xs) (auto split: option.splits)

lemma list_all2_pieces:
  assumes "list_all2 (\<lambda>x y. f x = Some y) xs ls" and "\<And>x l. x \<in> set xs \<Longrightarrow> f x = Some l \<Longrightarrow> piece ends l (tk x)"
  shows "list_all2 (piece ends) ls (map tk xs)"
  using assms by (induction xs ls rule: list_all2_induct) simp_all

lemma piece_row:
  assumes "list_all cell_ok row" and "row_sql fmt_g row = Some l"
  shows "piece (\<lambda>_. True) l ((TokLParen, ''('') # comma_tokens (map cell_tokens row) @ [(TokRParen, '')'')])"
proof -
  obtain ls where ls: "those (map (writeLiteral fmt_g) row) = Some ls" "l = ''('' @ join_on '','' ls @ '')''"
    using assms(2) by (auto simp: row_sql_def)
  have p: "list_all2 (piece stops) ls (map cell_tokens row)"
    by (rule list_all2_pieces [OF those_map_Some [OF ls(1)]])
      (use assms(1) reads_cell in \<open>auto simp: list_all_iff piece_def\<close>)
  show ?thesis unfolding piece_def
  proof (intro allI impI)
    fix r ts assume "reads_as r ts"
    from reads_punct(2) [OF reads_join [OF p _ _ _ reads_punct(3) [OF this]]]
    show "reads_as (l @ r) (((TokLParen, ''('') # comma_tokens (map cell_tokens row) @ [(TokRParen, '')'')]) @ ts)"
      by (simp add: ls(2))
  qed
qed

lemma piece_column: "sql_word w \<Longrightarrow> piece stops w [(TokIdent, w)]"
  unfolding piece_def using reads_ident stops_ends by auto

lemma ingest_sql_reads:
  assumes "sql_word (ig_table r)" and "list_all sql_word (ig_columns r)" and "list_all (list_all cell_ok) (ig_rows r)"
    and "ingest_sql fmt_g r = Some sql"
  shows "reads_as sql ([(TokIdent, ''INSERT''), (TokIdent, ''INTO''), (TokIdent, ig_table r)] @
    (if ig_columns r \<noteq> [] then (TokLParen, ''('') # comma_tokens (map (\<lambda>c. [(TokIdent, c)]) (ig_columns r)) @ [(TokRParen, '')'')] else []) @
    (TokIdent, ''VALUES'') #
    comma_tokens (map (\<lambda>row. (TokLParen, ''('') # comma_tokens (map cell_tokens row) @ [(TokRParen, '')'')]) (ig_rows r)) @
    [(TokEOF, [])])" (is "reads_as sql (_ @ ?cols @ _ # ?rows @ _)")
proof -
  obtain rows where rows: "those (map (row_sql fmt_g) (ig_rows r)) = Some rows"
    "sql = ''INSERT INTO '' @ ig_table r @ (if ig_columns r \<noteq> [] then '' ('' @ join_on '','' (ig_columns r) @ '')'' else []) @
      '' VALUES '' @ join_on '','' rows"
    using assms(4) by (auto simp: ingest_sql_def)
  have w: "sql_word ''INSERT''" "sql_word ''INTO''" "sql_word ''VALUES''" by code_simp+
  have "list_all2 (piece (\<lambda>_. True)) rows (map (\<lambda>row. (TokLParen, ''('') # comma_tokens (map cell_tokens row) @ [(TokRParen, '')'')]) (ig_rows r))"
    by (rule list_all2_pieces [OF those_map_Some [OF rows(1)]]) (use assms(3) piece_row in \<open>auto simp: list_all_iff\<close>)
  from reads_join [OF this _ _ _ reads_end] have "reads_as (join_on '','' rows) (?rows @ [(TokEOF, [])])" by simp
  note v = reads_blank [OF reads_word [OF w(3) this]]
  have "list_all2 (piece stops) (ig_columns r) (map (\<lambda>c. [(TokIdent, c)]) (ig_columns r))"
    using assms(2) by (auto simp: list_all2_map2 list_all2_same list_all_iff piece_column)
  from reads_punct(2) [OF reads_join [OF this _ _ _ reads_punct(3) [OF v]]]
  have c: "reads_as (CHR ''('' # join_on '','' (ig_columns r) @ CHR '')'' # '' VALUES '' @ join_on '','' rows)
      ((TokLParen, ''('') # comma_tokens (map (\<lambda>c. [(TokIdent, c)]) (ig_columns r)) @ (TokRParen, '')'') #
       (TokIdent, ''VALUES'') # ?rows @ [(TokEOF, [])])" by simp
  show ?thesis
  proof (cases "ig_columns r = []")
    case True
    then show ?thesis
      using reads_word [OF w(1) reads_word [OF w(2) reads_word [OF assms(1) reads_word [OF w(3) \<open>reads_as (join_on '','' rows) _\<close>]]]]
      by (simp add: rows(2))
  next
    case False
    then show ?thesis using reads_word [OF w(1) reads_word [OF w(2) reads_word [OF assms(1) c]]] by (simp add: rows(2))
  qed
qed

lemma cells_on_wire: "list_all cell_ok row \<Longrightarrow> map json_wire row = row"
proof (induction row)
  case (Cons v row)
  have "cell_ok v \<Longrightarrow> json_wire v = v" by (cases v rule: cell_ok.cases) simp_all
  then show ?case using Cons by simp
qed simp

lemma decode_ingest_request:
  assumes "list_all (list_all cell_ok) rws"
  shows "Option.bind (req_body (api_ingest table cols rws)) decode_ingest =
    Some \<lparr>ig_table = table, ig_columns = cols, ig_rows = rws\<rparr>"
proof -
  have "map json_wire (map JArr rws) = map JArr rws"
    using assms by (induction rws) (simp_all add: cells_on_wire)
  moreover have "map json_wire (map JStr cols) = map JStr cols" by simp
  ultimately have b: "req_body (api_ingest table cols rws) =
      Some (JObj [(''table'', JStr table), (''columns'', JArr (map JStr cols)), (''rows'', JArr (map JArr rws))])"
    by (simp add: api_ingest_def post_def)
  have t: "those (map (\<lambda>v. case v of JStr s \<Rightarrow> Some s | JNull \<Rightarrow> Some [] | _ \<Rightarrow> None) (map JStr cols)) = Some cols"
    by (induction cols) simp_all
  have r: "those (map (\<lambda>v. case v of JArr vs \<Rightarrow> Some vs | JNull \<Rightarrow> Some [] | _ \<Rightarrow> None) (map JArr rws)) = Some rws"
    by (induction rws) simp_all
  show ?thesis unfolding b using t r by (simp add: decode_ingest_def string_field_def decode_list_def comp_def)
qed

lemma ingest_sql_total: "list_all (list_all cell_ok) (ig_rows r) \<Longrightarrow> \<exists>sql. ingest_sql fmt_g r = Some sql"
proof -
  assume a: "list_all (list_all cell_ok) (ig_rows r)"
  have c: "writeLiteral fmt_g v \<noteq> None" if "cell_ok v" for v using that by (cases v rule: cell_ok.cases) simp_all
  have "row_sql fmt_g row \<noteq> None" if "list_all cell_ok row" for row
    using those_all [of "writeLiteral fmt_g" row] c that by (auto simp: row_sql_def list_all_iff)
  then show ?thesis using those_all [of "row_sql fmt_g" "ig_rows r"] a by (auto simp: ingest_sql_def list_all_iff)
qed

text \<open>Bulk insertion: for a table and columns that are plain words, and rows of strings, truth values, nulls and whole
  numbers below \<open>2^63\<close>, at most ten thousand, the backend gets one statement, and its lexer reads it as the
  insertion into that table and these columns with one literal per cell: a string cell is one string
  token with exactly its text, a number its digits.\<close>

lemma ingest_statement_read:
  assumes "sql_word table" and "list_all sql_word cols" and "list_all (list_all cell_ok) rws" and "length rws \<le> 10000"
    and "req_body (api_ingest table cols rws) = Some body"
  shows "\<exists>sql. snd (handleIngest fmt_g mismatch handle (Inr body) b) = snd (handle sql b) \<and>
    tok_texts (tokenize sql) = Some ([(TokIdent, ''INSERT''), (TokIdent, ''INTO''), (TokIdent, table)] @
      (if cols \<noteq> [] then (TokLParen, ''('') # comma_tokens (map (\<lambda>c. [(TokIdent, c)]) cols) @ [(TokRParen, '')'')] else []) @
      (TokIdent, ''VALUES'') #
      comma_tokens (map (\<lambda>row. (TokLParen, ''('') # comma_tokens (map cell_tokens row) @ [(TokRParen, '')'')]) rws) @
      [(TokEOF, [])])"
proof -
  let ?r = "\<lparr>ig_table = table, ig_columns = cols, ig_rows = rws\<rparr>"
  have d: "decode_ingest body = Some ?r" using decode_ingest_request [OF assms(3), of table cols] assms(5) by simp
  obtain sql where sql: "ingest_sql fmt_g ?r = Some sql" using ingest_sql_total [of ?r] assms(3) by auto
  have "table \<noteq> []" using assms(1) by (simp add: sql_word_def)
  then have "snd (handleIngest fmt_g mismatch handle (Inr body) b) = snd (handle sql b)"
    using d sql assms(4) by (simp add: handleIngest_def split: prod.split)
  then show ?thesis using tokenize_reads [OF ingest_sql_reads [OF _ _ _ sql]] assms(1-3) by auto
qed

lemma ingest_statement_read_witness:
  "\<exists>sql body. req_body (api_ingest ''logs'' [''msg'', ''n''] [[JStr [CHR 0x27], JNum (Fin (- 7))]]) = Some body \<and>
     snd (handleIngest (\<lambda>_. []) (\<lambda>_. []) (\<lambda>sql b. (\<lparr>br_ok = True, br_error = [], br_result = None\<rparr>, sql)) (Inr body) []) = sql \<and>
     tok_texts (tokenize sql) = Some [(TokIdent, ''INSERT''), (TokIdent, ''INTO''), (TokIdent, ''logs''), (TokLParen, ''(''),
       (TokIdent, ''msg''), (TokComma, '',''), (TokIdent, ''n''), (TokRParen, '')''), (TokIdent, ''VALUES''), (TokLParen, ''(''),
       (TokString, [CHR 0x27]), (TokComma, '',''), (TokOp, ''-''), (TokNumber, nat_str 7), (TokRParen, '')''), (TokEOF, [])]"
proof -
  let ?h = "\<lambda>sql b. (\<lparr>br_ok = True, br_error = [], br_result = None\<rparr>, sql)"
  have w: "sql_word ''logs''" "list_all sql_word [''msg'', ''n'']" by code_simp+
  have c: "list_all (list_all cell_ok) [[JStr [CHR 0x27], JNum (Fin (- 7))]]" by simp
  have b: "\<exists>body. req_body (api_ingest ''logs'' [''msg'', ''n''] [[JStr [CHR 0x27], JNum (Fin (- 7))]]) = Some body"
    by (simp add: api_ingest_def post_def)
  then show ?thesis using ingest_statement_read [OF w c, where fmt_g = "\<lambda>_. []" and mismatch = "\<lambda>_. []" and handle = ?h and b = "[]"] by (auto simp: comma_def)
qed

text \<open>A whole number out of the range of 64 bits is stored as another number.\<close>

lemma ingest_overflow: "2 ^ 63 \<le> i \<Longrightarrow> writeLiteral fmt_g (JNum (Fin (of_int i))) = Some (int_text (- (2 ^ 63)))"
proof -
  assume "2 ^ 63 \<le> i"
  then have "rat_of_int (2 ^ 63) \<le> rat_of_int i" by (simp only: of_int_le_iff)
  then have "\<not> rat_of_int i < 2 ^ 63" by simp
  then show ?thesis by (simp add: go_int64_def)
qed

text \<open>A positive interval below a nanosecond gives the ticker a step of zero.\<close>

lemma tail_step_zero: "tail_step (Some (Fin (1 / 2 ^ 31))) = None"
proof -
  have "is_double (of_int 1953125 / 2 ^ 22)" by (rule is_double_frac [OF refl]) simp_all
  then have "fl (1 / 2 ^ 31 * 10 ^ 9) = Fin (1953125 / 2 ^ 22)" using fl_exact by simp
  then show ?thesis by (simp add: tail_step_def tail_interval_def Let_def)
qed

end
