(* ===== verification/GoText.thy ===== *)
theory GoText
  imports JsString
begin

section \<open>Text of the server\<close>

text \<open>
  The functions of Go's \<open>strings\<close> package the server applies to a command: \<open>TrimSpace\<close>, \<open>Fields\<close>
  and \<open>Join\<close>. A Go string is its bytes. The white space of the two languages differs: U+0085 is
  white space here and not in the console, U+FEFF the other way round. Matching the byte
  sequence of a white space character is the same as decoding it, because in UTF-8 no such sequence
  starts inside another character.
\<close>

definition go_space :: "nat list list" where
  "go_space = [[9], [10], [11], [12], [13], [32], [194, 133], [194, 160], [225, 154, 128]] @
     map (\<lambda>b. [226, 128, b]) ([128..<139] @ [168, 169, 175]) @ [[226, 129, 159], [227, 128, 128]]"

definition space_len :: "string \<Rightarrow> nat" where
  "space_len s = space_prefix go_space s"

definition go_trim :: "string \<Rightarrow> string" where
  "go_trim s = rev (strip_spaces (map rev go_space) (rev (strip_spaces go_space s)))"

text \<open>\<open>strings.Fields\<close>, with the bytes of the field begun.\<close>

function fields_from :: "string \<Rightarrow> string \<Rightarrow> string list" where
  "fields_from cur [] = (if cur = [] then [] else [cur])"
| "fields_from cur (c # s) =
     (if space_len (c # s) = 0 then fields_from (cur @ [c]) s
      else (if cur = [] then [] else [cur]) @ fields_from [] (drop (space_len (c # s)) (c # s)))"
  by pat_completeness auto
termination
  by (relation "measure (\<lambda>(cur, s). length s)") auto

definition go_fields :: "string \<Rightarrow> string list" where
  "go_fields s = fields_from [] s"

declare fields_from.simps(2) [simp del]

subsection \<open>Matching white space\<close>

lemma go_space_cases:
  "w \<in> set go_space \<Longrightarrow> w \<noteq> [] \<and> (\<forall>b \<in> set (tl w). 128 \<le> b) \<and> (\<forall>b \<in> set w. b \<noteq> 39 \<and> b \<noteq> 44) \<and>
     (hd w < 128 \<longrightarrow> w = [hd w] \<and> hd w < 33)"
proof -
  have "list_all (\<lambda>w. w \<noteq> [] \<and> list_all (\<lambda>b. 128 \<le> b) (tl w) \<and> list_all (\<lambda>b. b \<noteq> 39 \<and> b \<noteq> 44) w \<and>
     (hd w < 128 \<longrightarrow> w = [hd w] \<and> hd w < 33)) go_space"
    by code_simp
  then show "w \<in> set go_space \<Longrightarrow> ?thesis" by (auto simp: list_all_iff)
qed

lemma space_prefix_le: "space_prefix ws s \<le> length s"
  unfolding space_prefix_def
  by (auto split: option.split dest!: find_holds) (metis length_map length_take min.cobounded1 min.commute)

lemma space_prefix_0:
  "[] \<notin> set ws \<Longrightarrow> space_prefix ws s = 0 \<longleftrightarrow> (\<forall>w \<in> set ws. take (length w) (map byte_of s) \<noteq> w)"
proof (cases "List.find (\<lambda>w. take (length w) (map byte_of s) = w) ws")
  case None
  then show ?thesis using None [unfolded find_None_iff] by (auto simp: space_prefix_def)
next
  case (Some w)
  moreover assume "[] \<notin> set ws"
  ultimately show ?thesis using find_in_set [OF Some] find_holds [OF Some]
    by (auto simp: space_prefix_def)
qed

lemma space_prefix_cong:
  assumes "\<And>w. w \<in> set ws \<Longrightarrow> (take (length w) (map byte_of s) = w) = (take (length w) (map byte_of t) = w)"
  shows "space_prefix ws s = space_prefix ws t"
proof -
  have "List.find (\<lambda>w. take (length w) (map byte_of s) = w) ws = List.find (\<lambda>w. take (length w) (map byte_of t) = w) ws"
    using assms by (intro find_cong) auto
  then show ?thesis by (simp add: space_prefix_def)
qed

lemma no_empty_space: "[] \<notin> set go_space"
  using go_space_cases by blast

lemma space_len_0: "space_len s = 0 \<longleftrightarrow> (\<forall>w \<in> set go_space. take (length w) (map byte_of s) \<noteq> w)"
  by (simp add: space_len_def space_prefix_0 no_empty_space)

lemma space_len_le: "space_len s \<le> length s"
  by (simp add: space_len_def space_prefix_le)

text \<open>A visible ASCII character is not white space.\<close>

lemma space_len_visible:
  assumes "32 < byte_of c" and "byte_of c < 128"
  shows "space_len (c # s) = 0"
  unfolding space_len_0
proof
  fix w assume w: "w \<in> set go_space"
  show "take (length w) (map byte_of (c # s)) \<noteq> w"
    using go_space_cases [OF w] assms by (cases w) auto
qed

lemma space_len_blank [simp]: "space_len (CHR '' '' # s) = 1"
proof -
  have f: "List.find (\<lambda>w. take (length w) (32 # bs) = w) go_space = Some [32]" for bs :: "nat list"
    by (simp add: go_space_def)
  show ?thesis by (simp add: space_len_def space_prefix_def f)
qed

text \<open>What follows a text cannot complete a white space character when it starts with an ASCII byte.\<close>

lemma take_boundary_tl:
  "\<forall>x \<in> set w. 128 \<le> x \<Longrightarrow> b < 128 \<Longrightarrow>
   (take (length w) (xs @ b # ys) = w) = (take (length w) xs = (w :: nat list))"
proof (induction w arbitrary: xs)
  case (Cons a w)
  then show ?case by (cases xs) auto
qed simp

lemma take_boundary:
  assumes "\<forall>x \<in> set (tl w). 128 \<le> x" and "w \<noteq> []" and "xs \<noteq> []" and "b < (128::nat)"
  shows "(take (length w) (xs @ b # ys) = w) = (take (length w) xs = w)"
  using assms take_boundary_tl [of "tl w" b "tl xs" ys] by (cases w; cases xs) auto

lemma space_len_boundary:
  assumes "u \<noteq> []" and "byte_of b < 128"
  shows "space_len (u @ b # t) = space_len u"
  unfolding space_len_def
proof (rule space_prefix_cong)
  fix w assume "w \<in> set go_space"
  then show "(take (length w) (map byte_of (u @ b # t)) = w) = (take (length w) (map byte_of u) = w)"
    using take_boundary [of w "map byte_of u" "byte_of b" "map byte_of t"] go_space_cases [of w] assms by simp
qed

subsection \<open>Fields\<close>

lemma fields_visible:
  "32 < byte_of c \<Longrightarrow> byte_of c < 128 \<Longrightarrow> fields_from cur (c # s) = fields_from (cur @ [c]) s"
  by (simp add: fields_from.simps(2) space_len_visible)

lemma fields_blank: "fields_from cur (CHR '' '' # s) = (if cur = [] then [] else [cur]) @ fields_from [] s"
  by (simp add: fields_from.simps(2))

lemma fields_append:
  "fields_from cur (s @ CHR '' '' # t) = fields_from cur s @ fields_from [] t"
proof (induction cur s rule: fields_from.induct)
  case (1 cur)
  then show ?case by (simp add: fields_blank)
next
  case (2 cur c s)
  have l: "space_len (c # s @ CHR '' '' # t) = space_len (c # s)"
    using space_len_boundary [of "c # s" "CHR '' ''" t] by simp
  show ?case
  proof (cases "space_len (c # s) = 0")
    case True
    with l "2.IH"(1) show ?thesis by (simp add: fields_from.simps(2))
  next
    case False
    moreover have "drop (space_len (c # s)) (c # s @ CHR '' '' # t) =
        drop (space_len (c # s)) (c # s) @ CHR '' '' # t"
      using space_len_le [of "c # s"] drop_append [of "space_len (c # s)" "c # s" "CHR '' '' # t"] by simp
    ultimately show ?thesis using l "2.IH"(2) by (simp add: fields_from.simps(2))
  qed
qed

lemma go_fields_append: "go_fields (s @ CHR '' '' # t) = go_fields s @ go_fields t"
  by (simp add: go_fields_def fields_append)

text \<open>A word: a text with no white space in it.\<close>

fun unspaced :: "string \<Rightarrow> bool" where
  "unspaced [] = True"
| "unspaced (c # s) = (space_len (c # s) = 0 \<and> unspaced s)"

definition go_word :: "string \<Rightarrow> bool" where
  "go_word s \<longleftrightarrow> s \<noteq> [] \<and> unspaced s"

lemma fields_unspaced: "unspaced s \<Longrightarrow> cur @ s \<noteq> [] \<Longrightarrow> fields_from cur s = [cur @ s]"
  by (induction s arbitrary: cur) (simp_all add: fields_from.simps(2))

lemma go_fields_word: "go_word s \<Longrightarrow> go_fields s = [s]"
  by (simp add: go_word_def go_fields_def fields_unspaced)

lemma unspaced_visible: "list_all (\<lambda>c. 32 < byte_of c \<and> byte_of c < 128) s \<Longrightarrow> unspaced s"
  by (induction s) (simp_all add: space_len_visible)

lemma go_word_visible: "s \<noteq> [] \<Longrightarrow> list_all (\<lambda>c. 32 < byte_of c \<and> byte_of c < 128) s \<Longrightarrow> go_word s"
  by (simp add: go_word_def unspaced_visible)

text \<open>
  A text that \<open>Join(Fields(s), " ")\<close> gives back: words with one blank between two of them. The
  flag tells that the text before ends inside a word.
\<close>

fun spaced_from :: "bool \<Rightarrow> string \<Rightarrow> bool" where
  "spaced_from inw [] = inw"
| "spaced_from inw (c # s) =
     (if space_len (c # s) = 0 then spaced_from True s else inw \<and> c = CHR '' '' \<and> spaced_from False s)"

definition single_spaced :: "string \<Rightarrow> bool" where
  "single_spaced s = spaced_from False s"

lemma spaced_from_mono: "spaced_from i s \<Longrightarrow> (i \<Longrightarrow> j) \<Longrightarrow> spaced_from j s"
  by (cases s) (auto split: if_splits)

lemma fields_from_ne: "spaced_from (cur \<noteq> []) s \<Longrightarrow> fields_from cur s \<noteq> []"
proof (induction cur s rule: fields_from.induct)
  case (2 cur c s)
  then show ?case by (cases "space_len (c # s) = 0") (auto simp: fields_from.simps(2))
qed simp

lemma join_fields: "spaced_from (cur \<noteq> []) s \<Longrightarrow> join_on '' '' (fields_from cur s) = cur @ s"
proof (induction cur s rule: fields_from.induct)
  case (2 cur c s)
  show ?case
  proof (cases "space_len (c # s) = 0")
    case True
    with 2 show ?thesis by (simp add: fields_from.simps(2))
  next
    case False
    with "2.prems" have c: "c = CHR '' ''" "cur \<noteq> []" "spaced_from False s" by auto
    then have j: "join_on '' '' (fields_from [] s) = s" using False "2.IH"(2) by simp
    have "fields_from [] s \<noteq> []" using fields_from_ne [of "[]" s] c(3) by simp
    then show ?thesis using c j by (cases "fields_from [] s") (auto simp: fields_blank)
  qed
qed simp

lemma join_go_fields: "single_spaced s \<Longrightarrow> join_on '' '' (go_fields s) = s"
  using join_fields [of "[]" s] by (simp add: go_fields_def single_spaced_def)

lemma go_fields_ne: "single_spaced s \<Longrightarrow> go_fields s \<noteq> []"
  using fields_from_ne [of "[]" s] by (simp add: go_fields_def single_spaced_def)

text \<open>Single-spaced texts compose, when an ASCII byte follows.\<close>

lemma spaced_from_append:
  "spaced_from i s \<Longrightarrow> byte_of b < 128 \<Longrightarrow> spaced_from i (s @ b # t) = spaced_from True (b # t)"
proof (induction i s rule: spaced_from.induct)
  case (2 i c s)
  then show ?case using space_len_boundary [of "c # s" b t] by (auto split: if_splits)
qed simp

lemma spaced_from_visible [simp]:
  "32 < byte_of c \<Longrightarrow> byte_of c < 128 \<Longrightarrow> spaced_from i (c # s) = spaced_from True s"
  by (simp add: space_len_visible)

lemma spaced_from_blank: "spaced_from i (CHR '' '' # s) = (i \<and> spaced_from False s)"
  by simp

lemma spaced_from_unspaced: "unspaced s \<Longrightarrow> s \<noteq> [] \<Longrightarrow> spaced_from i s"
proof (induction s arbitrary: i)
  case (Cons c s)
  then show ?case by (cases s) auto
qed simp

subsection \<open>Trimming\<close>

lemma strip_spaces_id: "space_prefix ws s = 0 \<Longrightarrow> strip_spaces ws s = s"
  by (simp add: strip_spaces.simps [of ws s] Let_def)

lemma no_empty_rev: "[] \<notin> set (map rev go_space)"
  using no_empty_space by auto

lemma rev_prefix_0:
  "space_prefix (map rev go_space) (rev s) = 0 \<longleftrightarrow> (\<forall>w \<in> set go_space. \<not> suffix w (map byte_of s))"
proof -
  have "take (length w) (rev xs) = rev w \<longleftrightarrow> suffix w xs" for w xs :: "nat list"
  proof -
    have "take (length w) (rev xs) = rev w \<longleftrightarrow> prefix (rev w) (rev xs)"
      by (metis length_rev take_is_prefix prefix_def append_eq_conv_conj)
    then show ?thesis by (simp add: suffix_to_prefix)
  qed
  note e = this
  have "map byte_of (rev s) = rev (map byte_of s)" by (simp add: rev_map)
  then show ?thesis
    unfolding space_prefix_0 [OF no_empty_rev] by (simp only: set_map ball_simps length_rev e)
qed

lemma go_trim_id:
  assumes "space_len s = 0" and "\<And>w. w \<in> set go_space \<Longrightarrow> \<not> suffix w (map byte_of s)"
  shows "go_trim s = s"
proof -
  have "space_prefix (map rev go_space) (rev s) = 0" using assms(2) rev_prefix_0 by blast
  then show ?thesis using assms(1) by (simp add: go_trim_def strip_spaces_id space_len_def)
qed

lemma go_space_last:
  assumes "w \<in> set go_space"
  shows "last w < 33 \<or> 128 \<le> last w"
  using go_space_cases [OF assms] by (cases w) (auto split: if_splits)

lemma go_trim_visible:
  assumes "32 < byte_of c" "byte_of c < 128" "32 < byte_of d" "byte_of d < 128"
  shows "go_trim (c # s @ [d]) = c # s @ [d]"
proof (rule go_trim_id)
  show "space_len (c # s @ [d]) = 0" using assms by (simp add: space_len_visible)
  fix w assume w: "w \<in> set go_space"
  show "\<not> suffix w (map byte_of (c # s @ [d]))"
  proof
    assume "suffix w (map byte_of (c # s @ [d]))"
    then obtain zs where "(byte_of c # map byte_of s) @ [byte_of d] = zs @ w" by (auto simp: suffix_def)
    moreover have "w \<noteq> []" using go_space_cases [OF w] by blast
    ultimately have "last w = byte_of d" by (metis last_appendR last_snoc)
    then show False using go_space_last [OF w] assms by auto
  qed
qed

lemma go_trim_blank: "go_trim (CHR '' '' # s) = go_trim s"
proof -
  have "space_prefix go_space (CHR '' '' # s) = 1"
    using space_len_blank [of s] by (simp add: space_len_def)
  then show ?thesis by (simp add: go_trim_def strip_spaces.simps [of go_space "CHR '' '' # s"] Let_def)
qed

end
