(* ===== verification/KeyCodec.thy ===== *)
theory KeyCodec
  imports JsNumber "HOL-Library.Word"
begin

section \<open>Encoded primary keys (\<open>storage/ops.go\<close>)\<close>

text \<open>
  The byte string that stands for the values of a primary key in the ranges of the shards. Go compares
  strings byte by byte, which is the order of \<open>string\<close> here. An integer, a timestamp (microseconds)
  and the bits of a double are 64-bit words. A null is encoded as the zero value of its type.
\<close>

subsection \<open>Encoding\<close>

datatype key_value = KInt "64 word" | KFloat "64 word" | KString string | KBool bool | KTime "64 word"

fun key_type :: "key_value \<Rightarrow> nat" where
  "key_type (KInt i) = 0"
| "key_type (KFloat f) = 1"
| "key_type (KString s) = 2"
| "key_type (KBool b) = 3"
| "key_type (KTime i) = 4"

definition be_bytes :: "64 word \<Rightarrow> string" where
  "be_bytes u = map (\<lambda>i. char_of (unat (drop_bit (56 - i * 8) u))) [0..<8]"

definition flip_sign :: "64 word \<Rightarrow> 64 word" where
  "flip_sign i = i + push_bit 63 1"

definition mathFloatToSortable :: "64 word \<Rightarrow> 64 word" where
  "mathFloatToSortable u = (if bit u 63 then not u else or u (push_bit 63 1))"

fun key_body :: "key_value \<Rightarrow> string" where
  "key_body (KInt i) = be_bytes (flip_sign i)"
| "key_body (KFloat f) = be_bytes (mathFloatToSortable f)"
| "key_body (KString s) = s @ [char_of (0::nat)]"
| "key_body (KBool b) = [char_of (if b then 2 else 1 :: nat)]"
| "key_body (KTime i) = be_bytes (flip_sign i)"

definition key_cell :: "key_value \<Rightarrow> string" where
  "key_cell v = [char_of (key_type v), char_of (255::nat)] @ key_body v @ [char_of (255::nat)]"

definition encodeKey :: "key_value list \<Rightarrow> string" where
  "encodeKey vals = concat (map key_cell vals)"

subsection \<open>The order of the values\<close>

text \<open>
  The value of the bits of a double without its sign: subnormal below \<open>2 ^ 52\<close>; the bits of infinity give
  \<open>2 ^ 1024\<close>, above every finite double.
\<close>

definition float_mag :: "nat \<Rightarrow> rat" where
  "float_mag n =
     (let e = n div 2 ^ 52; m = n mod 2 ^ 52
      in of_nat (if e = 0 then m else 2 ^ 52 + m) * pow2 (int (max e 1) - 1075))"

definition float_sign :: "64 word \<Rightarrow> bool" where
  "float_sign u = bit u 63"

definition float_val :: "64 word \<Rightarrow> rat" where
  "float_val u =
     (let a = float_mag (unat u mod 2 ^ 63) in if float_sign u then - a else a)"

text \<open>The order of two values of one type; the two zeros of a double are ordered, negative first.\<close>

fun value_less :: "key_value \<Rightarrow> key_value \<Rightarrow> bool" where
  "value_less (KInt i) (KInt j) = (sint i < sint j)"
| "value_less (KFloat f) (KFloat g) =
     (float_val f < float_val g \<or> float_val f = float_val g \<and> float_sign f \<and> \<not> float_sign g)"
| "value_less (KString s) (KString t) = (s < t)"
| "value_less (KBool a) (KBool b) = (\<not> a \<and> b)"
| "value_less (KTime i) (KTime j) = (sint i < sint j)"
| "value_less _ _ = False"

fun values_less :: "key_value list \<Rightarrow> key_value list \<Rightarrow> bool" where
  "values_less (v # vs) (w # ws) = (value_less v w \<or> v = w \<and> values_less vs ws)"
| "values_less _ _ = False"

text \<open>The strings for which the order is kept: those without a zero byte.\<close>

fun key_value_ok :: "key_value \<Rightarrow> bool" where
  "key_value_ok (KString s) = (char_of (0::nat) \<notin> set s)"
| "key_value_ok _ = True"

subsection \<open>Lexicographic order\<close>

lemma less_append_cancel: "(u @ s < u @ t) = (s < (t :: string))"
  by (induction u) auto

lemma less_split:
  "s < (t :: string) \<longleftrightarrow> (\<exists>c r. t = s @ c # r) \<or> (\<exists>u a b v w. a < b \<and> s = u @ a # v \<and> t = u @ b # w)"
  by (auto simp: list_less_def lexord_def)

lemma less_append_same_length:
  assumes "length x = length y" and "x < y"
  shows "x @ s < y @ (t :: string)"
proof -
  from assms(2) consider c r where "y = x @ c # r" | u a b v w where "a < b" "x = u @ a # v" "y = u @ b # w"
    by (auto simp: less_split)
  then show ?thesis
  proof cases
    case 1
    then show ?thesis using assms(1) by simp
  next
    case 2
    then show ?thesis by (simp add: less_append_cancel)
  qed
qed

fun be_digits :: "nat \<Rightarrow> nat \<Rightarrow> nat list" where
  "be_digits 0 a = []"
| "be_digits (Suc n) a = a div 256 ^ n mod 256 # be_digits n a"

lemma length_be_digits [simp]: "length (be_digits n a) = n"
  by (induction n) auto

lemma be_digits_mod: "be_digits n (a mod 256 ^ n) = be_digits n a"
proof -
  have "be_digits k (a mod 256 ^ n) = be_digits k a" if "k \<le> n" for k
    using that
  proof (induction k)
    case (Suc k)
    have "a mod 256 ^ n div 256 ^ k mod 256 = a div 256 ^ k mod 256"
    proof -
      have n: "(256::nat) ^ n = 256 ^ k * 256 ^ (n - k)" using Suc.prems by (simp add: power_add [symmetric])
      have d: "(256::nat) dvd 256 ^ (n - k)" using Suc.prems by (simp add: dvd_power)
      have "a mod 256 ^ n div 256 ^ k = a div 256 ^ k mod 256 ^ (n - k)"
        unfolding n by (simp add: mod_mult2_eq)
      then show ?thesis using d by (simp add: mod_mod_cancel)
    qed
    then show ?case using Suc by simp
  qed simp
  then show ?thesis by simp
qed

lemma be_digits_less:
  "a < 256 ^ n \<Longrightarrow> b < 256 ^ n \<Longrightarrow> (map (char_of :: nat \<Rightarrow> char) (be_digits n a) < map char_of (be_digits n b)) = (a < b)"
proof (induction n arbitrary: a b)
  case 0
  then show ?case by simp
next
  case (Suc n)
  let ?p = "256 ^ n :: nat"
  have q: "a div ?p < 256" "b div ?p < 256"
    using Suc.prems by (simp_all add: less_mult_imp_div_less mult.commute)
  have IH: "(map char_of (be_digits n a) < map char_of (be_digits n b)) = (a mod ?p < b mod ?p)"
    using Suc.IH [of "a mod ?p" "b mod ?p"] by (simp add: be_digits_mod)
  have ab: "a = a div ?p * ?p + a mod ?p" "b = b div ?p * ?p + b mod ?p"
    by (simp_all only: div_mult_mod_eq)
  have "a < b \<longleftrightarrow> a div ?p < b div ?p \<or> a div ?p = b div ?p \<and> a mod ?p < b mod ?p"
  proof (cases "a div ?p" "b div ?p" rule: linorder_cases)
    case less
    then have "a div ?p * ?p + ?p \<le> b div ?p * ?p" by (metis Suc_leI add.commute mult_Suc mult_le_mono1)
    moreover have "a mod ?p < ?p" by simp
    ultimately show ?thesis using ab less by linarith
  next
    case equal
    then show ?thesis using ab by (metis nat_add_left_cancel_less less_irrefl)
  next
    case greater
    then have "b div ?p * ?p + ?p \<le> a div ?p * ?p" by (metis Suc_leI add.commute mult_Suc mult_le_mono1)
    moreover have "b mod ?p < ?p" by simp
    ultimately show ?thesis using ab greater by linarith
  qed
  moreover have "take_bit 8 (a div ?p) = a div ?p" using q by (simp add: take_bit_nat_eq_self)
  ultimately show ?case using q IH by (simp add: less_char_def char_of_eq_iff)
qed

subsection \<open>Words\<close>

lemma be_digits_map: "be_digits n a = map (\<lambda>i. a div 256 ^ (n - 1 - i) mod 256) [0..<n]"
proof (induction n)
  case (Suc n)
  have "[0..<Suc n] = 0 # map Suc [0..<n]" by (simp add: upt_conv_Cons map_Suc_upt)
  then show ?case using Suc by (simp add: comp_def)
qed simp

lemma be_bytes_digits: "be_bytes u = map char_of (be_digits 8 (unat u))"
proof -
  have c: "char_of (unat (drop_bit (56 - i * 8) u)) = (char_of (unat u div 256 ^ (8 - 1 - i) mod 256) :: char)"
    if "i < 8" for i
  proof -
    have "take_bit 64 (unat u) = unat u"
      using unsigned_less [of u, where ?'a = nat] by (simp add: take_bit_nat_eq_self)
    then have d: "unat (drop_bit (56 - i * 8) u) = unat u div 2 ^ (56 - i * 8)"
      by (simp add: unsigned_drop_bit_eq drop_bit_eq_div [symmetric])
    have "(256::nat) ^ (8 - 1 - i) = 2 ^ (8 * (8 - 1 - i))" by (simp add: power_mult)
    moreover have "8 * (8 - 1 - i) = 56 - i * 8" by simp
    ultimately show ?thesis by (simp only: d) simp
  qed
  show ?thesis unfolding be_bytes_def be_digits_map map_map comp_def by (rule map_cong [OF refl]) (simp add: c del: diff_diff_left)
qed

lemma length_be_bytes [simp]: "length (be_bytes u) = 8"
  by (simp add: be_bytes_def)

lemma be_bytes_less: "be_bytes u < be_bytes w \<longleftrightarrow> u < w"
proof -
  have "unat x < 256 ^ 8" for x :: "64 word" using unsigned_less [of x, where ?'a = nat] by simp
  then show ?thesis unfolding be_bytes_digits by (simp add: be_digits_less word_less_nat_alt)
qed

lemma flip_sign_sint: "uint (flip_sign i) = sint i + 2 ^ 63"
proof -
  have b: "sint i < 2 ^ 63" "- (2 ^ 63) \<le> sint i" using sint_lt [of i] sint_ge [of i] by simp_all
  have "flip_sign i = of_int (sint i + 2 ^ 63)"
    by (simp add: flip_sign_def push_bit_of_1)
  then have "uint (flip_sign i) = take_bit 64 (sint i + 2 ^ 63)" by (simp only: unsigned_of_int) simp
  then show ?thesis using b by (simp add: take_bit_int_eq_self)
qed

lemma flip_sign_less: "flip_sign i < flip_sign j \<longleftrightarrow> sint i < sint j"
  by (simp add: word_less_def flip_sign_sint)

subsection \<open>Doubles\<close>

lemma pow2_not_le [simp]: "\<not> pow2 k \<le> 0"
  by (simp add: not_le)

lemma float_mag_Suc: "float_mag n < float_mag (Suc n)"
proof -
  let ?e = "n div 2 ^ 52" and ?m = "n mod 2 ^ 52"
  have n: "n = 2 ^ 52 * ?e + ?m" by simp
  have m: "?m < 2 ^ 52" by simp
  show ?thesis
  proof (cases "Suc ?m < 2 ^ 52")
    case True
    then have "Suc n div 2 ^ 52 = ?e" "Suc n mod 2 ^ 52 = Suc ?m"
      by (simp_all add: div_Suc mod_Suc)
    then show ?thesis
      using pow2_pos [of "- 1074"] pow2_pos [of "int ?e - 1075"]
      by (simp add: float_mag_def Let_def mult_less_cancel_right not_le)
  next
    case False
    then have sm: "Suc ?m = 2 ^ 52" using m by simp
    then have s: "Suc n div 2 ^ 52 = Suc ?e" "Suc n mod 2 ^ 52 = 0"
      by (simp_all add: div_Suc mod_Suc)
    have "rat_of_nat ?m < of_nat (2 ^ 52)" using m by (simp only: of_nat_less_iff)
    moreover have p: "pow2 (int (Suc ?e) - 1075) = 2 * pow2 (int ?e - 1075)"
      using pow2_add [of 1 "int ?e - 1075"] by (simp add: pow2_def algebra_simps)
    moreover have "float_mag (Suc n) = of_nat (2 ^ 52) * pow2 (int (Suc ?e) - 1075)"
      unfolding float_mag_def Let_def s by simp
    moreover have "float_mag n =
        (if ?e = 0 then of_nat ?m * pow2 (- 1074) else (of_nat (2 ^ 52) + of_nat ?m) * pow2 (int ?e - 1075))"
      by (simp add: float_mag_def Let_def)
    ultimately show ?thesis
      using pow2_pos [of "int ?e - 1075"] pow2_pos [of "- 1074"]
      by (cases "?e = 0") (simp_all only: if_True if_False, simp_all add: mult_less_cancel_right)
  qed
qed

lemma float_mag_mono: "float_mag a < float_mag b \<longleftrightarrow> a < b"
  using lift_Suc_mono_less_iff [of float_mag, OF float_mag_Suc] .

lemma float_mag_0 [simp]: "float_mag 0 = 0"
  by (simp add: float_mag_def)

lemma float_mag_nonneg: "0 \<le> float_mag n"
  using float_mag_mono [of 0 n] by (cases "n = 0") auto

lemma unat_bound: "unat (u :: 64 word) < 2 ^ 64"
  using unsigned_less [of u, where ?'a = nat] by simp

lemma float_sign_unat: "float_sign u \<longleftrightarrow> 2 ^ 63 \<le> unat u"
proof -
  have "float_sign u = bit (unat u) 63" by (simp add: float_sign_def bit_unsigned_iff)
  also have "\<dots> = odd (unat u div 2 ^ 63)" by (simp add: bit_iff_odd)
  also have "\<dots> = (2 ^ 63 \<le> unat u)"
  proof (cases "2 ^ 63 \<le> unat u")
    case True
    then have "unat u div 2 ^ 63 = 1" using unat_bound [of u] by (intro div_nat_eqI) simp_all
    then show ?thesis using True by simp
  qed simp
  finally show ?thesis .
qed

lemma sortable_unat:
  "unat (mathFloatToSortable u) =
     (if float_sign u then 2 ^ 63 - 1 - unat u mod 2 ^ 63 else 2 ^ 63 + unat u mod 2 ^ 63)"
proof (cases "float_sign u")
  case True
  then have h: "2 ^ 63 \<le> unat u" by (simp add: float_sign_unat)
  then have "unat u mod 2 ^ 63 = unat u - 2 ^ 63" using unat_bound [of u] by (simp add: mod_if)
  moreover have "unat (not u) = 2 ^ 64 - 1 - unat u"
  proof -
    have "not u = - 1 - u" by (simp add: not_eq_complement)
    moreover have "unat (- 1 - u) = unat (- 1 :: 64 word) - unat u" by (rule unat_sub) simp
    moreover have "unat (- 1 :: 64 word) = 2 ^ 64 - 1"
      by (simp add: unsigned_minus_1_eq_mask mask_eq_exp_minus_1)
    ultimately show ?thesis by simp
  qed
  ultimately show ?thesis using True h unat_bound [of u]
    by (simp add: mathFloatToSortable_def float_sign_def)
next
  case False
  then have h: "unat u < 2 ^ 63" by (simp add: float_sign_unat)
  have "n = 63" if "bit (push_bit 63 (1 :: 64 word)) n" for n
    using that unfolding bit_push_bit_iff bit_1_iff by auto
  then have "\<not> bit u n \<or> \<not> bit (push_bit 63 (1 :: 64 word)) n" for n
    using False unfolding float_sign_def by blast
  then have "or u (push_bit 63 1) = u + push_bit 63 1" by (intro disjunctive_add [symmetric])
  then have "unat (or u (push_bit 63 1)) = unat u + 2 ^ 63"
    using h by (simp add: unat_word_ariths push_bit_of_1)
  then show ?thesis using False h by (simp add: mathFloatToSortable_def float_sign_def)
qed

lemma sortable_less:
  "mathFloatToSortable f < mathFloatToSortable g \<longleftrightarrow> value_less (KFloat f) (KFloat g)"
proof -
  let ?a = "unat f mod 2 ^ 63" and ?b = "unat g mod 2 ^ 63"
  have ab: "?a < 2 ^ 63" "?b < 2 ^ 63" by simp_all
  have nn: "0 \<le> float_mag ?a" "0 \<le> float_mag ?b" by (rule float_mag_nonneg)+
  show ?thesis
    using ab nn float_mag_mono [of ?a ?b] float_mag_mono [of ?b ?a]
    unfolding word_less_nat_alt sortable_unat value_less.simps float_val_def Let_def
    by (cases "float_sign f"; cases "float_sign g") (simp_all only: if_True if_False simp_thms, linarith+)
qed

subsection \<open>The encoding keeps the order\<close>

lemma be_bytes_append:
  "be_bytes u @ s < be_bytes w @ t \<longleftrightarrow> u < w \<or> u = w \<and> s < t"
proof (cases u w rule: linorder_cases)
  case less
  then show ?thesis by (auto intro!: less_append_same_length simp: be_bytes_less)
next
  case equal
  then show ?thesis by (simp add: less_append_cancel)
next
  case greater
  then have "be_bytes w @ t < be_bytes u @ s"
    by (intro less_append_same_length) (simp_all add: be_bytes_less)
  then show ?thesis using greater by auto
qed

lemma zero_string_less:
  assumes "char_of (0::nat) \<notin> set s" and "char_of (0::nat) \<notin> set t"
  shows "s @ char_of (0::nat) # x < t @ char_of (0::nat) # y \<longleftrightarrow> s < t \<or> s = t \<and> x < y"
  using assms
proof (induction s arbitrary: t)
  case Nil
  show ?case
  proof (cases t)
    case (Cons c t')
    then have "char_of (0::nat) < c" using Nil by (simp add: less_char_def) (metis char_of_char gr0I)
    then show ?thesis using Cons by simp
  qed simp
next
  case (Cons c s)
  show ?case
  proof (cases t)
    case Nil
    have "\<not> c < char_of (0::nat)" by (simp add: less_char_def)
    moreover have "c \<noteq> char_of (0::nat)" using Cons.prems by auto
    ultimately show ?thesis using Nil by simp
  next
    case (Cons d t')
    then show ?thesis using Cons.IH [of t'] Cons.prems by auto
  qed
qed

lemma flip_sign_inj: "flip_sign i = flip_sign j \<longleftrightarrow> i = j"
  by (simp add: flip_sign_def)

lemma sortable_code_inj:
  assumes "(if p then 2 ^ 63 - 1 - a else 2 ^ 63 + a) = (if q then 2 ^ 63 - 1 - b else 2 ^ 63 + (b :: nat))"
    and "a < 2 ^ 63" and "b < 2 ^ 63"
  shows "p = q \<and> a = b"
  using assms by (cases p; cases q) auto

lemma sortable_inj: "mathFloatToSortable f = mathFloatToSortable g \<longleftrightarrow> f = g"
proof
  assume e: "mathFloatToSortable f = mathFloatToSortable g"
  have m: "unat f mod 2 ^ 63 < 2 ^ 63" "unat g mod 2 ^ 63 < 2 ^ 63" by simp_all
  have "float_sign f = float_sign g \<and> unat f mod 2 ^ 63 = unat g mod 2 ^ 63"
    by (rule sortable_code_inj [OF _ m]) (use arg_cong [OF e, of unat] in \<open>simp only: sortable_unat\<close>)
  moreover have "unat u = (if float_sign u then 2 ^ 63 else 0) + unat u mod 2 ^ 63" for u :: "64 word"
  proof (cases "float_sign u")
    case True
    then have "2 ^ 63 \<le> unat u" by (simp add: float_sign_unat)
    moreover from this have "unat u mod 2 ^ 63 = unat u - 2 ^ 63" using unat_bound [of u] by (simp add: mod_if)
    ultimately show ?thesis using True by simp
  qed (simp add: float_sign_unat)
  ultimately have "unat f = unat g" by metis
  then show "f = g" by (simp only: unsigned_word_eqI)
qed simp

text \<open>One cell, whatever follows it.\<close>

lemma key_cell_less:
  assumes "key_type v = key_type w" and "key_value_ok v" and "key_value_ok w"
  shows "key_cell v @ x < key_cell w @ y \<longleftrightarrow> value_less v w \<or> v = w \<and> x < y"
proof -
  have "key_cell v @ x < key_cell w @ y \<longleftrightarrow>
      key_body v @ char_of (255::nat) # x < key_body w @ char_of (255::nat) # y"
    using assms(1) by (simp add: key_cell_def)
  also have "\<dots> \<longleftrightarrow> value_less v w \<or> v = w \<and> x < y"
    using assms
    by (cases v; cases w)
      (simp_all add: be_bytes_append flip_sign_less flip_sign_inj sortable_less sortable_inj zero_string_less
        less_char_def del: value_less.simps(2))
  finally show ?thesis .
qed

lemma encodeKey_less:
  assumes "map key_type vs = map key_type ws" and "list_all key_value_ok vs" and "list_all key_value_ok ws"
  shows "encodeKey vs < encodeKey ws \<longleftrightarrow> values_less vs ws"
  using assms
proof (induction vs ws rule: values_less.induct)
  case (1 v vs w ws)
  then show ?case using key_cell_less [of v w "encodeKey vs" "encodeKey ws"] by (simp add: encodeKey_def)
qed (auto simp: encodeKey_def)

text \<open>C24: for keys of the same column types, whose strings have no zero byte, the encoding keeps the
  order of the values, column by column: integers, timestamps and doubles by their numbers, strings
  byte by byte, false before true.\<close>

theorem encoded_keys_ordered:
  assumes "map key_type vs = map key_type ws" and "list_all key_value_ok vs" and "list_all key_value_ok ws"
  shows "encodeKey vs < encodeKey ws \<longleftrightarrow> values_less vs ws"
  using assms by (rule encodeKey_less)

theorem encoded_keys_ordered_witness:
  "encodeKey [KInt (- 1), KString ''b''] < encodeKey [KInt 1, KString ''a'']"
proof -
  have "list_all key_value_ok [KInt (- 1), KString ''b'']" "list_all key_value_ok [KInt 1, KString ''a'']"
    by (simp_all add: char_of_def)
  then show ?thesis using encoded_keys_ordered [of "[KInt (- 1), KString ''b'']" "[KInt 1, KString ''a'']"] by simp
qed

text \<open>With a zero byte in a string the order is lost: a string comes after one that it is a prefix of.\<close>

lemma zero_byte_breaks_order:
  "[CHR ''a''] < [CHR ''a'', char_of (0::nat)] \<and>
   encodeKey [KString [CHR ''a'', char_of (0::nat)]] < encodeKey [KString [CHR ''a'']]"
  by (simp add: encodeKey_def key_cell_def less_char_def)

end
