(* ===== verification/SqlValues.thy ===== *)
theory SqlValues
  imports GoText JsConvert KeyCodec "HOL-Library.Signed_Division"
begin

section \<open>SQL values and expressions (\<open>sql/value.go\<close>, \<open>sql/regexp.go\<close>)\<close>

text \<open>
  The dynamic values of a statement, their comparison and conversion, and \<open>Eval\<close>, which both the
  router and the executor of a shard apply to expressions. Integers and the bits of doubles are
  64-bit words; the arithmetic of doubles, the parsers and printers of doubles and times, the time
  zone of the process and the case tables of Unicode are those of Go's library and are
  parameters. A time is its nanoseconds since the epoch with its offset. An expression can yield a
  value, an error, or a panic, which nothing in the server recovers from.
\<close>

subsection \<open>Values\<close>

type_synonym go_time = "int \<times> int"

datatype sql_type = TNull | TInt | TFloat | TString | TBool | TTimestamp

datatype sql_value = VNull | VInt "64 word" | VFloat "64 word" | VString string | VBool bool | VTime go_time

record go_lib =
  gl_add :: "64 word \<Rightarrow> 64 word \<Rightarrow> 64 word"
  gl_sub :: "64 word \<Rightarrow> 64 word \<Rightarrow> 64 word"
  gl_mul :: "64 word \<Rightarrow> 64 word \<Rightarrow> 64 word"
  gl_div :: "64 word \<Rightarrow> 64 word \<Rightarrow> 64 word"
  gl_of_int :: "64 word \<Rightarrow> 64 word"
  gl_to_int :: "64 word \<Rightarrow> 64 word"
  gl_parse_float :: "string \<Rightarrow> 64 word option"
  gl_float_text :: "64 word \<Rightarrow> string"
  gl_parse_time :: "string \<Rightarrow> go_time option"
  gl_time_text :: "go_time \<Rightarrow> string"
  gl_zone :: "int \<Rightarrow> int"
  gl_lower :: "string \<Rightarrow> string"
  gl_upper :: "string \<Rightarrow> string"
  gl_parse_duration :: "string \<Rightarrow> 64 word option"

datatype sql_error =
    Cannot_convert sql_value sql_type
  | Unknown_column string
  | Not_on_value sql_value
  | Cannot_negate sql_value
  | Unknown_unary string
  | Division_by_zero
  | Needs_numbers sql_value sql_value
  | Unsupported_operator string
  | Abs_of sql_value
  | Wrong_args string
  | Bad_interval
  | Unknown_function string
  | Cannot_evaluate
  | Few_values
  | Null_in string
  | Table_not_found string
  | Nobody_owns string

datatype 'a go_outcome = Ret 'a | Err sql_error | Panic

fun and_then :: "'a go_outcome \<Rightarrow> ('a \<Rightarrow> 'b go_outcome) \<Rightarrow> 'b go_outcome" where
  "and_then (Ret a) f = f a"
| "and_then (Err e) f = Err e"
| "and_then Panic f = Panic"

fun all_of :: "('a \<Rightarrow> 'b go_outcome) \<Rightarrow> 'a list \<Rightarrow> 'b list go_outcome" where
  "all_of f [] = Ret []"
| "all_of f (x # xs) = and_then (f x) (\<lambda>y. and_then (all_of f xs) (\<lambda>ys. Ret (y # ys)))"

lemma and_then_Ret: "and_then m f = Ret b \<longleftrightarrow> (\<exists>a. m = Ret a \<and> f a = Ret b)"
  by (cases m) auto

lemma all_of_Ret: "all_of f xs = Ret ys \<longleftrightarrow> list_all2 (\<lambda>x y. f x = Ret y) xs ys"
  by (induction xs arbitrary: ys) (auto simp: and_then_Ret list_all2_Cons1)

subsection \<open>Texts\<close>

text \<open>\<open>strconv.ParseInt(s, 10, 64)\<close>.\<close>

definition parse_digits :: "string \<Rightarrow> nat option" where
  "parse_digits ds = (if ds \<noteq> [] \<and> list_all (is_digit_in 10) ds then Some (digits_value 10 ds) else None)"

definition parseInt64 :: "string \<Rightarrow> 64 word option" where
  "parseInt64 s =
     (let neg = (s \<noteq> [] \<and> hd s = CHR ''-'');
          ds = (if s \<noteq> [] \<and> (hd s = CHR ''+'' \<or> hd s = CHR ''-'') then tl s else s)
      in case parse_digits ds of
           None \<Rightarrow> None
         | Some n \<Rightarrow>
             if neg then (if 2 ^ 63 < n then None else Some (word_of_int (- int n)))
             else (if 2 ^ 63 \<le> n then None else Some (word_of_nat n)))"

text \<open>An integer that parses is the number written: the range check leaves nothing to wrap around.\<close>

lemma parseInt64_value:
  assumes "parseInt64 s = Some w"
  shows "\<exists>n. parse_digits (if s \<noteq> [] \<and> (hd s = CHR ''+'' \<or> hd s = CHR ''-'') then tl s else s) = Some n \<and>
    sint w = (if s \<noteq> [] \<and> hd s = CHR ''-'' then - int n else int n)"
proof -
  obtain n where n: "parse_digits (if s \<noteq> [] \<and> (hd s = CHR ''+'' \<or> hd s = CHR ''-'') then tl s else s) = Some n"
    using assms by (auto simp: parseInt64_def Let_def split: option.splits)
  have neg: "sint (word_of_int (- int n) :: 64 word) = - int n" if "n \<le> 2 ^ 63"
    using that by (subst int_word_sint) simp
  have pos: "sint (word_of_nat n :: 64 word) = int n" if "n < 2 ^ 63"
    using that int_word_sint [where 'a = 64, of "int n"] by simp
  show ?thesis using assms n neg pos
    by (auto simp: parseInt64_def Let_def split: if_splits)
qed

definition int64_text :: "64 word \<Rightarrow> string" where
  "int64_text w = (if sint w < 0 then CHR ''-'' # nat_str (nat (- sint w)) else nat_str (nat (sint w)))"

fun value_text :: "go_lib \<Rightarrow> sql_value \<Rightarrow> string" where
  "value_text L VNull = ''NULL''"
| "value_text L (VInt i) = int64_text i"
| "value_text L (VFloat f) = gl_float_text L f"
| "value_text L (VString s) = s"
| "value_text L (VBool b) = (if b then ''true'' else ''false'')"
| "value_text L (VTime t) = gl_time_text L t"

subsection \<open>Doubles\<close>

definition float_nan :: "64 word \<Rightarrow> bool" where
  "float_nan f \<longleftrightarrow> 0x7FF0000000000000 < unat f mod 2 ^ 63"

definition float_lt :: "64 word \<Rightarrow> 64 word \<Rightarrow> bool" where
  "float_lt f g \<longleftrightarrow> \<not> float_nan f \<and> \<not> float_nan g \<and> float_val f < float_val g"

definition float_is_zero :: "64 word \<Rightarrow> bool" where
  "float_is_zero f \<longleftrightarrow> unat f mod 2 ^ 63 = 0"

definition float_neg :: "64 word \<Rightarrow> 64 word" where
  "float_neg f = xor f (push_bit 63 1)"

definition float_abs :: "64 word \<Rightarrow> 64 word" where
  "float_abs f = and f (not (push_bit 63 1))"

definition as_float :: "go_lib \<Rightarrow> sql_value \<Rightarrow> 64 word option" where
  "as_float L v = (case v of VInt i \<Rightarrow> Some (gl_of_int L i) | VFloat f \<Rightarrow> Some f | _ \<Rightarrow> None)"

subsection \<open>\<open>Compare\<close>\<close>

definition sign_of :: "bool \<Rightarrow> bool \<Rightarrow> int" where
  "sign_of lo hi = (if lo then -1 else if hi then 1 else 0)"

definition compareTimes :: "go_time \<Rightarrow> go_time \<Rightarrow> int" where
  "compareTimes a b = sign_of (fst a < fst b) (fst b < fst a)"

definition unix_time :: "go_lib \<Rightarrow> 64 word \<Rightarrow> go_time" where
  "unix_time L i = (sint i * 10 ^ 9, gl_zone L (sint i * 10 ^ 9))"

definition compare_texts :: "string \<Rightarrow> string \<Rightarrow> int" where
  "compare_texts s t = sign_of (s < t) (t < s)"

text \<open>The error result of the function is always nil.\<close>

fun compare_values :: "go_lib \<Rightarrow> sql_value \<Rightarrow> sql_value \<Rightarrow> int" where
  "compare_values L VNull b = (if b = VNull then 0 else -1)"
| "compare_values L a VNull = 1"
| "compare_values L (VInt i) (VInt j) = sign_of (sint i < sint j) (sint j < sint i)"
| "compare_values L (VInt i) (VFloat g) = sign_of (float_lt (gl_of_int L i) g) (float_lt g (gl_of_int L i))"
| "compare_values L (VFloat f) (VInt j) = sign_of (float_lt f (gl_of_int L j)) (float_lt (gl_of_int L j) f)"
| "compare_values L (VFloat f) (VFloat g) = sign_of (float_lt f g) (float_lt g f)"
| "compare_values L (VString s) (VString t) = compare_texts s t"
| "compare_values L (VBool a) (VBool b) = sign_of (\<not> a \<and> b) (a \<and> \<not> b)"
| "compare_values L (VTime s) (VTime t) = compareTimes s t"
| "compare_values L (VString s) (VTime t) =
     (case gl_parse_time L s of Some u \<Rightarrow> compareTimes t u | None \<Rightarrow> compare_texts s (gl_time_text L t))"
| "compare_values L (VTime s) (VString t) =
     (case gl_parse_time L t of Some u \<Rightarrow> compareTimes s u | None \<Rightarrow> compare_texts (gl_time_text L s) t)"
| "compare_values L (VTime s) (VInt j) = compareTimes s (unix_time L j)"
| "compare_values L (VInt i) (VTime t) = compareTimes (unix_time L i) t"
| "compare_values L a b = compare_texts (value_text L a) (value_text L b)"

subsection \<open>\<open>Convert\<close>\<close>

fun convert_value :: "go_lib \<Rightarrow> sql_value \<Rightarrow> sql_type \<Rightarrow> sql_value go_outcome" where
  "convert_value L VNull t = Ret VNull"
| "convert_value L (VInt i) TInt = Ret (VInt i)"
| "convert_value L (VFloat f) TInt = Ret (VInt (gl_to_int L f))"
| "convert_value L (VString s) TInt =
     (case parseInt64 (go_trim s) of None \<Rightarrow> Err (Cannot_convert (VString s) TInt) | Some i \<Rightarrow> Ret (VInt i))"
| "convert_value L (VBool b) TInt = Ret (VInt (if b then 1 else 0))"
| "convert_value L (VFloat f) TFloat = Ret (VFloat f)"
| "convert_value L (VInt i) TFloat = Ret (VFloat (gl_of_int L i))"
| "convert_value L (VString s) TFloat =
     (case gl_parse_float L (go_trim s) of None \<Rightarrow> Err (Cannot_convert (VString s) TFloat) | Some f \<Rightarrow> Ret (VFloat f))"
| "convert_value L v TString = Ret (VString (value_text L v))"
| "convert_value L (VBool b) TBool = Ret (VBool b)"
| "convert_value L (VInt i) TBool = Ret (VBool (i \<noteq> 0))"
| "convert_value L (VString s) TBool =
     (let t = to_lower (go_trim s)
      in if t = ''true'' \<or> t = ''1'' then Ret (VBool True)
         else if t = ''false'' \<or> t = ''0'' then Ret (VBool False)
         else Err (Cannot_convert (VString s) TBool))"
| "convert_value L (VTime t) TTimestamp = Ret (VTime t)"
| "convert_value L (VInt i) TTimestamp = Ret (VTime (unix_time L i))"
| "convert_value L (VString s) TTimestamp =
     (case gl_parse_time L s of None \<Rightarrow> Err (Cannot_convert (VString s) TTimestamp) | Some t \<Rightarrow> Ret (VTime t))"
| "convert_value L v t = Err (Cannot_convert v t)"

subsection \<open>Patterns\<close>

text \<open>The runes of a string; a byte that starts none decodes to U+FFFD.\<close>

function runes :: "string \<Rightarrow> string list" where
  "runes [] = []"
| "runes (c # s) =
     (let n = lead_len (byte_of c)
      in if 0 < n \<and> seq_ok (map byte_of (take n (c # s))) then take n (c # s) # runes (drop n (c # s))
         else map char_of [239, 191, 189 :: nat] # runes s)"
  by pat_completeness auto
termination
  by (relation "measure length") auto

text \<open>The regular expression that \<open>likeMatch\<close> builds: a dot matches any rune but a newline.\<close>

fun like_runes :: "string list \<Rightarrow> string list \<Rightarrow> bool" where
  "like_runes [] cs = (cs = [])"
| "like_runes (p # ps) [] = (p = ''%'' \<and> like_runes ps [])"
| "like_runes (p # ps) (c # cs) =
     (if p = ''%'' then like_runes ps (c # cs) \<or> c \<noteq> [CHR 0x0A] \<and> like_runes (p # ps) cs
      else (if p = ''_'' then c \<noteq> [CHR 0x0A] else c = p) \<and> like_runes ps cs)"

definition likeMatch :: "string \<Rightarrow> string \<Rightarrow> bool" where
  "likeMatch s pat = like_runes (runes pat) (runes s)"

subsection \<open>Operators\<close>

definition boolOf :: "sql_value \<Rightarrow> bool option" where
  "boolOf v = (case v of VBool b \<Rightarrow> Some b | VInt i \<Rightarrow> Some (i \<noteq> 0) | _ \<Rightarrow> None)"

text \<open>The field \<open>Str\<close> of a value that is not a string is empty.\<close>

definition str_field :: "sql_value \<Rightarrow> string" where
  "str_field v = (case v of VString s \<Rightarrow> s | _ \<Rightarrow> [])"

definition int_field :: "sql_value \<Rightarrow> 64 word" where
  "int_field v = (case v of VInt i \<Rightarrow> i | _ \<Rightarrow> 0)"

definition logic_and :: "bool option \<Rightarrow> bool option \<Rightarrow> sql_value" where
  "logic_and a b =
     (if a = Some False \<or> b = Some False then VBool False
      else if a \<noteq> None \<and> b \<noteq> None then VBool True else VNull)"

definition logic_or :: "bool option \<Rightarrow> bool option \<Rightarrow> sql_value" where
  "logic_or a b =
     (if a = Some True \<or> b = Some True then VBool True
      else if a \<noteq> None \<and> b \<noteq> None then VBool False else VNull)"

text \<open>Arithmetic on two values that are not null; \<open>/\<close> on integers truncates.\<close>

definition arith_op :: "go_lib \<Rightarrow> string \<Rightarrow> sql_value \<Rightarrow> sql_value \<Rightarrow> sql_value go_outcome" where
  "arith_op L op l r =
     (case (l, r) of
        (VInt i, VInt j) \<Rightarrow>
          if op = ''+'' then Ret (VInt (i + j))
          else if op = ''-'' then Ret (VInt (i - j))
          else if op = ''*'' then Ret (VInt (i * j))
          else if j = 0 then Err Division_by_zero
          else Ret (VInt (word_of_int (sint i sdiv sint j)))
      | _ \<Rightarrow>
          (case (as_float L l, as_float L r) of
             (Some f, Some g) \<Rightarrow>
               if op = ''+'' then Ret (VFloat (gl_add L f g))
               else if op = ''-'' then Ret (VFloat (gl_sub L f g))
               else if op = ''*'' then Ret (VFloat (gl_mul L f g))
               else if float_is_zero g then Err Division_by_zero
               else Ret (VFloat (gl_div L f g))
           | _ \<Rightarrow> Err (Needs_numbers l r)))"

definition binary_op :: "go_lib \<Rightarrow> string \<Rightarrow> sql_value \<Rightarrow> sql_value \<Rightarrow> sql_value go_outcome" where
  "binary_op L op l r =
     (if op = ''AND'' then Ret (logic_and (boolOf l) (boolOf r))
      else if op = ''OR'' then Ret (logic_or (boolOf l) (boolOf r))
      else if op \<in> set [''LIKE'', ''NOT LIKE''] then
        (if l = VNull \<or> r = VNull then Ret VNull
         else Ret (VBool (likeMatch (str_field l) (str_field r) = (op = ''LIKE''))))
      else if op \<in> set [''='', ''<>'', ''<'', ''<='', ''>'', ''>=''] then
        (if l = VNull \<or> r = VNull then Ret VNull
         else
           let c = compare_values L l r
           in Ret (VBool (if op = ''='' then c = 0 else if op = ''<>'' then c \<noteq> 0 else if op = ''<'' then c < 0
                else if op = ''<='' then c \<le> 0 else if op = ''>'' then 0 < c else 0 \<le> c)))
      else if op \<in> set [''+'', ''-'', ''*'', ''/''] then
        (if l = VNull \<or> r = VNull then Ret VNull else arith_op L op l r)
      else Err (Unsupported_operator op))"

definition unary_op :: "go_lib \<Rightarrow> string \<Rightarrow> sql_value \<Rightarrow> sql_value go_outcome" where
  "unary_op L op v =
     (if op = ''NOT'' then (case v of VBool b \<Rightarrow> Ret (VBool (\<not> b)) | _ \<Rightarrow> Err (Not_on_value v))
      else if op = ''-'' then
        (case v of VInt i \<Rightarrow> Ret (VInt (- i)) | VFloat f \<Rightarrow> Ret (VFloat (float_neg f)) | _ \<Rightarrow> Err (Cannot_negate v))
      else if op = ''+'' then Ret v
      else Err (Unknown_unary op))"

subsection \<open>Functions\<close>

text \<open>Durations are nanoseconds; the factors are the doubles 1e9, 6e10, 3.6e12, 24 and 7.\<close>

definition unit_duration :: "go_lib \<Rightarrow> 64 word \<Rightarrow> string \<Rightarrow> 64 word option" where
  "unit_duration L num u =
     (let hour = 0x428A3185C5000000; day = gl_mul L num 0x4038000000000000
      in if u \<in> set [''s'', ''sec'', ''secs'', ''second'', ''seconds''] then Some (gl_to_int L (gl_mul L num 0x41CDCD6500000000))
         else if u \<in> set [''m'', ''min'', ''mins'', ''minute'', ''minutes''] then Some (gl_to_int L (gl_mul L num 0x422BF08EB0000000))
         else if u \<in> set [''h'', ''hr'', ''hrs'', ''hour'', ''hours''] then Some (gl_to_int L (gl_mul L num hour))
         else if u \<in> set [''d'', ''day'', ''days''] then Some (gl_to_int L (gl_mul L day hour))
         else if u \<in> set [''w'', ''week'', ''weeks'']
         then Some (gl_to_int L (gl_mul L (gl_mul L (gl_mul L num 0x401C000000000000) 0x4038000000000000) hour))
         else None)"

definition interval_digit :: "char \<Rightarrow> bool" where
  "interval_digit c \<longleftrightarrow> CHR ''0'' \<le> c \<and> c \<le> CHR ''9'' \<or> c = CHR ''.''"

definition unit_letter :: "char \<Rightarrow> bool" where
  "unit_letter c \<longleftrightarrow> CHR ''a'' \<le> c \<and> c \<le> CHR ''z''"

function interval_sum :: "go_lib \<Rightarrow> 64 word \<Rightarrow> string \<Rightarrow> 64 word option" where
  "interval_sum L acc [] = Some acc"
| "interval_sum L acc (c # s) =
     (if \<not> interval_digit c then None
      else case gl_parse_float L (takeWhile interval_digit (c # s)) of
        None \<Rightarrow> None
      | Some num \<Rightarrow>
          let r = dropWhile interval_digit s
          in (case unit_duration L num (takeWhile unit_letter r) of
                None \<Rightarrow> None
              | Some d \<Rightarrow> interval_sum L (acc + d) (dropWhile unit_letter r)))"
  by pat_completeness auto
termination
  by (relation "measure (\<lambda>(L, acc, s). length s)")
    (auto simp: less_Suc_eq_le intro: le_trans [OF length_dropWhile_le length_dropWhile_le])

definition not_positive :: "64 word \<Rightarrow> bool" where
  "not_positive f \<longleftrightarrow> \<not> float_nan f \<and> float_val f \<le> 0"

definition parseInterval :: "go_lib \<Rightarrow> sql_value \<Rightarrow> 64 word option" where
  "parseInterval L v =
     (case as_float L v of
        Some f \<Rightarrow> if not_positive f then None else Some (gl_to_int L (gl_mul L f 0x41CDCD6500000000))
      | None \<Rightarrow>
          let s = gl_lower L (go_trim (value_text L v))
          in if s = [] then None
             else (case gl_parse_float L s of
                     Some f \<Rightarrow> if not_positive f then None else Some (gl_to_int L (gl_mul L f 0x41CDCD6500000000))
                   | None \<Rightarrow> interval_sum L 0 s))"

text \<open>\<open>Truncate\<close>: down to a multiple of the duration since the year 1.\<close>

definition truncate_time :: "int \<Rightarrow> int \<Rightarrow> int" where
  "truncate_time t d = t - (t + 62135596800 * 10 ^ 9) mod d"

definition substr_value :: "go_lib \<Rightarrow> sql_value \<Rightarrow> 64 word \<Rightarrow> sql_value go_outcome option \<Rightarrow> sql_value go_outcome" where
  "substr_value L v start count =
     (let s = runes (value_text L v); from = (if sint start < 1 then 1 else start)
      in if int (length s) < sint from then Ret (VString [])
         else (case count of
                 None \<Rightarrow> Ret (VString (concat (drop (nat (sint from) - 1) s)))
               | Some Panic \<Rightarrow> Panic
               | Some c \<Rightarrow>
                   let cnt = (case c of Ret w \<Rightarrow> int_field w | _ \<Rightarrow> 0);
                       end0 = from + cnt;
                       to = (if int (length s) + 1 < sint end0 then int (length s) + 1 else sint end0)
                   in if to < sint from then Panic
                      else Ret (VString (concat (take (nat (to - sint from)) (drop (nat (sint from) - 1) s))))))"

fun concat_texts :: "go_lib \<Rightarrow> sql_value go_outcome list \<Rightarrow> string go_outcome" where
  "concat_texts L [] = Ret []"
| "concat_texts L (a # as) =
     and_then a (\<lambda>v. and_then (concat_texts L as) (\<lambda>t. Ret ((if v = VNull then [] else value_text L v) @ t)))"

definition first_arg :: "sql_value go_outcome list \<Rightarrow> sql_value go_outcome" where
  "first_arg args = (case args of [] \<Rightarrow> Panic | a # as \<Rightarrow> a)"

definition abs_value :: "go_lib \<Rightarrow> sql_value \<Rightarrow> sql_value go_outcome" where
  "abs_value L v =
     (case v of
        VInt i \<Rightarrow> Ret (VInt (gl_to_int L (float_abs (gl_of_int L i))))
      | VFloat f \<Rightarrow> Ret (VFloat (float_abs f))
      | _ \<Rightarrow> Err (Abs_of v))"

definition case_value :: "go_lib \<Rightarrow> string \<Rightarrow> sql_value \<Rightarrow> sql_value go_outcome" where
  "case_value L name v =
     (if v = VNull then Ret VNull
      else Ret (VString (if name = ''lower'' then gl_lower L (value_text L v) else gl_upper L (value_text L v))))"

definition length_value :: "go_lib \<Rightarrow> sql_value \<Rightarrow> sql_value go_outcome" where
  "length_value L v = (if v = VNull then Ret VNull else Ret (VInt (of_nat (length (runes (value_text L v))))))"

definition time_bucket :: "go_lib \<Rightarrow> sql_value \<Rightarrow> sql_value \<Rightarrow> sql_value go_outcome" where
  "time_bucket L iv ts =
     (if iv = VNull \<or> ts = VNull then Ret VNull
      else case parseInterval L iv of
        None \<Rightarrow> Err Bad_interval
      | Some d \<Rightarrow>
          if sint d \<le> 0 then Err Bad_interval
          else and_then (convert_value L ts TTimestamp) (\<lambda>t. case t of
            VTime (ns, z) \<Rightarrow> Ret (VTime (truncate_time ns (sint d), 0)) | _ \<Rightarrow> Ret t))"

text \<open>
  A function applied to what its arguments evaluate to; an argument the code does not evaluate is not
  looked at. \<open>now\<close> is the clock.
\<close>

definition call_function :: "go_lib \<Rightarrow> int \<Rightarrow> string \<Rightarrow> sql_value go_outcome list \<Rightarrow> sql_value go_outcome" where
  "call_function L now name args =
     (if name = ''abs'' then and_then (first_arg args) (abs_value L)
      else if name \<in> set [''lower'', ''upper''] then and_then (first_arg args) (case_value L name)
      else if name \<in> set [''length'', ''len''] then and_then (first_arg args) (length_value L)
      else if name \<in> set [''concat'', ''concat_ws''] then
        and_then (concat_texts L args) (\<lambda>t. Ret (VString t))
      else if name \<in> set [''substr'', ''substring''] then
        (case args of
           a # b # cs \<Rightarrow> and_then a (\<lambda>v. and_then b (\<lambda>start.
             substr_value L v (int_field start) (case cs of [] \<Rightarrow> None | c # _ \<Rightarrow> Some c)))
         | _ \<Rightarrow> Err (Wrong_args name))
      else if name = ''now'' then Ret (VTime (now, gl_zone L now))
      else if name = ''unixepoch'' then Ret (VInt (word_of_int (now div 10 ^ 9)))
      else if name = ''time_bucket'' then
        (case args of
           [a, b] \<Rightarrow> and_then a (\<lambda>iv. and_then b (time_bucket L iv))
         | _ \<Rightarrow> Err (Wrong_args name))
      else Err (Unknown_function name))"

subsection \<open>\<open>Eval\<close>\<close>

text \<open>\<open>NoExpr\<close> is the nil of the interface type \<open>Expr\<close>. A literal keeps the one field its type says.\<close>

datatype expr =
    NoExpr
  | Ident string
  | Literal sql_value
  | BinaryOp string expr expr
  | UnaryOp string expr
  | Call string "expr list"
  | CastExpr expr sql_type

type_synonym row_context = "string \<Rightarrow> sql_value option"

fun eval :: "go_lib \<Rightarrow> int \<Rightarrow> row_context \<Rightarrow> expr \<Rightarrow> sql_value go_outcome" where
  "eval L now ctx NoExpr = Err Cannot_evaluate"
| "eval L now ctx (Literal v) = Ret (case v of VTime t \<Rightarrow> VNull | _ \<Rightarrow> v)"
| "eval L now ctx (Ident n) =
     (if n = ''*'' then Ret VNull
      else case ctx n of None \<Rightarrow> Err (Unknown_column n) | Some v \<Rightarrow> Ret v)"
| "eval L now ctx (UnaryOp op e) = and_then (eval L now ctx e) (unary_op L (to_upper op))"
| "eval L now ctx (CastExpr e t) = and_then (eval L now ctx e) (\<lambda>v. convert_value L v t)"
| "eval L now ctx (BinaryOp op l r) =
     and_then (eval L now ctx l) (\<lambda>a. and_then (eval L now ctx r) (\<lambda>b. binary_op L (to_upper op) a b))"
| "eval L now ctx (Call name args) = call_function L now (to_lower name) (map (eval L now ctx) args)"

subsection \<open>Integers as text\<close>

lemma nat_str_last: "\<exists>ds d. nat_str n = ds @ [d] \<and> list_all (is_digit_in 10) (ds @ [d])"
proof -
  have "nat_str n \<noteq> []" "list_all (is_digit_in 10) (nat_str n)" using digits_value_nat_str [of n] by simp_all
  then show ?thesis by (intro exI [of _ "butlast (nat_str n)"] exI [of _ "last (nat_str n)"]) simp
qed

lemma digit_not_sign: "is_digit_in 10 c \<Longrightarrow> c \<noteq> CHR ''-'' \<and> c \<noteq> CHR ''+''"
  by (auto simp: is_digit_in_def digit_val_def)

lemma digit_visible: "is_digit_in 10 c \<Longrightarrow> 32 < byte_of c \<and> byte_of c < 128"
  by (auto simp: is_digit_in_def digit_val_def Let_def split: if_splits)

lemma nat_str_hd: "nat_str n \<noteq> [] \<and> is_digit_in 10 (hd (nat_str n))"
  using digits_value_nat_str [of n] by (cases "nat_str n") simp_all

lemma parse_int_text: "parseInt64 (int64_text w) = Some w"
proof (cases "sint w < 0")
  case True
  have "- (2 ^ 63) \<le> sint w" using sint_ge [of w] by simp
  then have b: "nat (- sint w) \<le> 2 ^ 63" by simp
  have "word_of_int (- int (nat (- sint w))) = w" using True by simp
  then show ?thesis using True b digits_value_nat_str [of "nat (- sint w)"]
    by (simp add: int64_text_def parseInt64_def parse_digits_def)
next
  case False
  have "sint w < 2 ^ 63" using sint_lt [of w] by simp
  then have b: "nat (sint w) < 2 ^ 63" using False by simp
  have "word_of_nat (nat (sint w)) = w" using False by (simp add: of_nat_nat)
  then show ?thesis using False b digits_value_nat_str [of "nat (sint w)"] digit_not_sign [of "hd (nat_str (nat (sint w)))"]
      nat_str_hd [of "nat (sint w)"]
    by (simp add: int64_text_def parseInt64_def parse_digits_def Let_def)
qed

text \<open>A text of visible ASCII characters is not trimmed.\<close>

lemma go_trim_all_visible: "list_all (\<lambda>c. 32 < byte_of c \<and> byte_of c < 128) s \<Longrightarrow> go_trim s = s"
proof (cases s)
  case (Cons c t)
  assume v: "list_all (\<lambda>c. 32 < byte_of c \<and> byte_of c < 128) s"
  show ?thesis
  proof (cases t rule: rev_cases)
    case Nil
    show ?thesis unfolding Cons Nil
      by (rule go_trim_id)
        (use v Cons Nil in \<open>auto simp: space_len_visible go_space_def suffix_def Cons_eq_append_conv\<close>)
  next
    case (snoc u d)
    then show ?thesis using v Cons go_trim_visible [of c d u] by simp
  qed
qed (simp add: go_trim_def strip_spaces.simps)

lemma go_trim_int_text: "go_trim (int64_text w) = int64_text w"
proof (rule go_trim_all_visible)
  have "list_all (is_digit_in 10) (nat_str n)" for n using digits_value_nat_str [of n] by simp
  then have "list_all (\<lambda>c. 32 < byte_of c \<and> byte_of c < 128) (nat_str n)" for n
    by (rule list.pred_mono_strong) (use digit_visible in blast)
  then show "list_all (\<lambda>c. 32 < byte_of c \<and> byte_of c < 128) (int64_text w)" by (simp add: int64_text_def)
qed

lemma int_text_inj: "int64_text i = int64_text j \<longleftrightarrow> i = j"
  by (metis option.inject parse_int_text)

lemma int_text_letter: "int64_text i \<noteq> ''true'' \<and> int64_text i \<noteq> ''false''"
proof -
  have "parseInt64 ''true'' = None" "parseInt64 ''false'' = None" by code_simp+
  then show ?thesis using parse_int_text [of i] by auto
qed

subsection \<open>Comparison\<close>

lemma sign_of_zero: "sign_of lo hi = 0 \<longleftrightarrow> \<not> lo \<and> \<not> hi"
  by (simp add: sign_of_def)

lemma compare_texts_zero: "compare_texts s t = 0 \<longleftrightarrow> s = t"
  by (auto simp: compare_texts_def sign_of_zero)

lemma compareTimes_zero: "compareTimes s t = 0 \<longleftrightarrow> fst s = fst t"
  by (auto simp: compareTimes_def sign_of_zero)

lemma compare_zero_sym: "compare_values L a b = 0 \<longleftrightarrow> compare_values L b a = 0"
  by (cases a; cases b) (auto simp: sign_of_zero compare_texts_zero compareTimes_zero split: option.split)

text \<open>
  A text to the left of a time is compared the wrong way round: the sign is that of the two with their
  sides exchanged.
\<close>

lemma text_time_order_reversed:
  assumes "gl_parse_time L s = Some u"
  shows "compare_values L (VString s) (VTime t) = compare_values L (VTime t) (VString s)"
  using assms by simp

lemma text_before_time_is_greater:
  assumes "gl_parse_time L s = Some u" and "gl_parse_time L s' = Some t" and "fst u < fst t"
  shows "eval L now ctx (BinaryOp ''<'' (Literal (VString s)) (CastExpr (Literal (VString s')) TTimestamp)) = Ret (VBool False)"
proof -
  have "to_upper ''<'' = ''<''" by code_simp
  then show ?thesis using assms by (simp add: binary_op_def compareTimes_def sign_of_def)
qed

subsection \<open>Expressions that are the same for router and shard\<close>

text \<open>
  The router evaluates an expression without a row and the shard with one, later. Apart from the clock, they
  can differ on the third argument of \<open>substr\<close>, whose errors are taken for zero.
\<close>

fun steady :: "expr \<Rightarrow> bool" where
  "steady (Call name args) =
     (to_lower name \<notin> set [''now'', ''unixepoch''] \<and>
      (to_lower name \<in> set [''substr'', ''substring''] \<longrightarrow> length args < 3) \<and> list_all steady args)"
| "steady (UnaryOp op e) = steady e"
| "steady (CastExpr e t) = steady e"
| "steady (BinaryOp op l r) = (steady l \<and> steady r)"
| "steady _ = True"

lemma concat_texts_mono:
  "list_all2 (\<lambda>a b. \<forall>v. a = Ret v \<longrightarrow> b = Ret v) as bs \<Longrightarrow> concat_texts L as = Ret t \<Longrightarrow> concat_texts L bs = Ret t"
  by (induction as bs arbitrary: t rule: list_all2_induct) (auto simp: and_then_Ret)

lemma first_arg_mono:
  "list_all2 (\<lambda>a b. \<forall>v. a = Ret v \<longrightarrow> b = Ret v) as bs \<Longrightarrow> first_arg as = Ret v \<Longrightarrow> first_arg bs = Ret v"
  by (cases as; cases bs) (auto simp: first_arg_def)

lemma call_mono:
  assumes "list_all2 (\<lambda>a b. \<forall>v. a = Ret v \<longrightarrow> b = Ret v) as bs"
    and "name \<notin> set [''now'', ''unixepoch'']" and "name \<in> set [''substr'', ''substring''] \<longrightarrow> length as < 3"
    and "call_function L now name as = Ret v"
  shows "call_function L now' name bs = Ret v"
proof (cases "name \<in> set [''substr'', ''substring'', ''time_bucket'']")
  case False
  have f: "and_then (first_arg as) g = Ret v \<Longrightarrow> and_then (first_arg bs) g = Ret v" for g
    using first_arg_mono [OF assms(1)] by (auto simp: and_then_Ret)
  have c: "and_then (concat_texts L as) g = Ret v \<Longrightarrow> and_then (concat_texts L bs) g = Ret v" for g
    using concat_texts_mono [OF assms(1)] by (auto simp: and_then_Ret)
  consider "name = ''abs''" | "name \<in> set [''lower'', ''upper'']" | "name \<in> set [''length'', ''len'']" |
    "name \<in> set [''concat'', ''concat_ws'']" | "name \<noteq> ''abs''" "name \<notin> set [''lower'', ''upper'']"
      "name \<notin> set [''length'', ''len'']" "name \<notin> set [''concat'', ''concat_ws'']"
    by argo
  then show ?thesis
  proof cases
    case 1
    then have "call_function L n name xs = and_then (first_arg xs) (abs_value L)" for n xs by (simp add: call_function_def)
    then show ?thesis using assms(4) f by simp
  next
    case 2
    then have "call_function L n name xs = and_then (first_arg xs) (case_value L name)" for n xs
      by (auto simp: call_function_def)
    then show ?thesis using assms(4) f by simp
  next
    case 3
    then have "call_function L n name xs = and_then (first_arg xs) (length_value L)" for n xs
      by (auto simp: call_function_def)
    then show ?thesis using assms(4) f by simp
  next
    case 4
    then have "call_function L n name xs = and_then (concat_texts L xs) (\<lambda>t. Ret (VString t))" for n xs
      by (auto simp: call_function_def)
    then show ?thesis using assms(4) c by simp
  next
    case 5
    then have "call_function L now name as = Err (Unknown_function name)"
      using False assms(2) by (simp add: call_function_def)
    then show ?thesis using assms(4) by simp
  qed
next
  case True
  obtain g where g: "\<And>n a b. call_function L n name [a, b] = and_then a (\<lambda>v. and_then b (g v))"
  proof (cases "name = ''time_bucket''")
    case True
    show ?thesis by (rule that [of "time_bucket L"]) (simp add: True call_function_def)
  next
    case False
    then have "name = ''substr'' \<or> name = ''substring''" using True by simp
    then show ?thesis
      by (intro that [of "\<lambda>v start. substr_value L v (int_field start) None"]) (elim disjE; simp add: call_function_def)
  qed
  have e: "call_function L now name xs = Err (Wrong_args name)" if "length xs < 2 \<or> name = ''time_bucket'' \<and> length xs \<noteq> 2" for xs
  proof -
    have "xs = [] \<or> (\<exists>x. xs = [x]) \<or> name = ''time_bucket'' \<and> (\<exists>x y z zs. xs = x # y # z # zs)"
      using that by (cases xs; cases "tl xs"; cases "tl (tl xs)") auto
    then show ?thesis using True by (elim disjE exE conjE) (auto simp: call_function_def)
  qed
  have "length as = 2"
  proof (rule ccontr)
    assume "length as \<noteq> 2"
    then have "length as < 2 \<or> name = ''time_bucket'' \<and> length as \<noteq> 2" using True assms(3) by auto
    from e [OF this] show False using assms(4) by simp
  qed
  then obtain a b where ab: "as = [a, b]" by (auto simp: numeral_2_eq_2 length_Suc_conv)
  then obtain a' b' where "bs = [a', b']" "\<forall>v. a = Ret v \<longrightarrow> a' = Ret v" "\<forall>v. b = Ret v \<longrightarrow> b' = Ret v"
    using assms(1) by (auto simp: list_all2_Cons1)
  then show ?thesis using assms(4) by (auto simp: ab g and_then_Ret)
qed

lemma steady_const: "steady e \<Longrightarrow> eval L now Map.empty e = Ret v \<Longrightarrow> eval L now' ctx e = Ret v"
proof (induction e arbitrary: v)
  case (Call name args)
  have "list_all2 (\<lambda>a b. \<forall>v. a = Ret v \<longrightarrow> b = Ret v) (map (eval L now Map.empty) args) (map (eval L now' ctx) args)"
    using Call by (auto simp: list_all2_map1 list_all2_map2 list_all_iff intro!: list.rel_refl_strong)
  from call_mono [OF this] show ?case using Call.prems by simp
qed (auto simp: and_then_Ret split: if_splits)

subsection \<open>Surprises\<close>

lemma op_texts: "to_lower ''substr'' = ''substr''" "to_lower ''abs'' = ''abs''" "to_lower ''concat_ws'' = ''concat_ws''"
  "to_upper ''-'' = ''-''" "runes ''abc'' = [''a'', ''b'', ''c'']" "runes ''NULL'' = [''N'', ''U'', ''L'', ''L'']"
  by code_simp+

text \<open>A negative count, or no argument at all, makes the server panic.\<close>

lemma negative_count_panics:
  "eval L now ctx (Call ''substr'' [Literal (VString ''abc''), Literal (VInt 2), UnaryOp ''-'' (Literal (VInt 1))]) = Panic"
  "eval L now ctx (Call ''abs'' []) = Panic"
  by (simp_all add: op_texts call_function_def unary_op_def substr_value_def int_field_def first_arg_def del: to_lower.simps to_upper.simps runes.simps)

text \<open>\<open>concat_ws\<close> puts its separator first and nowhere else; a part of a null is a part of the text \<open>NULL\<close>.\<close>

lemma concat_ws_is_concat:
  "eval L now ctx (Call ''concat_ws'' [Literal (VString '',''), Literal (VString ''a''), Literal (VString ''b'')]) = Ret (VString '',ab'')"
  by (simp add: op_texts call_function_def del: to_lower.simps to_upper.simps runes.simps)

lemma substr_of_null:
  "eval L now ctx (Call ''substr'' [Literal VNull, Literal (VInt 1)]) = Ret (VString ''NULL'')"
  by (simp add: op_texts call_function_def substr_value_def int_field_def del: to_lower.simps to_upper.simps runes.simps)

text \<open>A double that is not a number compares equal to every number.\<close>

lemma nan_equals_all: "float_nan f \<Longrightarrow> compare_values L (VFloat f) (VFloat g) = 0"
  by (simp add: sign_of_def float_lt_def)

text \<open>An error in the third argument of \<open>substr\<close> is taken for a count of zero.\<close>

lemma substr_count_error:
  "eval L now Map.empty (Call ''substr'' [Literal (VString ''abc''), Literal (VInt 1), Ident ''n'']) = Ret (VString [])"
  "eval L now [''n'' \<mapsto> VInt 2] (Call ''substr'' [Literal (VString ''abc''), Literal (VInt 1), Ident ''n'']) = Ret (VString ''ab'')"
  by (simp_all add: op_texts call_function_def substr_value_def int_field_def del: to_lower.simps to_upper.simps runes.simps)

text \<open>A pattern of one percent sign matches every text on one line, and none with a newline.\<close>

lemma like_all_iff: "like_runes [''%''] cs \<longleftrightarrow> list_all (\<lambda>c. c \<noteq> [CHR 0x0A]) cs"
  by (induction cs) auto

lemma like_stops_at_newline: "likeMatch s ''%'' \<longleftrightarrow> [CHR 0x0A] \<notin> set (runes s)"
proof -
  have "runes ''%'' = [''%'']" by simp
  then show ?thesis by (auto simp: likeMatch_def like_all_iff list_all_iff)
qed

end
