(* ===== verification/Statements.thy ===== *)
theory Statements
  imports SqlValues
begin

section \<open>Statements (\<open>sql/ast.go\<close>)\<close>

text \<open>
  The statements the parser makes, the router ships and the executor runs. A condition that is not given
  is the nil expression. A duration is its nanoseconds.
\<close>

record column_def =
  cd_name :: string
  cd_type :: sql_type
  cd_notnull :: bool
  cd_default :: expr
  cd_primary :: bool

record create_table =
  cr_name :: string
  cr_cols :: "column_def list"
  cr_pk :: "string list"
  cr_ifnot :: bool
  cr_engine :: string
  cr_retention :: "64 word"

record select_stmt =
  sl_distinct :: bool
  sl_items :: "(expr \<times> string) list"
  sl_from :: string
  sl_where :: expr
  sl_group :: "expr list"
  sl_order :: "(expr \<times> bool) list"
  sl_limit :: "64 word"
  sl_haslimit :: bool

datatype statement =
    CreateTableStmt create_table
  | DropTableStmt string bool
  | CreateIndexStmt string string "string list" bool
  | DropIndexStmt string string bool
  | InsertStmt string "string list" "expr list list"
  | UpdateStmt string "(string \<times> expr) list" expr
  | DeleteStmt string expr
  | SelectStmt select_stmt
  | BeginStmt
  | CommitStmt
  | RollbackStmt
  | CreateDatabaseStmt string
  | KVPutStmt string string string
  | KVGetStmt string string
  | KVDeleteStmt string string
  | KVScanStmt string string string bool bool

text \<open>What the raft group reads locally (\<open>raftsvc/raftsvc.go\<close>); every other statement becomes an entry of its log.\<close>

definition isRead :: "statement \<Rightarrow> bool" where
  "isRead st = (case st of SelectStmt s \<Rightarrow> True | KVGetStmt t k \<Rightarrow> True | KVScanStmt t a b c d \<Rightarrow> True | _ \<Rightarrow> False)"

text \<open>A condition as the router and the executor test it.\<close>

definition where_cond :: "expr \<Rightarrow> expr option" where
  "where_cond e = (if e = NoExpr then None else Some e)"

end
