(* ===== verification/SqlParser.thy ===== *)
theory SqlParser
  imports SqlLexer Statements
begin

section \<open>The parser of the SQL dialect (\<open>sql/parser.go\<close>)\<close>

text \<open>
  Recursive descent over the tokens of a script. The parser's position is the list of tokens from there on, whose last
  is the end token, and no operation moves beyond it. Loops run for at most as many rounds as there are tokens and
  expressions nest at most as deep; running out of that is an error of its own, which no script gives
  (\<open>parse_ends\<close>). An identifier has no byte that takes part in a fold of Unicode to an ASCII
  letter, so \<open>EqualFold\<close> with a keyword compares ASCII letters. The bits of a double are those of \<open>ParseFloat\<close>.
\<close>

subsection \<open>Tokens\<close>

datatype parse_error =
    Lexing lex_error
  | Expected string nat
  | Unexpected string nat
  | Unknown_engine string
  | Bad_retention
  | Out_of_fuel

type_synonym 'a parsing = "token list \<Rightarrow> parse_error + 'a \<times> token list"

fun parsed :: "parse_error + 'a \<times> token list \<Rightarrow> ('a \<Rightarrow> 'b parsing) \<Rightarrow> parse_error + 'b \<times> token list" where
  "parsed (Inl e) f = Inl e"
| "parsed (Inr (a, ts)) f = f a ts"

fun peek :: "token list \<Rightarrow> token" where
  "peek [] = plain_token TokEOF [] 0"
| "peek (t # ts) = t"

fun advance :: "token list \<Rightarrow> token list" where
  "advance (t # u # ts) = u # ts"
| "advance ts = ts"

definition peek_kind :: "token list \<Rightarrow> tok_kind" where
  "peek_kind ts = tk_kind (peek ts)"

text \<open>\<open>peekAt(1)\<close>.\<close>

definition peek_next :: "token list \<Rightarrow> token" where
  "peek_next ts = peek (advance ts)"

definition equal_fold :: "string \<Rightarrow> string \<Rightarrow> bool" where
  "equal_fold s kw \<longleftrightarrow> map lower_char s = map lower_char kw"

definition isKeyword :: "string \<Rightarrow> token list \<Rightarrow> bool" where
  "isKeyword kw ts \<longleftrightarrow> peek_kind ts = TokIdent \<and> equal_fold (tk_text (peek ts)) kw"

definition acceptKeyword :: "string \<Rightarrow> token list \<Rightarrow> token list" where
  "acceptKeyword kw ts = (if isKeyword kw ts then advance ts else ts)"

definition expect :: "tok_kind \<Rightarrow> string \<Rightarrow> token parsing" where
  "expect k what ts = (if peek_kind ts \<noteq> k then Inl (Expected what (tk_pos (peek ts))) else Inr (peek ts, advance ts))"

text \<open>\<open>strings.ToLower\<close>, with its short cut for ASCII.\<close>

definition ident_lower :: "go_lib \<Rightarrow> string \<Rightarrow> string" where
  "ident_lower L s = (if list_all (\<lambda>c. byte_of c < 128) s then map lower_char s else gl_lower L s)"

definition identLower :: "go_lib \<Rightarrow> token list \<Rightarrow> string \<times> token list" where
  "identLower L ts = (ident_lower L (tk_text (peek ts)), advance ts)"

text \<open>An identifier, checked first.\<close>

definition name_of :: "go_lib \<Rightarrow> string \<Rightarrow> string parsing" where
  "name_of L what ts =
     (if peek_kind ts \<noteq> TokIdent then Inl (Expected what (tk_pos (peek ts))) else Inr (identLower L ts))"

text \<open>The call of \<open>expect\<close> whose result is ignored.\<close>

definition skip_ident :: "token list \<Rightarrow> token list" where
  "skip_ident ts = (if peek_kind ts = TokIdent then advance ts else ts)"

definition typeFromKeyword :: "go_lib \<Rightarrow> string \<Rightarrow> sql_type" where
  "typeFromKeyword L kw =
     (let k = ident_lower L kw
      in if k \<in> set [''int'', ''int64'', ''integer''] then TInt
         else if k \<in> set [''float'', ''double'', ''real''] then TFloat
         else if k \<in> set [''string'', ''text'', ''varchar''] then TString
         else if k \<in> set [''bool'', ''boolean''] then TBool
         else if k = ''timestamp'' then TTimestamp else TNull)"

text \<open>Items separated by commas.\<close>

primrec comma_list :: "nat \<Rightarrow> 'a parsing \<Rightarrow> 'a list parsing" where
  "comma_list 0 item ts = Inl Out_of_fuel"
| "comma_list (Suc k) item ts =
     parsed (item ts) (\<lambda>x ts.
       if peek_kind ts = TokComma then parsed (comma_list k item (advance ts)) (\<lambda>xs ts. Inr (x # xs, ts))
       else Inr ([x], ts))"

definition comma_sep :: "'a parsing \<Rightarrow> 'a list parsing" where
  "comma_sep item ts = comma_list (length ts) item ts"

subsection \<open>Expressions\<close>

text \<open>The loop of a level of precedence: an operator, an operand of the next level, to the left.\<close>

primrec op_loop :: "nat \<Rightarrow> (token list \<Rightarrow> (string \<times> token list) option) \<Rightarrow> expr parsing \<Rightarrow> expr \<Rightarrow> expr parsing" where
  "op_loop 0 opf arg left ts = Inl Out_of_fuel"
| "op_loop (Suc k) opf arg left ts =
     (case opf ts of
        None \<Rightarrow> Inr (left, ts)
      | Some (op, ts) \<Rightarrow> parsed (arg ts) (\<lambda>right ts. op_loop k opf arg (BinaryOp op left right) ts))"

definition or_op :: "token list \<Rightarrow> (string \<times> token list) option" where
  "or_op ts = (if isKeyword ''or'' ts then Some (''OR'', advance ts) else None)"

definition and_op :: "token list \<Rightarrow> (string \<times> token list) option" where
  "and_op ts = (if isKeyword ''and'' ts then Some (''AND'', advance ts) else None)"

definition cmp_op :: "token list \<Rightarrow> (string \<times> token list) option" where
  "cmp_op ts =
     (let x = tk_text (peek ts)
      in if peek_kind ts = TokOp \<and> x \<in> set [''='', ''=='', ''<>'', ''!='', ''<'', ''<='', ''>'', ''>='']
         then Some (if x = ''=='' then ''='' else if x = ''!='' then ''<>'' else x, advance ts)
         else if isKeyword ''not'' ts \<and> tk_kind (peek_next ts) = TokIdent \<and> equal_fold (tk_text (peek_next ts)) ''like''
         then Some (''NOT LIKE'', advance (advance ts))
         else if isKeyword ''like'' ts then Some (''LIKE'', advance ts)
         else None)"

definition add_op :: "token list \<Rightarrow> (string \<times> token list) option" where
  "add_op ts =
     (if peek_kind ts = TokOp \<and> tk_text (peek ts) \<in> set [''+'', ''-''] then Some (tk_text (peek ts), advance ts) else None)"

definition mul_op :: "token list \<Rightarrow> (string \<times> token list) option" where
  "mul_op ts =
     (if peek_kind ts = TokOp \<and> tk_text (peek ts) = ''*'' \<or> peek_kind ts = TokStar then Some (''*'', advance ts)
      else if peek_kind ts = TokOp \<and> tk_text (peek ts) = ''/'' then Some (''/'', advance ts)
      else None)"

definition number_literal :: "go_lib \<Rightarrow> token \<Rightarrow> expr" where
  "number_literal L t =
     Literal (if tk_isFloat t then VFloat (case gl_parse_float L (tk_text t) of None \<Rightarrow> 0 | Some f \<Rightarrow> f) else VInt (tk_intVal t))"

definition parse_cast :: "go_lib \<Rightarrow> expr parsing \<Rightarrow> expr parsing" where
  "parse_cast L pe ts =
     parsed (expect TokLParen ''('' (advance ts)) (\<lambda>_ ts.
     parsed (pe ts) (\<lambda>e ts.
     (let ts = acceptKeyword ''as'' ts
      in if peek_kind ts \<noteq> TokIdent then Inl (Expected ''type after AS'' (tk_pos (peek ts)))
         else (let ty = typeFromKeyword L (tk_text (peek ts))
               in parsed (expect TokRParen '')'' (advance ts)) (\<lambda>_ ts. Inr (CastExpr e ty, ts))))))"

definition parse_call :: "go_lib \<Rightarrow> expr parsing \<Rightarrow> expr parsing" where
  "parse_call L pe ts =
     (let name = ident_lower L (tk_text (peek ts)); ts = advance (advance ts)
      in parsed (if peek_kind ts \<noteq> TokRParen then comma_sep pe ts else Inr ([], ts)) (\<lambda>args ts.
         parsed (expect TokRParen '')'' ts) (\<lambda>_ ts. Inr (Call name args, ts))))"

definition parsePrimary :: "go_lib \<Rightarrow> expr parsing \<Rightarrow> expr parsing" where
  "parsePrimary L pe ts =
     (let t = peek ts; x = tk_text t
      in case tk_kind t of
           TokNumber \<Rightarrow> Inr (number_literal L t, advance ts)
         | TokString \<Rightarrow> Inr (Literal (VString x), advance ts)
         | TokStar \<Rightarrow> Inr (Ident ''*'', advance ts)
         | TokLParen \<Rightarrow>
             parsed (pe (advance ts)) (\<lambda>e ts. parsed (expect TokRParen '')'' ts) (\<lambda>_ ts. Inr (e, ts)))
         | TokIdent \<Rightarrow>
             if equal_fold x ''null'' then Inr (Literal VNull, advance ts)
             else if equal_fold x ''true'' \<or> equal_fold x ''false''
             then Inr (Literal (VBool (equal_fold x ''true'')), advance ts)
             else if equal_fold x ''cast'' then parse_cast L pe ts
             else if tk_kind (peek_next ts) = TokLParen then parse_call L pe ts
             else Inr (Ident (ident_lower L x), advance ts)
         | _ \<Rightarrow> Inl (Unexpected x (tk_pos t)))"

primrec parse_unary :: "nat \<Rightarrow> expr parsing \<Rightarrow> expr parsing" where
  "parse_unary 0 prim ts = Inl Out_of_fuel"
| "parse_unary (Suc k) prim ts =
     (if peek_kind ts = TokOp \<and> tk_text (peek ts) \<in> set [''-'', ''+'']
      then parsed (parse_unary k prim (advance ts)) (\<lambda>e ts'. Inr (UnaryOp (tk_text (peek ts)) e, ts'))
      else if isKeyword ''not'' ts then parsed (parse_unary k prim (advance ts)) (\<lambda>e ts'. Inr (UnaryOp ''NOT'' e, ts'))
      else prim ts)"

text \<open>One level of precedence over the next.\<close>

definition level :: "(token list \<Rightarrow> (string \<times> token list) option) \<Rightarrow> expr parsing \<Rightarrow> expr parsing" where
  "level opf next ts = parsed (next ts) (\<lambda>left ts. op_loop (length ts) opf next left ts)"

definition parseUnary :: "go_lib \<Rightarrow> expr parsing \<Rightarrow> expr parsing" where
  "parseUnary L pe ts = parse_unary (length ts) (parsePrimary L pe) ts"

definition parseMultiplicative :: "go_lib \<Rightarrow> expr parsing \<Rightarrow> expr parsing" where
  "parseMultiplicative L pe = level mul_op (parseUnary L pe)"

definition parseAdditive :: "go_lib \<Rightarrow> expr parsing \<Rightarrow> expr parsing" where
  "parseAdditive L pe = level add_op (parseMultiplicative L pe)"

definition parseComparison :: "go_lib \<Rightarrow> expr parsing \<Rightarrow> expr parsing" where
  "parseComparison L pe = level cmp_op (parseAdditive L pe)"

definition parseAnd :: "go_lib \<Rightarrow> expr parsing \<Rightarrow> expr parsing" where
  "parseAnd L pe = level and_op (parseComparison L pe)"

definition parseOr :: "go_lib \<Rightarrow> expr parsing \<Rightarrow> expr parsing" where
  "parseOr L pe = level or_op (parseAnd L pe)"

primrec parse_expr :: "go_lib \<Rightarrow> nat \<Rightarrow> expr parsing" where
  "parse_expr L 0 ts = Inl Out_of_fuel"
| "parse_expr L (Suc n) ts = parseOr L (parse_expr L n) ts"

definition parseExpr :: "go_lib \<Rightarrow> expr parsing" where
  "parseExpr L ts = parse_expr L (length ts) ts"

subsection \<open>Statements\<close>

definition stringLiteral :: "string parsing" where
  "stringLiteral ts =
     (if peek_kind ts \<noteq> TokString then Inl (Expected ''string literal'' (tk_pos (peek ts)))
      else Inr (tk_text (peek ts), advance ts))"

definition optional_string :: "token list \<Rightarrow> string \<times> bool \<times> token list" where
  "optional_string ts = (if peek_kind ts = TokString then (tk_text (peek ts), True, advance ts) else ([], False, ts))"

definition parseKV :: "go_lib \<Rightarrow> statement parsing" where
  "parseKV L ts =
     (let ts = advance ts; (table, rest) = identLower L (advance ts)
      in if isKeyword ''put'' ts then
           parsed (stringLiteral rest) (\<lambda>k ts. parsed (stringLiteral ts) (\<lambda>v ts. Inr (KVPutStmt table k v, ts)))
         else if isKeyword ''get'' ts then parsed (stringLiteral rest) (\<lambda>k ts. Inr (KVGetStmt table k, ts))
         else if isKeyword ''delete'' ts then parsed (stringLiteral rest) (\<lambda>k ts. Inr (KVDeleteStmt table k, ts))
         else if isKeyword ''scan'' ts then
           (case optional_string rest of (lo, haslo, ts) \<Rightarrow>
            case optional_string ts of (hi, hashi, ts) \<Rightarrow> Inr (KVScanStmt table lo hi haslo hashi, ts))
         else Inl (Expected ''PUT/GET/DELETE/SCAN after KV'' (tk_pos (peek ts))))"

definition optional_where :: "go_lib \<Rightarrow> expr parsing" where
  "optional_where L ts = (if isKeyword ''where'' ts then parseExpr L (advance ts) else Inr (NoExpr, ts))"

text \<open>
  A column of \<open>CREATE TABLE\<close>, up to where it is added to the list. Behind \<open>PRIMARY KEY\<close> an opening parenthesis
  makes the code go two tokens back and leave the loop without adding the column: \<open>Inr None\<close>.
\<close>

definition back_two :: "token list \<Rightarrow> token list \<Rightarrow> token list" where
  "back_two start ts = drop (length start - length ts - 2) start"

definition column_rest :: "go_lib \<Rightarrow> column_def \<Rightarrow> column_def option parsing" where
  "column_rest L col ts =
     (if isKeyword ''default'' ts
      then parsed (parseExpr L (advance ts)) (\<lambda>d ts. Inr (Some (col\<lparr>cd_default := d\<rparr>), ts))
      else Inr (Some col, ts))"

definition parse_column :: "go_lib \<Rightarrow> column_def option parsing" where
  "parse_column L start =
     parsed (name_of L ''column name'' start) (\<lambda>name ts.
     (let hasty = (peek_kind ts = TokIdent);
          ty = (if hasty then typeFromKeyword L (tk_text (peek ts)) else TNull);
          ts = (if hasty then advance ts else ts);
          nn = isKeyword ''not'' ts;
          ts = (if nn then acceptKeyword ''null'' (advance ts) else ts);
          prim = isKeyword ''primary'' ts;
          ts = (if prim then acceptKeyword ''key'' (advance ts) else ts);
          col = \<lparr>cd_name = name, cd_type = ty, cd_notnull = nn \<or> prim, cd_default = NoExpr, cd_primary = prim\<rparr>
      in if prim \<and> peek_kind ts = TokLParen then Inr (None, back_two start ts)
         else column_rest L col ts))"

primrec parse_columns :: "go_lib \<Rightarrow> nat \<Rightarrow> column_def list parsing" where
  "parse_columns L 0 ts = Inl Out_of_fuel"
| "parse_columns L (Suc k) ts =
     (if peek_kind ts = TokRParen \<or> isKeyword ''primary'' ts then Inr ([], ts)
      else parsed (parse_column L ts) (\<lambda>c ts.
        (case c of
           None \<Rightarrow> Inr ([], ts)
         | Some c \<Rightarrow>
             if peek_kind ts = TokComma
             then parsed (parse_columns L k (advance ts)) (\<lambda>cs ts. Inr (c # cs, ts))
             else Inr ([c], ts))))"

definition parse_pk :: "go_lib \<Rightarrow> string list parsing" where
  "parse_pk L ts =
     (if isKeyword ''primary'' ts then
        parsed (expect TokLParen ''('' (acceptKeyword ''key'' (advance ts))) (\<lambda>_ ts.
        parsed (comma_sep (name_of L ''pk column'') ts) (\<lambda>pk ts.
        parsed (expect TokRParen '')'' ts) (\<lambda>_ ts. Inr (pk, ts))))
      else Inr ([], ts))"

definition parse_engine :: "go_lib \<Rightarrow> string parsing" where
  "parse_engine L ts =
     (if isKeyword ''engine'' ts then
        parsed (expect TokOp ''='' (advance ts)) (\<lambda>_ ts.
        parsed (name_of L ''engine name'' ts) (\<lambda>e ts.
          if e \<in> set [''table'', ''kv'', ''cstore'', ''cstore2''] then Inr (e, ts) else Inl (Unknown_engine e)))
      else Inr ([], ts))"

definition parseRetention :: "go_lib \<Rightarrow> string \<Rightarrow> 64 word option" where
  "parseRetention L text =
     (let s = go_trim text
      in if length s < 2 then None
         else if last s = CHR ''d'' then
           (case parseInt64 (go_trim (butlast s)) of
              None \<Rightarrow> None
            | Some n \<Rightarrow> if sint n \<le> 0 then None else Some (n * 24 * 3600000000000))
         else (case gl_parse_duration L s of
                 None \<Rightarrow> None
               | Some d \<Rightarrow> if sint d \<le> 0 then None else Some d))"

definition parse_retention :: "go_lib \<Rightarrow> 64 word parsing" where
  "parse_retention L ts =
     (if isKeyword ''retention'' ts then
        parsed (expect TokOp ''='' (advance ts)) (\<lambda>_ ts.
        if peek_kind ts \<noteq> TokString then Inl (Expected ''RETENTION duration string'' (tk_pos (peek ts)))
        else (case parseRetention L (tk_text (peek ts)) of
                None \<Rightarrow> Inl Bad_retention
              | Some d \<Rightarrow> Inr (d, advance ts)))
      else Inr (0, ts))"

definition parse_create_table :: "go_lib \<Rightarrow> statement parsing" where
  "parse_create_table L ts =
     (let ifnot = isKeyword ''if'' ts; ts = (if ifnot then skip_ident (advance ts) else ts)
      in parsed (name_of L ''table name'' ts) (\<lambda>name ts.
         parsed (expect TokLParen ''('' ts) (\<lambda>_ ts.
         parsed (parse_columns L (length ts) ts) (\<lambda>cols ts.
         parsed (parse_pk L ts) (\<lambda>pk ts.
         parsed (expect TokRParen '')'' ts) (\<lambda>_ ts.
         parsed (parse_engine L ts) (\<lambda>engine ts.
         parsed (parse_retention L ts) (\<lambda>ret ts.
           Inr (CreateTableStmt \<lparr>cr_name = name, cr_cols = cols, cr_pk = pk, cr_ifnot = ifnot, cr_engine = engine,
             cr_retention = ret\<rparr>, ts)))))))))"

text \<open>The columns of an index may be none.\<close>

primrec index_columns :: "go_lib \<Rightarrow> nat \<Rightarrow> string list parsing" where
  "index_columns L 0 ts = Inl Out_of_fuel"
| "index_columns L (Suc k) ts =
     (if peek_kind ts = TokRParen then Inr ([], ts)
      else parsed (name_of L ''column name'' ts) (\<lambda>c ts.
        if peek_kind ts = TokComma then parsed (index_columns L k (advance ts)) (\<lambda>cs ts. Inr (c # cs, ts))
        else Inr ([c], ts)))"

definition parseCreateIndex :: "go_lib \<Rightarrow> statement parsing" where
  "parseCreateIndex L ts =
     (let ifnot = isKeyword ''if'' ts; ts = (if ifnot then skip_ident (acceptKeyword ''not'' (advance ts)) else ts)
      in parsed (name_of L ''index name'' ts) (\<lambda>name ts.
         parsed (name_of L ''table name'' (acceptKeyword ''on'' ts)) (\<lambda>table ts.
         parsed (expect TokLParen ''('' ts) (\<lambda>_ ts.
         parsed (index_columns L (length ts) ts) (\<lambda>cols ts.
         parsed (expect TokRParen '')'' ts) (\<lambda>_ ts. Inr (CreateIndexStmt name table cols ifnot, ts)))))))"

definition parseCreate :: "go_lib \<Rightarrow> statement parsing" where
  "parseCreate L ts =
     (let ts = advance ts
      in if isKeyword ''database'' ts then
           (case identLower L (advance ts) of (name, ts) \<Rightarrow> Inr (CreateDatabaseStmt name, ts))
         else if isKeyword ''index'' ts then parseCreateIndex L (advance ts)
         else if isKeyword ''table'' ts then parse_create_table L (advance ts)
         else Inl (Expected ''TABLE or INDEX'' (tk_pos (peek ts))))"

definition parseDrop :: "go_lib \<Rightarrow> statement parsing" where
  "parseDrop L ts =
     (let ts = advance ts; rest = advance ts; ifex = isKeyword ''if'' rest;
          rest = (if ifex then skip_ident (advance rest) else rest)
      in if isKeyword ''table'' ts then parsed (name_of L ''table name'' rest) (\<lambda>name ts. Inr (DropTableStmt name ifex, ts))
         else if isKeyword ''index'' ts then
           parsed (name_of L ''index name'' rest) (\<lambda>name ts.
             (let ts = acceptKeyword ''on'' ts
              in if peek_kind ts = TokIdent then (case identLower L ts of (table, ts) \<Rightarrow> Inr (DropIndexStmt name table ifex, ts))
                 else Inr (DropIndexStmt name [] ifex, ts)))
         else Inl (Expected ''TABLE or INDEX'' (tk_pos (peek ts))))"

definition parse_row :: "go_lib \<Rightarrow> expr list parsing" where
  "parse_row L ts =
     parsed (expect TokLParen ''('' ts) (\<lambda>_ ts.
     parsed (comma_sep (parseExpr L) ts) (\<lambda>row ts.
     parsed (expect TokRParen '')'' ts) (\<lambda>_ ts. Inr (row, ts))))"

definition parseInsert :: "go_lib \<Rightarrow> statement parsing" where
  "parseInsert L ts =
     parsed (name_of L ''table name'' (acceptKeyword ''into'' (advance ts))) (\<lambda>table ts.
     parsed (if peek_kind ts = TokLParen
             then parsed (comma_sep (name_of L ''column name'') (advance ts)) (\<lambda>cols ts.
                  parsed (expect TokRParen '')'' ts) (\<lambda>_ ts. Inr (cols, ts)))
             else Inr ([], ts)) (\<lambda>cols ts.
     parsed (comma_sep (parse_row L) (acceptKeyword ''values'' ts)) (\<lambda>rows ts.
       Inr (InsertStmt table cols rows, ts))))"

definition parse_set :: "go_lib \<Rightarrow> (string \<times> expr) parsing" where
  "parse_set L ts =
     parsed (name_of L ''column name'' ts) (\<lambda>col ts.
     parsed (expect TokOp ''='' ts) (\<lambda>_ ts.
     parsed (parseExpr L ts) (\<lambda>v ts. Inr ((col, v), ts))))"

definition parseUpdate :: "go_lib \<Rightarrow> statement parsing" where
  "parseUpdate L ts =
     parsed (name_of L ''table name'' (advance ts)) (\<lambda>table ts.
     parsed (comma_sep (parse_set L) (acceptKeyword ''set'' ts)) (\<lambda>sets ts.
     parsed (optional_where L ts) (\<lambda>w ts. Inr (UpdateStmt table sets w, ts))))"

definition parseDelete :: "go_lib \<Rightarrow> statement parsing" where
  "parseDelete L ts =
     parsed (name_of L ''table name'' (acceptKeyword ''from'' (advance ts))) (\<lambda>table ts.
     parsed (optional_where L ts) (\<lambda>w ts. Inr (DeleteStmt table w, ts)))"

definition parse_item :: "go_lib \<Rightarrow> (expr \<times> string) parsing" where
  "parse_item L ts =
     parsed (parseExpr L ts) (\<lambda>e ts.
       if isKeyword ''as'' ts then parsed (name_of L ''alias'' (advance ts)) (\<lambda>a ts. Inr ((e, a), ts)) else Inr ((e, []), ts))"

definition parse_order :: "go_lib \<Rightarrow> (expr \<times> bool) parsing" where
  "parse_order L ts =
     parsed (parseExpr L ts) (\<lambda>e ts.
       if isKeyword ''desc'' ts then Inr ((e, True), advance ts) else Inr ((e, False), acceptKeyword ''asc'' ts))"

text \<open>A list behind a keyword and an optional \<open>BY\<close>.\<close>

definition by_list :: "string \<Rightarrow> 'a parsing \<Rightarrow> 'a list parsing" where
  "by_list kw item ts =
     (if isKeyword kw ts then comma_sep item (acceptKeyword ''by'' (advance ts)) else Inr ([], ts))"

definition parse_limit :: "(64 word \<times> bool) parsing" where
  "parse_limit ts =
     (if isKeyword ''limit'' ts then
        (let ts = advance ts
         in if peek_kind ts \<noteq> TokNumber then Inl (Expected ''number after LIMIT'' (tk_pos (peek ts)))
            else Inr ((tk_intVal (peek ts), True), advance ts))
      else Inr ((0, False), ts))"

definition parseSelect :: "go_lib \<Rightarrow> statement parsing" where
  "parseSelect L ts =
     (let ts = advance ts; dst = isKeyword ''distinct'' ts
      in parsed (comma_sep (parse_item L) (acceptKeyword ''distinct'' ts)) (\<lambda>items ts.
         parsed (if isKeyword ''from'' ts then name_of L ''table name'' (advance ts) else Inr ([], ts)) (\<lambda>table ts.
         parsed (optional_where L ts) (\<lambda>w ts.
         parsed (by_list ''group'' (parseExpr L) ts) (\<lambda>group ts.
         parsed (if isKeyword ''having'' ts
                 then parsed (parseExpr L (advance ts)) (\<lambda>h ts. Inr (BinaryOp ''AND'' w h, ts)) else Inr (w, ts)) (\<lambda>w ts.
         parsed (by_list ''order'' (parse_order L) ts) (\<lambda>order ts.
         parsed (parse_limit ts) (\<lambda>(limit, haslimit) ts.
           Inr (SelectStmt \<lparr>sl_distinct = dst, sl_items = items, sl_from = table, sl_where = w, sl_group = group,
             sl_order = order, sl_limit = limit, sl_haslimit = haslimit\<rparr>, ts)))))))))"

definition parseStatement :: "go_lib \<Rightarrow> statement parsing" where
  "parseStatement L ts =
     (if isKeyword ''select'' ts then parseSelect L ts
      else if isKeyword ''insert'' ts then parseInsert L ts
      else if isKeyword ''update'' ts then parseUpdate L ts
      else if isKeyword ''delete'' ts then parseDelete L ts
      else if isKeyword ''create'' ts then parseCreate L ts
      else if isKeyword ''drop'' ts then parseDrop L ts
      else if isKeyword ''begin'' ts then Inr (BeginStmt, advance ts)
      else if isKeyword ''commit'' ts then Inr (CommitStmt, advance ts)
      else if isKeyword ''rollback'' ts then Inr (RollbackStmt, advance ts)
      else if isKeyword ''kv'' ts then parseKV L ts
      else Inl (Unexpected (tk_text (peek ts)) (tk_pos (peek ts))))"

definition skipSemicolons :: "token list \<Rightarrow> token list" where
  "skipSemicolons ts = dropWhile (\<lambda>t. tk_kind t = TokSemicolon) ts"

primrec parse_script :: "go_lib \<Rightarrow> nat \<Rightarrow> token list \<Rightarrow> parse_error + statement list" where
  "parse_script L 0 ts = Inl Out_of_fuel"
| "parse_script L (Suc k) ts =
     (let ts = skipSemicolons ts
      in if peek_kind ts = TokEOF then Inr []
         else (case parseStatement L ts of
                 Inl e \<Rightarrow> Inl e
               | Inr (st, ts) \<Rightarrow>
                   (case parse_script L k ts of Inl e \<Rightarrow> Inl e | Inr sts \<Rightarrow> Inr (st # sts))))"

definition Parse :: "go_lib \<Rightarrow> string \<Rightarrow> parse_error + statement list" where
  "Parse L src = (case tokenize src of Inl e \<Rightarrow> Inl (Lexing e) | Inr ts \<Rightarrow> parse_script L (length ts) ts)"

subsection \<open>The parser ends\<close>

definition eof_last :: "token list \<Rightarrow> bool" where
  "eof_last ts \<longleftrightarrow> ts \<noteq> [] \<and> tk_kind (last ts) = TokEOF"

text \<open>A result that has not run out of fuel and leaves at most \<open>n\<close> tokens.\<close>

definition fine :: "nat \<Rightarrow> parse_error + 'a \<times> token list \<Rightarrow> bool" where
  "fine n r \<longleftrightarrow> (case r of Inl e \<Rightarrow> e \<noteq> Out_of_fuel | Inr (a, ts) \<Rightarrow> eof_last ts \<and> length ts \<le> n)"

lemma fine_Inl [simp]: "fine n (Inl e) \<longleftrightarrow> e \<noteq> Out_of_fuel"
  by (simp add: fine_def)

lemma fine_Inr [simp]: "fine n (Inr (a, ts)) \<longleftrightarrow> eof_last ts \<and> length ts \<le> n"
  by (simp add: fine_def)

lemma fine_mono: "fine m r \<Longrightarrow> m \<le> n \<Longrightarrow> fine n r"
  by (auto simp: fine_def split: sum.splits)

lemma parsed_fine:
  "fine n m \<Longrightarrow> (\<And>a ts. eof_last ts \<Longrightarrow> length ts \<le> n \<Longrightarrow> fine l (f a ts)) \<Longrightarrow> fine l (parsed m f)"
proof (cases m)
  case (Inr p)
  assume a: "fine n m" "\<And>a ts. eof_last ts \<Longrightarrow> length ts \<le> n \<Longrightarrow> fine l (f a ts)"
  obtain x ts where "p = (x, ts)" by (cases p)
  then show ?thesis using a(1) a(2) [of ts x] Inr by simp
qed simp

lemma eof_last_advance [simp]: "eof_last ts \<Longrightarrow> eof_last (advance ts)"
  by (cases ts rule: advance.cases) (auto simp: eof_last_def)

lemma advance_le: "length (advance ts) \<le> length ts"
  by (cases ts rule: advance.cases) auto

lemma advance_less: "eof_last ts \<Longrightarrow> peek_kind ts \<noteq> TokEOF \<Longrightarrow> Suc (length (advance ts)) = length ts"
  by (cases ts rule: advance.cases) (auto simp: eof_last_def peek_kind_def)

lemma keyword_kind: "isKeyword kw ts \<Longrightarrow> peek_kind ts \<noteq> TokEOF"
  by (simp add: isKeyword_def)

lemma keyword_less: "eof_last ts \<Longrightarrow> isKeyword kw ts \<Longrightarrow> Suc (length (advance ts)) = length ts"
  by (simp add: advance_less keyword_kind)

lemma eof_last_accept [simp]: "eof_last ts \<Longrightarrow> eof_last (acceptKeyword kw ts)"
  by (simp add: acceptKeyword_def)

lemma accept_le: "length (acceptKeyword kw ts) \<le> length ts"
  by (simp add: acceptKeyword_def advance_le)

lemma skip_ident_fine [simp]: "eof_last ts \<Longrightarrow> eof_last (skip_ident ts)"
  by (simp add: skip_ident_def)

lemma skip_ident_le: "length (skip_ident ts) \<le> length ts"
  by (simp add: skip_ident_def advance_le)

lemmas rest_le = advance_le accept_le skip_ident_le

lemma eof_last_length: "eof_last ts \<Longrightarrow> 0 < length ts"
  by (simp add: eof_last_def)

text \<open>A parser that takes something, on lists of at most \<open>n\<close> tokens.\<close>

definition takes :: "nat \<Rightarrow> 'a parsing \<Rightarrow> bool" where
  "takes n p \<longleftrightarrow> (\<forall>ts. eof_last ts \<longrightarrow> length ts \<le> n \<longrightarrow> fine (length ts - 1) (p ts))"

lemma takesD: "takes n p \<Longrightarrow> eof_last ts \<Longrightarrow> length ts \<le> n \<Longrightarrow> fine (length ts - 1) (p ts)"
  by (simp add: takes_def)

lemma expect_takes: "k \<noteq> TokEOF \<Longrightarrow> takes n (expect k what)"
  using advance_less by (fastforce simp: takes_def expect_def)

lemma name_takes: "takes n (name_of L what)"
  using advance_less by (fastforce simp: takes_def name_of_def identLower_def)

lemma string_takes: "takes n stringLiteral"
  using advance_less by (fastforce simp: takes_def stringLiteral_def)

lemma comma_list_fine:
  "takes n item \<Longrightarrow> eof_last ts \<Longrightarrow> length ts \<le> n \<Longrightarrow> length ts \<le> k \<Longrightarrow> fine (length ts - 1) (comma_list k item ts)"
proof (induction k arbitrary: ts)
  case 0
  then show ?case using eof_last_length [of ts] by simp
next
  case (Suc k)
  show ?case unfolding comma_list.simps
  proof (rule parsed_fine [OF takesD [OF Suc.prems(1-3)]])
    fix x us
    assume us: "eof_last us" "length us \<le> length ts - 1"
    show "fine (length ts - 1) (if peek_kind us = TokComma
        then parsed (comma_list k item (advance us)) (\<lambda>xs ts. Inr (x # xs, ts)) else Inr ([x], us))"
    proof (cases "peek_kind us = TokComma")
      case True
      then have "Suc (length (advance us)) = length us" using us(1) by (simp add: advance_less)
      then have "fine (length (advance us) - 1) (comma_list k item (advance us))"
        using Suc.IH [of "advance us"] Suc.prems us by simp
      then show ?thesis using True us advance_le [of us] by (auto intro!: parsed_fine)
    qed (use us in simp)
  qed
qed

lemma comma_takes: "takes n item \<Longrightarrow> takes n (comma_sep item)"
  using comma_list_fine [of n item] by (auto simp: takes_def [of n "comma_sep item"] comma_sep_def)

definition op_reads :: "(token list \<Rightarrow> (string \<times> token list) option) \<Rightarrow> bool" where
  "op_reads opf \<longleftrightarrow> (\<forall>ts op us. eof_last ts \<longrightarrow> opf ts = Some (op, us) \<longrightarrow> eof_last us \<and> length us < length ts)"

lemma ops_read: "op_reads or_op" "op_reads and_op" "op_reads cmp_op" "op_reads add_op" "op_reads mul_op"
proof -
  have k: "length (advance ts) < length ts" if "eof_last ts" "isKeyword kw ts" for ts kw
    using keyword_less [OF that] by simp
  have o: "length (advance ts) < length ts" if "eof_last ts" "peek_kind ts = TokOp \<or> peek_kind ts = TokStar" for ts
    using advance_less [OF that(1)] that(2) by auto
  have kk: "length (advance (advance ts)) < length ts" if "eof_last ts" "isKeyword kw ts" for ts kw
    using k [OF that] advance_le [of "advance ts"] by simp
  show "op_reads or_op" "op_reads and_op" "op_reads cmp_op" "op_reads add_op" "op_reads mul_op"
    by (auto simp: op_reads_def or_op_def and_op_def cmp_op_def add_op_def mul_op_def Let_def intro: k o kk split: if_splits)
qed

lemma op_loop_fine:
  assumes "takes n arg" and "op_reads opf"
  shows "eof_last ts \<Longrightarrow> length ts \<le> n \<Longrightarrow> length ts \<le> k \<Longrightarrow> fine (length ts) (op_loop k opf arg left ts)"
proof (induction k arbitrary: ts left)
  case 0
  then show ?case using eof_last_length [of ts] by simp
next
  case (Suc k)
  show ?case
  proof (cases "opf ts")
    case None
    then show ?thesis using Suc.prems by simp
  next
    case (Some p)
    obtain op us where p: "p = (op, us)" by (cases p)
    have us: "eof_last us" "length us < length ts" using assms(2) Suc.prems(1) Some p by (auto simp: op_reads_def)
    have "fine (length ts) (parsed (arg us) (\<lambda>right ts. op_loop k opf arg (BinaryOp op left right) ts))"
    proof (rule parsed_fine [OF takesD [OF assms(1) us(1)]])
      show "length us \<le> n" using us(2) Suc.prems(2) by simp
      fix e vs
      assume vs: "eof_last vs" "length vs \<le> length us - 1"
      then have "fine (length vs) (op_loop k opf arg (BinaryOp op left e) vs)" using Suc us by simp
      then show "fine (length ts) (op_loop k opf arg (BinaryOp op left e) vs)" by (rule fine_mono) (use vs us in simp)
    qed
    then show ?thesis using Some p by simp
  qed
qed

lemma level_takes: "takes n next \<Longrightarrow> op_reads opf \<Longrightarrow> takes n (level opf next)"
  unfolding takes_def [of n "level opf next"] level_def
proof (intro allI impI)
  fix ts :: "token list"
  assume a: "takes n next" "op_reads opf" "eof_last ts" "length ts \<le> n"
  show "fine (length ts - 1) (parsed (next ts) (\<lambda>left ts. op_loop (length ts) opf next left ts))"
  proof (rule parsed_fine [OF takesD [OF a(1,3,4)]])
    fix e us
    assume us: "eof_last us" "length us \<le> length ts - 1"
    then have "fine (length us) (op_loop (length us) opf next e us)" using a op_loop_fine by simp
    then show "fine (length ts - 1) (op_loop (length us) opf next e us)" by (rule fine_mono) (rule us(2))
  qed
qed

lemma unary_fine:
  assumes "takes n prim"
  shows "eof_last ts \<Longrightarrow> length ts \<le> n \<Longrightarrow> length ts \<le> k \<Longrightarrow> fine (length ts - 1) (parse_unary k prim ts)"
proof (induction k arbitrary: ts)
  case 0
  then show ?case using eof_last_length [of ts] by simp
next
  case (Suc k)
  have rec: "fine (length ts - 1) (parsed (parse_unary k prim (advance ts)) (\<lambda>e ts'. Inr (f e, ts')))"
    if "peek_kind ts \<noteq> TokEOF" for f :: "expr \<Rightarrow> expr"
  proof -
    have "Suc (length (advance ts)) = length ts" using advance_less [OF Suc.prems(1) that] .
    then have "fine (length (advance ts) - 1) (parse_unary k prim (advance ts))" using Suc by simp
    then show ?thesis using advance_le [of ts] by (auto intro!: parsed_fine)
  qed
  show ?case using rec [of "UnaryOp (tk_text (peek ts))"] rec [of "UnaryOp ''NOT''"] takesD [OF assms Suc.prems(1,2)]
    by (auto dest: keyword_kind)
qed

lemma parse_unary_takes: "takes n (parsePrimary L pe) \<Longrightarrow> takes n (parseUnary L pe)"
  using unary_fine [of n "parsePrimary L pe"] by (auto simp: takes_def [of n "parseUnary L pe"] parseUnary_def)

text \<open>A closing parenthesis after something.\<close>

lemma closed_fine: "eof_last ts \<Longrightarrow> length ts \<le> m \<Longrightarrow> fine m (parsed (expect TokRParen what ts) (\<lambda>_ ts. Inr (x, ts)))"
  using takesD [OF expect_takes [of TokRParen "length ts" what], of ts] by (auto intro!: parsed_fine)

lemma takes_below: "takes n pe \<Longrightarrow> eof_last ts \<Longrightarrow> length ts \<le> n \<Longrightarrow> length ts - 1 \<le> m \<Longrightarrow> fine m (pe ts)"
  by (rule fine_mono [OF takesD])

lemma cast_fine:
  assumes "takes n pe" and "eof_last ts" and "length ts \<le> Suc n" and "peek_kind ts \<noteq> TokEOF"
  shows "fine (length ts - 1) (parse_cast L pe ts)"
proof -
  have l: "Suc (length (advance ts)) = length ts" using advance_less [OF assms(2,4)] .
  then have e: "length ts - 2 = length (advance ts) - 1" by simp
  show ?thesis unfolding parse_cast_def
  proof (rule parsed_fine)
    show "fine (length ts - 2) (expect TokLParen ''('' (advance ts))"
      unfolding e by (rule takesD [OF expect_takes, where n = "length ts"]) (use assms(2) l in simp_all)
    fix t us
    assume us: "eof_last us" "length us \<le> length ts - 2"
    show "fine (length ts - 1) (parsed (pe us) (\<lambda>e ts.
        (let ts = acceptKeyword ''as'' ts
         in if peek_kind ts \<noteq> TokIdent then Inl (Expected ''type after AS'' (tk_pos (peek ts)))
            else (let ty = typeFromKeyword L (tk_text (peek ts))
                  in parsed (expect TokRParen '')'' (advance ts)) (\<lambda>_ ts. Inr (CastExpr e ty, ts))))))"
    proof (rule parsed_fine)
      show "fine (length ts - 2) (pe us)" by (rule takes_below [OF assms(1)]) (use us assms(3) in simp_all)
      fix e vs
      assume vs: "eof_last vs" "length vs \<le> length ts - 2"
      have "length (advance (acceptKeyword ''as'' vs)) \<le> length ts - 1"
        using vs(2) advance_le [of "acceptKeyword ''as'' vs"] accept_le [of "''as''" vs] by simp
      then show "fine (length ts - 1) (let ts = acceptKeyword ''as'' vs
         in if peek_kind ts \<noteq> TokIdent then Inl (Expected ''type after AS'' (tk_pos (peek ts)))
            else (let ty = typeFromKeyword L (tk_text (peek ts))
                  in parsed (expect TokRParen '')'' (advance ts)) (\<lambda>_ ts. Inr (CastExpr e ty, ts))))"
        using vs(1) by (simp add: Let_def closed_fine)
    qed
  qed
qed

lemma call_fine:
  assumes "takes n pe" and "eof_last ts" and "length ts \<le> Suc n" and "peek_kind ts \<noteq> TokEOF"
  shows "fine (length ts - 1) (parse_call L pe ts)"
proof -
  have l: "Suc (length (advance ts)) = length ts" using advance_less [OF assms(2,4)] .
  let ?us = "advance (advance ts)"
  have us: "eof_last ?us" "length ?us \<le> length ts - 1" using assms(2) l advance_le [of "advance ts"] by simp_all
  have "fine (length ts - 1) (if peek_kind ?us \<noteq> TokRParen then comma_sep pe ?us else Inr ([], ?us))"
    using takes_below [OF comma_takes [OF assms(1)] us(1)] us l assms(3) by auto
  then show ?thesis unfolding parse_call_def Let_def by (rule parsed_fine) (rule closed_fine)
qed

lemma primary_takes: "takes n pe \<Longrightarrow> takes (Suc n) (parsePrimary L pe)"
  unfolding takes_def [of "Suc n"]
proof (intro allI impI)
  fix ts :: "token list"
  assume pe: "takes n pe" and ts: "eof_last ts" "length ts \<le> Suc n"
  have adv: "Suc (length (advance ts)) = length ts" if "tk_kind (peek ts) \<noteq> TokEOF"
    using advance_less [OF ts(1)] that by (simp add: peek_kind_def)
  have par: "fine (length ts - 1) (parsed (pe (advance ts)) (\<lambda>e ts. parsed (expect TokRParen '')'' ts) (\<lambda>_ ts. Inr (e, ts))))"
    if "tk_kind (peek ts) \<noteq> TokEOF"
  proof (rule parsed_fine)
    show "fine (length ts - 1) (pe (advance ts))" by (rule takes_below [OF pe]) (use ts adv that in simp_all)
  qed (rule closed_fine)
  show "fine (length ts - 1) (parsePrimary L pe ts)"
    using adv par cast_fine [OF pe ts] call_fine [OF pe ts] ts(1)
    by (simp add: parsePrimary_def Let_def peek_kind_def split: tok_kind.split) auto
qed

lemma or_takes: "takes n pe \<Longrightarrow> takes (Suc n) (parseOr L pe)"
  unfolding parseOr_def parseAnd_def parseComparison_def parseAdditive_def parseMultiplicative_def
  by (intro level_takes ops_read parse_unary_takes primary_takes)

lemma parse_expr_takes: "takes n (parse_expr L n)"
proof (induction n)
  case 0
  then show ?case using eof_last_length by (auto simp: takes_def)
next
  case (Suc n)
  have "parse_expr L (Suc n) = parseOr L (parse_expr L n)" by (rule ext) simp
  then show ?case using or_takes [OF Suc] by simp
qed

lemma expr_takes: "takes n (parseExpr L)"
  using parse_expr_takes by (auto simp: takes_def parseExpr_def)

text \<open>The lists of columns.\<close>

lemma back_two_fine:
  assumes "eof_last start" and "length ts < length start"
  shows "eof_last (back_two start ts)" and "length (back_two start ts) \<le> length start"
proof -
  obtain k where k: "k = length start - length ts - 2" "k < length start" using assms(2) by fastforce
  then show "eof_last (back_two start ts)" using assms(1) by (simp only: back_two_def k(1) [symmetric]) (simp add: eof_last_def)
qed (simp add: back_two_def)

text \<open>A parser that leaves no more than there was, and how such parsers follow each other.\<close>

definition keeps :: "'a parsing \<Rightarrow> bool" where
  "keeps p \<longleftrightarrow> (\<forall>ts. eof_last ts \<longrightarrow> fine (length ts) (p ts))"

named_theorems keeping \<open>parsers that run out of nothing\<close>

lemma keepsI: "(\<And>ts. eof_last ts \<Longrightarrow> fine (length ts) (p ts)) \<Longrightarrow> keeps p"
  by (simp add: keeps_def)

lemma keepsD: "keeps p \<Longrightarrow> eof_last ts \<Longrightarrow> length ts \<le> n \<Longrightarrow> fine n (p ts)"
  by (auto simp: keeps_def intro: fine_mono)

lemma takes_keeps: "(\<And>n. takes n p) \<Longrightarrow> keeps p"
  by (rule keepsI, rule fine_mono [OF takesD]) auto

lemma parsed_keeps [keeping]:
  "keeps p \<Longrightarrow> eof_last us \<Longrightarrow> length us \<le> n \<Longrightarrow>
   (\<And>a ts. eof_last ts \<Longrightarrow> length ts \<le> n \<Longrightarrow> fine n (f a ts)) \<Longrightarrow> fine n (parsed (p us) f)"
  by (rule parsed_fine [OF keepsD])

lemma keeps_base [keeping]:
  "k \<noteq> TokEOF \<Longrightarrow> keeps (expect k what)" "keeps (name_of L what)" "keeps stringLiteral" "keeps (parseExpr L)"
  by (simp_all add: takes_keeps expect_takes name_takes string_takes expr_takes)

lemma rest_le_trans [keeping]:
  "length ts \<le> n \<Longrightarrow> length (advance ts) \<le> n" "length ts \<le> n \<Longrightarrow> length (acceptKeyword kw ts) \<le> n"
  "length ts \<le> n \<Longrightarrow> length (skip_ident ts) \<le> n"
  using rest_le le_trans by blast+

lemma comma_keeps [keeping]: "(\<And>n. takes n item) \<Longrightarrow> keeps (comma_sep item)"
  by (rule takes_keeps) (rule comma_takes)

lemma where_keeps [keeping]: "keeps (optional_where L)"
  by (rule keepsI) (auto simp: optional_where_def intro!: keeping keepsD)

lemma pk_keeps [keeping]: "keeps (parse_pk L)"
  by (rule keepsI) (auto simp: parse_pk_def intro!: keeping name_takes)

lemma engine_keeps [keeping]: "keeps (parse_engine L)"
  by (rule keepsI) (auto simp: parse_engine_def intro!: keeping)

lemma retention_keeps [keeping]: "keeps (parse_retention L)"
  by (rule keepsI) (auto simp: parse_retention_def intro!: keeping split: option.split)

lemma limit_keeps [keeping]: "keeps parse_limit"
  by (rule keepsI) (auto simp: parse_limit_def Let_def intro!: keeping)

lemma then_takes:
  assumes "takes n p" and "\<And>a ts m. eof_last ts \<Longrightarrow> length ts \<le> m \<Longrightarrow> fine m (f a ts)"
  shows "takes n (\<lambda>ts. parsed (p ts) f)"
  unfolding takes_def using assms(2) by (intro allI impI) (rule parsed_fine [OF takesD [OF assms(1)]])

lemma row_takes: "takes n (parse_row L)"
  unfolding parse_row_def by (rule then_takes [OF expect_takes]) (auto intro!: keeping expr_takes)

lemma set_takes: "takes n (parse_set L)"
  unfolding parse_set_def by (rule then_takes [OF name_takes]) (auto intro!: keeping)

lemma item_takes: "takes n (parse_item L)"
  unfolding parse_item_def by (rule then_takes [OF expr_takes]) (auto intro!: keeping)

lemma order_takes: "takes n (parse_order L)"
  unfolding parse_order_def by (rule then_takes [OF expr_takes]) (auto intro!: keeping)

lemma by_keeps [keeping]: "(\<And>n. takes n item) \<Longrightarrow> keeps (by_list kw item)"
  by (rule keepsI) (auto simp: by_list_def intro!: keepsD comma_keeps keeping)

lemma column_rest_keeps: "keeps (column_rest L col)"
  by (rule keepsI) (auto simp: column_rest_def intro!: keeping)

lemma column_keeps [keeping]: "keeps (parse_column L)"
proof (rule keepsI)
  fix start :: "token list"
  assume s: "eof_last start"
  show "fine (length start) (parse_column L start)"
    unfolding parse_column_def
  proof (rule parsed_fine [OF takesD [OF name_takes s order_refl]])
    fix name ts
    assume ts: "eof_last ts" "length ts \<le> length start - 1"
    have lt: "length us < length start" if "length us \<le> length ts" for us :: "token list"
      using that ts(2) eof_last_length [OF s] by linarith
    define u1 where "u1 = (if peek_kind ts = TokIdent then advance ts else ts)"
    define u2 where "u2 = (if isKeyword ''not'' u1 then acceptKeyword ''null'' (advance u1) else u1)"
    define u3 where "u3 = (if isKeyword ''primary'' u2 then acceptKeyword ''key'' (advance u2) else u2)"
    have u: "eof_last u3" "length u3 \<le> length ts"
      using ts(1) by (auto simp: u1_def u2_def u3_def intro!: keeping)
    have "fine (length start) (column_rest L col u3)" for col
      by (rule keepsD [OF column_rest_keeps u(1)]) (use lt [OF u(2)] in simp)
    moreover have "eof_last (back_two start u3)" "length (back_two start u3) \<le> length start"
      using back_two_fine [OF s lt [OF u(2)]] by simp_all
    ultimately show "fine (length start) (let hasty = (peek_kind ts = TokIdent);
          ty = (if hasty then typeFromKeyword L (tk_text (peek ts)) else TNull);
          ts = (if hasty then advance ts else ts);
          nn = isKeyword ''not'' ts;
          ts = (if nn then acceptKeyword ''null'' (advance ts) else ts);
          prim = isKeyword ''primary'' ts;
          ts = (if prim then acceptKeyword ''key'' (advance ts) else ts);
          col = \<lparr>cd_name = name, cd_type = ty, cd_notnull = nn \<or> prim, cd_default = NoExpr, cd_primary = prim\<rparr>
      in if prim \<and> peek_kind ts = TokLParen then Inr (None, back_two start ts)
         else column_rest L col ts)"
      unfolding Let_def u1_def [symmetric] u2_def [symmetric] u3_def [symmetric] by simp
  qed
qed

text \<open>A list whose items only keep, but whose commas are taken.\<close>

lemma columns_fine: "eof_last ts \<Longrightarrow> length ts \<le> k \<Longrightarrow> fine (length ts) (parse_columns L k ts)"
proof (induction k arbitrary: ts)
  case 0
  then show ?case using eof_last_length [of ts] by simp
next
  case (Suc k)
  have rec: "fine (length ts) (parsed (parse_columns L k (advance us)) (\<lambda>cs ts. Inr (c # cs, ts)))"
    if us: "eof_last us" "length us \<le> length ts" "peek_kind us = TokComma" for us c
  proof -
    have l: "Suc (length (advance us)) = length us" using advance_less [OF us(1)] us(3) by simp
    have "fine (length (advance us)) (parse_columns L k (advance us))" using Suc.IH [of "advance us"] Suc.prems us l by simp
    then show ?thesis by (rule parsed_fine) (use us l in simp)
  qed
  show ?case using Suc.prems rec
    by (auto intro!: keeping split: option.split)
qed

lemma index_columns_fine: "eof_last ts \<Longrightarrow> length ts \<le> k \<Longrightarrow> fine (length ts) (index_columns L k ts)"
proof (induction k arbitrary: ts)
  case 0
  then show ?case using eof_last_length [of ts] by simp
next
  case (Suc k)
  have rec: "fine (length ts) (parsed (index_columns L k (advance us)) (\<lambda>cs ts. Inr (c # cs, ts)))"
    if us: "eof_last us" "length us \<le> length ts" "peek_kind us = TokComma" for us c
  proof -
    have l: "Suc (length (advance us)) = length us" using advance_less [OF us(1)] us(3) by simp
    have "fine (length (advance us)) (index_columns L k (advance us))" using Suc.IH [of "advance us"] Suc.prems us l by simp
    then show ?thesis by (rule parsed_fine) (use us l in simp)
  qed
  show ?case using Suc.prems rec by (auto intro!: keeping)
qed

lemma list_keeps [keeping]:
  "keeps (\<lambda>ts. parse_columns L (length ts) ts)" "keeps (\<lambda>ts. index_columns L (length ts) ts)"
  by (rule keepsI, simp add: columns_fine index_columns_fine)+

lemma insert_columns_keeps [keeping]:
  "keeps (\<lambda>ts. if peek_kind ts = TokLParen
      then parsed (comma_sep (name_of L ''column name'') (advance ts)) (\<lambda>cols ts.
           parsed (expect TokRParen '')'' ts) (\<lambda>_ ts. Inr (cols, ts)))
      else Inr ([], ts))"
  by (rule keepsI) (auto intro!: keeping name_takes)

lemma from_keeps [keeping]: "keeps (\<lambda>ts. if isKeyword ''from'' ts then name_of L ''table name'' (advance ts) else Inr ([], ts))"
  by (rule keepsI) (auto intro!: keepsD keeping)

lemma having_keeps [keeping]:
  "keeps (\<lambda>ts. if isKeyword ''having'' ts
      then parsed (parseExpr L (advance ts)) (\<lambda>h ts. Inr (BinaryOp ''AND'' w h, ts)) else Inr (w, ts))"
  by (rule keepsI) (auto intro!: keeping)

lemma optional_string_rest: "optional_string ts = (x, b, us) \<Longrightarrow> eof_last ts \<Longrightarrow> eof_last us \<and> length us \<le> length ts"
  by (auto simp: optional_string_def advance_le split: if_splits)

lemma kv_fine: "eof_last (advance ts) \<Longrightarrow> fine (length (advance ts)) (parseKV L ts)"
  unfolding parseKV_def Let_def identLower_def prod.case
  by (auto intro!: keeping split: prod.split dest!: optional_string_rest) (use advance_le le_trans in blast)+

lemma create_table_keeps [keeping]: "keeps (parse_create_table L)"
  by (rule keepsI, unfold parse_create_table_def Let_def)
    (auto intro!: keeping parsed_keeps [where p = "\<lambda>ts. parse_columns L (length ts) ts"])

lemma create_index_keeps [keeping]: "keeps (parseCreateIndex L)"
  by (rule keepsI, unfold parseCreateIndex_def Let_def)
    (auto intro!: keeping parsed_keeps [where p = "\<lambda>ts. index_columns L (length ts) ts"])

lemma create_fine: "eof_last (advance ts) \<Longrightarrow> fine (length (advance ts)) (parseCreate L ts)"
  unfolding parseCreate_def Let_def identLower_def prod.case by (auto intro!: keepsD keeping)

lemma drop_fine: "eof_last (advance ts) \<Longrightarrow> fine (length (advance ts)) (parseDrop L ts)"
  unfolding parseDrop_def Let_def identLower_def prod.case by (auto intro!: keeping)

lemma insert_fine: "eof_last (advance ts) \<Longrightarrow> fine (length (advance ts)) (parseInsert L ts)"
  unfolding parseInsert_def
  by (intro parsed_keeps [OF keeps_base(2)] parsed_keeps [OF insert_columns_keeps] parsed_keeps [OF comma_keeps [OF row_takes]])
    (auto intro!: keeping)

lemma update_fine: "eof_last (advance ts) \<Longrightarrow> fine (length (advance ts)) (parseUpdate L ts)"
  unfolding parseUpdate_def by (auto intro!: keeping set_takes)

lemma delete_fine: "eof_last (advance ts) \<Longrightarrow> fine (length (advance ts)) (parseDelete L ts)"
  unfolding parseDelete_def by (auto intro!: keeping)

lemma select_fine: "eof_last (advance ts) \<Longrightarrow> fine (length (advance ts)) (parseSelect L ts)"
  unfolding parseSelect_def Let_def
  by (intro parsed_keeps [OF comma_keeps [OF item_takes]] parsed_keeps [OF from_keeps] parsed_keeps [OF where_keeps]
      parsed_keeps [OF by_keeps [OF expr_takes]] parsed_keeps [OF having_keeps] parsed_keeps [OF by_keeps [OF order_takes]]
      parsed_keeps [OF limit_keeps]) (auto intro!: keeping)

lemma statement_fine: "eof_last ts \<Longrightarrow> fine (length ts - 1) (parseStatement L ts)"
proof -
  assume a: "eof_last ts"
  then have e: "eof_last (advance ts)" by simp
  have k: "fine (length ts - 1) r" if "isKeyword kw ts" "fine (length (advance ts)) r" for kw and r :: "parse_error + statement \<times> token list"
    using keyword_less [OF a that(1)] that(2) by (auto intro: fine_mono)
  show ?thesis unfolding parseStatement_def
    using k select_fine [OF e] insert_fine [OF e] update_fine [OF e] delete_fine [OF e] create_fine [OF e]
      drop_fine [OF e] kv_fine [OF e] e
    by (simp split: if_split) (metis fine_Inr order_refl)
qed

lemma tokens_eof: "tokens_from n src = Inr ts \<Longrightarrow> eof_last ts \<and> length ts \<le> Suc (length src)"
proof (induction n src arbitrary: ts rule: tokens_from.induct)
  case (1 n src)
  obtain t rest where l: "lex_next n src = Inr (t, rest)"
    using 1(2) by (auto simp: tokens_from.simps [of n src] split: sum.splits)
  show ?case
  proof (cases "tk_kind t = TokEOF")
    case True
    then show ?thesis using 1(2) l by (auto simp: tokens_from.simps [of n src] eof_last_def)
  next
    case False
    then obtain us where us: "tokens_from n rest = Inr us" "ts = t # us"
      using 1(2) l by (auto simp: tokens_from.simps [of n src] split: sum.splits)
    have "eof_last us" "length us \<le> Suc (length rest)" using 1(1) [OF l refl False us(1)] by auto
    moreover have "length rest < length src" using lex_next_shorter [OF l False] .
    ultimately show ?thesis using us(2) by (auto simp: eof_last_def)
  qed
qed

lemma skip_fine: "eof_last ts \<Longrightarrow> eof_last (skipSemicolons ts) \<and> length (skipSemicolons ts) \<le> length ts"
proof (induction ts)
  case (Cons t ts)
  show ?case
  proof (cases "tk_kind t = TokSemicolon")
    case True
    then have "eof_last ts" using Cons.prems by (cases ts) (auto simp: eof_last_def)
    then show ?thesis using True Cons.IH by (simp add: skipSemicolons_def)
  qed (use Cons.prems in \<open>simp add: skipSemicolons_def\<close>)
qed (simp add: eof_last_def)

lemma script_fine:
  "eof_last ts \<Longrightarrow> length ts \<le> k \<Longrightarrow>
   (case parse_script L k ts of Inl e \<Rightarrow> e \<noteq> Out_of_fuel | Inr sts \<Rightarrow> length sts < length ts)"
proof (induction k arbitrary: ts)
  case 0
  then show ?case using eof_last_length [of ts] by simp
next
  case (Suc k)
  let ?us = "skipSemicolons ts"
  have us: "eof_last ?us" "length ?us \<le> length ts" using skip_fine [OF Suc.prems(1)] by simp_all
  show ?case
  proof (cases "peek_kind ?us = TokEOF")
    case True
    then show ?thesis using eof_last_length [OF Suc.prems(1)] by (simp add: Let_def)
  next
    case False
    have f: "fine (length ?us - 1) (parseStatement L ?us)" by (rule statement_fine [OF us(1)])
    show ?thesis
    proof (cases "parseStatement L ?us")
      case (Inl e)
      then show ?thesis using False f by (simp add: Let_def)
    next
      case (Inr p)
      obtain st vs where p: "p = (st, vs)" by (cases p)
      have "eof_last vs" "length vs \<le> length ?us - 1" using f Inr p by simp_all
      then have vs: "eof_last vs" "length vs < length ts" using us(2) eof_last_length [OF us(1)] by (blast, linarith)
      then have "case parse_script L k vs of Inl e \<Rightarrow> e \<noteq> Out_of_fuel | Inr sts \<Rightarrow> length sts < length vs"
        using Suc by simp
      then show ?thesis using False Inr p vs(2) by (simp add: Let_def split: sum.splits)
    qed
  qed
qed

text \<open>C20: the parser ends on every script, whatever its text: no loop and no nesting reaches its bound, and it gives an error or
  at most one statement for each character.\<close>

theorem parse_ends:
  "case Parse L src of Inl e \<Rightarrow> e \<noteq> Out_of_fuel | Inr sts \<Rightarrow> length sts \<le> length src"
proof (cases "tokenize src")
  case (Inr ts)
  then have "eof_last ts" "length ts \<le> Suc (length src)" using tokens_eof by (auto simp: tokenize_def)
  then show ?thesis using script_fine [of ts "length ts" L] Inr by (auto simp: Parse_def split: sum.splits)
qed (simp add: Parse_def)

subsection \<open>What the parser gets wrong\<close>

text \<open>
  Behind \<open>IF\<close> only one word is skipped: in \<open>CREATE TABLE IF NOT EXISTS t\<close> it is \<open>NOT\<close>, \<open>EXISTS\<close> is taken for the name of the table and
  the statement is refused.
\<close>

lemma if_not_exists_refused:
  assumes "isKeyword ''if'' (a # b # c # d # ts)" and "tk_kind b = TokIdent" and "tk_kind c = TokIdent" and "tk_kind d = TokIdent"
  shows "parse_create_table L (a # b # c # d # ts) = Inl (Expected ''('' (tk_pos d))"
  using assms by (simp add: parse_create_table_def skip_ident_def name_of_def peek_kind_def identLower_def expect_def)

text \<open>The sign of an assignment may be any operator: \<open>SET a < 5\<close> sets \<open>a\<close> to 5.\<close>

lemma any_operator_assigns:
  assumes "tk_kind c = TokIdent" and "tk_kind o1 = TokOp" and "tk_kind o2 = TokOp"
  shows "parse_set L (c # o1 # t # ts) = parse_set L (c # o2 # t # ts)"
  using assms by (simp add: parse_set_def name_of_def peek_kind_def identLower_def expect_def)

text \<open>A column directly followed by \<open>PRIMARY KEY (...)\<close>, without a comma, is dropped from the table.\<close>

lemma column_before_key_dropped:
  assumes "tk_kind c = TokIdent" and "tk_kind ty = TokIdent" and "\<not> isKeyword ''not'' [p]" and "isKeyword ''primary'' [p]"
    and "isKeyword ''key'' [k]" and "tk_kind l = TokLParen"
  shows "parse_column L (c # ty # p # k # l # ts) = Inr (None, p # k # l # ts)"
  using assms
  by (simp add: parse_column_def name_of_def peek_kind_def identLower_def isKeyword_def acceptKeyword_def back_two_def)

end
