(* ===== verification/SqlPrint.thy ===== *)
theory SqlPrint
  imports SqlParser
begin

section \<open>Statements and expressions as text (\<open>sql/print.go\<close>)\<close>

text \<open>
  How the server writes statements back to SQL, and how its lexer and parser read them. The router sends the condition
  of a \<open>SELECT\<close> to the shards as text, and definitions of tables and indexes to the node that leads. The text of a
  double is a parameter, so is that of a duration.
\<close>

fun type_text :: "sql_type \<Rightarrow> string" where
  "type_text TInt = ''int64''"
| "type_text TFloat = ''float64''"
| "type_text TString = ''string''"
| "type_text TBool = ''bool''"
| "type_text TTimestamp = ''timestamp''"
| "type_text TNull = ''null''"

definition sqlStr :: "string \<Rightarrow> string" where
  "sqlStr s = CHR 0x27 # replace_all (CHR 0x27) [CHR 0x27, CHR 0x27] s @ [CHR 0x27]"

text \<open>A literal of a timestamp is written with its string field, which is empty.\<close>

fun ExprString :: "go_lib \<Rightarrow> expr \<Rightarrow> string" where
  "ExprString L NoExpr = []"
| "ExprString L (Literal v) =
     (case v of VNull \<Rightarrow> ''null'' | VInt i \<Rightarrow> int64_text i | VFloat f \<Rightarrow> gl_float_text L f | VString s \<Rightarrow> sqlStr s
      | VBool b \<Rightarrow> (if b then ''true'' else ''false'') | VTime t \<Rightarrow> sqlStr [])"
| "ExprString L (Ident n) = n"
| "ExprString L (UnaryOp op e) = ''('' @ op @ '' '' @ ExprString L e @ '')''"
| "ExprString L (CastExpr e t) = ''cast('' @ ExprString L e @ '' as '' @ type_text t @ '')''"
| "ExprString L (BinaryOp op l r) = ''('' @ ExprString L l @ '' '' @ op @ '' '' @ ExprString L r @ '')''"
| "ExprString L (Call n args) = n @ ''('' @ join_on '', '' (map (ExprString L) args) @ '')''"

definition where_text :: "go_lib \<Rightarrow> string \<Rightarrow> expr \<Rightarrow> string" where
  "where_text L kw w = (if w = NoExpr then [] else kw @ ExprString L w)"

definition column_text :: "column_def \<Rightarrow> string" where
  "column_text c = cd_name c @ '' '' @ type_text (cd_type c) @ (if cd_notnull c then '' not null'' else []) @
     (if cd_primary c then '' primary key'' else [])"

definition createTableString :: "(64 word \<Rightarrow> string) \<Rightarrow> create_table \<Rightarrow> string" where
  "createTableString dur n =
     ''create table '' @ cr_name n @ '' ('' @ join_on '', '' (map column_text (cr_cols n)) @ '')'' @
     (if cr_pk n \<noteq> [] then '' primary key ('' @ join_on '', '' (cr_pk n) @ '')'' else []) @
     (if cr_engine n \<noteq> [] then '' engine='' @ to_upper (cr_engine n) else []) @
     (if 0 <s cr_retention n then '' retention='' @ [CHR 0x27] @ dur (cr_retention n) @ [CHR 0x27] else [])"

fun StatementString :: "go_lib \<Rightarrow> (64 word \<Rightarrow> string) \<Rightarrow> statement \<Rightarrow> string" where
  "StatementString L dur (CreateTableStmt n) = createTableString dur n"
| "StatementString L dur (DropTableStmt name ifex) = ''drop table '' @ (if ifex then ''if exists '' else []) @ name"
| "StatementString L dur (CreateIndexStmt name table cols ifnot) =
     ''create index '' @ (if ifnot then ''if not exists '' else []) @ name @ '' on '' @ table @ '' ('' @ join_on '', '' cols @ '')''"
| "StatementString L dur (DropIndexStmt name table ifex) = ''drop index '' @ (if ifex then ''if exists '' else []) @ name"
| "StatementString L dur (InsertStmt table cols rows) =
     ''insert into '' @ table @ (if cols \<noteq> [] then '' ('' @ join_on '', '' cols @ '')'' else []) @ '' values '' @
     join_on '', '' (map (\<lambda>row. ''('' @ join_on '', '' (map (ExprString L) row) @ '')'') rows)"
| "StatementString L dur (UpdateStmt table sets w) =
     ''update '' @ table @ '' set '' @ join_on '', '' (map (\<lambda>(c, e). c @ '' = '' @ ExprString L e) sets) @ where_text L '' where '' w"
| "StatementString L dur (DeleteStmt table w) = ''delete from '' @ table @ where_text L '' where '' w"
| "StatementString L dur BeginStmt = ''begin''"
| "StatementString L dur CommitStmt = ''commit''"
| "StatementString L dur RollbackStmt = ''rollback''"
| "StatementString L dur (CreateDatabaseStmt name) = ''create database '' @ name"
| "StatementString L dur (KVPutStmt table k v) = ''kv put '' @ table @ '' '' @ sqlStr k @ '' '' @ sqlStr v"
| "StatementString L dur (KVGetStmt table k) = ''kv get '' @ table @ '' '' @ sqlStr k"
| "StatementString L dur (KVDeleteStmt table k) = ''kv delete '' @ table @ '' '' @ sqlStr k"
| "StatementString L dur (KVScanStmt table lo hi haslo hashi) =
     ''kv scan '' @ table @ (if haslo then '' '' @ sqlStr lo else []) @ (if hashi then '' '' @ sqlStr hi else [])"
| "StatementString L dur (SelectStmt q) = []"

text \<open>The query a shard of a row table is sent (\<open>execSelect\<close> of \<open>shard/router.go\<close>).\<close>

definition shard_query :: "go_lib \<Rightarrow> string \<Rightarrow> expr \<Rightarrow> string" where
  "shard_query L table w = ''SELECT * FROM '' @ table @ where_text L '' WHERE '' w"

text \<open>A \<open>DROP INDEX\<close> goes to the shards without its table, under which they look the index up.\<close>

lemma drop_index_loses_table: "StatementString L dur (DropIndexStmt n t f) = StatementString L dur (DropIndexStmt n [] f)"
  by simp

subsection \<open>The tokens of an expression\<close>

definition sql_ops :: "string list" where
  "sql_ops = [''+'', ''-'', ''*'', ''/'', ''='', ''<'', ''>'', ''<='', ''>='', ''<>'', ''AND'', ''OR'', ''LIKE'', ''NOT LIKE'']"

definition op_tokens :: "string \<Rightarrow> (tok_kind \<times> string) list" where
  "op_tokens op =
     (if op = ''NOT LIKE'' then [(TokIdent, ''NOT''), (TokIdent, ''LIKE'')]
      else if op \<in> set [''AND'', ''OR'', ''LIKE'', ''NOT''] then [(TokIdent, op)]
      else if op = ''*'' then [(TokStar, op)] else [(TokOp, op)])"

abbreviation "in_parens x \<equiv> (TokLParen, ''('') # x @ [(TokRParen, '')'')]"

fun expr_tokens :: "expr \<Rightarrow> (tok_kind \<times> string) list" where
  "expr_tokens NoExpr = []"
| "expr_tokens (Literal v) =
     (case v of VNull \<Rightarrow> [(TokIdent, ''null'')] | VInt i \<Rightarrow> [(TokNumber, int64_text i)] | VString s \<Rightarrow> [(TokString, s)]
      | VBool b \<Rightarrow> [(TokIdent, if b then ''true'' else ''false'')] | _ \<Rightarrow> [])"
| "expr_tokens (Ident n) = [(if n = ''*'' then TokStar else TokIdent, n)]"
| "expr_tokens (UnaryOp op e) = in_parens (op_tokens op @ expr_tokens e)"
| "expr_tokens (CastExpr e t) = (TokIdent, ''cast'') # in_parens (expr_tokens e @ [(TokIdent, ''as''), (TokIdent, type_text t)])"
| "expr_tokens (BinaryOp op l r) = in_parens (expr_tokens l @ op_tokens op @ expr_tokens r)"
| "expr_tokens (Call n args) = (TokIdent, n) # in_parens (comma_tokens (map expr_tokens args))"

text \<open>Names and expressions as the parser makes them.\<close>

definition sql_name :: "string \<Rightarrow> bool" where
  "sql_name n \<longleftrightarrow> sql_word n \<and> list_all (\<lambda>c. byte_of c < 128 \<and> lower_char c = c) n"

fun parsed_expr :: "expr \<Rightarrow> bool" where
  "parsed_expr NoExpr = False"
| "parsed_expr (Literal v) = (case v of VInt i \<Rightarrow> 0 \<le> sint i | VTime t \<Rightarrow> False | _ \<Rightarrow> True)"
| "parsed_expr (Ident n) = (n = ''*'' \<or> sql_name n \<and> n \<notin> set [''not'', ''null'', ''true'', ''false'', ''cast''])"
| "parsed_expr (UnaryOp op e) = (op \<in> set [''-'', ''+'', ''NOT''] \<and> parsed_expr e)"
| "parsed_expr (CastExpr e t) = parsed_expr e"
| "parsed_expr (BinaryOp op l r) = (op \<in> set sql_ops \<and> parsed_expr l \<and> parsed_expr r)"
| "parsed_expr (Call n args) =
     (sql_name n \<and> n \<notin> set [''not'', ''null'', ''true'', ''false'', ''cast''] \<and> list_all parsed_expr args)"

text \<open>No double among the literals, no conversion to one, and nothing nil.\<close>

fun printable :: "expr \<Rightarrow> bool" where
  "printable NoExpr = False"
| "printable (Literal v) = (case v of VFloat f \<Rightarrow> False | _ \<Rightarrow> True)"
| "printable (Ident n) = True"
| "printable (UnaryOp op e) = printable e"
| "printable (CastExpr e t) = (t \<noteq> TFloat \<and> printable e)"
| "printable (BinaryOp op l r) = (printable l \<and> printable r)"
| "printable (Call n args) = list_all printable args"

text \<open>What follows an expression in a text.\<close>

definition delimited :: "string \<Rightarrow> bool" where
  "delimited r \<longleftrightarrow> r = [] \<or> hd r \<in> {CHR '' '', CHR '','', CHR '')''}"

lemma delimited_simps [simp]:
  "delimited []" "delimited (CHR '' '' # r)" "delimited (CHR '','' # r)" "delimited (CHR '')'' # r)"
  by (simp_all add: delimited_def)

lemma delimited_ends: "delimited r \<Longrightarrow> ends_token r \<and> (r = [] \<or> hd r \<noteq> CHR 0x27)"
  by (cases r) (auto simp: delimited_def)

lemma reads_delimited_word: "sql_word w \<Longrightarrow> delimited r \<Longrightarrow> reads_as r ts \<Longrightarrow> reads_as (w @ r) ((TokIdent, w) # ts)"
  using reads_ident delimited_ends by blast

lemma print_words:
  "sql_word ''null''" "sql_word ''true''" "sql_word ''false''" "sql_word ''cast''" "sql_word ''as''"
  "sql_word ''AND''" "sql_word ''OR''" "sql_word ''LIKE''" "sql_word ''NOT''"
  by code_simp+

lemma type_words: "sql_word ''int64''" "sql_word ''float64''" "sql_word ''string''" "sql_word ''bool''" "sql_word ''timestamp''"
  by code_simp+

lemma type_word: "sql_word (type_text t)"
  using type_words print_words(1) by (cases t) simp_all

lemma reads_star: "reads_as r ts \<Longrightarrow> reads_as (CHR ''*'' # r) ((TokStar, ''*'') # ts)"
  by (rule reads_token [where r = r]) (simp_all add: lex_token_def sql_blank_def)

lemma reads_sign:
  assumes "op \<in> set [''+'', ''-'', ''/'', ''='', ''<'', ''>'', ''<='', ''>='', ''<>'']" and "reads_as r ts"
  shows "reads_as (op @ CHR '' '' # r) ((TokOp, op) # ts)"
proof -
  note b = reads_blank [OF assms(2)]
  note classes = lex_token_def sql_blank_def two_char_ops_def go_digit_def ident_start_def latin1_letter_def
  have one: "reads_as (c # CHR '' '' # r) ((TokOp, [c]) # ts)" if "c \<in> set ''+-/=<>''" for c
  proof -
    from that have "c = CHR ''+'' \<or> c = CHR ''-'' \<or> c = CHR ''/'' \<or> c = CHR ''='' \<or> c = CHR ''<'' \<or> c = CHR ''>''" by auto
    then show ?thesis by (elim disjE; hypsubst; intro reads_token [OF _ _ _ b]; simp add: classes)
  qed
  have two: "reads_as (c # d # CHR '' '' # r) ((TokOp, [c, d]) # ts)" if "[c, d] \<in> set [''<='', ''>='', ''<>'']" for c d
  proof -
    from that have "c = CHR ''<'' \<and> d = CHR ''='' \<or> c = CHR ''>'' \<and> d = CHR ''='' \<or> c = CHR ''<'' \<and> d = CHR ''>''" by auto
    then show ?thesis by (elim disjE conjE; hypsubst; intro reads_token [OF _ _ _ b]; simp add: classes)
  qed
  show ?thesis
  proof (cases "op \<in> set [''<='', ''>='', ''<>'']")
    case True
    then obtain c d where "op = [c, d]" by auto
    then show ?thesis using two [of c d] True by simp
  next
    case False
    then have "op \<in> set (map (\<lambda>c. [c]) ''+-/=<>'')" using assms(1) by simp
    then obtain c where "op = [c]" "c \<in> set ''+-/=<>''" unfolding set_map by blast
    then show ?thesis using one [of c] by simp
  qed
qed

lemma reads_op:
  assumes "op \<in> set sql_ops \<or> op = ''NOT''" and "reads_as r ts"
  shows "reads_as (op @ CHR '' '' # r) (op_tokens op @ ts)"
proof -
  let ?signs = "set [''+'', ''-'', ''/'', ''='', ''<'', ''>'', ''<='', ''>='', ''<>'']" and ?words = "set [''AND'', ''OR'', ''LIKE'', ''NOT'']"
  have "list_all (\<lambda>op. op \<in> ?signs \<or> op = ''*'' \<or> op \<in> ?words \<or> op = ''NOT LIKE'') (''NOT'' # sql_ops)" by code_simp
  then have "op \<in> ?signs \<or> op = ''*'' \<or> op \<in> ?words \<or> op = ''NOT LIKE''" using assms(1) unfolding list_all_iff by fastforce
  then consider "op \<in> ?signs" | "op = ''*''" | "op \<in> ?words" | "op = ''NOT LIKE''" by blast
  then show ?thesis
  proof cases
    case 1
    then have "op_tokens op = [(TokOp, op)]" by (auto simp: op_tokens_def)
    then show ?thesis using reads_sign [OF 1 assms(2)] by simp
  next
    case 2
    then show ?thesis using reads_star [OF reads_blank [OF assms(2)]] by (simp add: op_tokens_def)
  next
    case 3
    then have "op_tokens op = [(TokIdent, op)]" "sql_word op" using print_words by (auto simp: op_tokens_def)
    then show ?thesis using reads_word [OF _ assms(2)] by simp
  next
    case 4
    then show ?thesis using reads_word [OF print_words(9) reads_word [OF print_words(8) assms(2)]] by (simp add: op_tokens_def)
  qed
qed

lemma reads_parens: "piece delimited l tk \<Longrightarrow> piece (\<lambda>_. True) (''('' @ l @ '')'') (in_parens tk)"
  unfolding piece_def
proof (intro allI impI)
  fix r ts
  assume l: "\<forall>r ts. delimited r \<longrightarrow> reads_as r ts \<longrightarrow> reads_as (l @ r) (tk @ ts)" and "reads_as r ts"
  then have "reads_as (l @ CHR '')'' # r) (tk @ (TokRParen, '')'') # ts)" using reads_punct(3) by simp
  then show "reads_as ((''('' @ l @ '')'') @ r) (in_parens tk @ ts)" using reads_punct(2) by simp
qed

lemma piece_mono: "piece P l tk \<Longrightarrow> (\<And>r. Q r \<Longrightarrow> P r) \<Longrightarrow> piece Q l tk"
  by (simp add: piece_def)

lemma piece_quoted: "piece delimited (sqlStr s) [(TokString, s)]"
  using reads_quoted delimited_ends by (simp add: piece_def sqlStr_def)

lemma sql_name_word: "sql_name n \<Longrightarrow> sql_word n"
  by (simp add: sql_name_def)

lemma int_digits: "0 \<le> sint i \<Longrightarrow> int64_text i = nat_str (nat (sint i)) \<and> nat (sint i) < 2 ^ 63"
  using sint_lt [of i] by (simp add: int64_text_def nat_less_iff)

lemma expr_reads: "parsed_expr e \<Longrightarrow> printable e \<Longrightarrow> piece delimited (ExprString L e) (expr_tokens e)"
proof (induction e)
  case (Literal v)
  have w: "piece delimited x [(TokIdent, x)]" if "sql_word x" for x using reads_delimited_word that by (simp add: piece_def)
  show ?case
  proof (cases v)
    case (VInt i)
    then show ?thesis using Literal int_digits [of i] reads_number delimited_ends by (simp add: piece_def)
  qed (use Literal w [OF print_words(1)] w [OF print_words(2)] w [OF print_words(3)] piece_quoted in simp_all)
next
  case (Ident n)
  then show ?case using reads_star reads_delimited_word sql_name_word by (auto simp: piece_def)
next
  case (UnaryOp op e)
  then have "op \<in> set sql_ops \<or> op = ''NOT''" "piece delimited (ExprString L e) (expr_tokens e)" by (auto simp: sql_ops_def)
  then have "piece delimited (op @ '' '' @ ExprString L e) (op_tokens op @ expr_tokens e)"
    using reads_op by (simp add: piece_def)
  from piece_mono [OF reads_parens [OF this]] show ?case by simp
next
  case (CastExpr e t)
  then have e: "piece delimited (ExprString L e) (expr_tokens e)" by simp
  have "piece delimited (ExprString L e @ '' as '' @ type_text t) (expr_tokens e @ [(TokIdent, ''as''), (TokIdent, type_text t)])"
    unfolding piece_def
  proof (intro allI impI)
    fix r ts assume "delimited r" "reads_as r ts"
    then have "reads_as ('' as '' @ type_text t @ r) ((TokIdent, ''as'') # (TokIdent, type_text t) # ts)"
      using reads_blank [OF reads_word [OF print_words(5) reads_delimited_word [OF type_word]]] by simp
    then show "reads_as ((ExprString L e @ '' as '' @ type_text t) @ r) ((expr_tokens e @ [(TokIdent, ''as''), (TokIdent, type_text t)]) @ ts)"
      using e by (simp add: piece_def)
  qed
  from reads_parens [OF this] show ?case using reads_ident [OF print_words(4)] by (simp add: piece_def)
next
  case (BinaryOp op l r)
  then have "op \<in> set sql_ops \<or> op = ''NOT''" "piece delimited (ExprString L l) (expr_tokens l)"
    "piece delimited (ExprString L r) (expr_tokens r)" by simp_all
  then have "piece delimited (ExprString L l @ '' '' @ op @ '' '' @ ExprString L r) (expr_tokens l @ op_tokens op @ expr_tokens r)"
    using reads_op reads_blank by (simp add: piece_def)
  from piece_mono [OF reads_parens [OF this]] show ?case by simp
next
  case (Call n args)
  have a: "list_all2 (piece delimited) (map (ExprString L) args) (map expr_tokens args)"
    using Call by (simp add: list_all2_map1 list_all2_map2 list_all2_same list_all_iff)
  have "piece delimited (join_on '', '' (map (ExprString L) args)) (comma_tokens (map expr_tokens args))"
    unfolding piece_def using reads_join [OF a] by simp
  from reads_parens [OF this] show ?case using Call.prems reads_ident [OF sql_name_word, of n] by (simp add: piece_def)
qed simp

end
