(* ===== verification/ParseBack.thy ===== *)
theory ParseBack
  imports SqlPrint
begin

section \<open>Reading printed expressions\<close>

text \<open>
  What the parser makes of the tokens of an expression that the server has printed: the expression itself. The tokens are
  those of any text; only their kinds and texts matter, because the lexer fixes the rest.
\<close>

subsection \<open>What the lexer guarantees of a token\<close>

definition lexed :: "token \<Rightarrow> bool" where
  "lexed t \<longleftrightarrow> (tk_kind t = TokIdent \<longrightarrow> sql_word (tk_text t)) \<and>
     (tk_kind t = TokNumber \<longrightarrow>
        (if tk_isFloat t then \<not> list_all go_digit (tk_text t) else parse_int64 (tk_text t) = Some (tk_intVal t)))"

lemma span_zero: "number_span s \<noteq> (0, True)"
proof (cases s)
  case (Cons c r)
  then show ?thesis unfolding Cons number_span.simps(2) by (simp split: prod.split list.split del: number_span.simps)
qed simp

lemma float_span: "number_span s = (n, True) \<Longrightarrow> \<not> list_all go_digit (take n s)"
proof (induction s arbitrary: n rule: number_span.induct)
  case (2 c s)
  show ?case
  proof (cases "go_digit c")
    case True
    then obtain m where "number_span s = (m, True)" "n = Suc m" using 2(5) by (auto split: prod.splits)
    then show ?thesis using 2(1) [OF True] by simp
  next
    case False
    have "n \<noteq> 0" using 2(5) span_zero [of "c # s"] by (intro notI) simp
    then show ?thesis using False by (cases n) simp_all
  qed
qed simp

lemma lexNumber_lexed: "lexNumber p s = Inr (t, r) \<Longrightarrow> lexed t"
  using float_span [of s]
  by (auto simp: lexNumber_def lexed_def Let_def plain_token_def split: prod.splits if_splits option.splits)

lemma lexIdent_word: "ident_start c \<Longrightarrow> sql_word (fst (lexIdent (c # s)))"
  by (auto simp: sql_word_def list_all_iff dest: set_takeWhileD)

definition gives_lexed :: "lex_error + token \<times> string \<Rightarrow> bool" where
  "gives_lexed r \<longleftrightarrow> (case r of Inl e \<Rightarrow> True | Inr (t, u) \<Rightarrow> lexed t)"

lemma gives_lexed_if: "(b \<Longrightarrow> gives_lexed x) \<Longrightarrow> (\<not> b \<Longrightarrow> gives_lexed y) \<Longrightarrow> gives_lexed (if b then x else y)"
  by simp

lemma plain_lexed: "k \<noteq> TokIdent \<Longrightarrow> k \<noteq> TokNumber \<Longrightarrow> gives_lexed (Inr (plain_token k x p, r))"
  by (simp add: gives_lexed_def lexed_def plain_token_def)

lemma number_gives: "gives_lexed (lexNumber p s)"
  using lexNumber_lexed [of p s] by (auto simp: gives_lexed_def split: sum.split)

lemma string_gives: "gives_lexed (case x of None \<Rightarrow> Inl e | Some (t, r) \<Rightarrow> Inr (plain_token TokString t p, r))"
  by (auto simp: gives_lexed_def lexed_def plain_token_def split: option.split)

lemma ident_gives: "ident_start c \<Longrightarrow> gives_lexed (case lexIdent (c # s) of (t, r) \<Rightarrow> Inr (plain_token TokIdent t p, r))"
  using lexIdent_word [of c s] by (simp add: gives_lexed_def lexed_def plain_token_def split: prod.split)

lemma lex_token_lexed: "gives_lexed (lex_token p c s)"
  unfolding lex_token_def
  by (intro gives_lexed_if number_gives string_gives ident_gives plain_lexed) (simp_all add: gives_lexed_def)

lemma lex_next_lexed: "lex_next n src = Inr (t, r) \<Longrightarrow> lexed t"
proof (cases "dropWhile sql_blank src")
  case Nil
  moreover assume "lex_next n src = Inr (t, r)"
  ultimately have "t = plain_token TokEOF [] n" by (simp add: lex_next_def del: dropWhile_eq_Nil_conv)
  then show ?thesis by (simp add: lexed_def plain_token_def)
next
  case (Cons c s)
  moreover assume "lex_next n src = Inr (t, r)"
  ultimately show ?thesis using lex_token_lexed [of "n - length (c # s)" c s] by (simp add: lex_next_def gives_lexed_def)
qed

lemma tokens_lexed: "tokens_from n src = Inr ts \<Longrightarrow> list_all lexed ts"
proof (induction n src arbitrary: ts rule: tokens_from.induct)
  case (1 n src)
  then obtain t r where t: "lex_next n src = Inr (t, r)" by (auto simp: tokens_from.simps [of n src] split: sum.splits)
  show ?case
  proof (cases "tk_kind t = TokEOF")
    case True
    then show ?thesis using 1(2) t lex_next_lexed [OF t] by (auto simp: tokens_from.simps [of n src])
  next
    case False
    then obtain us where "tokens_from n r = Inr us" "ts = t # us"
      using 1(2) t by (auto simp: tokens_from.simps [of n src] split: sum.splits)
    then show ?thesis using 1(1) [OF t] False lex_next_lexed [OF t] by simp
  qed
qed

text \<open>Tokens by kind and text.\<close>

definition views :: "token list \<Rightarrow> (tok_kind \<times> string) list \<Rightarrow> bool" where
  "views us tk \<longleftrightarrow> map (\<lambda>t. (tk_kind t, tk_text t)) us = tk \<and> list_all lexed us"

lemma views_Nil [simp]: "views us [] \<longleftrightarrow> us = []"
  by (auto simp: views_def)

lemma views_Cons: "views us ((k, x) # tk) \<longleftrightarrow> (\<exists>t vs. us = t # vs \<and> tk_kind t = k \<and> tk_text t = x \<and> lexed t \<and> views vs tk)"
  by (cases us) (auto simp: views_def)

lemma views_append: "views us (tk @ tk') \<longleftrightarrow> (\<exists>vs ws. us = vs @ ws \<and> views vs tk \<and> views ws tk')"
proof
  assume "views us (tk @ tk')"
  then obtain vs ws where "us = vs @ ws" "map (\<lambda>t. (tk_kind t, tk_text t)) vs = tk" "map (\<lambda>t. (tk_kind t, tk_text t)) ws = tk'"
      "list_all lexed (vs @ ws)"
    by (auto simp: views_def map_eq_append_conv)
  then show "\<exists>vs ws. us = vs @ ws \<and> views vs tk \<and> views ws tk'" by (intro exI [of _ vs] exI [of _ ws]) (simp add: views_def)
qed (auto simp: views_def)

lemma views_length: "views us tk \<Longrightarrow> length us = length tk"
  by (auto simp: views_def)

lemma tokenize_views: "reads_as src tk \<Longrightarrow> \<exists>ts. tokenize src = Inr ts \<and> views ts tk"
  using tokenize_reads [of src tk] tokens_lexed [of "length src" src]
  by (auto simp: tokenize_def tok_texts_def views_def split: sum.splits)

subsection \<open>Levels of precedence\<close>

lemma advance_rest: "rest \<noteq> [] \<Longrightarrow> advance (t # rest) = rest"
  by (cases rest) simp_all

text \<open>No operator applies to what follows.\<close>

definition stop_ops :: "token list \<Rightarrow> bool" where
  "stop_ops ts \<longleftrightarrow> ts \<noteq> [] \<and> peek_kind ts \<noteq> TokLParen \<and>
     mul_op ts = None \<and> add_op ts = None \<and> cmp_op ts = None \<and> and_op ts = None \<and> or_op ts = None"

lemma stop_kind: "ts \<noteq> [] \<Longrightarrow> peek_kind ts \<in> {TokComma, TokRParen, TokEOF, TokSemicolon} \<Longrightarrow> stop_ops ts"
  unfolding insert_iff empty_iff
  by (elim disjE) (simp_all add: stop_ops_def mul_op_def add_op_def cmp_op_def and_op_def or_op_def isKeyword_def Let_def)

lemma stop_word:
  "ts \<noteq> [] \<Longrightarrow> peek_kind ts = TokIdent \<Longrightarrow> list_all (\<lambda>kw. \<not> equal_fold (tk_text (peek ts)) kw) [''or'', ''and'', ''not'', ''like''] \<Longrightarrow>
   stop_ops ts"
  by (simp add: stop_ops_def mul_op_def add_op_def cmp_op_def and_op_def or_op_def isKeyword_def Let_def)

lemma level_pass: "next ts = Inr (e, us) \<Longrightarrow> opf us = None \<Longrightarrow> us \<noteq> [] \<Longrightarrow> level opf next ts = Inr (e, us)"
  by (cases us) (simp_all add: level_def)

lemma level_take:
  assumes "next ts = Inr (l, us)" and "opf us = Some (op, vs)" and "next vs = Inr (r, ws)" and "opf ws = None" and "2 \<le> length us"
  shows "level opf next ts = Inr (BinaryOp op l r, ws)"
proof -
  obtain k where "length us = Suc (Suc k)" using assms(5) by (metis add_2_eq_Suc le_Suc_ex)
  then show ?thesis using assms(1-4) by (simp add: level_def)
qed

lemma level_stop:
  assumes "parseUnary L pe ts = Inr (e, us)" and "stop_ops us"
  shows "parseMultiplicative L pe ts = Inr (e, us)" and "parseAdditive L pe ts = Inr (e, us)"
    and "parseComparison L pe ts = Inr (e, us)" and "parseAnd L pe ts = Inr (e, us)" and "parseOr L pe ts = Inr (e, us)"
  using assms unfolding parseOr_def parseAnd_def parseComparison_def parseAdditive_def parseMultiplicative_def stop_ops_def
  by (intro level_pass; simp)+

text \<open>The level at which an operator is taken.\<close>

definition binds :: "string \<Rightarrow> token list \<Rightarrow> token list \<Rightarrow> bool" where
  "binds op us vs \<longleftrightarrow>
     mul_op us = Some (op, vs) \<or> mul_op us = None \<and> (
     add_op us = Some (op, vs) \<or> add_op us = None \<and> (
     cmp_op us = Some (op, vs) \<or> cmp_op us = None \<and> (
     and_op us = Some (op, vs) \<or> and_op us = None \<and> or_op us = Some (op, vs))))"

lemma level_binds:
  assumes "parseUnary L pe ts = Inr (l, us)" and "binds op us vs" and "parseUnary L pe vs = Inr (r, ws)" and "stop_ops ws"
    and "2 \<le> length us"
  shows "parseOr L pe ts = Inr (BinaryOp op l r, ws)"
proof -
  note r = level_stop [OF assms(3,4)] assms(3)
  have ne: "us \<noteq> []" using assms(5) by auto
  have w: "ws \<noteq> []" "mul_op ws = None" "add_op ws = None" "cmp_op ws = None" "and_op ws = None" "or_op ws = None"
    using assms(4) by (simp_all add: stop_ops_def)
  note take = level_take [OF _ _ _ _ assms(5)]
  note defs = parseOr_def parseAnd_def parseComparison_def parseAdditive_def parseMultiplicative_def
  from assms(2) consider (mul) "mul_op us = Some (op, vs)"
    | (add) "mul_op us = None" "add_op us = Some (op, vs)"
    | (cmp) "mul_op us = None" "add_op us = None" "cmp_op us = Some (op, vs)"
    | (an) "mul_op us = None" "add_op us = None" "cmp_op us = None" "and_op us = Some (op, vs)"
    | (o) "mul_op us = None" "add_op us = None" "cmp_op us = None" "and_op us = None" "or_op us = Some (op, vs)"
    unfolding binds_def by satx
  then show ?thesis
  proof cases
    case mul
    have "parseMultiplicative L pe ts = Inr (BinaryOp op l r, ws)"
      unfolding parseMultiplicative_def by (rule take) (use assms(1) mul r w in simp_all)
    then show ?thesis unfolding parseOr_def parseAnd_def parseComparison_def parseAdditive_def
      by (intro level_pass w)
  next
    case add
    have "parseMultiplicative L pe ts = Inr (l, us)"
      unfolding parseMultiplicative_def by (rule level_pass) (use assms(1) add ne in simp_all)
    then have "parseAdditive L pe ts = Inr (BinaryOp op l r, ws)"
      unfolding parseAdditive_def by (rule take) (use add r w in simp_all)
    then show ?thesis unfolding parseOr_def parseAnd_def parseComparison_def by (intro level_pass w)
  next
    case cmp
    have "parseAdditive L pe ts = Inr (l, us)"
      unfolding parseAdditive_def parseMultiplicative_def by (intro level_pass) (use assms(1) cmp ne in simp_all)
    then have "parseComparison L pe ts = Inr (BinaryOp op l r, ws)"
      unfolding parseComparison_def by (rule take) (use cmp r w in simp_all)
    then show ?thesis unfolding parseOr_def parseAnd_def by (intro level_pass w)
  next
    case an
    have "parseComparison L pe ts = Inr (l, us)"
      unfolding parseComparison_def parseAdditive_def parseMultiplicative_def
      by (intro level_pass) (use assms(1) an ne in simp_all)
    then have "parseAnd L pe ts = Inr (BinaryOp op l r, ws)"
      unfolding parseAnd_def by (rule take) (use an r w in simp_all)
    then show ?thesis unfolding parseOr_def by (intro level_pass w)
  next
    case o
    have "parseAnd L pe ts = Inr (l, us)"
      unfolding parseAnd_def parseComparison_def parseAdditive_def parseMultiplicative_def
      by (intro level_pass) (use assms(1) o ne in simp_all)
    then show ?thesis unfolding parseOr_def by (rule take) (use o r w in simp_all)
  qed
qed

subsection \<open>Operators\<close>

text \<open>The groups of operators.\<close>

abbreviation "cmp_signs \<equiv> set [''='', ''<'', ''>'', ''<='', ''>='', ''<>'']"

lemma op_groups:
  assumes "op \<in> set sql_ops"
  shows "op = ''*'' \<or> op = ''/'' \<or> op \<in> set [''+'', ''-''] \<or> op \<in> cmp_signs \<or> op \<in> set [''AND'', ''OR'', ''LIKE''] \<or> op = ''NOT LIKE''"
proof -
  have "list_all (\<lambda>op. op = ''*'' \<or> op = ''/'' \<or> op \<in> set [''+'', ''-''] \<or> op \<in> cmp_signs \<or>
      op \<in> set [''AND'', ''OR'', ''LIKE''] \<or> op = ''NOT LIKE'') sql_ops"
    by (simp add: sql_ops_def)
  then show ?thesis using assms unfolding list_all_iff by blast
qed

lemma cmp_sign: "op \<in> cmp_signs \<Longrightarrow> op \<notin> set [''*'', ''/'', ''+'', ''-'', ''=='', ''!='', ''NOT LIKE'', ''AND'', ''OR'', ''LIKE'', ''NOT'']"
proof -
  have "list_all (\<lambda>op. op \<notin> set [''*'', ''/'', ''+'', ''-'', ''=='', ''!='', ''NOT LIKE'', ''AND'', ''OR'', ''LIKE'', ''NOT''])
      [''='', ''<'', ''>'', ''<='', ''>='', ''<>'']" by simp
  then show "op \<in> cmp_signs \<Longrightarrow> ?thesis" unfolding list_all_iff by blast
qed

lemmas fold_simps = equal_fold_def lower_char_def char_of_def bit_Suc_0_iff

lemma equal_fold_refl [simp]: "equal_fold s s"
  by (simp add: equal_fold_def)

lemma fold_words:
  "equal_fold ''NOT'' ''not''" "equal_fold ''LIKE'' ''like''" "equal_fold ''AND'' ''and''" "equal_fold ''OR'' ''or''"
  "\<not> equal_fold ''AND'' ''not''" "\<not> equal_fold ''AND'' ''like''" "\<not> equal_fold ''OR'' ''not''" "\<not> equal_fold ''OR'' ''like''"
  "\<not> equal_fold ''OR'' ''and''" "\<not> equal_fold ''LIKE'' ''not''"
  by (simp_all add: fold_simps)

lemma op_binds:
  assumes "op \<in> set sql_ops" and "views us (op_tokens op)" and "vs \<noteq> []"
  shows "binds op (us @ vs) vs \<and> peek_kind (us @ vs) \<noteq> TokLParen \<and> 0 < length us"
proof -
  note ops = binds_def mul_op_def add_op_def cmp_op_def and_op_def or_op_def isKeyword_def peek_kind_def peek_next_def Let_def
  note adv = advance_rest [OF assms(3)]
  have sign: "\<exists>t. us = [t] \<and> tk_kind t = TokOp \<and> tk_text t = op" if "op_tokens op = [(TokOp, op)]"
    using assms(2) that by (auto simp: views_Cons)
  have ident: "\<exists>t. us = [t] \<and> tk_kind t = TokIdent \<and> tk_text t = op" if "op_tokens op = [(TokIdent, op)]"
    using assms(2) that by (auto simp: views_Cons)
  consider (star) "op = ''*''" | (div) "op = ''/''" | (add) "op \<in> set [''+'', ''-'']" | (cmp) "op \<in> cmp_signs"
    | (word) "op \<in> set [''AND'', ''OR'', ''LIKE'']" | (notlike) "op = ''NOT LIKE''"
    using op_groups [OF assms(1)] by blast
  then show ?thesis
  proof cases
    case star
    then obtain t where "us = [t]" "tk_kind t = TokStar" using assms(2) by (auto simp: views_Cons op_tokens_def)
    then show ?thesis using star by (simp add: ops adv)
  next
    case div
    then obtain t where "us = [t]" "tk_kind t = TokOp" "tk_text t = op" using sign by (auto simp: op_tokens_def)
    then show ?thesis using div by (simp add: ops adv)
  next
    case add
    then have n: "op \<noteq> ''*''" "op \<noteq> ''/''" "op_tokens op = [(TokOp, op)]" by (auto simp: op_tokens_def)
    from sign [OF n(3)] obtain t where "us = [t]" "tk_kind t = TokOp" "tk_text t = op" by blast
    then show ?thesis using add n(1,2) by (simp add: ops adv del: list.set)
  next
    case cmp
    note n = cmp_sign [OF cmp]
    then have "op_tokens op = [(TokOp, op)]" by (simp add: op_tokens_def)
    from sign [OF this] obtain t where t: "us = [t]" "tk_kind t = TokOp" "tk_text t = op" by blast
    have "cmp_signs \<subseteq> set [''='', ''=='', ''<>'', ''!='', ''<'', ''<='', ''>'', ''>='']" by simp
    from subsetD [OF this cmp] have "cmp_op (t # vs) = Some (op, vs)" using t n by (simp add: cmp_op_def peek_kind_def adv Let_def)
    moreover have "mul_op (t # vs) = None" "add_op (t # vs) = None" using t n by (simp_all add: mul_op_def add_op_def peek_kind_def)
    ultimately show ?thesis using t by (simp add: binds_def peek_kind_def)
  next
    case word
    then have "op_tokens op = [(TokIdent, op)]" by (auto simp: op_tokens_def)
    from ident [OF this] obtain t where t: "us = [t]" "tk_kind t = TokIdent" "tk_text t = op" by blast
    from word consider "op = ''AND''" | "op = ''OR''" | "op = ''LIKE''" by auto
    then show ?thesis using t by cases (simp_all add: ops fold_words adv)
  next
    case notlike
    then obtain t u where "us = [t, u]" "tk_kind t = TokIdent" "tk_text t = ''NOT''" "tk_kind u = TokIdent" "tk_text u = ''LIKE''"
      using assms(2) by (auto simp: views_Cons op_tokens_def)
    then show ?thesis using notlike by (simp add: ops fold_words adv)
  qed
qed

subsection \<open>Lists\<close>

text \<open>An item, given by its tokens, which are at most \<open>n\<close>.\<close>

definition item_reads :: "nat \<Rightarrow> 'a parsing \<Rightarrow> 'a \<Rightarrow> (tok_kind \<times> string) list \<Rightarrow> bool" where
  "item_reads n item x tk \<longleftrightarrow>
     (\<forall>us rest. views us tk \<longrightarrow> length us \<le> n \<longrightarrow> stop_ops rest \<longrightarrow> item (us @ rest) = Inr (x, rest))"

lemma item_readsD:
  "item_reads n item x tk \<Longrightarrow> views us tk \<Longrightarrow> length us \<le> n \<Longrightarrow> stop_ops rest \<Longrightarrow> item (us @ rest) = Inr (x, rest)"
  by (simp add: item_reads_def)

lemma comma_tokens_Cons: "tks \<noteq> [] \<Longrightarrow> comma_tokens (tk # tks) = tk @ comma # comma_tokens tks"
  by (cases tks) simp_all

lemma comma_list_back:
  assumes "list_all2 (item_reads n item) xs tks"
  shows "xs \<noteq> [] \<Longrightarrow> views us (comma_tokens tks) \<Longrightarrow> length us \<le> n \<Longrightarrow> stop_ops rest \<Longrightarrow> peek_kind rest \<noteq> TokComma \<Longrightarrow>
    length xs \<le> k \<Longrightarrow> comma_list k item (us @ rest) = Inr (xs, rest)"
  using assms
proof (induction xs tks arbitrary: us k rule: list_all2_induct)
  case (Cons x xs tk tks)
  obtain j where k: "k = Suc j" "length xs \<le> j" using Cons.prems(6) by (cases k) auto
  show ?case
  proof (cases "xs = []")
    case True
    then have "tks = []" using Cons(2) by simp
    then show ?thesis using True k(1) item_readsD [OF Cons(1), of us rest] Cons.prems by simp
  next
    case False
    then have "tks \<noteq> []" using Cons(2) by auto
    then obtain vs t ws where us: "us = vs @ t # ws" "views vs tk" "tk_kind t = TokComma" "views ws (comma_tokens tks)"
      using Cons.prems(2) by (auto simp: comma_tokens_Cons views_append views_Cons comma_def)
    have r: "rest \<noteq> []" using Cons.prems(4) by (simp add: stop_ops_def)
    have "stop_ops (t # ws @ rest)" using us(3) by (intro stop_kind) (simp_all add: peek_kind_def)
    then have "item (us @ rest) = Inr (x, t # ws @ rest)" using item_readsD [OF Cons(1) us(2)] us(1) Cons.prems(3) by simp
    moreover have "comma_list j item (ws @ rest) = Inr (xs, rest)"
      using Cons.IH [OF False us(4)] us(1) Cons.prems k by simp
    ultimately show ?thesis using k(1) us(3) r by (simp add: peek_kind_def advance_rest)
  qed
qed simp

lemma comma_tokens_length: "length tks \<le> Suc (length (comma_tokens tks))"
  by (induction tks rule: comma_tokens.induct) simp_all

lemma comma_sep_back:
  assumes "list_all2 (item_reads n item) xs tks" and "xs \<noteq> []" and "views us (comma_tokens tks)" and "length us \<le> n"
    and "stop_ops rest" and "peek_kind rest \<noteq> TokComma"
  shows "comma_sep item (us @ rest) = Inr (xs, rest)"
proof -
  have "0 < length rest" using assms(5) unfolding stop_ops_def by blast
  then have "length xs \<le> length (us @ rest)"
    using comma_tokens_length [of tks] views_length [OF assms(3)] list_all2_lengthD [OF assms(1)] by (simp del: length_greater_0_conv)
  then show ?thesis using comma_list_back [OF assms] by (simp add: comma_sep_def)
qed

subsection \<open>Expressions\<close>

lemma fold_name: "sql_name n \<Longrightarrow> equal_fold n kw \<longleftrightarrow> n = map lower_char kw"
proof -
  assume "sql_name n"
  then have "map lower_char n = n" by (auto simp: sql_name_def list_all_iff intro: map_idI)
  then show ?thesis by (simp add: equal_fold_def)
qed

lemma name_lower: "sql_name n \<Longrightarrow> ident_lower L n = n"
  by (auto simp: ident_lower_def sql_name_def list_all_iff intro: map_idI)

lemmas name_simps = sql_word_def ident_char_def ident_start_def latin1_letter_def go_digit_def Let_def lower_char_def char_of_def bit_Suc_0_iff

text \<open>The name of a type is read as that type, but for doubles: \<open>float64\<close> is not a word the parser knows.\<close>

lemma type_read: "t \<noteq> TFloat \<Longrightarrow> typeFromKeyword L (type_text t) = t"
proof -
  have "sql_name (type_text t)"
    by (cases t) (simp_all add: sql_name_def name_simps)
  from name_lower [OF this] show "t \<noteq> TFloat \<Longrightarrow> ?thesis" by (cases t) (simp_all add: typeFromKeyword_def Let_def)
qed

lemma double_type_lost: "typeFromKeyword L (type_text TFloat) = TNull"
proof -
  have "sql_name ''float64''" by (simp add: sql_name_def name_simps)
  from name_lower [OF this] show ?thesis by (simp add: typeFromKeyword_def Let_def)
qed

lemma fold_keyword:
  assumes "sql_name n"
  shows "equal_fold n ''null'' \<longleftrightarrow> n = ''null''" and "equal_fold n ''true'' \<longleftrightarrow> n = ''true''" and "equal_fold n ''false'' \<longleftrightarrow> n = ''false''"
    and "equal_fold n ''cast'' \<longleftrightarrow> n = ''cast''" and "equal_fold n ''not'' \<longleftrightarrow> n = ''not''"
  by (simp_all add: fold_name [OF assms] lower_char_def char_of_def bit_Suc_0_iff)

lemma literal_fold:
  "equal_fold ''null'' ''null''" "\<not> equal_fold ''true'' ''null''" "\<not> equal_fold ''false'' ''null''" "\<not> equal_fold ''false'' ''true''"
  "\<not> equal_fold ''null'' ''not''" "\<not> equal_fold ''true'' ''not''" "\<not> equal_fold ''false'' ''not''" "\<not> equal_fold ''cast'' ''not''"
  "\<not> equal_fold ''cast'' ''null''" "\<not> equal_fold ''cast'' ''true''" "\<not> equal_fold ''cast'' ''false''" "equal_fold ''as'' ''as''"
  "\<not> equal_fold ''as'' ''or''" "\<not> equal_fold ''as'' ''and''" "\<not> equal_fold ''as'' ''not''" "\<not> equal_fold ''as'' ''like''"
  by (simp_all add: fold_simps)

lemma unary_primary:
  assumes "0 < k" and "\<not> isKeyword ''not'' ts" and "peek_kind ts \<noteq> TokOp"
  shows "parse_unary k prim ts = prim ts"
  using assms by (cases k) simp_all

text \<open>An expression where a unary one is read, and where a whole one is.\<close>

definition unary_back :: "go_lib \<Rightarrow> expr \<Rightarrow> bool" where
  "unary_back L e \<longleftrightarrow>
     (\<forall>us rest n k. views us (expr_tokens e) \<longrightarrow> rest \<noteq> [] \<longrightarrow> peek_kind rest \<noteq> TokLParen \<longrightarrow> length us \<le> Suc n \<longrightarrow> 0 < k \<longrightarrow>
        parse_unary k (parsePrimary L (parse_expr L n)) (us @ rest) = Inr (e, rest))"

lemma unary_backD:
  "unary_back L e \<Longrightarrow> views us (expr_tokens e) \<Longrightarrow> rest \<noteq> [] \<Longrightarrow> peek_kind rest \<noteq> TokLParen \<Longrightarrow> length us \<le> Suc n \<Longrightarrow> 0 < k \<Longrightarrow>
   parse_unary k (parsePrimary L (parse_expr L n)) (us @ rest) = Inr (e, rest)"
  by (simp add: unary_back_def)

lemma parseUnary_back:
  "unary_back L e \<Longrightarrow> views us (expr_tokens e) \<Longrightarrow> rest \<noteq> [] \<Longrightarrow> peek_kind rest \<noteq> TokLParen \<Longrightarrow> length us \<le> Suc n \<Longrightarrow>
   parseUnary L (parse_expr L n) (us @ rest) = Inr (e, rest)"
  by (simp add: parseUnary_def unary_backD)

lemma whole_back:
  "unary_back L e \<Longrightarrow> item_reads (Suc n) (parse_expr L (Suc n)) e (expr_tokens e)"
  unfolding item_reads_def
proof (intro allI impI)
  fix us rest
  assume a: "unary_back L e" "views us (expr_tokens e)" "length us \<le> Suc n" "stop_ops rest"
  then have "parseUnary L (parse_expr L n) (us @ rest) = Inr (e, rest)" by (intro parseUnary_back) (simp_all add: stop_ops_def)
  from level_stop(5) [OF this a(4)] show "parse_expr L (Suc n) (us @ rest) = Inr (e, rest)" by simp
qed

text \<open>Something in parentheses.\<close>

lemma parens_back:
  assumes "tk_kind l = TokLParen" and "tk_kind r = TokRParen" and "rest \<noteq> []" and "0 < k"
    and "parse_expr L n (us @ r # rest) = Inr (e, r # rest)"
  shows "parse_unary k (parsePrimary L (parse_expr L n)) (l # us @ r # rest) = Inr (e, rest)"
proof -
  have "advance (l # us @ r # rest) = us @ r # rest" by (rule advance_rest) simp
  then have "parsePrimary L (parse_expr L n) (l # us @ r # rest) = Inr (e, rest)"
    using assms by (simp add: parsePrimary_def expect_def peek_kind_def advance_rest)
  then show ?thesis using assms(1,4) by (subst unary_primary) (simp_all add: isKeyword_def peek_kind_def)
qed

lemma closing_stops: "tk_kind r = TokRParen \<Longrightarrow> stop_ops (r # rest)"
  by (rule stop_kind) (simp_all add: peek_kind_def)

lemma unary_op_back:
  assumes "unary_back L e" and "op \<in> set [''-'', ''+'', ''NOT'']"
  shows "unary_back L (UnaryOp op e)"
  unfolding unary_back_def
proof (intro allI impI)
  fix us rest :: "token list" and n k :: nat
  assume "views us (expr_tokens (UnaryOp op e))" and a: "rest \<noteq> []" "length us \<le> Suc n" "0 < k"
  then obtain l o' vs r where us: "us = l # o' # vs @ [r]" "tk_kind l = TokLParen" "tk_kind r = TokRParen" "views vs (expr_tokens e)"
      "tk_text o' = op" "tk_kind o' = (if op = ''NOT'' then TokIdent else TokOp)"
    using assms(2) by (auto simp: views_Cons views_append op_tokens_def)
  obtain m where n: "n = Suc m" "length vs \<le> Suc m" using a(2) us(1) by (cases n) auto
  let ?ts = "o' # vs @ r # rest"
  have "advance ?ts = vs @ r # rest" by (rule advance_rest) simp
  moreover have "parse_unary (length vs + Suc (length rest)) (parsePrimary L (parse_expr L m)) (vs @ r # rest) = Inr (e, r # rest)"
    by (rule unary_backD [OF assms(1) us(4)]) (use us(3) n in \<open>simp_all add: peek_kind_def\<close>)
  ultimately have "parseUnary L (parse_expr L m) ?ts = Inr (UnaryOp op e, r # rest)"
    using us(5,6) assms(2) by (auto simp: parseUnary_def peek_kind_def isKeyword_def fold_words)
  from level_stop(5) [OF this closing_stops [OF us(3)]] have "parse_expr L n ?ts = Inr (UnaryOp op e, r # rest)" by (simp add: n(1))
  from parens_back [OF us(2,3) a(1,3), of L n "o' # vs"] this
  show "parse_unary k (parsePrimary L (parse_expr L n)) (us @ rest) = Inr (UnaryOp op e, rest)" by (simp add: us(1))
qed

lemma binary_op_back:
  assumes "unary_back L x" and "unary_back L y" and "op \<in> set sql_ops"
  shows "unary_back L (BinaryOp op x y)"
  unfolding unary_back_def
proof (intro allI impI)
  fix us rest :: "token list" and n k :: nat
  assume "views us (expr_tokens (BinaryOp op x y))" and a: "rest \<noteq> []" "length us \<le> Suc n" "0 < k"
  then obtain l xs os ys r where us: "us = l # xs @ os @ ys @ [r]" "tk_kind l = TokLParen" "tk_kind r = TokRParen"
      "views xs (expr_tokens x)" "views os (op_tokens op)" "views ys (expr_tokens y)"
    by (auto simp: views_Cons views_append)
  obtain m where n: "n = Suc m" "length xs \<le> Suc m" "length ys \<le> Suc m" using a(2) us(1) by (cases n) auto
  have b: "binds op (os @ ys @ r # rest) (ys @ r # rest)" "peek_kind (os @ ys @ r # rest) \<noteq> TokLParen" "0 < length os"
    using op_binds [OF assms(3) us(5), of "ys @ r # rest"] by simp_all
  have "parseOr L (parse_expr L m) (xs @ os @ ys @ r # rest) = Inr (BinaryOp op x y, r # rest)"
  proof (rule level_binds [OF _ b(1) _ closing_stops [OF us(3)]])
    show "parseUnary L (parse_expr L m) (xs @ os @ ys @ r # rest) = Inr (x, os @ ys @ r # rest)"
      by (rule parseUnary_back [OF assms(1) us(4) _ b(2) n(2)]) simp
    show "parseUnary L (parse_expr L m) (ys @ r # rest) = Inr (y, r # rest)"
      by (rule parseUnary_back [OF assms(2) us(6) _ _ n(3)]) (use us(3) in \<open>simp_all add: peek_kind_def\<close>)
  qed (use b(3) in \<open>simp del: length_greater_0_conv\<close>)
  then have "parse_expr L n ((xs @ os @ ys) @ r # rest) = Inr (BinaryOp op x y, r # rest)" by (simp add: n(1))
  from parens_back [OF us(2,3) a(1,3) this]
  show "parse_unary k (parsePrimary L (parse_expr L n)) (us @ rest) = Inr (BinaryOp op x y, rest)" by (simp add: us(1))
qed

lemma cast_back:
  assumes "unary_back L e" and "t \<noteq> TFloat"
  shows "unary_back L (CastExpr e t)"
  unfolding unary_back_def
proof (intro allI impI)
  fix us rest :: "token list" and n k :: nat
  assume "views us (expr_tokens (CastExpr e t))" and a: "rest \<noteq> []" "length us \<le> Suc n" "0 < k"
  then obtain c l vs w x r where us: "us = c # l # vs @ [w, x, r]" "tk_kind c = TokIdent" "tk_text c = ''cast''" "tk_kind l = TokLParen"
      "views vs (expr_tokens e)" "tk_kind w = TokIdent" "tk_text w = ''as''" "tk_kind x = TokIdent" "tk_text x = type_text t" "tk_kind r = TokRParen"
    by (auto simp: views_Cons views_append)
  obtain m where n: "n = Suc m" "length vs \<le> Suc m" using a(2) us(1) by (cases n) auto
  have "stop_ops (w # x # r # rest)" by (rule stop_word) (use us(6,7) literal_fold in \<open>simp_all add: peek_kind_def\<close>)
  from item_readsD [OF whole_back [OF assms(1)] us(5) n(2) this]
  have e: "parse_expr L n (vs @ w # x # r # rest) = Inr (e, w # x # r # rest)" by (simp add: n(1))
  have l: "advance (l # vs @ w # x # r # rest) = vs @ w # x # r # rest" by (rule advance_rest) simp
  have "parsePrimary L (parse_expr L n) (c # l # vs @ w # x # r # rest) = Inr (CastExpr e t, rest)"
    using us(2-4,6-10) e l a(1)
    by (simp add: parsePrimary_def parse_cast_def expect_def peek_kind_def acceptKeyword_def isKeyword_def literal_fold
        type_read [OF assms(2)] advance_rest Let_def)
  then show "parse_unary k (parsePrimary L (parse_expr L n)) (us @ rest) = Inr (CastExpr e t, rest)"
    using us(1-3) a(3) by (subst unary_primary) (simp_all add: isKeyword_def peek_kind_def literal_fold)
qed

lemma closing_unexpected:
  assumes "peek_kind ts = TokRParen" and "ts \<noteq> []"
  shows "\<exists>e. comma_sep (parse_expr L (Suc m)) ts = Inl e"
proof -
  obtain j where "length ts = Suc j" using assms(2) by (cases ts) simp_all
  then show ?thesis using assms
    by (simp add: comma_sep_def parseOr_def parseAnd_def parseComparison_def parseAdditive_def parseMultiplicative_def
        level_def parseUnary_def isKeyword_def parsePrimary_def peek_kind_def Let_def)
qed

lemma call_back:
  assumes "list_all (unary_back L) args" and "sql_name f" and "f \<notin> set [''not'', ''null'', ''true'', ''false'', ''cast'']"
  shows "unary_back L (Call f args)"
  unfolding unary_back_def
proof (intro allI impI)
  fix us rest :: "token list" and n k :: nat
  assume "views us (expr_tokens (Call f args))" and a: "rest \<noteq> []" "length us \<le> Suc n" "0 < k"
  then obtain c l vs r where us: "us = c # l # vs @ [r]" "tk_kind c = TokIdent" "tk_text c = f" "tk_kind l = TokLParen"
      "views vs (comma_tokens (map expr_tokens args))" "tk_kind r = TokRParen"
    by (auto simp: views_Cons views_append)
  obtain m where n: "n = Suc m" "length vs \<le> Suc m" using a(2) us(1) by (cases n) auto
  have l: "advance (l # vs @ r # rest) = vs @ r # rest" by (rule advance_rest) simp
  have args: "(if peek_kind (vs @ r # rest) \<noteq> TokRParen then comma_sep (parse_expr L n) (vs @ r # rest) else Inr ([], vs @ r # rest)) =
      Inr (args, r # rest)"
  proof (cases "args = []")
    case True
    then show ?thesis using us(5,6) by (simp add: peek_kind_def)
  next
    case False
    have "list_all2 (item_reads n (parse_expr L n)) args (map expr_tokens args)"
      using assms(1) whole_back [of L] by (simp add: n(1) list_all2_map2 list_all2_same list_all_iff)
    from comma_sep_back [OF this False us(5) _ closing_stops [OF us(6)]]
    have "comma_sep (parse_expr L n) (vs @ r # rest) = Inr (args, r # rest)" using n us(6) by (simp add: peek_kind_def)
    moreover have "peek_kind (vs @ r # rest) \<noteq> TokRParen"
      using calculation closing_unexpected [of "vs @ r # rest" L m] n(1) by auto
    ultimately show ?thesis by simp
  qed
  have "parsePrimary L (parse_expr L n) (c # l # vs @ r # rest) = Inr (Call f args, rest)"
    using us(2-4,6) args l a(1) assms(2,3)
    by (simp add: parsePrimary_def parse_call_def expect_def peek_kind_def peek_next_def fold_keyword name_lower advance_rest Let_def)
  then show "parse_unary k (parsePrimary L (parse_expr L n)) (us @ rest) = Inr (Call f args, rest)"
    using us(1-3) a(3) assms(2,3) by (subst unary_primary) (simp_all add: isKeyword_def peek_kind_def fold_keyword)
qed

lemma printed_expr_back: "parsed_expr e \<Longrightarrow> printable e \<Longrightarrow> unary_back L e"
proof (induction e)
  case (Literal v)
  show ?case unfolding unary_back_def
  proof (intro allI impI)
    fix us rest :: "token list" and n k :: nat
    assume v: "views us (expr_tokens (Literal v))" and a: "rest \<noteq> []" "0 < k"
    then obtain t where us: "us = [t]" "views [t] (expr_tokens (Literal v))"
      using Literal by (cases v) (auto simp: views_Cons)
    have "\<not> isKeyword ''not'' (t # rest) \<and> peek_kind (t # rest) \<noteq> TokOp \<and>
        parsePrimary L (parse_expr L n) (t # rest) = Inr (Literal v, rest)"
    proof (cases v)
      case (VInt i)
      then have i: "int64_text i = nat_str (nat (sint i))" "nat (sint i) < 2 ^ 63" using Literal int_digits [of i] by simp_all
      have t: "tk_kind t = TokNumber" "tk_text t = nat_str (nat (sint i))" "lexed t" using us(2) VInt i by (simp_all add: views_Cons)
      then have "\<not> tk_isFloat t" "Some (of_nat (nat (sint i))) = Some (tk_intVal t)"
        using nat_str_go_digits [of "nat (sint i)"] parse_int64_nat_str [OF i(2)] by (simp_all add: lexed_def split: if_splits)
      moreover have "of_nat (nat (sint i)) = word_of_int (int (nat (sint i)))" for i :: "64 word" by simp
      moreover have "int (nat (sint i)) = sint i" using Literal VInt by simp
      ultimately show ?thesis using t(1) VInt a(1)
        by (simp add: parsePrimary_def number_literal_def isKeyword_def peek_kind_def advance_rest Let_def)
    qed (use us(2) Literal a(1) in
        \<open>auto simp: views_Cons parsePrimary_def isKeyword_def peek_kind_def advance_rest literal_fold Let_def\<close>)
    then show "parse_unary k (parsePrimary L (parse_expr L n)) (us @ rest) = Inr (Literal v, rest)"
      using us(1) unary_primary [OF a(2)] by simp
  qed
next
  case (Ident x)
  show ?case unfolding unary_back_def
  proof (intro allI impI)
    fix us rest :: "token list" and n k :: nat
    assume v: "views us (expr_tokens (Ident x))" and a: "rest \<noteq> []" "peek_kind rest \<noteq> TokLParen" "0 < k"
    then obtain t where us: "us = [t]" "tk_kind t = (if x = ''*'' then TokStar else TokIdent)" "tk_text t = x"
      by (auto simp: views_Cons)
    have "\<not> isKeyword ''not'' (t # rest) \<and> peek_kind (t # rest) \<noteq> TokOp \<and>
        parsePrimary L (parse_expr L n) (t # rest) = Inr (Ident x, rest)"
    proof (cases "x = ''*''")
      case True
      then show ?thesis using us a(1) by (simp add: parsePrimary_def isKeyword_def peek_kind_def advance_rest Let_def)
    next
      case False
      then show ?thesis using us a(1,2) Ident
        by (simp add: parsePrimary_def isKeyword_def peek_kind_def peek_next_def fold_keyword name_lower advance_rest Let_def)
    qed
    then show "parse_unary k (parsePrimary L (parse_expr L n)) (us @ rest) = Inr (Ident x, rest)"
      using us(1) unary_primary [OF a(3)] by simp
  qed
next
  case (Call f args)
  then show ?case by (intro call_back) (auto simp: list_all_iff)
qed (auto intro: unary_op_back binary_op_back cast_back)

text \<open>A printed expression, and anything behind it that no operator starts.\<close>

lemma parseExpr_back:
  assumes "parsed_expr e" and "printable e" and "views us (expr_tokens e)" and "stop_ops rest"
  shows "parseExpr L (us @ rest) = Inr (e, rest)"
proof -
  have "rest \<noteq> []" using assms(4) by (simp add: stop_ops_def)
  then obtain n where "length (us @ rest) = Suc n" "length us \<le> Suc n" by (cases rest) auto
  then show ?thesis using item_readsD [OF whole_back [OF printed_expr_back [OF assms(1,2)]] assms(3) _ assms(4), of n]
    by (simp add: parseExpr_def)
qed

text \<open>The end of a script, and a script of one statement.\<close>

lemma at_end:
  assumes "tk_kind e = TokEOF"
  shows "\<not> isKeyword kw [e]" and "peek_kind [e] = TokEOF" and "stop_ops [e]"
  using assms stop_kind [of "[e]"] by (simp_all add: isKeyword_def peek_kind_def)

lemma single_statement:
  assumes "tokenize src = Inr ts" and "parseStatement L ts = Inr (st, [e])" and "tk_kind e = TokEOF" and "peek_kind ts = TokIdent"
  shows "Parse L src = Inr [st]"
proof -
  have eof: "eof_last ts" using tokens_eof assms(1) by (auto simp: tokenize_def)
  then obtain n where "length ts = Suc (Suc n)" using advance_less [OF eof] assms(4) eof_last_length [of "advance ts"]
    by (metis Suc_pred eof_last_advance tok_kind.distinct(1))
  moreover have "skipSemicolons ts = ts" using assms(4) by (cases ts) (simp_all add: skipSemicolons_def peek_kind_def)
  moreover have "skipSemicolons [e] = [e]" using assms(3) by (simp add: skipSemicolons_def)
  ultimately show ?thesis using assms at_end [OF assms(3)] by (simp add: Parse_def Let_def)
qed

end
