(* ===== verification/IngestRows.thy ===== *)
theory IngestRows
  imports HttpServer ParseBack
begin

section \<open>Rows of a bulk insertion, up to their values (\<open>ui/ui.go\<close>, \<open>sql/parser.go\<close>, \<open>sql/value.go\<close>)\<close>

text \<open>
  What the server's parser makes of the statement that a bulk insertion becomes, and what its cells evaluate to. Names are
  lower-cased by the parser; a negative number is a sign before a number.
\<close>

subsection \<open>Cells\<close>

fun cell_expr :: "json \<Rightarrow> expr" where
  "cell_expr (JBool b) = Literal (VBool b)"
| "cell_expr (JStr s) = Literal (VString s)"
| "cell_expr (JNum (Fin q)) =
     (if q < 0 then UnaryOp ''-'' (Literal (VInt (of_int \<lfloor>- q\<rfloor>))) else Literal (VInt (of_int \<lfloor>q\<rfloor>)))"
| "cell_expr v = Literal VNull"

fun cell_value :: "json \<Rightarrow> sql_value" where
  "cell_value (JBool b) = VBool b"
| "cell_value (JStr s) = VString s"
| "cell_value (JNum (Fin q)) = VInt (of_int \<lfloor>q\<rfloor>)"
| "cell_value v = VNull"

lemma cell_evaluates: "cell_ok v \<Longrightarrow> eval L now ctx (cell_expr v) = Ret (cell_value v)"
proof (cases v rule: cell_expr.cases)
  case (3 q)
  moreover assume "cell_ok v"
  ultimately have "of_int \<lfloor>q\<rfloor> = q" by simp
  then have "\<lfloor>- q\<rfloor> = - \<lfloor>q\<rfloor>" by (metis floor_of_int of_int_minus)
  moreover have "to_upper ''-'' = ''-''" by code_simp
  ultimately show ?thesis using 3 by (simp add: unary_op_def del: to_upper.simps)
qed (auto elim: cell_ok.elims)

lemma literal_folds:
  "equal_fold ''NULL'' ''null''" "\<not> equal_fold ''NULL'' ''not''" "\<not> equal_fold ''TRUE'' ''null''" "\<not> equal_fold ''TRUE'' ''not''"
  "equal_fold ''TRUE'' ''true''" "\<not> equal_fold ''FALSE'' ''null''" "\<not> equal_fold ''FALSE'' ''not''" "\<not> equal_fold ''FALSE'' ''true''"
  "equal_fold ''FALSE'' ''false''"
  by (simp_all add: fold_simps)

text \<open>A token that is an expression by itself.\<close>

lemma single_token:
  assumes "\<not> isKeyword ''not'' (t # rest)" and "tk_kind t \<noteq> TokOp" and "parsePrimary L (parse_expr L n) (t # rest) = Inr (e, rest)"
  shows "parse_unary (Suc k) (parsePrimary L (parse_expr L n)) (t # rest) = Inr (e, rest)"
  using assms by (simp add: peek_kind_def)

lemma single_unary:
  assumes "\<not> isKeyword ''not'' (t # rest)" and "tk_kind t \<noteq> TokOp" and "parsePrimary L (parse_expr L n) (t # rest) = Inr (e, rest)"
  shows "parseUnary L (parse_expr L n) (t # rest) = Inr (e, rest)"
  using single_token [OF assms] by (simp add: parseUnary_def)

lemma digits_token:
  assumes "views [t] [(TokNumber, nat_str m)]" and "m < 2 ^ 63" and "rest \<noteq> []"
  shows "parsePrimary L pe (t # rest) = Inr (Literal (VInt (of_nat m)), rest)"
proof -
  have "tk_kind t = TokNumber" "tk_text t = nat_str m" "lexed t" using assms(1) by (simp_all add: views_Cons)
  moreover from this have "\<not> tk_isFloat t" "Some (of_nat m) = Some (tk_intVal t)"
    using nat_str_go_digits [of m] parse_int64_nat_str [OF assms(2)] by (simp_all add: lexed_def split: if_splits)
  ultimately show ?thesis using assms(3) by (simp add: parsePrimary_def number_literal_def advance_rest Let_def)
qed

lemma cell_unary:
  assumes "cell_ok v" and "views us (cell_tokens v)" and "rest \<noteq> []"
  shows "parseUnary L (parse_expr L n) (us @ rest) = Inr (cell_expr v, rest)"
proof (cases v)
  case JNull
  then obtain t where t: "us = [t]" "tk_kind t = TokIdent" "tk_text t = ''NULL''" using assms(2) by (auto simp: views_Cons)
  have "parseUnary L (parse_expr L n) (t # rest) = Inr (Literal VNull, rest)"
    by (rule single_unary) (use t assms(3) in \<open>simp_all add: isKeyword_def peek_kind_def parsePrimary_def literal_folds advance_rest\<close>)
  then show ?thesis using JNull t by simp
next
  case (JBool b)
  then obtain t where t: "us = [t]" "tk_kind t = TokIdent" "tk_text t = (if b then ''TRUE'' else ''FALSE'')"
    using assms(2) by (auto simp: views_Cons)
  have "parseUnary L (parse_expr L n) (t # rest) = Inr (Literal (VBool b), rest)"
    by (rule single_unary, cases b)
      (use t assms(3) in \<open>simp_all add: isKeyword_def peek_kind_def parsePrimary_def literal_folds advance_rest split: if_splits\<close>)
  then show ?thesis using JBool t by simp
next
  case (JStr s)
  then obtain t where t: "us = [t]" "tk_kind t = TokString" "tk_text t = s" using assms(2) by (auto simp: views_Cons)
  have "parseUnary L (parse_expr L n) (t # rest) = Inr (Literal (VString s), rest)"
    by (rule single_unary) (use t assms(3) in \<open>simp_all add: isKeyword_def peek_kind_def parsePrimary_def advance_rest\<close>)
  then show ?thesis using JStr t by simp
next
  case (JNum x)
  then obtain q where q: "x = Fin q" "of_int \<lfloor>q\<rfloor> = q" "\<bar>q\<bar> < 2 ^ 63" using assms(1) by (cases x) auto
  define i where "i = \<lfloor>q\<rfloor>"
  have qi: "q = of_int i" by (simp only: i_def q(2))
  then have "rat_of_int \<bar>i\<bar> < rat_of_int (2 ^ 63)" using q(3) by simp
  then have i: "\<bar>i\<bar> < 2 ^ 63" by (simp only: of_int_less_iff)
  show ?thesis
  proof (cases "i < 0")
    case True
    then have m: "nat (- i) < 2 ^ 63" using i by (simp add: nat_less_iff)
    obtain o' t where us: "us = [o', t]" "tk_kind o' = TokOp" "tk_text o' = ''-''" "views [t] [(TokNumber, nat_str (nat (- i)))]"
      using assms(2) True JNum q(1) qi by (auto simp: views_Cons simp flip: of_int_minus)
    have k: "tk_kind t = TokNumber" using us(4) by (simp add: views_Cons)
    have "parse_unary (Suc (length rest)) (parsePrimary L (parse_expr L n)) (t # rest) = Inr (Literal (VInt (of_nat (nat (- i)))), rest)"
      by (rule single_token [OF _ _ digits_token [OF us(4) m assms(3)]]) (use k in \<open>simp_all add: isKeyword_def peek_kind_def\<close>)
    moreover have "(of_nat (nat (- i)) :: 64 word) = of_int (- i)" by (rule of_nat_nat) (use True in simp)
    ultimately show ?thesis using us(1-3) True JNum q(1) qi
      by (simp add: parseUnary_def peek_kind_def flip: of_int_minus)
  next
    case False
    then have m: "nat i < 2 ^ 63" using i by (simp add: nat_less_iff)
    obtain t where us: "us = [t]" "views [t] [(TokNumber, nat_str (nat i))]"
      using assms(2) False JNum q(1) qi by (auto simp: views_Cons)
    have k: "tk_kind t = TokNumber" using us(2) by (simp add: views_Cons)
    have "parseUnary L (parse_expr L n) (t # rest) = Inr (Literal (VInt (of_nat (nat i))), rest)"
      by (rule single_unary [OF _ _ digits_token [OF us(2) m assms(3)]]) (use k in \<open>simp_all add: isKeyword_def peek_kind_def\<close>)
    moreover have "(of_nat (nat i) :: 64 word) = of_int i" by (rule of_nat_nat) (use False in simp)
    ultimately show ?thesis using us(1) False JNum q(1) qi by simp
  qed
qed (use assms(1) in simp_all)

lemma cell_back: "cell_ok v \<Longrightarrow> item_reads n (parseExpr L) (cell_expr v) (cell_tokens v)"
  unfolding item_reads_def
proof (intro allI impI)
  fix us rest :: "token list"
  assume a: "cell_ok v" "views us (cell_tokens v)" "stop_ops rest"
  then have r: "rest \<noteq> []" by (simp add: stop_ops_def)
  then obtain k where "length (us @ rest) = Suc k" by (cases rest) auto
  then show "parseExpr L (us @ rest) = Inr (cell_expr v, rest)"
    using level_stop(5) [OF cell_unary [OF a(1,2) r] a(3)] by (simp add: parseExpr_def)
qed

subsection \<open>Rows and columns\<close>

lemma closing_expect: "tk_kind r = TokRParen \<Longrightarrow> rest \<noteq> [] \<Longrightarrow> expect TokRParen what (r # rest) = Inr (r, rest)"
  by (simp add: expect_def peek_kind_def advance_rest)

lemma opening_expect: "tk_kind l = TokLParen \<Longrightarrow> rest \<noteq> [] \<Longrightarrow> expect TokLParen what (l # rest) = Inr (l, rest)"
  by (simp add: expect_def peek_kind_def advance_rest)

lemma ingest_row_back:
  assumes "list_all cell_ok row" and "row \<noteq> []"
  shows "item_reads n (parse_row L) (map cell_expr row) (in_parens (comma_tokens (map cell_tokens row)))"
  unfolding item_reads_def
proof (intro allI impI)
  fix us rest :: "token list"
  assume v: "views us (in_parens (comma_tokens (map cell_tokens row)))" and "stop_ops rest"
  then have r: "rest \<noteq> []" by (simp add: stop_ops_def)
  obtain l vs c where us: "us = l # vs @ [c]" "tk_kind l = TokLParen" "tk_kind c = TokRParen" "views vs (comma_tokens (map cell_tokens row))"
    using v by (auto simp: views_Cons views_append)
  have "list_all2 (item_reads (length vs) (parseExpr L)) (map cell_expr row) (map cell_tokens row)"
    using assms(1) cell_back by (simp add: list_all2_map1 list_all2_map2 list_all2_same list_all_iff)
  from comma_sep_back [OF this _ us(4) _ closing_stops [OF us(3)], of rest]
  have "comma_sep (parseExpr L) (vs @ c # rest) = Inr (map cell_expr row, c # rest)" using assms(2) us(3) by (simp add: peek_kind_def)
  then show "parse_row L (us @ rest) = Inr (map cell_expr row, rest)"
    using us(1-3) r by (simp add: parse_row_def opening_expect closing_expect)
qed

lemma column_back: "item_reads n (name_of L what) (ident_lower L c) [(TokIdent, c)]"
  unfolding item_reads_def stop_ops_def
  by (auto simp: views_Cons name_of_def identLower_def peek_kind_def advance_rest)

subsection \<open>The statement\<close>

lemma insert_folds:
  "equal_fold ''INSERT'' ''insert''" "\<not> equal_fold ''INSERT'' ''select''" "equal_fold ''INTO'' ''into''" "equal_fold ''VALUES'' ''values''"
  by (simp_all add: fold_simps)

lemma insert_columns_back:
  assumes "views us (if cols \<noteq> [] then in_parens (comma_tokens (map (\<lambda>c. [(TokIdent, c)]) cols)) else [])"
    and "rest \<noteq> []" and "peek_kind rest \<noteq> TokLParen"
  shows "(if peek_kind (us @ rest) = TokLParen
      then parsed (comma_sep (name_of L ''column name'') (advance (us @ rest))) (\<lambda>cols ts.
        parsed (expect TokRParen '')'' ts) (\<lambda>_ ts. Inr (cols, ts)))
      else Inr ([], us @ rest)) = Inr (map (ident_lower L) cols, rest)"
proof (cases "cols = []")
  case False
  then obtain l vs r where us: "us = l # vs @ [r]" "tk_kind l = TokLParen" "tk_kind r = TokRParen"
      "views vs (comma_tokens (map (\<lambda>c. [(TokIdent, c)]) cols))"
    using assms(1) by (auto simp: views_Cons views_append)
  have "list_all2 (item_reads (length vs) (name_of L ''column name'')) (map (ident_lower L) cols) (map (\<lambda>c. [(TokIdent, c)]) cols)"
    using column_back by (simp add: list_all2_map1 list_all2_map2 list_all2_same)
  from comma_sep_back [OF this _ us(4) _ closing_stops [OF us(3)], of rest]
  have "comma_sep (name_of L ''column name'') (vs @ r # rest) = Inr (map (ident_lower L) cols, r # rest)"
    using False us(3) by (simp add: peek_kind_def)
  then show ?thesis using us(1-3) assms(2) by (simp add: peek_kind_def advance_rest closing_expect)
qed (use assms in simp)

lemma insert_parsed:
  assumes "views ts ([(TokIdent, ''INSERT''), (TokIdent, ''INTO''), (TokIdent, table)] @
      (if cols \<noteq> [] then in_parens (comma_tokens (map (\<lambda>c. [(TokIdent, c)]) cols)) else []) @
      (TokIdent, ''VALUES'') #
      comma_tokens (map (\<lambda>row. in_parens (comma_tokens (map cell_tokens row))) rws) @ [(TokEOF, [])])"
    and "list_all (list_all cell_ok) rws" and "rws \<noteq> []" and "[] \<notin> set rws"
  shows "\<exists>e. tk_kind e = TokEOF \<and> peek_kind ts = TokIdent \<and>
    parseStatement L ts = Inr (InsertStmt (ident_lower L table) (map (ident_lower L) cols) (map (map cell_expr) rws), [e])"
proof -
  let ?cols = "if cols \<noteq> [] then in_parens (comma_tokens (map (\<lambda>c. [(TokIdent, c)]) cols)) else []"
  let ?rows = "comma_tokens (map (\<lambda>row. in_parens (comma_tokens (map cell_tokens row))) rws)"
  from assms(1) obtain a b t us v vs e where ts: "ts = a # b # t # us @ v # vs @ [e]" "tk_kind a = TokIdent" "tk_text a = ''INSERT''"
      "tk_kind b = TokIdent" "tk_text b = ''INTO''" "tk_kind t = TokIdent" "tk_text t = table" "views us ?cols"
      "tk_kind v = TokIdent" "tk_text v = ''VALUES''" "views vs ?rows" "tk_kind e = TokEOF"
    by (auto simp: views_Cons views_append simp del: if_split)
  have "item_reads (length vs) (parse_row L) (map cell_expr row) (in_parens (comma_tokens (map cell_tokens row)))" if "row \<in> set rws" for row
    by (rule ingest_row_back) (use that assms(2,4) in \<open>auto simp: list_all_iff\<close>)
  then have "list_all2 (item_reads (length vs) (parse_row L)) (map (map cell_expr) rws)
      (map (\<lambda>row. in_parens (comma_tokens (map cell_tokens row))) rws)"
    by (simp add: list_all2_map1 list_all2_map2 list_all2_same)
  from comma_sep_back [OF this _ ts(11) _ at_end(3) [OF ts(12)]]
  have rows: "comma_sep (parse_row L) (vs @ [e]) = Inr (map (map cell_expr) rws, [e])"
    using assms(3) at_end(2) [OF ts(12)] by simp
  have cols: "(if peek_kind (us @ v # vs @ [e]) = TokLParen
      then parsed (comma_sep (name_of L ''column name'') (advance (us @ v # vs @ [e]))) (\<lambda>cols ts.
        parsed (expect TokRParen '')'' ts) (\<lambda>_ ts. Inr (cols, ts)))
      else Inr ([], us @ v # vs @ [e])) = Inr (map (ident_lower L) cols, v # vs @ [e])"
    by (rule insert_columns_back [OF ts(8)]) (use ts(9) in \<open>simp_all add: peek_kind_def\<close>)
  have head: "acceptKeyword ''into'' (advance ts) = t # us @ v # vs @ [e]"
    using ts(1-5) insert_folds(3) by (simp add: acceptKeyword_def isKeyword_def peek_kind_def)
  have name: "name_of L ''table name'' (t # us @ v # vs @ [e]) = Inr (ident_lower L table, us @ v # vs @ [e])"
    using ts(6,7) by (simp add: name_of_def identLower_def peek_kind_def advance_rest)
  have vals: "acceptKeyword ''values'' (v # vs @ [e]) = vs @ [e]"
    using ts(9,10) insert_folds(4) by (simp add: acceptKeyword_def isKeyword_def peek_kind_def advance_rest)
  have "parseInsert L ts = Inr (InsertStmt (ident_lower L table) (map (ident_lower L) cols) (map (map cell_expr) rws), [e])"
    unfolding parseInsert_def head name parsed.simps cols vals rows by simp
  then have "parseStatement L ts = Inr (InsertStmt (ident_lower L table) (map (ident_lower L) cols) (map (map cell_expr) rws), [e])"
    using ts(1-3) insert_folds(1,2) by (simp add: parseStatement_def isKeyword_def peek_kind_def)
  then show ?thesis using ts(1,2,12) by (simp add: peek_kind_def)
qed

text \<open>C6: bulk insertion, from the rows the page sends to the values the server stores: for a table and columns that are plain
  words, and rows of strings, truth values, nulls and whole numbers below \<open>2^63\<close>, at most ten thousand and none empty,
  the backend gets one statement, and its parser reads it as the insertion of as many rows of as many
  expressions into that table and these columns, each of which evaluates to exactly the value of its cell. (A whole number
  from \<open>2^63\<close> on is stored as another number, \<open>ingest_overflow\<close>; fractions and lists and objects as cells are not covered.)\<close>

theorem ingest_rows_stored:
  assumes "sql_word table" and "list_all sql_word cols" and "list_all (list_all cell_ok) rws" and "length rws \<le> 10000"
    and "rws \<noteq> []" and "[] \<notin> set rws" and "req_body (api_ingest table cols rws) = Some body"
  shows "\<exists>sql rows. snd (handleIngest fmt_g mismatch handle (Inr body) b) = snd (handle sql b) \<and>
    Parse L sql = Inr [InsertStmt (ident_lower L table) (map (ident_lower L) cols) rows] \<and>
    map (map (eval L now ctx)) rows = map (map (\<lambda>v. Ret (cell_value v))) rws"
proof -
  let ?r = "\<lparr>ig_table = table, ig_columns = cols, ig_rows = rws\<rparr>"
  have d: "decode_ingest body = Some ?r" using decode_ingest_request [OF assms(3), of table cols] assms(7) by simp
  obtain sql where sql: "ingest_sql fmt_g ?r = Some sql" using ingest_sql_total [of ?r] assms(3) by auto
  have "table \<noteq> []" using assms(1) by (simp add: sql_word_def)
  then have h: "snd (handleIngest fmt_g mismatch handle (Inr body) b) = snd (handle sql b)"
    using d sql assms(4) by (simp add: handleIngest_def split: prod.split)
  obtain ts where "tokenize sql = Inr ts" "views ts ([(TokIdent, ''INSERT''), (TokIdent, ''INTO''), (TokIdent, table)] @
      (if cols \<noteq> [] then in_parens (comma_tokens (map (\<lambda>c. [(TokIdent, c)]) cols)) else []) @
      (TokIdent, ''VALUES'') # comma_tokens (map (\<lambda>row. in_parens (comma_tokens (map cell_tokens row))) rws) @ [(TokEOF, [])])"
    using tokenize_views [OF ingest_sql_reads [OF _ _ _ sql]] assms(1-3) by (auto cong del: if_weak_cong)
  then have "Parse L sql = Inr [InsertStmt (ident_lower L table) (map (ident_lower L) cols) (map (map cell_expr) rws)]"
    using insert_parsed [OF _ assms(3,5,6), of ts table cols L] single_statement by blast
  moreover have "map (map (eval L now ctx)) (map (map cell_expr) rws) = map (map (\<lambda>v. Ret (cell_value v))) rws"
    using assms(3) cell_evaluates by (simp add: list_all_iff)
  ultimately show ?thesis using h by blast
qed

theorem ingest_rows_stored_witness:
  "\<forall>L. \<exists>sql body. req_body (api_ingest ''logs'' [''msg'', ''n''] [[JStr [CHR 0x27], JNum (Fin (- 7))]]) = Some body \<and>
     snd (handleIngest (\<lambda>_. []) (\<lambda>_. []) (\<lambda>sql b. (\<lparr>br_ok = True, br_error = [], br_result = None\<rparr>, sql)) (Inr body) []) = sql \<and>
     (\<exists>e f. Parse L sql = Inr [InsertStmt ''logs'' [''msg'', ''n''] [[e, f]]] \<and>
       eval L 0 Map.empty e = Ret (VString [CHR 0x27]) \<and> eval L 0 Map.empty f = Ret (VInt (- 7)))"
proof
  fix L
  let ?h = "\<lambda>sql b. (\<lparr>br_ok = True, br_error = [], br_result = None\<rparr>, sql)" and ?rws = "[[JStr [CHR 0x27], JNum (Fin (- 7))]]"
  have w: "sql_word ''logs''" "list_all sql_word [''msg'', ''n'']" by (simp_all add: name_simps)
  have c: "list_all (list_all cell_ok) ?rws" "length ?rws \<le> 10000" "?rws \<noteq> []" "[] \<notin> set ?rws" by simp_all
  obtain body where b: "req_body (api_ingest ''logs'' [''msg'', ''n''] ?rws) = Some body" by (simp add: api_ingest_def post_def)
  have l: "ident_lower L ''logs'' = ''logs''" "ident_lower L ''msg'' = ''msg''" "ident_lower L ''n'' = ''n''"
    by (simp_all add: ident_lower_def lower_char_def)
  obtain sql rows where "snd (handleIngest (\<lambda>_. []) (\<lambda>_. []) ?h (Inr body) []) = snd (?h sql [])"
      "Parse L sql = Inr [InsertStmt (ident_lower L ''logs'') (map (ident_lower L) [''msg'', ''n'']) rows]"
      "map (map (eval L 0 Map.empty)) rows = map (map (\<lambda>v. Ret (cell_value v))) ?rws"
    using ingest_rows_stored [OF w c b, where fmt_g = "\<lambda>_. []" and mismatch = "\<lambda>_. []" and handle = ?h and b = "[]" and L = L
        and now = 0 and ctx = Map.empty] by blast
  then show "\<exists>sql body. req_body (api_ingest ''logs'' [''msg'', ''n''] ?rws) = Some body \<and>
      snd (handleIngest (\<lambda>_. []) (\<lambda>_. []) ?h (Inr body) []) = sql \<and>
      (\<exists>e f. Parse L sql = Inr [InsertStmt ''logs'' [''msg'', ''n''] [[e, f]]] \<and>
        eval L 0 Map.empty e = Ret (VString [CHR 0x27]) \<and> eval L 0 Map.empty f = Ret (VInt (- 7)))"
    using b l by (auto simp: map_eq_Cons_conv)
qed

end
