(* ===== verification/ShardMap.thy ===== *)
theory ShardMap
  imports KeyCodec JsConvert
begin

section \<open>The shard catalog and the routing of keys (\<open>shard/meta.go\<close>, \<open>shard/manager.go\<close>)\<close>

text \<open>
  The replicated catalog: nodes and tables with their shards, changed only by commands that the leader
  of the meta group proposes and raft commits. A key is routed to the shard with the largest start
  that owns it. A proposal is computed from the catalog of its time and committed later, so the
  state is the catalog with the proposals not yet committed, and any order of proposals and commits
  is a run. What is left out of a table's schema here (engine, retention, defaults) takes no part in
  routing; persistence and raft itself are not modelled.
\<close>

subsection \<open>Data\<close>

record node_spec =
  ns_id :: string
  ns_sql :: string
  ns_raft :: string

record shard_spec =
  sp_id :: string
  sp_table :: string
  sp_start :: string
  sp_end :: string
  sp_nodes :: "string list"

record table_schema =
  sc_name :: string
  sc_columns :: "(string \<times> string) list"
  sc_pk :: "string list"

record table_spec =
  ts_schema :: table_schema
  ts_shards :: "shard_spec list"

record catalog =
  ct_version :: nat
  ct_nodes :: "string list"
  ct_specs :: "string \<Rightarrow> node_spec option"
  ct_tables :: "string \<Rightarrow> table_spec option"

definition empty_catalog :: catalog where
  "empty_catalog = \<lparr>ct_version = 0, ct_nodes = [], ct_specs = Map.empty, ct_tables = Map.empty\<rparr>"

datatype meta_command =
    RegisterNode string string string
  | RemoveNode string
  | SetShardNodes string string "string list"
  | CreateTable table_schema "shard_spec list"
  | DropTable string
  | SplitShard string string "shard_spec list"

datatype meta_error = Table_missing string | Shard_missing string

subsection \<open>Commands\<close>

definition shardExists :: "shard_spec list \<Rightarrow> string \<Rightarrow> bool" where
  "shardExists shs i \<longleftrightarrow> list_ex (\<lambda>s. sp_id s = i) shs"

fun append_shards :: "string \<Rightarrow> shard_spec list \<Rightarrow> shard_spec list \<Rightarrow> shard_spec list" where
  "append_shards t shs [] = shs"
| "append_shards t shs (s # new) =
     (if shardExists shs (sp_id s) then append_shards t shs new
      else append_shards t (shs @ [s\<lparr>sp_table := t\<rparr>]) new)"

fun set_nodes :: "string \<Rightarrow> string list \<Rightarrow> shard_spec list \<Rightarrow> shard_spec list option" where
  "set_nodes i ns [] = None"
| "set_nodes i ns (s # shs) =
     (if sp_id s = i then Some (s\<lparr>sp_nodes := ns\<rparr> # shs) else map_option ((#) s) (set_nodes i ns shs))"

fun applyCommand :: "catalog \<Rightarrow> meta_command \<Rightarrow> meta_error + catalog" where
  "applyCommand cat (RegisterNode i sql raft) =
     Inr (if ct_specs cat i = None
          then cat\<lparr>ct_specs := (ct_specs cat)(i \<mapsto> \<lparr>ns_id = i, ns_sql = sql, ns_raft = raft\<rparr>),
                   ct_nodes := ct_nodes cat @ [i]\<rparr>
          else cat)"
| "applyCommand cat (RemoveNode i) =
     Inr (if ct_specs cat i = None then cat
          else cat\<lparr>ct_specs := (ct_specs cat)(i := None), ct_nodes := remove1 i (ct_nodes cat)\<rparr>)"
| "applyCommand cat (SetShardNodes t i ns) =
     (case ct_tables cat t of
        None \<Rightarrow> Inl (Table_missing t)
      | Some ts \<Rightarrow>
          (case set_nodes i ns (ts_shards ts) of
             None \<Rightarrow> Inl (Shard_missing i)
           | Some shs \<Rightarrow> Inr (cat\<lparr>ct_tables := (ct_tables cat)(t \<mapsto> ts\<lparr>ts_shards := shs\<rparr>)\<rparr>)))"
| "applyCommand cat (CreateTable sc shs) =
     Inr (if ct_tables cat (sc_name sc) = None
          then cat\<lparr>ct_tables := (ct_tables cat)(sc_name sc \<mapsto>
                  \<lparr>ts_schema = sc, ts_shards = map (\<lambda>s. s\<lparr>sp_table := sc_name sc\<rparr>) shs\<rparr>)\<rparr>
          else cat)"
| "applyCommand cat (DropTable t) = Inr (cat\<lparr>ct_tables := (ct_tables cat)(t := None)\<rparr>)"
| "applyCommand cat (SplitShard t key new) =
     (case ct_tables cat t of
        None \<Rightarrow> Inl (Table_missing t)
      | Some ts \<Rightarrow>
          Inr (cat\<lparr>ct_tables := (ct_tables cat)(t \<mapsto> ts\<lparr>ts_shards := append_shards t (ts_shards ts) new\<rparr>)\<rparr>))"

text \<open>\<open>MetaFSM.Apply\<close>: a command that fails leaves the catalog as it was.\<close>

definition fsm_apply :: "catalog \<Rightarrow> meta_command \<Rightarrow> catalog" where
  "fsm_apply cat cmd =
     (case applyCommand cat cmd of Inl e \<Rightarrow> cat | Inr next \<Rightarrow> next\<lparr>ct_version := Suc (ct_version next)\<rparr>)"

subsection \<open>Placement\<close>

definition fnv64a :: "string \<Rightarrow> 64 word" where
  "fnv64a s = foldl (\<lambda>h c. xor h (of_nat (of_char c)) * 1099511628211) 14695981039346656037 s"

definition hashOf :: "string \<Rightarrow> 64 word" where
  "hashOf s = fnv64a s"

definition pickNodes :: "string list \<Rightarrow> int \<Rightarrow> 64 word \<Rightarrow> string list" where
  "pickNodes all n seed =
     (if n \<le> 0 \<or> all = [] then []
      else take (nat n) (map snd (sort_key fst (map (\<lambda>i. (fnv64a (i @ '':'' @ nat_str (unat seed)), i)) all))))"

definition createTableOn :: "catalog \<Rightarrow> table_schema \<Rightarrow> int \<Rightarrow> string list \<Rightarrow> meta_command option" where
  "createTableOn cat sc rf cands =
     (let cands = (if cands = [] then ct_nodes cat else cands);
          rf = (if rf \<le> 0 \<or> int (length cands) < rf then int (length cands) else rf);
          nodes = pickNodes cands rf (hashOf (sc_name sc @ ''-0''))
      in if nodes = [] then None
         else Some (CreateTable sc
           [\<lparr>sp_id = sc_name sc @ ''-0'', sp_table = [], sp_start = [], sp_end = [], sp_nodes = nodes\<rparr>]))"

subsection \<open>Routing\<close>

definition owns :: "shard_spec \<Rightarrow> string \<Rightarrow> bool" where
  "owns s key \<longleftrightarrow> \<not> (sp_start s \<noteq> [] \<and> key < sp_start s) \<and> \<not> (sp_end s \<noteq> [] \<and> sp_end s \<le> key)"

definition start_after :: "shard_spec \<Rightarrow> shard_spec \<Rightarrow> bool" where
  "start_after s best \<longleftrightarrow> sp_start best < sp_start s"

fun best_owner :: "string \<Rightarrow> shard_spec list \<Rightarrow> shard_spec option \<Rightarrow> shard_spec option" where
  "best_owner key [] best = best"
| "best_owner key (sh # shs) best =
     best_owner key shs
       (if owns sh key \<and> (case best of None \<Rightarrow> True | Some b \<Rightarrow> start_after sh b) then Some sh else best)"

definition owningShard :: "catalog \<Rightarrow> string \<Rightarrow> string \<Rightarrow> shard_spec option" where
  "owningShard cat t key =
     (case ct_tables cat t of None \<Rightarrow> None | Some ts \<Rightarrow> best_owner key (ts_shards ts) None)"

subsection \<open>Splitting\<close>

text \<open>\<open>splitShard\<close> up to the mounting of the new group, which changes no catalog.\<close>

definition splitShard :: "catalog \<Rightarrow> int \<Rightarrow> string list \<Rightarrow> shard_spec \<Rightarrow> string \<Rightarrow> meta_command option" where
  "splitShard cat rf live spec key =
     (case ct_tables cat (sp_table spec) of
        None \<Rightarrow> None
      | Some ts \<Rightarrow>
          let rf = (if rf \<le> 0 then int (length (ct_nodes cat)) else rf);
              cands = (if live = [] then ct_nodes cat else live);
              rf = (if int (length cands) < rf then int (length cands) else rf);
              i = sp_id spec @ ''-'' @ nat_str (length (ts_shards ts));
              nodes = pickNodes cands rf (hashOf i)
          in if nodes = [] then None
             else Some (SplitShard (sp_table spec) key
               [\<lparr>sp_id = i, sp_table = sp_table spec, sp_start = key, sp_end = sp_end spec, sp_nodes = nodes\<rparr>]))"

definition hasNarrowerSucc :: "shard_spec list \<Rightarrow> shard_spec \<Rightarrow> bool" where
  "hasNarrowerSucc shs spec \<longleftrightarrow>
     list_ex (\<lambda>s. \<not> (sp_id s = sp_id spec \<or> sp_end s \<noteq> sp_end spec) \<and> sp_start spec < sp_start s) shs"

text \<open>The last part of \<open>splitShardByValue\<close>: the owner of the key, and the check of its start.\<close>

definition split_at_key :: "catalog \<Rightarrow> int \<Rightarrow> string list \<Rightarrow> string \<Rightarrow> string \<Rightarrow> meta_command option" where
  "split_at_key cat rf live t key =
     (case owningShard cat t key of
        None \<Rightarrow> None
      | Some spec \<Rightarrow>
          if sp_start spec \<noteq> [] \<and> key \<le> sp_start spec then None else splitShard cat rf live spec key)"

subsection \<open>Runs\<close>

record meta_state =
  mt_catalog :: catalog
  mt_pending :: "meta_command list"

datatype meta_event =
    Register string string string | Remove string | Place string string "string list"
  | Create table_schema int "string list" | Drop string | Split string string int "string list"
  | Commit nat

definition propose :: "meta_command option \<Rightarrow> meta_state \<Rightarrow> meta_state" where
  "propose c s = (case c of None \<Rightarrow> s | Some cmd \<Rightarrow> s\<lparr>mt_pending := mt_pending s @ [cmd]\<rparr>)"

fun meta_step :: "meta_state \<Rightarrow> meta_event \<Rightarrow> meta_state" where
  "meta_step s (Register i sql raft) = propose (Some (RegisterNode i sql raft)) s"
| "meta_step s (Remove i) = propose (Some (RemoveNode i)) s"
| "meta_step s (Place t i ns) = propose (Some (SetShardNodes t i ns)) s"
| "meta_step s (Create sc rf cands) = propose (createTableOn (mt_catalog s) sc rf cands) s"
| "meta_step s (Drop t) = propose (Some (DropTable t)) s"
| "meta_step s (Split t key rf live) = propose (split_at_key (mt_catalog s) rf live t key) s"
| "meta_step s (Commit i) =
     (case at_index (mt_pending s) i of
        None \<Rightarrow> s
      | Some cmd \<Rightarrow> s\<lparr>mt_catalog := fsm_apply (mt_catalog s) cmd,
                      mt_pending := take i (mt_pending s) @ drop (Suc i) (mt_pending s)\<rparr>)"

definition meta_init :: meta_state where
  "meta_init = \<lparr>mt_catalog = empty_catalog, mt_pending = []\<rparr>"

subsection \<open>The invariant of the catalog\<close>

definition table_ok :: "string \<Rightarrow> table_spec \<Rightarrow> bool" where
  "table_ok t ts \<longleftrightarrow> distinct (map sp_id (ts_shards ts)) \<and>
     list_all (\<lambda>s. sp_end s = [] \<and> sp_table s = t) (ts_shards ts) \<and>
     list_ex (\<lambda>s. sp_start s = []) (ts_shards ts) \<and> sc_name (ts_schema ts) = t"

definition catalog_ok :: "catalog \<Rightarrow> bool" where
  "catalog_ok cat \<longleftrightarrow> (\<forall>t ts. ct_tables cat t = Some ts \<longrightarrow> table_ok t ts)"

fun command_ok :: "meta_command \<Rightarrow> bool" where
  "command_ok (CreateTable sc shs) =
     (distinct (map sp_id shs) \<and> list_all (\<lambda>s. sp_end s = []) shs \<and> list_ex (\<lambda>s. sp_start s = []) shs)"
| "command_ok (SplitShard t key new) = list_all (\<lambda>s. sp_end s = []) new"
| "command_ok _ = True"

lemma catalog_okD: "catalog_ok cat \<Longrightarrow> ct_tables cat t = Some ts \<Longrightarrow> table_ok t ts"
  by (simp add: catalog_ok_def)

lemma shardExists_iff: "shardExists shs i \<longleftrightarrow> i \<in> sp_id ` set shs"
  by (auto simp: shardExists_def list_ex_iff)

lemma append_shards_ok:
  assumes "table_ok t ts" and "list_all (\<lambda>s. sp_end s = []) new"
  shows "table_ok t (ts\<lparr>ts_shards := append_shards t (ts_shards ts) new\<rparr>)"
proof -
  have "distinct (map sp_id shs) \<and> list_all (\<lambda>s. sp_end s = [] \<and> sp_table s = t) shs \<and> list_ex (\<lambda>s. sp_start s = []) shs \<Longrightarrow>
      list_all (\<lambda>s. sp_end s = []) new \<Longrightarrow>
      distinct (map sp_id (append_shards t shs new)) \<and>
      list_all (\<lambda>s. sp_end s = [] \<and> sp_table s = t) (append_shards t shs new) \<and>
      list_ex (\<lambda>s. sp_start s = []) (append_shards t shs new)" for shs
  proof (induction t shs new rule: append_shards.induct)
    case (2 t shs s new)
    then show ?case by (cases "shardExists shs (sp_id s)") (simp_all add: shardExists_iff)
  qed simp
  from this [of "ts_shards ts"] show ?thesis using assms by (simp add: table_ok_def)
qed

lemma set_nodes_keeps:
  "set_nodes i ns shs = Some shs' \<Longrightarrow>
   map (\<lambda>s. (sp_id s, sp_table s, sp_start s, sp_end s)) shs' = map (\<lambda>s. (sp_id s, sp_table s, sp_start s, sp_end s)) shs"
  by (induction shs arbitrary: shs') (auto split: if_splits)

lemma table_ok_cong:
  assumes "map (\<lambda>s. (sp_id s, sp_table s, sp_start s, sp_end s)) shs' =
      map (\<lambda>s. (sp_id s, sp_table s, sp_start s, sp_end s)) (ts_shards ts)" and "table_ok t ts"
  shows "table_ok t (ts\<lparr>ts_shards := shs'\<rparr>)"
proof -
  let ?f = "\<lambda>s. (sp_id s, sp_table s, sp_start s, sp_end s)"
  have d: "map sp_id shs' = map sp_id (ts_shards ts)"
    using arg_cong [OF assms(1), of "map fst"] by (simp add: comp_def)
  have e: "list_all (\<lambda>s. sp_end s = [] \<and> sp_table s = t) xs = list_all (\<lambda>(i, u, a, b). b = [] \<and> u = t) (map ?f xs)"
    "list_ex (\<lambda>s. sp_start s = []) xs = list_ex (\<lambda>(i, u, a, b). a = []) (map ?f xs)" for xs
    by (simp_all add: list_all_iff list_ex_iff)
  have "list_all (\<lambda>s. sp_end s = [] \<and> sp_table s = t) shs' = list_all (\<lambda>s. sp_end s = [] \<and> sp_table s = t) (ts_shards ts)"
    "list_ex (\<lambda>s. sp_start s = []) shs' = list_ex (\<lambda>s. sp_start s = []) (ts_shards ts)"
    unfolding e assms(1) by (rule refl)+
  then show ?thesis using assms(2) d by (simp add: table_ok_def)
qed

lemma fsm_apply_ok: "catalog_ok cat \<Longrightarrow> command_ok cmd \<Longrightarrow> catalog_ok (fsm_apply cat cmd)"
proof (cases cmd)
  case (SetShardNodes t i ns)
  assume "catalog_ok cat"
  then show ?thesis using SetShardNodes
    by (auto simp: fsm_apply_def catalog_ok_def dest!: set_nodes_keeps intro: table_ok_cong split: option.split)
next
  case (CreateTable sc shs)
  assume "catalog_ok cat" "command_ok cmd"
  then show ?thesis using CreateTable
    by (auto simp: fsm_apply_def catalog_ok_def table_ok_def list_all_iff list_ex_iff comp_def)
next
  case (SplitShard t key new)
  assume "catalog_ok cat" "command_ok cmd"
  then show ?thesis using SplitShard
    by (auto simp: fsm_apply_def catalog_ok_def intro: append_shards_ok split: option.split)
qed (auto simp: fsm_apply_def catalog_ok_def)

lemma catalog_ok_empty: "catalog_ok empty_catalog"
  by (simp add: catalog_ok_def empty_catalog_def)

text \<open>What the leader proposes is admissible.\<close>

lemma createTableOn_ok: "createTableOn cat sc rf cands = Some cmd \<Longrightarrow> command_ok cmd"
  by (auto simp: createTableOn_def Let_def split: if_splits)

lemma best_owner_in: "best_owner key shs best = Some b \<Longrightarrow> b \<in> set shs \<or> best = Some b"
  by (induction shs arbitrary: best) (auto split: if_splits)

lemma owningShard_in:
  "owningShard cat t key = Some s \<Longrightarrow> \<exists>ts. ct_tables cat t = Some ts \<and> s \<in> set (ts_shards ts)"
  by (auto simp: owningShard_def split: option.splits dest: best_owner_in)

lemma splitShard_cmd:
  "splitShard cat rf live spec key = Some cmd \<Longrightarrow>
   \<exists>i ns. cmd = SplitShard (sp_table spec) key
     [\<lparr>sp_id = i, sp_table = sp_table spec, sp_start = key, sp_end = sp_end spec, sp_nodes = ns\<rparr>]"
  by (auto simp: splitShard_def Let_def split: option.splits if_splits)

lemma split_at_key_ok:
  assumes "catalog_ok cat" and "split_at_key cat rf live t key = Some cmd"
  shows "command_ok cmd"
proof -
  obtain spec where s: "owningShard cat t key = Some spec" "splitShard cat rf live spec key = Some cmd"
    using assms(2) by (auto simp: split_at_key_def split: option.splits if_splits)
  obtain ts where "ct_tables cat t = Some ts" "spec \<in> set (ts_shards ts)" using owningShard_in [OF s(1)] by blast
  then have "sp_end spec = []" using assms(1) by (auto simp: catalog_ok_def table_ok_def list_all_iff)
  then show ?thesis using splitShard_cmd [OF s(2)] by auto
qed

definition meta_inv :: "meta_state \<Rightarrow> bool" where
  "meta_inv s \<longleftrightarrow> catalog_ok (mt_catalog s) \<and> list_all command_ok (mt_pending s)"

lemma propose_inv: "meta_inv s \<Longrightarrow> (\<And>cmd. c = Some cmd \<Longrightarrow> command_ok cmd) \<Longrightarrow> meta_inv (propose c s)"
  by (simp add: meta_inv_def propose_def split: option.split)

lemma meta_step_inv: "meta_inv s \<Longrightarrow> meta_inv (meta_step s e)"
proof (cases e)
  case (Commit i)
  assume s: "meta_inv s"
  show ?thesis
  proof (cases "at_index (mt_pending s) i")
    case (Some cmd)
    then have i: "i < length (mt_pending s)" "mt_pending s ! i = cmd" by (simp_all add: at_index_Some)
    then have c: "command_ok cmd" using s by (auto simp: meta_inv_def list_all_length)
    have "list_all command_ok (take i (mt_pending s) @ drop (Suc i) (mt_pending s))"
      using s by (auto simp: meta_inv_def list_all_iff dest: in_set_takeD in_set_dropD)
    then show ?thesis using s Some Commit c fsm_apply_ok by (auto simp: meta_inv_def)
  qed (simp add: s Commit)
next
  case (Split t key rf live)
  assume s: "meta_inv s"
  then have "catalog_ok (mt_catalog s)" by (simp add: meta_inv_def)
  then show ?thesis using Split s split_at_key_ok by (auto intro: propose_inv)
qed (auto intro: propose_inv dest: createTableOn_ok)

interpretation meta_machine: machine meta_init meta_step meta_inv
  by unfold_locales (simp_all add: meta_step_inv, simp add: meta_inv_def meta_init_def catalog_ok_empty)

subsection \<open>Refinement: a table as a map of split points\<close>

text \<open>
  The specification forgets nodes, schemas and the order of the shards: a table is a map from shard ids to
  the points where they start, a command adds points, and a key belongs to the largest point that is
  not above it.
\<close>

type_synonym split_map = "string \<Rightarrow> (string \<Rightarrow> string option) option"

definition add_point :: "(string \<Rightarrow> string option) \<Rightarrow> shard_spec \<Rightarrow> string \<Rightarrow> string option" where
  "add_point m s = (if m (sp_id s) = None then m(sp_id s \<mapsto> sp_start s) else m)"

definition points :: "shard_spec list \<Rightarrow> string \<Rightarrow> string option" where
  "points shs = map_of (map (\<lambda>s. (sp_id s, sp_start s)) shs)"

fun spec_command :: "split_map \<Rightarrow> meta_command \<Rightarrow> split_map" where
  "spec_command p (CreateTable sc shs) = (if p (sc_name sc) = None then p(sc_name sc \<mapsto> points shs) else p)"
| "spec_command p (DropTable t) = p(t := None)"
| "spec_command p (SplitShard t key new) =
     (case p t of None \<Rightarrow> p | Some m \<Rightarrow> p(t \<mapsto> foldl add_point m new))"
| "spec_command p _ = p"

definition spec_route :: "split_map \<Rightarrow> string \<Rightarrow> string \<Rightarrow> string option" where
  "spec_route p t key = map_option (\<lambda>m. Max {b \<in> ran m. b \<le> key}) (p t)"

definition split_points :: "catalog \<Rightarrow> split_map" where
  "split_points cat t = map_option (\<lambda>ts. points (ts_shards ts)) (ct_tables cat t)"

lemma points_cong:
  "map (\<lambda>s. (sp_id s, sp_table s, sp_start s, sp_end s)) xs = map (\<lambda>s. (sp_id s, sp_table s, sp_start s, sp_end s)) ys \<Longrightarrow>
   points xs = points ys"
proof -
  assume e: "map (\<lambda>s. (sp_id s, sp_table s, sp_start s, sp_end s)) xs = map (\<lambda>s. (sp_id s, sp_table s, sp_start s, sp_end s)) ys"
  have "map (\<lambda>s. (sp_id s, sp_start s)) xs = map (\<lambda>s. (sp_id s, sp_start s)) ys"
    using arg_cong [OF e, of "map (\<lambda>(i, t, a, b). (i, a))"] by (simp add: comp_def)
  then show ?thesis by (simp add: points_def)
qed

lemma points_None: "points shs i = None \<longleftrightarrow> \<not> shardExists shs i"
  by (simp add: points_def map_of_eq_None_iff shardExists_iff image_image)

lemma points_snoc: "\<not> shardExists shs (sp_id s) \<Longrightarrow> points (shs @ [s]) = (points shs)(sp_id s \<mapsto> sp_start s)"
  using points_None [of shs "sp_id s"] by (auto simp: points_def map_add_def split: option.split)

lemma points_append_one:
  "points (if shardExists shs (sp_id s) then shs else shs @ [s\<lparr>sp_table := t\<rparr>]) = add_point (points shs) s"
proof (cases "shardExists shs (sp_id s)")
  case True
  then have "points shs (sp_id s) \<noteq> None" by (simp only: points_None not_not)
  then show ?thesis using True by (simp only: add_point_def if_True if_False)
next
  case False
  then have n: "points shs (sp_id s) = None" by (simp only: points_None not_False_eq_True)
  have "points (shs @ [s\<lparr>sp_table := t\<rparr>]) = (points shs)(sp_id s \<mapsto> sp_start s)"
    using points_snoc [of shs "s\<lparr>sp_table := t\<rparr>"] False by simp
  then show ?thesis using False n by (simp only: add_point_def if_True if_False refl)
qed

lemma points_append_shards: "points (append_shards t shs new) = foldl add_point (points shs) new"
proof (induction t shs new rule: append_shards.induct)
  case (2 t shs s new)
  show ?case
  proof (cases "shardExists shs (sp_id s)")
    case True
    then show ?thesis using 2(1) [OF True] points_append_one [of shs s t] by simp
  next
    case False
    then show ?thesis using 2(2) [OF False] points_append_one [of shs s t] by simp
  qed
qed simp

lemma points_set_table: "points (map (\<lambda>s. s\<lparr>sp_table := t\<rparr>) shs) = points shs"
  by (simp add: points_def comp_def)

lemma split_points_apply: "split_points (fsm_apply cat cmd) = spec_command (split_points cat) cmd"
proof (cases cmd)
  case (SetShardNodes t i ns)
  then show ?thesis
    by (auto simp: split_points_def fsm_apply_def fun_eq_iff dest!: set_nodes_keeps points_cong split: option.splits)
next
  case (SplitShard t key new)
  then show ?thesis
    by (auto simp: split_points_def fsm_apply_def fun_eq_iff points_append_shards split: option.splits)
qed (auto simp: split_points_def fsm_apply_def fun_eq_iff points_set_table)

lemma split_points_empty: "split_points empty_catalog = Map.empty"
  by (simp add: split_points_def empty_catalog_def fun_eq_iff)

interpretation fsm_refines: refinement empty_catalog fsm_apply catalog_ok command_ok split_points spec_command
  by unfold_locales (simp_all add: catalog_ok_empty fsm_apply_ok split_points_apply)

subsection \<open>Routing\<close>

lemma owns_open: "sp_end s = [] \<Longrightarrow> owns s key \<longleftrightarrow> sp_start s \<le> key"
  by (cases "sp_start s = []") (auto simp: owns_def not_less)

lemma best_owner_spec:
  "list_all (\<lambda>s. sp_end s = []) shs \<Longrightarrow>
   (case best_owner key shs best of
      None \<Rightarrow> best = None \<and> (\<forall>s \<in> set shs. key < sp_start s)
    | Some b \<Rightarrow> (best = Some b \<or> b \<in> set shs \<and> sp_start b \<le> key) \<and>
        (\<forall>s \<in> set shs. sp_start s \<le> key \<longrightarrow> sp_start s \<le> sp_start b) \<and>
        (\<forall>b0. best = Some b0 \<longrightarrow> sp_start b0 \<le> sp_start b))"
proof (induction shs arbitrary: best)
  case Nil
  then show ?case by (cases best) auto
next
  case (Cons sh shs)
  define best' where "best' = (if owns sh key \<and> (case best of None \<Rightarrow> True | Some b \<Rightarrow> start_after sh b) then Some sh else best)"
  have o: "owns sh key = (sp_start sh \<le> key)" using Cons.prems by (simp add: owns_open)
  have IH: "case best_owner key shs best' of
      None \<Rightarrow> best' = None \<and> (\<forall>s \<in> set shs. key < sp_start s)
    | Some b \<Rightarrow> (best' = Some b \<or> b \<in> set shs \<and> sp_start b \<le> key) \<and>
        (\<forall>s \<in> set shs. sp_start s \<le> key \<longrightarrow> sp_start s \<le> sp_start b) \<and>
        (\<forall>b0. best' = Some b0 \<longrightarrow> sp_start b0 \<le> sp_start b)"
    using Cons by simp
  have step: "best_owner key (sh # shs) best = best_owner key shs best'" by (simp add: best'_def)
  show ?case
  proof (cases "best_owner key shs best'")
    case None
    then show ?thesis using IH o unfolding step best'_def by (auto split: if_splits option.splits)
  next
    case (Some b)
    have "sp_start sh \<le> sp_start b" if "sp_start sh \<le> key"
      using IH Some o that by (cases best) (auto simp: best'_def start_after_def split: if_splits)
    moreover have "sp_start b0 \<le> sp_start b" if "best = Some b0" for b0
      using IH Some o that by (auto simp: best'_def start_after_def split: if_splits)
    ultimately show ?thesis using IH Some o unfolding step best'_def
      by (auto split: if_splits)
  qed
qed

lemma ran_points: "distinct (map sp_id shs) \<Longrightarrow> ran (points shs) = sp_start ` set shs"
  by (simp add: points_def ran_distinct comp_def image_image)

lemma route_start:
  assumes "catalog_ok cat"
  shows "map_option sp_start (owningShard cat t key) = spec_route (split_points cat) t key"
proof (cases "ct_tables cat t")
  case None
  then show ?thesis by (simp add: owningShard_def spec_route_def split_points_def)
next
  case (Some ts)
  then have ok: "table_ok t ts" using assms catalog_okD by blast
  then have e: "list_all (\<lambda>s. sp_end s = []) (ts_shards ts)" by (auto simp: table_ok_def list_all_iff)
  obtain s0 where s0: "s0 \<in> set (ts_shards ts)" "sp_start s0 = []"
    using ok by (auto simp: table_ok_def list_ex_iff)
  have "best_owner key (ts_shards ts) None \<noteq> None"
    using best_owner_spec [where key = key and best = None, OF e] s0 by (auto split: option.splits)
  then obtain b where b: "best_owner key (ts_shards ts) None = Some b" by auto
  have "Max {x \<in> sp_start ` set (ts_shards ts). x \<le> key} = sp_start b"
    using best_owner_spec [where key = key and best = None, OF e] b by (intro Max_eqI) auto
  then show ?thesis using Some b ok
    by (simp add: owningShard_def spec_route_def split_points_def ran_points table_ok_def)
qed

text \<open>C12: the catalog refines its specification: after any log of admissible commands its tables are
  the maps of split points that the specification computes from that log, and a key is routed to the
  shard whose start is the largest split point not above the key.\<close>

theorem catalog_refines:
  assumes "list_all command_ok cmds"
  shows "let cat = run fsm_apply empty_catalog cmds
         in split_points cat = run spec_command Map.empty cmds \<and>
            map_option sp_start (owningShard cat t key) = spec_route (split_points cat) t key"
  using fsm_refines.run_refines [OF assms] route_start [OF fsm_refines.run_inv [OF assms]]
  by (simp add: split_points_empty Let_def)

theorem catalog_refines_witness:
  "let cmds = [CreateTable \<lparr>sc_name = ''t'', sc_columns = [(''k'', ''string'')], sc_pk = [''k'']\<rparr>
                 [\<lparr>sp_id = ''t-0'', sp_table = ''t'', sp_start = [], sp_end = [], sp_nodes = [''n1'']\<rparr>],
               SplitShard ''t'' ''m'' [\<lparr>sp_id = ''t-1'', sp_table = ''t'', sp_start = ''m'', sp_end = [], sp_nodes = [''n1'']\<rparr>]];
       cat = run fsm_apply empty_catalog cmds
   in split_points cat ''t'' = Some [''t-0'' \<mapsto> [], ''t-1'' \<mapsto> ''m''] \<and>
      map_option sp_start (owningShard cat ''t'' ''p'') = spec_route (split_points cat) ''t'' ''p''"
  using catalog_refines [where t = "''t''" and key = "''p''" and cmds =
      "[CreateTable \<lparr>sc_name = ''t'', sc_columns = [(''k'', ''string'')], sc_pk = [''k'']\<rparr>
          [\<lparr>sp_id = ''t-0'', sp_table = ''t'', sp_start = [], sp_end = [], sp_nodes = [''n1'']\<rparr>],
        SplitShard ''t'' ''m'' [\<lparr>sp_id = ''t-1'', sp_table = ''t'', sp_start = ''m'', sp_end = [], sp_nodes = [''n1'']\<rparr>]]"]
  by (simp add: Let_def points_def add_point_def fun_upd_twist)

end
