(* ===== verification/ShardRuns.thy ===== *)
theory ShardRuns
  imports ShardMap
begin

section \<open>Runs of the shard catalog: ownership of keys and what a split moves\<close>

text \<open>
  What the invariant of \<open>ShardMap\<close> gives over whole runs of proposals and commits: every key has one
  owner, a split on a quiet catalog makes a shard of a new id and takes over exactly the upper part of
  one shard's range, and the automatic splitting of \<open>shard/split.go\<close> on top of it.
\<close>

subsection \<open>Ownership\<close>

lemma owner_exists:
  assumes "catalog_ok cat" and "ct_tables cat t = Some ts"
  shows "\<exists>s. owningShard cat t key = Some s \<and> s \<in> set (ts_shards ts) \<and> sp_start s \<le> key \<and>
    list_all (\<lambda>s'. sp_start s' \<le> key \<longrightarrow> sp_start s' \<le> sp_start s) (ts_shards ts)"
proof -
  have ok: "table_ok t ts" using assms catalog_okD by blast
  then have e: "list_all (\<lambda>s. sp_end s = []) (ts_shards ts)" by (auto simp: table_ok_def list_all_iff)
  have "list_ex (\<lambda>s. sp_start s = []) (ts_shards ts)" using ok by (simp add: table_ok_def)
  then have "\<not> (\<forall>s \<in> set (ts_shards ts). key < sp_start s)" by (force simp: list_ex_iff not_less)
  then obtain b where b: "best_owner key (ts_shards ts) None = Some b"
    using best_owner_spec [where key = key and best = None, OF e] by (auto split: option.splits)
  then show ?thesis
    using best_owner_spec [where key = key and best = None, OF e] assms(2)
    by (auto simp: owningShard_def list_all_iff)
qed

text \<open>C15: over any run of proposals and commits in any order, each table has shards of distinct ids, all
  without an upper bound, and every key is owned, by a shard whose start is the largest one not
  above the key.\<close>

theorem keys_always_owned:
  assumes "ct_tables (mt_catalog (run meta_step meta_init es)) t = Some ts"
  shows "distinct (map sp_id (ts_shards ts)) \<and> list_all (\<lambda>s. sp_end s = []) (ts_shards ts) \<and>
    (\<exists>s. owningShard (mt_catalog (run meta_step meta_init es)) t key = Some s \<and> s \<in> set (ts_shards ts) \<and>
      sp_start s \<le> key \<and> list_all (\<lambda>s'. sp_start s' \<le> key \<longrightarrow> sp_start s' \<le> sp_start s) (ts_shards ts))"
proof -
  have ok: "catalog_ok (mt_catalog (run meta_step meta_init es))"
    using meta_machine.inv_reachable [of es] by (simp add: meta_inv_def)
  then have "table_ok t ts" using assms catalog_okD by blast
  then show ?thesis using owner_exists [OF ok assms] by (auto simp: table_ok_def list_all_iff)
qed

text \<open>Tables of the witnesses: one column, one node.\<close>

definition one_schema :: table_schema where
  "one_schema = \<lparr>sc_name = ''t'', sc_columns = [(''k'', ''string'')], sc_pk = [''k'']\<rparr>"

definition one_table :: "meta_event list" where
  "one_table = [Register ''n1'' ''a'' ''b'', Commit 0, Create one_schema 1 [], Commit 0]"

lemma pickNodes_one: "0 < n \<Longrightarrow> pickNodes [i] n seed = [i]"
  by (simp add: pickNodes_def take_Cons')

lemma run_one_table:
  "run meta_step meta_init one_table =
   \<lparr>mt_catalog = \<lparr>ct_version = 2, ct_nodes = [''n1''],
      ct_specs = [''n1'' \<mapsto> \<lparr>ns_id = ''n1'', ns_sql = ''a'', ns_raft = ''b''\<rparr>],
      ct_tables = [''t'' \<mapsto> \<lparr>ts_schema = one_schema,
        ts_shards = [\<lparr>sp_id = ''t-0'', sp_table = ''t'', sp_start = [], sp_end = [], sp_nodes = [''n1'']\<rparr>]\<rparr>]\<rparr>,
    mt_pending = []\<rparr>"
  by (simp add: one_table_def one_schema_def meta_init_def empty_catalog_def propose_def fsm_apply_def
      createTableOn_def pickNodes_one Let_def)

theorem keys_always_owned_witness:
  "\<exists>s. owningShard (mt_catalog (run meta_step meta_init one_table)) ''t'' ''key'' = Some s \<and> sp_start s \<le> ''key''"
  using keys_always_owned [where es = one_table and t = "''t''" and key = "''key''"]
  by (auto simp: run_one_table)

subsection \<open>Names of shards\<close>

text \<open>
  A new shard is named after the one it is split off and the number of shards the table has. On a quiet
  catalog, where each proposal is committed before the next is made, that number is new.
\<close>

definition numbered :: "shard_spec list \<Rightarrow> bool" where
  "numbered shs \<longleftrightarrow> (\<forall>s \<in> set shs. \<exists>p k. sp_id s = p @ CHR ''-'' # nat_str k \<and> k < length shs)"

definition quiet :: "meta_state \<Rightarrow> bool" where
  "quiet s \<longleftrightarrow> mt_pending s = [] \<and> catalog_ok (mt_catalog s) \<and>
     (\<forall>t ts. ct_tables (mt_catalog s) t = Some ts \<longrightarrow> numbered (ts_shards ts))"

lemma minus_notin_nat_str: "CHR ''-'' \<notin> set (nat_str n)"
proof (induction n rule: nat_str.induct)
  case (1 n)
  have "char_of (48 + k) \<noteq> CHR ''-''" if "k < 10" for k :: nat
  proof
    assume "char_of (48 + k) = CHR ''-''"
    then have "of_char (char_of (48 + k) :: char) = (45 :: nat)" by simp
    then show False using that by simp
  qed
  then show ?case using 1 by (cases "n < 10") (simp_all add: nat_str.simps [of n] eq_commute)
qed

lemma number_unique:
  assumes "p @ CHR ''-'' # nat_str k = q @ CHR ''-'' # nat_str n"
  shows "k = n"
proof -
  have t: "takeWhile (\<lambda>c. c \<noteq> CHR ''-'') (rev (r @ CHR ''-'' # nat_str i)) = rev (nat_str i)" for r i
    using minus_notin_nat_str [of i] by (auto simp: takeWhile_append)
  have "rev (nat_str k) = rev (nat_str n)" using t [of p k] t [of q n] assms by simp
  then show ?thesis using nat_str_inj by simp
qed

lemma numbered_fresh: "numbered shs \<Longrightarrow> \<not> shardExists shs (p @ CHR ''-'' # nat_str (length shs))"
  by (fastforce simp: numbered_def shardExists_iff dest: number_unique)

lemma numbered_snoc:
  "numbered shs \<Longrightarrow> sp_id n = p @ CHR ''-'' # nat_str (length shs) \<Longrightarrow> numbered (shs @ [n])"
  unfolding numbered_def by (fastforce intro: less_SucI)

lemma numbered_cong: "map sp_id shs' = map sp_id shs \<Longrightarrow> numbered shs \<Longrightarrow> numbered shs'"
proof -
  assume m: "map sp_id shs' = map sp_id shs" and n: "numbered shs"
  have l: "length shs' = length shs" using arg_cong [OF m, of length] by simp
  show "numbered shs'"
    unfolding numbered_def l
  proof
    fix s assume "s \<in> set shs'"
    then have "sp_id s \<in> sp_id ` set shs" using arg_cong [OF m, of set] by (metis imageI list.set_map)
    then show "\<exists>p k. sp_id s = p @ CHR ''-'' # nat_str k \<and> k < length shs"
      using n unfolding numbered_def by (metis imageE)
  qed
qed

subsection \<open>A committed split\<close>

lemma append_fresh: "\<not> shardExists shs (sp_id n) \<Longrightarrow> append_shards t shs [n] = shs @ [n\<lparr>sp_table := t\<rparr>]"
  by simp

lemma split_at_key_cmd:
  assumes "catalog_ok cat" and "ct_tables cat t = Some ts" and "split_at_key cat rf live t key = Some cmd"
  shows "\<exists>spec n. owningShard cat t key = Some spec \<and> spec \<in> set (ts_shards ts) \<and>
    (sp_start spec = [] \<or> sp_start spec < key) \<and> cmd = SplitShard t key [n] \<and> sp_start n = key \<and>
    sp_end n = [] \<and> sp_table n = t \<and> sp_id n = sp_id spec @ CHR ''-'' # nat_str (length (ts_shards ts))"
proof -
  obtain spec where s: "owningShard cat t key = Some spec" "splitShard cat rf live spec key = Some cmd"
    "\<not> (sp_start spec \<noteq> [] \<and> key \<le> sp_start spec)"
    using assms(3) by (auto simp: split_at_key_def split: option.splits if_splits)
  have i: "spec \<in> set (ts_shards ts)" using owningShard_in [OF s(1)] assms(2) by auto
  then have "sp_table spec = t" "sp_end spec = []"
    using catalog_okD [OF assms(1,2)] by (auto simp: table_ok_def list_all_iff)
  then show ?thesis using s i assms(2)
    by (auto simp: splitShard_def Let_def not_le split: if_splits)
qed

lemma split_commit:
  assumes "quiet s" and "ct_tables (mt_catalog s) t = Some ts"
    and "split_at_key (mt_catalog s) rf live t key = Some cmd"
  shows "\<exists>spec n. owningShard (mt_catalog s) t key = Some spec \<and> (sp_start spec = [] \<or> sp_start spec < key) \<and>
    sp_start n = key \<and> sp_end n = [] \<and> sp_id n = sp_id spec @ CHR ''-'' # nat_str (length (ts_shards ts)) \<and>
    \<not> shardExists (ts_shards ts) (sp_id n) \<and>
    ct_tables (fsm_apply (mt_catalog s) cmd) =
      (ct_tables (mt_catalog s))(t \<mapsto> ts\<lparr>ts_shards := ts_shards ts @ [n]\<rparr>)"
proof -
  obtain spec n where c: "owningShard (mt_catalog s) t key = Some spec" "sp_start spec = [] \<or> sp_start spec < key"
    "cmd = SplitShard t key [n]" "sp_start n = key" "sp_end n = []" "sp_table n = t"
    "sp_id n = sp_id spec @ CHR ''-'' # nat_str (length (ts_shards ts))"
    using split_at_key_cmd [OF _ assms(2,3)] assms(1) by (auto simp: quiet_def)
  have f: "\<not> shardExists (ts_shards ts) (sp_id n)"
    unfolding c(7) using assms(1,2) by (intro numbered_fresh) (auto simp: quiet_def)
  have "n\<lparr>sp_table := t\<rparr> = n" using c(6) by simp
  then have "append_shards t (ts_shards ts) [n] = ts_shards ts @ [n]" using append_fresh [OF f] by simp
  then have "ct_tables (fsm_apply (mt_catalog s) cmd) =
      (ct_tables (mt_catalog s))(t \<mapsto> ts\<lparr>ts_shards := ts_shards ts @ [n]\<rparr>)"
    using c(3) assms(2) by (simp add: fsm_apply_def del: append_shards.simps)
  then show ?thesis using c f by blast
qed

text \<open>A proposal that is committed before the next one is made.\<close>

definition commit_now :: "meta_state \<Rightarrow> meta_event \<Rightarrow> meta_state" where
  "commit_now s e = run meta_step s [e, Commit 0]"

lemma commit_next:
  assumes "mt_pending s = []"
  shows "mt_catalog (commit_now s e) =
      (case mt_pending (meta_step s e) of [] \<Rightarrow> mt_catalog s | cmd # _ \<Rightarrow> fsm_apply (mt_catalog s) cmd)"
    and "mt_pending (commit_now s e) = []"
  using assms by (cases e; simp add: commit_now_def propose_def split: option.split)+

lemma set_nodes_ids: "set_nodes i ns shs = Some shs' \<Longrightarrow> map sp_id shs' = map sp_id shs"
  by (induction shs arbitrary: shs') (auto split: if_splits)

lemma nat_str_0: "nat_str 0 = ''0''"
  by code_simp

lemma numbered_step:
  assumes "quiet s" and "ct_tables (mt_catalog (commit_now s e)) t = Some ts"
  shows "numbered (ts_shards ts)"
proof (cases e)
  case (Place t' i ns)
  then show ?thesis using assms
    by (auto simp: commit_next quiet_def propose_def fsm_apply_def
        intro: numbered_cong [OF set_nodes_ids] split: option.splits if_splits)
next
  case (Create sc rf cands)
  have "numbered [\<lparr>sp_id = n @ ''-0'', sp_table = x, sp_start = [], sp_end = [], sp_nodes = ns\<rparr>]" for n x ns
    by (auto simp: numbered_def nat_str_0 intro: exI [of _ 0])
  then show ?thesis using assms Create
    by (auto simp: commit_next quiet_def propose_def createTableOn_def Let_def fsm_apply_def split: if_splits)
next
  case (Split t' key rf live)
  show ?thesis
  proof (cases "split_at_key (mt_catalog s) rf live t' key")
    case (Some cmd)
    then obtain ts' where t': "ct_tables (mt_catalog s) t' = Some ts'"
      by (auto simp: split_at_key_def owningShard_def split: option.splits)
    have e: "mt_catalog (commit_now s e) = fsm_apply (mt_catalog s) cmd"
      using assms(1) Some Split by (simp add: commit_next quiet_def propose_def)
    have "numbered (ts_shards ts')" using assms(1) t' by (simp add: quiet_def)
    then have "numbered (ts_shards ts' @ [n])" if "sp_id n = p @ CHR ''-'' # nat_str (length (ts_shards ts'))" for n p
      using that by (rule numbered_snoc)
    then show ?thesis using split_commit [OF assms(1) t' Some] assms unfolding e
      by (auto simp: quiet_def simp del: append_assoc split: if_splits)
  qed (use assms Split in \<open>simp add: commit_next quiet_def propose_def\<close>)
qed (use assms in \<open>auto simp: commit_next quiet_def propose_def fsm_apply_def split: if_splits\<close>)

lemma quiet_step: "quiet s \<Longrightarrow> quiet (commit_now s e)"
proof -
  assume q: "quiet s"
  then have "meta_inv s" by (simp add: quiet_def meta_inv_def)
  then have "meta_inv (commit_now s e)" using meta_step_inv by (simp only: commit_now_def run_simps)
  moreover have "mt_pending (commit_now s e) = []"
    using q by (simp add: commit_next quiet_def)
  ultimately show ?thesis using numbered_step [OF q] unfolding quiet_def meta_inv_def by blast
qed

lemma quiet_init: "quiet meta_init"
  by (simp add: quiet_def meta_init_def empty_catalog_def catalog_ok_def)

interpretation quiet_machine: machine meta_init commit_now quiet
  by unfold_locales (simp_all only: quiet_init quiet_step)

lemma best_owner_append [simp]: "best_owner key (xs @ ys) b = best_owner key ys (best_owner key xs b)"
  by (induction xs arbitrary: b) simp_all

lemma best_owner_cong: "list_all (\<lambda>s. owns s k = owns s key) shs \<Longrightarrow> best_owner k shs b = best_owner key shs b"
  by (induction shs arbitrary: b) simp_all

text \<open>Between a shard's start and a larger key that it is the best owner of, it is the best owner.\<close>

lemma owner_between:
  assumes "catalog_ok cat" and "owningShard cat t k = Some b" and "sp_start b \<le> key" and "key \<le> k"
  shows "owningShard cat t key = Some b"
proof -
  obtain ts where ts: "ct_tables cat t = Some ts" using owningShard_in [OF assms(2)] by blast
  then have e: "list_all (\<lambda>s. sp_end s = []) (ts_shards ts)"
    using catalog_okD [OF assms(1)] by (auto simp: table_ok_def list_all_iff)
  have max: "list_all (\<lambda>s'. sp_start s' \<le> k \<longrightarrow> sp_start s' \<le> sp_start b) (ts_shards ts)"
    using owner_exists [OF assms(1) ts, of k] assms(2) by auto
  have "owns s k = owns s key" if "s \<in> set (ts_shards ts)" for s
  proof -
    have s: "sp_end s = []" "sp_start s \<le> k \<longrightarrow> sp_start s \<le> sp_start b" using e max that by (auto simp: list_all_iff)
    then show ?thesis using assms(3,4) by (auto simp: owns_open)
  qed
  then have "best_owner k (ts_shards ts) None = best_owner key (ts_shards ts) None"
    by (intro best_owner_cong) (simp add: list_all_iff)
  then show ?thesis using ts assms(2) by (simp add: owningShard_def)
qed

lemma owner_after_append:
  assumes "catalog_ok cat" and "ct_tables cat t = Some ts" and "owningShard cat t key = Some spec"
    and "sp_start spec < key" and "sp_start n = key" and "sp_end n = []"
  shows "best_owner k (ts_shards ts @ [n]) None =
    (if key \<le> k \<and> owningShard cat t k = Some spec then Some n else owningShard cat t k)"
proof -
  obtain b where b: "owningShard cat t k = Some b" "sp_start b \<le> k"
    "list_all (\<lambda>s'. sp_start s' \<le> k \<longrightarrow> sp_start s' \<le> sp_start b) (ts_shards ts)"
    using owner_exists [OF assms(1,2), of k] by auto
  have "best_owner k (ts_shards ts) None = Some b" using b(1) assms(2) by (simp add: owningShard_def)
  then have l: "best_owner k (ts_shards ts @ [n]) None = (if key \<le> k \<and> sp_start b < key then Some n else Some b)"
    using assms(5,6) by (simp add: owns_open start_after_def)
  have "sp_start b < key \<longleftrightarrow> b = spec" if k: "key \<le> k"
  proof
    assume "sp_start b < key"
    then have "owningShard cat t key = Some b" using owner_between [OF assms(1) b(1) _ k] by simp
    then show "b = spec" using assms(3) by simp
  qed (use assms(4) in simp)
  then show ?thesis using l b(1) by auto
qed

lemma split_owner:
  assumes "quiet s" and "key \<noteq> []" and "split_at_key (mt_catalog s) rf live t key = Some cmd"
  shows "\<exists>spec n. owningShard (mt_catalog s) t key = Some spec \<and> sp_start n = key \<and>
    list_all (\<lambda>x. sp_id x \<noteq> sp_id n) (case ct_tables (mt_catalog s) t of None \<Rightarrow> [] | Some ts \<Rightarrow> ts_shards ts) \<and>
    (\<forall>t' k. owningShard (fsm_apply (mt_catalog s) cmd) t' k =
       (if t' = t \<and> key \<le> k \<and> owningShard (mt_catalog s) t k = Some spec then Some n
        else owningShard (mt_catalog s) t' k))"
proof -
  obtain ts where ts: "ct_tables (mt_catalog s) t = Some ts"
    using assms(3) by (auto simp: split_at_key_def owningShard_def split: option.splits)
  have ok: "catalog_ok (mt_catalog s)" using assms(1) by (simp add: quiet_def)
  obtain spec n where n: "owningShard (mt_catalog s) t key = Some spec" "sp_start spec = [] \<or> sp_start spec < key"
    "sp_start n = key" "sp_end n = []" "\<not> shardExists (ts_shards ts) (sp_id n)"
    "ct_tables (fsm_apply (mt_catalog s) cmd) = (ct_tables (mt_catalog s))(t \<mapsto> ts\<lparr>ts_shards := ts_shards ts @ [n]\<rparr>)"
    using split_commit [OF assms(1) ts assms(3)] by blast
  have lt: "sp_start spec < key" using n(2) assms(2) by (cases key) auto
  have "owningShard (fsm_apply (mt_catalog s) cmd) t' k =
       (if t' = t \<and> key \<le> k \<and> owningShard (mt_catalog s) t k = Some spec then Some n
        else owningShard (mt_catalog s) t' k)" for t' k
    using owner_after_append [OF ok ts n(1) lt n(3,4), of k] n(6) by (simp add: owningShard_def del: best_owner_append)
  moreover have "list_all (\<lambda>x. sp_id x \<noteq> sp_id n) (case ct_tables (mt_catalog s) t of None \<Rightarrow> [] | Some ts \<Rightarrow> ts_shards ts)"
    using n(5) ts by (auto simp: shardExists_def list_all_iff list_ex_iff)
  ultimately show ?thesis using n(1,3) by blast
qed

lemma commit_split:
  "mt_pending s = [] \<Longrightarrow> split_at_key (mt_catalog s) rf live t key = Some cmd \<Longrightarrow>
   mt_catalog (commit_now s (Split t key rf live)) = fsm_apply (mt_catalog s) cmd"
  by (simp add: commit_next propose_def)

text \<open>When every proposal is committed before the next one is made, a split of a table at a key
  makes a shard with a new id that starts at the key and takes over exactly the keys from there on that
  belonged to the shard owning the split key; every other key of every table keeps its owner.\<close>

lemma split_takes_upper_part:
  assumes "s = run commit_now meta_init es" and "key \<noteq> []"
    and "split_at_key (mt_catalog s) rf live t key = Some cmd"
  shows "\<exists>spec n. owningShard (mt_catalog s) t key = Some spec \<and> sp_start n = key \<and>
    list_all (\<lambda>x. sp_id x \<noteq> sp_id n) (case ct_tables (mt_catalog s) t of None \<Rightarrow> [] | Some ts \<Rightarrow> ts_shards ts) \<and>
    (\<forall>t' k. owningShard (mt_catalog (commit_now s (Split t key rf live))) t' k =
       (if t' = t \<and> key \<le> k \<and> owningShard (mt_catalog s) t k = Some spec then Some n
        else owningShard (mt_catalog s) t' k))"
proof -
  have q: "quiet s" unfolding assms(1) by (rule quiet_machine.inv_reachable)
  then have "mt_catalog (commit_now s (Split t key rf live)) = fsm_apply (mt_catalog s) cmd"
    using commit_split [OF _ assms(3)] by (simp add: quiet_def)
  then show ?thesis using split_owner [OF q assms(2,3)] by simp
qed

lemma run_one_table_now:
  "run commit_now meta_init [Register ''n1'' ''a'' ''b'', Create one_schema 1 []] = run meta_step meta_init one_table"
  by (simp only: run_simps commit_now_def one_table_def)

lemma one_table_split:
  "\<exists>cmd. split_at_key (mt_catalog (run meta_step meta_init one_table)) 1 [] ''t'' ''m'' = Some cmd"
  by (simp add: run_one_table split_at_key_def owningShard_def owns_def splitShard_def Let_def pickNodes_one)

lemma one_table_owner:
  "\<exists>ts. ts_shards ts = [\<lparr>sp_id = ''t-0'', sp_table = ''t'', sp_start = [], sp_end = [], sp_nodes = [''n1'']\<rparr>] \<and>
     ct_tables (mt_catalog (run meta_step meta_init one_table)) ''t'' = Some ts"
  "owningShard (mt_catalog (run meta_step meta_init one_table)) ''t'' key =
     Some \<lparr>sp_id = ''t-0'', sp_table = ''t'', sp_start = [], sp_end = [], sp_nodes = [''n1'']\<rparr>"
  by (simp_all add: run_one_table owningShard_def owns_def)

lemma split_takes_upper_part_witness:
  "let s = run commit_now meta_init [Register ''n1'' ''a'' ''b'', Create one_schema 1 []];
       own = owningShard (mt_catalog (commit_now s (Split ''t'' ''m'' 1 []))) ''t''
   in map_option sp_start (own ''z'') = Some ''m'' \<and> map_option sp_start (own ''a'') = Some []"
proof -
  define s where "s = run commit_now meta_init [Register ''n1'' ''a'' ''b'', Create one_schema 1 []]"
  then have s: "s = run meta_step meta_init one_table" using run_one_table_now by simp
  obtain cmd where "split_at_key (mt_catalog s) 1 [] ''t'' ''m'' = Some cmd" using one_table_split s by blast
  from split_takes_upper_part [OF s_def _ this] obtain spec n where
    "owningShard (mt_catalog s) ''t'' ''m'' = Some spec" "sp_start n = ''m''"
    "\<And>k. owningShard (mt_catalog (commit_now s (Split ''t'' ''m'' 1 []))) ''t'' k =
       (if ''m'' \<le> k \<and> owningShard (mt_catalog s) ''t'' k = Some spec then Some n
        else owningShard (mt_catalog s) ''t'' k)" by auto
  then show ?thesis using one_table_owner(2) s unfolding s_def [symmetric] Let_def by auto
qed

text \<open>
  Two splits of one shard proposed from the same catalog make shards of the same name, and the second one
  is taken for a replay: it is committed without error and changes no table.
\<close>

lemma splitShard_id:
  assumes "splitShard cat rf live spec key = Some cmd"
  shows "\<exists>ts n. ct_tables cat (sp_table spec) = Some ts \<and> cmd = SplitShard (sp_table spec) key [n] \<and>
    sp_id n = sp_id spec @ CHR ''-'' # nat_str (length (ts_shards ts))"
  using assms by (auto simp: splitShard_def Let_def split: option.splits if_splits)

lemma second_split_lost:
  assumes "splitShard cat rf live spec key = Some c1" and "splitShard cat rf' live' spec key' = Some c2"
  shows "ct_tables (fsm_apply (fsm_apply cat c1) c2) = ct_tables (fsm_apply cat c1)"
proof -
  obtain ts n where n: "ct_tables cat (sp_table spec) = Some ts" "c1 = SplitShard (sp_table spec) key [n]"
    "sp_id n = sp_id spec @ CHR ''-'' # nat_str (length (ts_shards ts))"
    using splitShard_id [OF assms(1)] by blast
  obtain n' where n': "c2 = SplitShard (sp_table spec) key' [n']"
    "sp_id n' = sp_id spec @ CHR ''-'' # nat_str (length (ts_shards ts))"
    using splitShard_id [OF assms(2)] n(1) by auto
  let ?shs = "append_shards (sp_table spec) (ts_shards ts) [n]"
  have "shardExists ?shs (sp_id n')" using n(3) n'(2) by (auto simp: shardExists_def)
  then have "append_shards (sp_table spec) ?shs [n'] = ?shs" by simp
  then show ?thesis using n(1,2) n'(1) by (simp add: fsm_apply_def fun_upd_idem del: append_shards.simps)
qed

subsection \<open>Automatic splits\<close>

text \<open>\<open>splitPointFor\<close>, given the encoded keys of the rows scanned.\<close>

definition splitPointFor :: "string \<Rightarrow> string list \<Rightarrow> string option" where
  "splitPointFor start keys =
     (if length keys < 2 then None
      else let mid = sort keys ! (length keys div 2) in if mid \<le> start then None else Some mid)"

text \<open>
  One shard of \<open>maybeAutoSplit\<close>: \<open>shs\<close> are the table's shards in the catalog read at the start of the
  pass, \<open>sz\<close> is the estimate of the local replica, if one is mounted.
\<close>

definition auto_split ::
  "catalog \<Rightarrow> int \<Rightarrow> string list \<Rightarrow> nat \<Rightarrow> bool \<Rightarrow> shard_spec list \<Rightarrow> shard_spec \<Rightarrow> bool \<Rightarrow> nat option \<Rightarrow> string list \<Rightarrow>
   meta_command option" where
  "auto_split cat rf live limit leader shs spec hosted sz keys =
     (if limit = 0 \<or> \<not> leader \<or> \<not> hosted \<or> hasNarrowerSucc shs spec then None
      else case sz of
        None \<Rightarrow> None
      | Some n \<Rightarrow>
          if n < limit then None
          else (case splitPointFor (sp_start spec) keys of
                  None \<Rightarrow> None
                | Some key \<Rightarrow> splitShard cat rf live spec key))"

lemma splitPointFor_median:
  assumes "splitPointFor start keys = Some key"
  shows "key \<in> set keys \<and> start < key \<and> length (filter (\<lambda>k. k < key) keys) \<le> length keys div 2"
proof -
  let ?xs = "sort keys" and ?i = "length keys div 2"
  have k: "key = ?xs ! ?i" "start < key" "2 \<le> length keys"
    using assms by (auto simp: splitPointFor_def Let_def not_le split: if_splits)
  have i: "?i < length ?xs" using k(3) by simp
  have "\<not> x < key" if "x \<in> set (drop ?i ?xs)" for x
  proof -
    from that obtain j where "j < length (drop ?i ?xs)" "x = drop ?i ?xs ! j" by (metis in_set_conv_nth)
    then have "x = ?xs ! (?i + j)" "?i + j < length ?xs" using i by simp_all
    then show ?thesis using sorted_nth_mono [of ?xs ?i "?i + j"] k(1) by (simp add: not_less)
  qed
  then have "filter (\<lambda>k. k < key) (drop ?i ?xs) = []" by (simp add: filter_empty_conv)
  then have "filter (\<lambda>k. k < key) ?xs = filter (\<lambda>k. k < key) (take ?i ?xs)"
    by (metis append_Nil2 append_take_drop_id filter_append)
  moreover have "length (filter (\<lambda>k. k < key) ?xs) = length (filter (\<lambda>k. k < key) keys)"
    by (simp add: filter_sort)
  ultimately have "length (filter (\<lambda>k. k < key) keys) \<le> ?i"
    by (metis (no_types, lifting) length_filter_le length_take min.bounded_iff order.trans)
  moreover have "key \<in> set keys" using k(1) nth_mem [OF i] by simp
  ultimately show ?thesis using k(2) by blast
qed

lemma hasNarrowerSucc_iff:
  assumes "table_ok t ts" and "spec \<in> set (ts_shards ts)"
  shows "hasNarrowerSucc (ts_shards ts) spec \<longleftrightarrow> list_ex (\<lambda>s. sp_start spec < sp_start s) (ts_shards ts)"
proof -
  have d: "inj_on sp_id (set (ts_shards ts))" using assms(1) by (simp add: table_ok_def distinct_map)
  have e: "sp_end s = sp_end spec" if "s \<in> set (ts_shards ts)" for s
    using assms that by (auto simp: table_ok_def list_all_iff)
  have "sp_id s \<noteq> sp_id spec" if "s \<in> set (ts_shards ts)" "sp_start spec < sp_start s" for s
    using inj_onD [OF d _ that(1) assms(2)] that(2) by auto
  then show ?thesis using e by (auto simp: hasNarrowerSucc_def list_ex_iff)
qed

text \<open>C32: over any run, the shard that is split automatically is one with the largest start of its table,
  and it is split above its start at a key of its rows that at most half of the keys lie below. So
  once a table is split, no shard below the last one is ever split automatically, however large it is.\<close>

theorem auto_split_only_last:
  assumes "ct_tables (mt_catalog (run meta_step meta_init es)) t = Some ts" and "spec \<in> set (ts_shards ts)"
    and "auto_split (mt_catalog (run meta_step meta_init es)) rf live limit leader (ts_shards ts) spec hosted sz keys = Some cmd"
  shows "list_all (\<lambda>s. sp_start s \<le> sp_start spec) (ts_shards ts) \<and>
    (\<exists>key n. cmd = SplitShard t key [n] \<and> sp_start n = key \<and> key \<in> set keys \<and> sp_start spec < key \<and>
      length (filter (\<lambda>k. k < key) keys) \<le> length keys div 2)"
proof -
  let ?cat = "mt_catalog (run meta_step meta_init es)"
  have "catalog_ok ?cat" using meta_machine.inv_reachable [of es] by (simp add: meta_inv_def)
  then have ok: "table_ok t ts" using assms(1) by (rule catalog_okD)
  obtain key where key: "\<not> hasNarrowerSucc (ts_shards ts) spec" "splitPointFor (sp_start spec) keys = Some key"
    "splitShard ?cat rf live spec key = Some cmd"
    using assms(3) by (auto simp: auto_split_def split: if_splits option.splits)
  have "sp_table spec = t" using ok assms(2) by (auto simp: table_ok_def list_all_iff)
  then have "\<exists>n. cmd = SplitShard t key [n] \<and> sp_start n = key" using splitShard_cmd [OF key(3)] by auto
  moreover have "list_all (\<lambda>s. sp_start s \<le> sp_start spec) (ts_shards ts)"
    using key(1) hasNarrowerSucc_iff [OF ok assms(2)] by (auto simp: list_ex_iff list_all_iff not_less)
  ultimately show ?thesis using splitPointFor_median [OF key(2)] by blast
qed

theorem auto_split_only_last_witness:
  "\<exists>cmd. auto_split (mt_catalog (run meta_step meta_init one_table)) 1 [] 10 True
     [\<lparr>sp_id = ''t-0'', sp_table = ''t'', sp_start = [], sp_end = [], sp_nodes = [''n1'']\<rparr>]
     \<lparr>sp_id = ''t-0'', sp_table = ''t'', sp_start = [], sp_end = [], sp_nodes = [''n1'']\<rparr> True (Some 12)
     [''d'', ''a'', ''b''] = Some cmd \<and> (\<exists>key n. cmd = SplitShard ''t'' key [n] \<and> key \<in> {''d'', ''a'', ''b''})"
proof -
  let ?sp = "\<lparr>sp_id = ''t-0'', sp_table = ''t'', sp_start = [], sp_end = [], sp_nodes = [''n1'']\<rparr>"
  obtain ts where ts: "ts_shards ts = [?sp]" "ct_tables (mt_catalog (run meta_step meta_init one_table)) ''t'' = Some ts"
    using one_table_owner(1) by blast
  have "\<exists>cmd. auto_split (mt_catalog (run meta_step meta_init one_table)) 1 [] 10 True [?sp] ?sp True (Some 12)
     [''d'', ''a'', ''b''] = Some cmd"
    by (simp add: run_one_table auto_split_def hasNarrowerSucc_def splitPointFor_def Let_def splitShard_def pickNodes_one)
  then obtain cmd where c: "auto_split (mt_catalog (run meta_step meta_init one_table)) 1 [] 10 True [?sp] ?sp True (Some 12)
     [''d'', ''a'', ''b''] = Some cmd" by blast
  show ?thesis using auto_split_only_last [OF ts(2), where spec = ?sp, unfolded ts(1), OF _ c] c by auto
qed

end
