(* ===== verification/ByteStore.thy ===== *)
theory ByteStore
  imports JsNumber "HOL-Library.Char_ord" "HOL-Library.List_Lexorder"
begin

section \<open>The raw key-value area of an engine (\<open>storage/kvstore.go\<close>, \<open>storage/kvops.go\<close>)\<close>

text \<open>
  The keys under which the entries of the \<open>ENGINE=KV\<close> tables lie in the engine's store, the bounds
  of a table's area, and the operations \<open>KVPut\<close>, \<open>KVGet\<close>, \<open>KVDelete\<close> and \<open>KVScan\<close>. The store itself
  (\<open>internal/kv\<close> over a third-party LSM tree) is seen through its newest committed revision: a
  list of pairs in the order of their keys. What the operations use of it is the locale
  \<open>byte_store\<close>. Reads inside an open batch transaction are not modelled.
\<close>

subsection \<open>The store\<close>

type_synonym byte_store = "(string \<times> string) list"

fun st_put :: "string \<Rightarrow> string \<Rightarrow> byte_store \<Rightarrow> byte_store" where
  "st_put k v [] = [(k, v)]"
| "st_put k v ((a, b) # st) =
     (if k < a then (k, v) # (a, b) # st else if k = a then (k, v) # st else (a, b) # st_put k v st)"

definition st_del :: "string \<Rightarrow> byte_store \<Rightarrow> byte_store" where
  "st_del k st = filter (\<lambda>(a, b). a \<noteq> k) st"

definition st_get :: "byte_store \<Rightarrow> string \<Rightarrow> string option" where
  "st_get st = map_of st"

definition st_range :: "string \<Rightarrow> string \<Rightarrow> byte_store \<Rightarrow> byte_store" where
  "st_range lower upper st = filter (\<lambda>(a, b). lower \<le> a \<and> a < upper) st"

definition st_sorted :: "byte_store \<Rightarrow> bool" where
  "st_sorted st \<longleftrightarrow> sorted_wrt (<) (map fst st)"

subsection \<open>Keys\<close>

definition byte :: "nat \<Rightarrow> char" where
  "byte n = char_of n"

definition kvDataPrefix :: "string \<Rightarrow> string" where
  "kvDataPrefix table = [CHR ''k'', byte 0] @ table @ [byte 0]"

definition kvDataKey :: "string \<Rightarrow> string \<Rightarrow> string" where
  "kvDataKey table key = [CHR ''k'', byte 0] @ table @ [byte 0] @ key"

definition bump_last :: "string \<Rightarrow> string" where
  "bump_last s = butlast s @ [byte (of_char (last s) + 1)]"

definition kvDataBounds :: "string \<Rightarrow> string \<Rightarrow> string \<Rightarrow> string \<times> string" where
  "kvDataBounds table from_key to_key =
     (let base = kvDataPrefix table
      in (if from_key \<noteq> [] then base @ from_key else base, if to_key \<noteq> [] then base @ to_key else bump_last base))"

definition dataEach :: "string \<Rightarrow> string \<Rightarrow> string \<Rightarrow> byte_store \<Rightarrow> (string \<times> string) list" where
  "dataEach table from_key to_key st =
     (case kvDataBounds table from_key to_key of
        (lower, upper) \<Rightarrow> map (\<lambda>(k, v). (drop (length (kvDataPrefix table)) k, v)) (st_range lower upper st))"

subsection \<open>Operations\<close>

text \<open>An engine: the engine clause of each of its tables, and the store.\<close>

record kv_engine =
  en_tables :: "string \<Rightarrow> string option"
  en_store :: byte_store

datatype engine_error = Unknown_table string | Not_kv string

definition kv_guard :: "kv_engine \<Rightarrow> string \<Rightarrow> engine_error option" where
  "kv_guard e table =
     (case en_tables e table of
        None \<Rightarrow> Some (Unknown_table table)
      | Some kind \<Rightarrow> if kind \<noteq> ''KV'' then Some (Not_kv table) else None)"

definition KVPut :: "string \<Rightarrow> string \<Rightarrow> string \<Rightarrow> kv_engine \<Rightarrow> engine_error + kv_engine" where
  "KVPut table key v e =
     (case kv_guard e table of
        Some err \<Rightarrow> Inl err
      | None \<Rightarrow> Inr (e\<lparr>en_store := st_put (kvDataKey table key) v (en_store e)\<rparr>))"

definition KVGet :: "string \<Rightarrow> string \<Rightarrow> kv_engine \<Rightarrow> engine_error + string option" where
  "KVGet table key e =
     (case kv_guard e table of
        Some err \<Rightarrow> Inl err
      | None \<Rightarrow>
          let out = (case st_get (en_store e) (kvDataKey table key) of None \<Rightarrow> [] | Some v \<Rightarrow> v)
          in Inr (if out = [] then None else Some out))"

definition KVDelete :: "string \<Rightarrow> string \<Rightarrow> kv_engine \<Rightarrow> engine_error + kv_engine" where
  "KVDelete table key e =
     (case kv_guard e table of
        Some err \<Rightarrow> Inl err
      | None \<Rightarrow> Inr (e\<lparr>en_store := st_del (kvDataKey table key) (en_store e)\<rparr>))"

definition KVScan :: "string \<Rightarrow> string \<Rightarrow> string \<Rightarrow> kv_engine \<Rightarrow> engine_error + (string \<times> string) list" where
  "KVScan table from_key to_key e =
     (case kv_guard e table of
        Some err \<Rightarrow> Inl err
      | None \<Rightarrow> Inr (dataEach table from_key to_key (en_store e)))"

subsection \<open>Keys of a table's area\<close>

lemma byte_less [simp]: "m < 256 \<Longrightarrow> n < 256 \<Longrightarrow> byte m < byte n \<longleftrightarrow> m < n"
  by (simp add: byte_def less_char_def)

lemma not_less_zero [simp]: "\<not> c < byte 0"
  by (simp add: byte_def less_char_def)

lemma less_one: "c < byte 1 \<longleftrightarrow> c = byte 0"
proof
  assume "c < byte 1"
  then have "of_char c = (0 :: nat)" by (simp add: byte_def less_char_def)
  then show "c = byte 0" unfolding byte_def by (metis char_of_char)
qed (simp add: byte_def less_char_def)

lemma data_key_inj:
  assumes "byte 0 \<notin> set t" and "byte 0 \<notin> set t'"
  shows "kvDataKey t k = kvDataKey t' k' \<longleftrightarrow> t = t' \<and> k = k'"
proof -
  have "t @ byte 0 # k = t' @ byte 0 # k' \<Longrightarrow> t = t' \<and> k = k'"
    using assms by (induction t arbitrary: t') (auto simp: Cons_eq_append_conv)
  then show ?thesis by (auto simp: kvDataKey_def)
qed

lemma append_less_cancel: "(u @ s < u @ t) = (s < (t :: string))" "(u @ s \<le> u @ t) = (s \<le> t)"
  by (induction u) simp_all

lemma data_key_less: "kvDataKey t k < kvDataKey t k' \<longleftrightarrow> k < k'"
  using append_less_cancel(1) [of "[CHR ''k'', byte 0] @ t @ [byte 0]" k k'] by (simp add: kvDataKey_def)

lemma drop_prefix [simp]: "drop (length (kvDataPrefix t)) (kvDataKey t k) = k"
  by (simp add: kvDataPrefix_def kvDataKey_def)

lemma between_prefix:
  "q @ byte 0 # lo \<le> s \<and> s < q @ [byte 1] \<longleftrightarrow> (\<exists>k. s = q @ byte 0 # k \<and> lo \<le> k)"
proof (induction q arbitrary: s)
  case Nil
  show ?case by (cases s) (auto simp: less_one less_one [unfolded One_nat_def])
next
  case (Cons c q)
  show ?case
  proof (cases s)
    case (Cons d s')
    then show ?thesis using Cons.IH [of s'] by auto
  qed simp
qed

lemma between_keys:
  "q @ lo \<le> s \<and> s < q @ hi \<longleftrightarrow> (\<exists>k. s = q @ k \<and> lo \<le> k \<and> k < (hi :: string))"
proof (induction q arbitrary: s)
  case (Cons c q)
  show ?case
  proof (cases s)
    case (Cons d s')
    then show ?thesis using Cons.IH [of s'] by auto
  qed simp
qed simp

lemma data_bounds:
  "fst (kvDataBounds t lo hi) \<le> s \<and> s < snd (kvDataBounds t lo hi) \<longleftrightarrow>
   (\<exists>k. s = kvDataKey t k \<and> lo \<le> k \<and> (hi = [] \<or> k < hi))"
proof -
  have b: "bump_last (kvDataPrefix t) = ([CHR ''k'', byte 0] @ t) @ [byte 1]"
    by (simp add: bump_last_def kvDataPrefix_def byte_def butlast_append)
  have f: "fst (kvDataBounds t lo hi) = ([CHR ''k'', byte 0] @ t) @ byte 0 # lo"
    by (simp add: kvDataBounds_def Let_def kvDataPrefix_def)
  show ?thesis
  proof (cases "hi = []")
    case True
    then show ?thesis using between_prefix [of "[CHR ''k'', byte 0] @ t" lo s] b f
      by (simp add: kvDataBounds_def Let_def kvDataKey_def)
  next
    case False
    then show ?thesis using between_keys [of "[CHR ''k'', byte 0] @ t @ [byte 0]" lo s hi] f
      by (simp add: kvDataBounds_def Let_def kvDataKey_def kvDataPrefix_def)
  qed
qed

subsection \<open>What the operations use of the store\<close>

locale store_laws =
  fixes sput :: "string \<Rightarrow> string \<Rightarrow> 'st \<Rightarrow> 'st"
    and sdel :: "string \<Rightarrow> 'st \<Rightarrow> 'st"
    and sget :: "'st \<Rightarrow> string \<Rightarrow> string option"
    and srange :: "string \<Rightarrow> string \<Rightarrow> 'st \<Rightarrow> (string \<times> string) list"
    and sinv :: "'st \<Rightarrow> bool"
  assumes get_put: "sinv st \<Longrightarrow> sget (sput k v st) = (sget st)(k \<mapsto> v)"
    and get_del: "sinv st \<Longrightarrow> sget (sdel k st) = (sget st)(k := None)"
    and inv_put: "sinv st \<Longrightarrow> sinv (sput k v st)"
    and inv_del: "sinv st \<Longrightarrow> sinv (sdel k st)"
    and range_set: "sinv st \<Longrightarrow> set (srange lo hi st) = {(k, v). sget st k = Some v \<and> lo \<le> k \<and> k < hi}"
    and range_sorted: "sinv st \<Longrightarrow> sorted_wrt (<) (map fst (srange lo hi st))"
begin

text \<open>The entries of a table's area, with the prefix taken off.\<close>

definition area :: "string \<Rightarrow> string \<Rightarrow> string \<Rightarrow> 'st \<Rightarrow> (string \<times> string) list" where
  "area table from_key to_key st =
     (case kvDataBounds table from_key to_key of
        (lower, upper) \<Rightarrow> map (\<lambda>(k, v). (drop (length (kvDataPrefix table)) k, v)) (srange lower upper st))"

lemma get_put_key:
  "sinv st \<Longrightarrow> byte 0 \<notin> set t \<Longrightarrow> byte 0 \<notin> set t' \<Longrightarrow>
   sget (sput (kvDataKey t k) v st) (kvDataKey t' k') = (if t = t' \<and> k = k' then Some v else sget st (kvDataKey t' k'))"
  by (auto simp: get_put data_key_inj)

lemma get_del_key:
  "sinv st \<Longrightarrow> byte 0 \<notin> set t \<Longrightarrow> byte 0 \<notin> set t' \<Longrightarrow>
   sget (sdel (kvDataKey t k) st) (kvDataKey t' k') = (if t = t' \<and> k = k' then None else sget st (kvDataKey t' k'))"
  by (auto simp: get_del data_key_inj)

lemma area_range:
  assumes "sinv st" and "(k, v) \<in> set (srange (fst (kvDataBounds t lo hi)) (snd (kvDataBounds t lo hi)) st)"
  shows "\<exists>k'. k = kvDataKey t k' \<and> lo \<le> k' \<and> (hi = [] \<or> k' < hi)"
  using assms data_bounds [of t lo hi k] by (auto simp: range_set)

lemma area_set:
  assumes "sinv st"
  shows "set (area t lo hi st) = {(k, v). sget st (kvDataKey t k) = Some v \<and> lo \<le> k \<and> (hi = [] \<or> k < hi)}"
proof -
  have "(k, v) \<in> set (area t lo hi st) \<longleftrightarrow> sget st (kvDataKey t k) = Some v \<and> lo \<le> k \<and> (hi = [] \<or> k < hi)" for k v
  proof
    assume "(k, v) \<in> set (area t lo hi st)"
    then obtain k1 where k1: "(k1, v) \<in> set (srange (fst (kvDataBounds t lo hi)) (snd (kvDataBounds t lo hi)) st)"
      "k = drop (length (kvDataPrefix t)) k1" by (auto simp: area_def split_beta)
    then show "sget st (kvDataKey t k) = Some v \<and> lo \<le> k \<and> (hi = [] \<or> k < hi)"
      using area_range [OF assms k1(1)] k1(1) assms by (auto simp: range_set)
  next
    assume k: "sget st (kvDataKey t k) = Some v \<and> lo \<le> k \<and> (hi = [] \<or> k < hi)"
    then have "(kvDataKey t k, v) \<in> set (srange (fst (kvDataBounds t lo hi)) (snd (kvDataBounds t lo hi)) st)"
      using data_bounds [of t lo hi "kvDataKey t k"] assms by (auto simp: range_set)
    then show "(k, v) \<in> set (area t lo hi st)" by (force simp: area_def split_beta)
  qed
  then show ?thesis by auto
qed

lemma area_sorted: "sinv st \<Longrightarrow> sorted_wrt (<) (map fst (area t lo hi st))"
proof -
  assume i: "sinv st"
  let ?r = "srange (fst (kvDataBounds t lo hi)) (snd (kvDataBounds t lo hi)) st"
  let ?n = "length (kvDataPrefix t)"
  have k: "\<exists>k'. k = kvDataKey t k'" if "k \<in> set (map fst ?r)" for k
    using area_range [OF i] that by fastforce
  have "drop ?n a < drop ?n b" if "a \<in> set (map fst ?r)" "b \<in> set (map fst ?r)" "a < b" for a b
    using k [OF that(1)] k [OF that(2)] that(3) by (auto simp: data_key_less)
  then have "sorted_wrt (\<lambda>a b. drop ?n a < drop ?n b) (map fst ?r)"
    using range_sorted [OF i] by (rule sorted_wrt_mono_rel)
  then show ?thesis by (simp add: area_def split_beta sorted_wrt_map)
qed

end

subsection \<open>The store satisfies the laws\<close>

lemma st_put_keys: "fst ` set (st_put k v st) = insert k (fst ` set st)"
  by (induction k v st rule: st_put.induct) auto

lemma st_put_sorted: "st_sorted st \<Longrightarrow> st_sorted (st_put k v st)"
proof (induction k v st rule: st_put.induct)
  case (2 k v a b st)
  then have "\<forall>x \<in> fst ` set st. a < x" "st_sorted st" by (simp_all add: st_sorted_def)
  then show ?case using 2 st_put_keys [of k v st] by (fastforce simp: st_sorted_def)
qed (simp add: st_sorted_def)

lemma st_get_above: "\<forall>x \<in> fst ` set st. k < x \<Longrightarrow> st_get st k = None"
  by (force simp: st_get_def map_of_eq_None_iff)

lemma st_get_put: "st_get (st_put k v st) = (st_get st)(k \<mapsto> v)"
  by (induction k v st rule: st_put.induct) (auto simp: st_get_def)

lemma st_get_del: "st_get (st_del k st) = (st_get st)(k := None)"
  by (induction st) (auto simp: st_get_def st_del_def)

lemma st_del_sorted: "st_sorted st \<Longrightarrow> st_sorted (st_del k st)"
  by (induction st) (auto simp: st_sorted_def st_del_def)

lemma st_sorted_distinct: "st_sorted st \<Longrightarrow> distinct (map fst st)"
  by (induction st) (auto simp: st_sorted_def)

lemma st_range_sorted: "st_sorted st \<Longrightarrow> sorted_wrt (<) (map fst (st_range lo hi st))"
  by (induction st) (auto simp: st_sorted_def st_range_def)

lemma st_range_set: "st_sorted st \<Longrightarrow> set (st_range lo hi st) = {(k, v). st_get st k = Some v \<and> lo \<le> k \<and> k < hi}"
  using st_sorted_distinct by (fastforce simp: st_range_def st_get_def)

interpretation kv_area: store_laws st_put st_del st_get st_range st_sorted
  by unfold_locales (simp_all add: st_get_put st_get_del st_put_sorted st_del_sorted st_range_set st_range_sorted)

lemma dataEach_area: "dataEach t lo hi st = kv_area.area t lo hi st"
  by (simp add: dataEach_def kv_area.area_def)

end
