(* ===== verification/ShardKv.thy ===== *)
theory ShardKv
  imports ShardRuns ByteStore
begin

section \<open>Raw key-value statements over the shards of a table (\<open>shard/router.go\<close>)\<close>

text \<open>
  \<open>KV PUT\<close>, \<open>KV GET\<close>, \<open>KV DELETE\<close> and \<open>KV SCAN\<close> on a sharded table: the first three go to the shard that
  owns the key, a scan asks every shard and merges the answers in the order they arrive. The state is the
  catalog and one engine per shard group; that a group answers is a parameter. The replication of a
  group is not modelled: its engine is the leader's.
\<close>

subsection \<open>Operations\<close>

record kv_cluster =
  kc_catalog :: catalog
  kc_engines :: "string \<Rightarrow> kv_engine"

datatype kv_error = No_table string | No_owner string | Unreachable string | Engine_error engine_error

definition kvShardForKey :: "catalog \<Rightarrow> string \<Rightarrow> string \<Rightarrow> kv_error + shard_spec" where
  "kvShardForKey cat table key =
     (case ct_tables cat table of
        None \<Rightarrow> Inl (No_table table)
      | Some ts \<Rightarrow> (case owningShard cat table key of None \<Rightarrow> Inl (No_owner table) | Some spec \<Rightarrow> Inr spec))"

text \<open>A writing statement on one shard, and a reading one.\<close>

definition write_shard ::
  "(string \<Rightarrow> bool) \<Rightarrow> shard_spec \<Rightarrow> (kv_engine \<Rightarrow> engine_error + kv_engine) \<Rightarrow> kv_cluster \<Rightarrow>
   kv_cluster \<times> (kv_error + unit)" where
  "write_shard reach spec f s =
     (if \<not> reach (sp_id spec) then (s, Inl (Unreachable (sp_id spec)))
      else case f (kc_engines s (sp_id spec)) of
        Inl e \<Rightarrow> (s, Inl (Engine_error e))
      | Inr en \<Rightarrow> (s\<lparr>kc_engines := (kc_engines s)(sp_id spec := en)\<rparr>, Inr ()))"

definition read_shard ::
  "(string \<Rightarrow> bool) \<Rightarrow> shard_spec \<Rightarrow> (kv_engine \<Rightarrow> engine_error + 'a) \<Rightarrow> kv_cluster \<Rightarrow> kv_error + 'a" where
  "read_shard reach spec f s =
     (if \<not> reach (sp_id spec) then Inl (Unreachable (sp_id spec))
      else case f (kc_engines s (sp_id spec)) of Inl e \<Rightarrow> Inl (Engine_error e) | Inr a \<Rightarrow> Inr a)"

definition execKVPut :: "(string \<Rightarrow> bool) \<Rightarrow> string \<Rightarrow> string \<Rightarrow> string \<Rightarrow> kv_cluster \<Rightarrow> kv_cluster \<times> (kv_error + unit)" where
  "execKVPut reach table key v s =
     (case kvShardForKey (kc_catalog s) table key of
        Inl e \<Rightarrow> (s, Inl e)
      | Inr spec \<Rightarrow> write_shard reach spec (KVPut table key v) s)"

definition execKVDelete :: "(string \<Rightarrow> bool) \<Rightarrow> string \<Rightarrow> string \<Rightarrow> kv_cluster \<Rightarrow> kv_cluster \<times> (kv_error + unit)" where
  "execKVDelete reach table key s =
     (case kvShardForKey (kc_catalog s) table key of
        Inl e \<Rightarrow> (s, Inl e)
      | Inr spec \<Rightarrow> write_shard reach spec (KVDelete table key) s)"

definition execKVGet :: "(string \<Rightarrow> bool) \<Rightarrow> string \<Rightarrow> string \<Rightarrow> kv_cluster \<Rightarrow> kv_error + (string \<times> string) list" where
  "execKVGet reach table key s =
     (case kvShardForKey (kc_catalog s) table key of
        Inl e \<Rightarrow> Inl e
      | Inr spec \<Rightarrow>
          (case read_shard reach spec (KVGet table key) s of
             Inl e \<Rightarrow> Inl e
           | Inr None \<Rightarrow> Inr []
           | Inr (Some v) \<Rightarrow> Inr [(key, v)]))"

text \<open>The answers of a scan in the order they arrive: the first error wins, otherwise all are kept.\<close>

fun gather :: "('e + 'a) list \<Rightarrow> 'e + 'a list" where
  "gather [] = Inr []"
| "gather (Inl e # rs) = Inl e"
| "gather (Inr a # rs) = (case gather rs of Inl e \<Rightarrow> Inl e | Inr as \<Rightarrow> Inr (a # as))"

fun first_rows :: "string list \<Rightarrow> (string \<times> string) list \<Rightarrow> (string \<times> string) list" where
  "first_rows seen [] = []"
| "first_rows seen ((k, v) # rows) =
     (if k \<in> set seen then first_rows seen rows else (k, v) # first_rows (k # seen) rows)"

definition execKVScan ::
  "(string \<Rightarrow> bool) \<Rightarrow> (shard_spec list \<Rightarrow> shard_spec list) \<Rightarrow> string \<Rightarrow> string \<Rightarrow> string \<Rightarrow> kv_cluster \<Rightarrow>
   kv_error + (string \<times> string) list" where
  "execKVScan reach arrival table from_key to_key s =
     (case ct_tables (kc_catalog s) table of
        None \<Rightarrow> Inl (No_table table)
      | Some ts \<Rightarrow>
          (case gather (map (\<lambda>spec. read_shard reach spec (KVScan table from_key to_key) s) (arrival (ts_shards ts))) of
             Inl e \<Rightarrow> Inl e
           | Inr out \<Rightarrow> Inr (sort_key fst (first_rows [] (concat out)))))"

subsection \<open>Runs\<close>

datatype kv_op = Kv_put string string string | Kv_delete string string

fun kv_step :: "kv_cluster \<Rightarrow> kv_op \<Rightarrow> kv_cluster" where
  "kv_step s (Kv_put t k v) = fst (execKVPut (\<lambda>_. True) t k v s)"
| "kv_step s (Kv_delete t k) = fst (execKVDelete (\<lambda>_. True) t k s)"

text \<open>New shard groups: each has the tables with their engine clauses and no entries.\<close>

definition kv_start :: "catalog \<Rightarrow> (string \<Rightarrow> string option) \<Rightarrow> kv_cluster" where
  "kv_start cat kind = \<lparr>kc_catalog = cat, kc_engines = (\<lambda>_. \<lparr>en_tables = kind, en_store = []\<rparr>)\<rparr>"

subsection \<open>Specification: one map per table\<close>

type_synonym kv_maps = "string \<Rightarrow> (string \<Rightarrow> string option) option"

fun kv_spec :: "kv_maps \<Rightarrow> kv_op \<Rightarrow> kv_maps" where
  "kv_spec m (Kv_put t k v) = (case m t of None \<Rightarrow> m | Some f \<Rightarrow> m(t \<mapsto> f(k \<mapsto> v)))"
| "kv_spec m (Kv_delete t k) = (case m t of None \<Rightarrow> m | Some f \<Rightarrow> m(t \<mapsto> f(k := None)))"

definition kv_lookup :: "kv_cluster \<Rightarrow> string \<Rightarrow> string \<Rightarrow> string option" where
  "kv_lookup s t k =
     (case owningShard (kc_catalog s) t k of
        None \<Rightarrow> None
      | Some spec \<Rightarrow> st_get (en_store (kc_engines s (sp_id spec))) (kvDataKey t k))"

definition kv_maps_of :: "(string \<Rightarrow> string option) \<Rightarrow> kv_cluster \<Rightarrow> kv_maps" where
  "kv_maps_of kind s t =
     (if byte 0 \<notin> set t \<and> ct_tables (kc_catalog s) t \<noteq> None \<and> kind t = Some ''KV''
      then Some (kv_lookup s t) else None)"

definition kv_inv :: "(string \<Rightarrow> string option) \<Rightarrow> kv_cluster \<Rightarrow> bool" where
  "kv_inv kind s \<longleftrightarrow> catalog_ok (kc_catalog s) \<and>
     (\<forall>i. en_tables (kc_engines s i) = kind \<and> st_sorted (en_store (kc_engines s i))) \<and>
     (\<forall>i t k. byte 0 \<notin> set t \<longrightarrow> st_get (en_store (kc_engines s i)) (kvDataKey t k) \<noteq> None \<longrightarrow>
        (\<exists>spec. owningShard (kc_catalog s) t k = Some spec \<and> sp_id spec = i))"

fun kv_op_ok :: "kv_op \<Rightarrow> bool" where
  "kv_op_ok (Kv_put t k v) = (byte 0 \<notin> set t)"
| "kv_op_ok (Kv_delete t k) = (byte 0 \<notin> set t)"

subsection \<open>One statement\<close>

lemma kv_guard_KV: "kind t = Some ''KV'' \<Longrightarrow> en_tables e = kind \<Longrightarrow> kv_guard e t = None"
  by (simp add: kv_guard_def)

lemma kv_guard_other: "kind t \<noteq> Some ''KV'' \<Longrightarrow> en_tables e = kind \<Longrightarrow> \<exists>err. kv_guard e t = Some err"
  by (auto simp: kv_guard_def split: option.split)

lemma shard_for_key:
  "catalog_ok cat \<Longrightarrow> ct_tables cat t = Some ts \<Longrightarrow>
   \<exists>spec. kvShardForKey cat t k = Inr spec \<and> owningShard cat t k = Some spec"
  using owner_exists [of cat t ts k] by (auto simp: kvShardForKey_def)

lemma shard_for_key_None: "ct_tables cat t = None \<Longrightarrow> kvShardForKey cat t k = Inl (No_table t)"
  by (simp add: kvShardForKey_def)

text \<open>A write to the owner of a key, in the engine and in the map of the table.\<close>

definition owner_write :: "string \<Rightarrow> string \<Rightarrow> (byte_store \<Rightarrow> byte_store) \<Rightarrow> kv_cluster \<Rightarrow> kv_cluster" where
  "owner_write t k f s =
     (case owningShard (kc_catalog s) t k of
        None \<Rightarrow> s
      | Some spec \<Rightarrow> s\<lparr>kc_engines := (kc_engines s)(sp_id spec :=
            (kc_engines s (sp_id spec))\<lparr>en_store := f (en_store (kc_engines s (sp_id spec)))\<rparr>)\<rparr>)"

lemma kv_step_write:
  assumes "kv_inv kind s"
  shows "kv_step s (Kv_put t k v) =
      (if ct_tables (kc_catalog s) t \<noteq> None \<and> kind t = Some ''KV'' then owner_write t k (st_put (kvDataKey t k) v) s else s)"
    and "kv_step s (Kv_delete t k) =
      (if ct_tables (kc_catalog s) t \<noteq> None \<and> kind t = Some ''KV'' then owner_write t k (st_del (kvDataKey t k)) s else s)"
proof -
  have en: "en_tables (kc_engines s i) = kind" for i using assms by (simp add: kv_inv_def)
  have ok: "catalog_ok (kc_catalog s)" using assms by (simp add: kv_inv_def)
  have both: "kv_step s (Kv_put t k v) =
      (if ct_tables (kc_catalog s) t \<noteq> None \<and> kind t = Some ''KV'' then owner_write t k (st_put (kvDataKey t k) v) s else s) \<and>
    kv_step s (Kv_delete t k) =
      (if ct_tables (kc_catalog s) t \<noteq> None \<and> kind t = Some ''KV'' then owner_write t k (st_del (kvDataKey t k)) s else s)"
  proof (cases "ct_tables (kc_catalog s) t")
    case None
    then show ?thesis by (simp add: execKVPut_def execKVDelete_def shard_for_key_None)
  next
    case (Some ts)
    then obtain spec where sp: "kvShardForKey (kc_catalog s) t k = Inr spec" "owningShard (kc_catalog s) t k = Some spec"
      using shard_for_key [OF ok] by blast
    show ?thesis
    proof (cases "kind t = Some ''KV''")
      case True
      then show ?thesis using Some sp kv_guard_KV [where kind = kind and t = t, OF True en]
        by (simp add: execKVPut_def execKVDelete_def write_shard_def KVPut_def KVDelete_def owner_write_def)
    next
      case False
      then show ?thesis using sp kv_guard_other [where kind = kind and t = t, OF False en [of "sp_id spec"]]
        by (auto simp: execKVPut_def execKVDelete_def write_shard_def KVPut_def KVDelete_def)
    qed
  qed
  then show "kv_step s (Kv_put t k v) =
      (if ct_tables (kc_catalog s) t \<noteq> None \<and> kind t = Some ''KV'' then owner_write t k (st_put (kvDataKey t k) v) s else s)"
    "kv_step s (Kv_delete t k) =
      (if ct_tables (kc_catalog s) t \<noteq> None \<and> kind t = Some ''KV'' then owner_write t k (st_del (kvDataKey t k)) s else s)"
    by blast+
qed

lemma owner_write_inv:
  assumes "kv_inv kind s" and "byte 0 \<notin> set t"
    and f: "\<And>st. st_sorted st \<Longrightarrow> st_sorted (f st)"
    and g: "\<And>st t' k'. st_sorted st \<Longrightarrow> byte 0 \<notin> set t' \<Longrightarrow>
      st_get (f st) (kvDataKey t' k') = (if t = t' \<and> k = k' then r else st_get st (kvDataKey t' k'))"
  shows "kv_inv kind (owner_write t k f s)"
    and "byte 0 \<notin> set t' \<Longrightarrow> kv_lookup (owner_write t k f s) t' k' =
      (if t = t' \<and> k = k' \<and> owningShard (kc_catalog s) t k \<noteq> None then r else kv_lookup s t' k')"
proof -
  have so: "st_sorted (en_store (kc_engines s i))" for i using assms(1) by (simp add: kv_inv_def)
  have "kv_inv kind (owner_write t k f s) \<and> (byte 0 \<notin> set t' \<longrightarrow> kv_lookup (owner_write t k f s) t' k' =
      (if t = t' \<and> k = k' \<and> owningShard (kc_catalog s) t k \<noteq> None then r else kv_lookup s t' k'))"
  proof (cases "owningShard (kc_catalog s) t k")
    case None
    then show ?thesis using assms(1) by (simp add: owner_write_def)
  next
    case (Some spec)
    then show ?thesis using assms(1) f [OF so] g [OF so]
      by (auto simp: owner_write_def kv_inv_def kv_lookup_def split: option.split if_splits)
  qed
  then show "kv_inv kind (owner_write t k f s)"
    and "byte 0 \<notin> set t' \<Longrightarrow> kv_lookup (owner_write t k f s) t' k' =
      (if t = t' \<and> k = k' \<and> owningShard (kc_catalog s) t k \<noteq> None then r else kv_lookup s t' k')"
    by blast+
qed

lemma owner_write_catalog [simp]: "kc_catalog (owner_write t k f s) = kc_catalog s"
  by (simp add: owner_write_def split: option.split)

lemma kv_step_catalog: "kv_inv kind s \<Longrightarrow> kc_catalog (kv_step s e) = kc_catalog s"
  by (cases e) (simp_all only: kv_step_write split: if_splits, simp_all)

subsection \<open>Refinement\<close>

lemma owner_of_table: "catalog_ok cat \<Longrightarrow> ct_tables cat t \<noteq> None \<Longrightarrow> owningShard cat t k \<noteq> None"
  using owner_exists [of cat t _ k] by auto

text \<open>Both statements write to the owner, and the specification makes the same change to the map.\<close>

definition table_is_kv :: "(string \<Rightarrow> string option) \<Rightarrow> kv_cluster \<Rightarrow> string \<Rightarrow> bool" where
  "table_is_kv kind s t \<longleftrightarrow> ct_tables (kc_catalog s) t \<noteq> None \<and> kind t = Some ''KV''"

definition writes :: "string \<Rightarrow> string \<Rightarrow> string option \<Rightarrow> (byte_store \<Rightarrow> byte_store) \<Rightarrow> bool" where
  "writes t k r f \<longleftrightarrow> (\<forall>st. st_sorted st \<longrightarrow> st_sorted (f st) \<and>
     (\<forall>t' k'. byte 0 \<notin> set t' \<longrightarrow>
        st_get (f st) (kvDataKey t' k') = (if t = t' \<and> k = k' then r else st_get st (kvDataKey t' k'))))"

lemma kv_step_form:
  assumes "kv_inv kind s" and "kv_op_ok e"
  shows "\<exists>t k r f. byte 0 \<notin> set t \<and> writes t k r f \<and>
    kv_step s e = (if table_is_kv kind s t then owner_write t k f s else s) \<and>
    (\<forall>m. kv_spec m e = (case m t of None \<Rightarrow> m | Some g \<Rightarrow> m(t \<mapsto> g(k := r))))"
proof (cases e)
  case (Kv_put t k v)
  then have "byte 0 \<notin> set t" using assms(2) by simp
  moreover from this have "writes t k (Some v) (st_put (kvDataKey t k) v)"
    unfolding writes_def using st_put_sorted kv_area.get_put_key by blast
  moreover have "kv_spec m e = (case m t of None \<Rightarrow> m | Some g \<Rightarrow> m(t \<mapsto> g(k := Some v)))" for m
    by (simp add: Kv_put)
  ultimately show ?thesis using kv_step_write(1) [OF assms(1), of t k v] unfolding Kv_put table_is_kv_def by blast
next
  case (Kv_delete t k)
  then have "byte 0 \<notin> set t" using assms(2) by simp
  moreover from this have "writes t k None (st_del (kvDataKey t k))"
    unfolding writes_def using st_del_sorted kv_area.get_del_key by blast
  moreover have "kv_spec m e = (case m t of None \<Rightarrow> m | Some g \<Rightarrow> m(t \<mapsto> g(k := None)))" for m
    by (simp add: Kv_delete)
  ultimately show ?thesis using kv_step_write(2) [OF assms(1), of t k] unfolding Kv_delete table_is_kv_def by blast
qed

lemma owner_write_writes:
  assumes "kv_inv kind s" and "byte 0 \<notin> set t" and "writes t k r f"
  shows "kv_inv kind (owner_write t k f s)"
    and "byte 0 \<notin> set t' \<Longrightarrow> kv_lookup (owner_write t k f s) t' k' =
      (if t = t' \<and> k = k' \<and> owningShard (kc_catalog s) t k \<noteq> None then r else kv_lookup s t' k')"
  using owner_write_inv [OF assms(1,2), of f k r] assms(3) unfolding writes_def by blast+

lemma kv_step_inv: "kv_inv kind s \<Longrightarrow> kv_op_ok e \<Longrightarrow> kv_inv kind (kv_step s e)"
  using kv_step_form [of kind s e] owner_write_writes(1) [of kind s] by fastforce

lemma owner_write_maps:
  assumes "kv_inv kind s" and "byte 0 \<notin> set t" and "table_is_kv kind s t" and "writes t k r f"
  shows "kv_maps_of kind (owner_write t k f s) = (kv_maps_of kind s)(t \<mapsto> (kv_lookup s t)(k := r))"
proof
  fix t'
  have o: "owningShard (kc_catalog s) t k \<noteq> None"
    using owner_of_table assms(1,3) by (simp add: kv_inv_def table_is_kv_def)
  have "kv_lookup (owner_write t k f s) t' = (if t = t' then (kv_lookup s t)(k := r) else kv_lookup s t')"
    if "byte 0 \<notin> set t'"
    using owner_write_writes(2) [OF assms(1,2,4) that] o by (auto simp: fun_eq_iff)
  then show "kv_maps_of kind (owner_write t k f s) t' = ((kv_maps_of kind s)(t \<mapsto> (kv_lookup s t)(k := r))) t'"
    using assms(2,3) by (auto simp: kv_maps_of_def table_is_kv_def)
qed

lemma kv_step_maps:
  assumes "kv_inv kind s" and "kv_op_ok e"
  shows "kv_maps_of kind (kv_step s e) = kv_spec (kv_maps_of kind s) e"
proof -
  obtain t k r f where e: "byte 0 \<notin> set t" "writes t k r f"
    "kv_step s e = (if table_is_kv kind s t then owner_write t k f s else s)"
    "kv_spec m e = (case m t of None \<Rightarrow> m | Some g \<Rightarrow> m(t \<mapsto> g(k := r)))" for m
    using kv_step_form [OF assms] by blast
  have "kv_maps_of kind s t = (if table_is_kv kind s t then Some (kv_lookup s t) else None)"
    using e(1) by (simp add: kv_maps_of_def table_is_kv_def)
  then show ?thesis using owner_write_maps [OF assms(1) e(1) _ e(2)] unfolding e(3,4) by simp
qed

lemma kv_start_inv: "catalog_ok cat \<Longrightarrow> kv_inv kind (kv_start cat kind)"
  by (simp add: kv_inv_def kv_start_def st_sorted_def st_get_def)

lemma run_catalog_ok: "catalog_ok (mt_catalog (run meta_step meta_init es))"
  using meta_machine.inv_reachable [of es] by (simp add: meta_inv_def)

interpretation kv_refines: refinement "kv_start (mt_catalog (run meta_step meta_init es)) kind" kv_step
    "kv_inv kind" kv_op_ok "kv_maps_of kind" kv_spec
  by unfold_locales (simp_all only: kv_start_inv run_catalog_ok kv_step_inv kv_step_maps)

lemma kv_run_catalog: "kv_inv kind s \<Longrightarrow> list_all kv_op_ok ops \<Longrightarrow> kc_catalog (run kv_step s ops) = kc_catalog s"
  by (induction ops arbitrary: s) (simp_all add: kv_step_inv kv_step_catalog del: kv_step.simps)

subsection \<open>Reading\<close>

lemma kv_get_reply:
  assumes "kv_inv kind s" and "kv_maps_of kind s t = Some f"
  shows "execKVGet (\<lambda>_. True) t k s = Inr (case f k of None \<Rightarrow> [] | Some v \<Rightarrow> if v = [] then [] else [(k, v)])"
proof -
  have t: "ct_tables (kc_catalog s) t \<noteq> None" "kind t = Some ''KV''" "f = kv_lookup s t"
    using assms(2) by (auto simp: kv_maps_of_def split: if_splits)
  then obtain spec where sp: "kvShardForKey (kc_catalog s) t k = Inr spec" "owningShard (kc_catalog s) t k = Some spec"
    using shard_for_key assms(1) unfolding kv_inv_def by blast
  have "en_tables (kc_engines s (sp_id spec)) = kind" using assms(1) by (simp add: kv_inv_def)
  from kv_guard_KV [OF t(2) this] show ?thesis using sp t(3)
    by (simp add: execKVGet_def read_shard_def KVGet_def Let_def kv_lookup_def split: option.split)
qed

lemma kv_get_error:
  assumes "kv_inv kind s" and "byte 0 \<notin> set t" and "kv_maps_of kind s t = None"
  shows "\<exists>e. execKVGet (\<lambda>_. True) t k s = Inl e"
proof (cases "ct_tables (kc_catalog s) t")
  case None
  then show ?thesis by (simp add: execKVGet_def shard_for_key_None)
next
  case (Some ts)
  then have n: "kind t \<noteq> Some ''KV''" using assms(2,3) by (auto simp: kv_maps_of_def split: if_splits)
  obtain spec where sp: "kvShardForKey (kc_catalog s) t k = Inr spec"
    using shard_for_key Some assms(1) unfolding kv_inv_def by blast
  have "en_tables (kc_engines s (sp_id spec)) = kind" using assms(1) by (simp add: kv_inv_def)
  from kv_guard_other [OF n this] show ?thesis using sp
    by (auto simp: execKVGet_def read_shard_def KVGet_def)
qed

lemma gather_Inr [simp]: "gather (map (\<lambda>x. Inr (g x)) xs) = Inr (map g xs)"
  by (induction xs) simp_all

lemma first_rows_subset: "set (first_rows seen rows) \<subseteq> set rows"
  by (induction seen rows rule: first_rows.induct) auto

lemma first_rows_keys: "fst ` set (first_rows seen rows) = fst ` set rows - set seen"
  by (induction seen rows rule: first_rows.induct) auto

lemma first_rows_distinct: "distinct (map fst (first_rows seen rows))"
  by (induction seen rows rule: first_rows.induct) (auto simp: first_rows_keys)

lemma first_rows_functional:
  assumes "\<And>k v w. (k, v) \<in> set rows \<Longrightarrow> (k, w) \<in> set rows \<Longrightarrow> v = w"
  shows "set (first_rows [] rows) = set rows"
proof
  show "set (first_rows [] rows) \<subseteq> set rows" by (rule first_rows_subset)
  show "set rows \<subseteq> set (first_rows [] rows)"
  proof
    fix r assume r: "r \<in> set rows"
    then have "fst r \<in> fst ` set (first_rows [] rows)" by (simp add: first_rows_keys)
    then obtain v where v: "(fst r, v) \<in> set (first_rows [] rows)" by auto
    then have "v = snd r" using assms r first_rows_subset by (metis prod.collapse subsetD)
    then show "r \<in> set (first_rows [] rows)" using v by simp
  qed
qed

lemma sort_key_strict: "distinct (map fst rows) \<Longrightarrow> sorted_wrt (<) (map fst (sort_key fst rows))"
proof -
  assume d: "distinct (map fst rows)"
  then have "distinct (map fst (sort_key fst rows))" by (simp add: distinct_map)
  then show ?thesis by (simp add: strict_sorted_iff)
qed

lemma kv_scan_reply:
  assumes "kv_inv kind s" and "kv_maps_of kind s t = Some f" and "\<And>xs. set (arrival xs) = set xs"
  shows "\<exists>rows. execKVScan (\<lambda>_. True) arrival t lo hi s = Inr rows \<and> sorted_wrt (<) (map fst rows) \<and>
    set rows = {(k, v). f k = Some v \<and> lo \<le> k \<and> (hi = [] \<or> k < hi)}"
proof -
  have t: "byte 0 \<notin> set t" "kind t = Some ''KV''" "f = kv_lookup s t"
    using assms(2) by (auto simp: kv_maps_of_def split: if_splits)
  obtain ts where ts: "ct_tables (kc_catalog s) t = Some ts"
    using assms(2) by (auto simp: kv_maps_of_def split: if_splits)
  let ?rows = "\<lambda>spec :: shard_spec. dataEach t lo hi (en_store (kc_engines s (sp_id spec)))"
  have "read_shard (\<lambda>_. True) spec (KVScan t lo hi) s = Inr (?rows spec)" for spec
  proof -
    have "en_tables (kc_engines s (sp_id spec)) = kind" using assms(1) by (simp add: kv_inv_def)
    from kv_guard_KV [OF t(2) this] show ?thesis by (simp add: read_shard_def KVScan_def)
  qed
  then have e: "execKVScan (\<lambda>_. True) arrival t lo hi s =
      Inr (sort_key fst (first_rows [] (concat (map ?rows (arrival (ts_shards ts))))))"
    using ts by (simp add: execKVScan_def)
  have so: "st_sorted (en_store (kc_engines s i))" for i using assms(1) by (simp add: kv_inv_def)
  have mem: "(k, v) \<in> set (?rows spec) \<longleftrightarrow>
      st_get (en_store (kc_engines s (sp_id spec))) (kvDataKey t k) = Some v \<and> lo \<le> k \<and> (hi = [] \<or> k < hi)" for k v spec
    using kv_area.area_set [OF so] unfolding dataEach_area by auto
  have own: "\<exists>spec'. owningShard (kc_catalog s) t k = Some spec' \<and> sp_id spec' = i"
    if "st_get (en_store (kc_engines s i)) (kvDataKey t k) = Some v" for i k v
    using assms(1) t(1) that unfolding kv_inv_def by fastforce
  have all: "(k, v) \<in> set (concat (map ?rows (arrival (ts_shards ts)))) \<longleftrightarrow>
      f k = Some v \<and> lo \<le> k \<and> (hi = [] \<or> k < hi)" for k v
  proof
    assume "(k, v) \<in> set (concat (map ?rows (arrival (ts_shards ts))))"
    then obtain spec where sp: "(k, v) \<in> set (?rows spec)" unfolding set_concat set_map by blast
    then obtain spec' where "owningShard (kc_catalog s) t k = Some spec'" "sp_id spec' = sp_id spec"
      using own mem by blast
    then show "f k = Some v \<and> lo \<le> k \<and> (hi = [] \<or> k < hi)" using sp mem t(3) by (simp add: kv_lookup_def)
  next
    assume r: "f k = Some v \<and> lo \<le> k \<and> (hi = [] \<or> k < hi)"
    then obtain spec where sp: "owningShard (kc_catalog s) t k = Some spec"
      "st_get (en_store (kc_engines s (sp_id spec))) (kvDataKey t k) = Some v"
      using t(3) by (auto simp: kv_lookup_def split: option.splits)
    then have "spec \<in> set (arrival (ts_shards ts))" using owningShard_in [OF sp(1)] ts assms(3) by auto
    moreover have "(k, v) \<in> set (?rows spec)" using sp(2) r mem by blast
    ultimately show "(k, v) \<in> set (concat (map ?rows (arrival (ts_shards ts))))" by auto
  qed
  let ?c = "concat (map ?rows (arrival (ts_shards ts)))"
  have "set (first_rows [] ?c) = set ?c" by (rule first_rows_functional) (unfold all, simp)
  also have "\<dots> = {(k, v). f k = Some v \<and> lo \<le> k \<and> (hi = [] \<or> k < hi)}"
    using all by (intro set_eqI) (simp only: mem_Collect_eq split_paired_all case_prod_conv)
  finally have "set (sort_key fst (first_rows [] ?c)) = {(k, v). f k = Some v \<and> lo \<le> k \<and> (hi = [] \<or> k < hi)}"
    by (simp only: set_sort)
  then show ?thesis unfolding e using sort_key_strict [OF first_rows_distinct] by blast
qed

definition no_entries :: "catalog \<Rightarrow> (string \<Rightarrow> string option) \<Rightarrow> kv_maps" where
  "no_entries cat kind t =
     (if byte 0 \<notin> set t \<and> ct_tables cat t \<noteq> None \<and> kind t = Some ''KV'' then Some Map.empty else None)"

lemma kv_maps_of_start: "kv_maps_of kind (kv_start cat kind) = no_entries cat kind"
  by (auto simp: fun_eq_iff kv_maps_of_def no_entries_def kv_start_def kv_lookup_def st_get_def split: option.split)

text \<open>C10: on any catalog that proposals and commits can make and that stays the same while the statements run (a split in
  between hides entries: \<open>split_hides_entries\<close>), the key-value statements of a run, sent over the
  shards, all reachable, of tables whose names have no zero byte, do what one map per table does. Afterwards a lookup gives
  the entry of the key, or no row where the map has none; an entry with an empty value it does not give either, as if it
  were missing (\<open>storage/kvops.go\<close> line 69). A scan gives exactly the entries with \<open>lo \<le> key < hi\<close>, all from \<open>lo\<close> where
  \<open>hi\<close> is empty, in the order of their keys, in whatever order the shards answer: the end is exclusive, unlike the
  \<open>[start, end]\<close> of the comments. A table that is not there or not of the engine KV gives an error.\<close>

theorem kv_statements_refine_map:
  assumes "list_all kv_op_ok ops" and "byte 0 \<notin> set t" and "\<And>xs. set (arrival xs) = set xs"
    and "s = run kv_step (kv_start (mt_catalog (run meta_step meta_init es)) kind) ops"
  shows "case run kv_spec (no_entries (mt_catalog (run meta_step meta_init es)) kind) ops t of
      None \<Rightarrow> \<exists>e. execKVGet (\<lambda>_. True) t k s = Inl e
    | Some f \<Rightarrow>
        execKVGet (\<lambda>_. True) t k s = Inr (case f k of None \<Rightarrow> [] | Some v \<Rightarrow> if v = [] then [] else [(k, v)]) \<and>
        (\<exists>rows. execKVScan (\<lambda>_. True) arrival t lo hi s = Inr rows \<and> sorted_wrt (<) (map fst rows) \<and>
          set rows = {(k, v). f k = Some v \<and> lo \<le> k \<and> (hi = [] \<or> k < hi)})"
proof -
  have inv: "kv_inv kind s" unfolding assms(4) by (rule kv_refines.run_inv [OF assms(1)])
  have m: "kv_maps_of kind s t = run kv_spec (no_entries (mt_catalog (run meta_step meta_init es)) kind) ops t"
    unfolding assms(4) by (simp only: kv_refines.run_refines [OF assms(1)] kv_maps_of_start)
  show ?thesis
  proof (cases "kv_maps_of kind s t")
    case None
    then show ?thesis using kv_get_error [OF inv assms(2)] m by simp
  next
    case (Some f)
    then show ?thesis using kv_get_reply [OF inv Some] kv_scan_reply [OF inv Some assms(3)] m by simp
  qed
qed

definition one_kind :: "string \<Rightarrow> string option" where
  "one_kind = [''t'' \<mapsto> ''KV'']"

theorem kv_statements_refine_map_witness:
  "execKVGet (\<lambda>_. True) ''t'' ''a'' (run kv_step (kv_start (mt_catalog (run meta_step meta_init one_table)) one_kind)
     [Kv_put ''t'' ''a'' ''1'', Kv_put ''t'' ''b'' ''2'', Kv_delete ''t'' ''b'']) = Inr [(''a'', ''1'')]"
proof -
  have ok: "list_all kv_op_ok [Kv_put ''t'' ''a'' ''1'', Kv_put ''t'' ''b'' ''2'', Kv_delete ''t'' ''b'']"
    "byte 0 \<notin> set ''t''"
    by (simp_all add: byte_def char_of_def)
  have n: "no_entries (mt_catalog (run meta_step meta_init one_table)) one_kind ''t'' = Some Map.empty"
    using ok(2) by (simp add: no_entries_def run_one_table one_kind_def)
  show ?thesis
    using kv_statements_refine_map [OF ok _ refl, where arrival = id and es = one_table and kind = one_kind and k = "''a''"]
    by (simp add: n del: kv_step.simps)
qed

text \<open>A key that is put with an empty value is not found, although a scan lists it.\<close>

lemma empty_value_not_found:
  "let s = run kv_step (kv_start (mt_catalog (run meta_step meta_init one_table)) one_kind) [Kv_put ''t'' ''a'' []]
   in execKVGet (\<lambda>_. True) ''t'' ''a'' s = Inr [] \<and>
      execKVScan (\<lambda>_. True) id ''t'' [] [] s = Inr [(''a'', [])]"
  by (simp add: run_one_table one_kind_def kv_start_def execKVPut_def kvShardForKey_def owningShard_def owns_def
      write_shard_def KVPut_def kv_guard_def execKVGet_def read_shard_def KVGet_def st_get_def execKVScan_def KVScan_def
      dataEach_def kvDataBounds_def kvDataPrefix_def kvDataKey_def st_range_def bump_last_def byte_def Let_def less_char_def)

subsection \<open>A split over existing entries\<close>

lemma kv_run_inv: "kv_inv kind s \<Longrightarrow> list_all kv_op_ok ops \<Longrightarrow> kv_inv kind (run kv_step s ops)"
  using kv_refines.run_from by blast

lemma read_shard_catalog [simp]: "read_shard reach spec f (s\<lparr>kc_catalog := cat\<rparr>) = read_shard reach spec f s"
  by (simp add: read_shard_def)

lemma get_after_split:
  assumes "quiet q" and "kc_catalog s = mt_catalog q" and "kv_inv kind s" and "byte 0 \<notin> set t" and "kind t = Some ''KV''"
    and "key \<noteq> []" and "split_at_key (kc_catalog s) rf live t key = Some cmd"
  shows "\<exists>spec. owningShard (kc_catalog s) t key = Some spec \<and>
    (\<forall>k. execKVGet (\<lambda>_. True) t k (s\<lparr>kc_catalog := fsm_apply (kc_catalog s) cmd\<rparr>) =
      (if key \<le> k \<and> owningShard (kc_catalog s) t k = Some spec then Inr [] else execKVGet (\<lambda>_. True) t k s))"
proof -
  obtain spec n where sn: "owningShard (kc_catalog s) t key = Some spec"
    "list_all (\<lambda>x. sp_id x \<noteq> sp_id n) (case ct_tables (kc_catalog s) t of None \<Rightarrow> [] | Some ts \<Rightarrow> ts_shards ts)"
    "\<And>k. owningShard (fsm_apply (kc_catalog s) cmd) t k =
       (if key \<le> k \<and> owningShard (kc_catalog s) t k = Some spec then Some n else owningShard (kc_catalog s) t k)"
    using split_owner [OF assms(1,6)] assms(2,7) by fastforce
  obtain ts where ts: "ct_tables (kc_catalog s) t = Some ts" "spec \<in> set (ts_shards ts)"
    using owningShard_in [OF sn(1)] by blast
  have "ct_tables (fsm_apply (kc_catalog s) cmd) t \<noteq> None"
    using sn(3) [of key] sn(1) by (auto simp: owningShard_def split: option.splits)
  then obtain ts' where ts': "ct_tables (fsm_apply (kc_catalog s) cmd) t = Some ts'" by blast
  have empty: "st_get (en_store (kc_engines s (sp_id n))) (kvDataKey t k) = None" for k
  proof (rule ccontr)
    assume "st_get (en_store (kc_engines s (sp_id n))) (kvDataKey t k) \<noteq> None"
    then obtain o' where "owningShard (kc_catalog s) t k = Some o'" "sp_id o' = sp_id n"
      using assms(3,4) unfolding kv_inv_def by blast
    then show False using owningShard_in [of "kc_catalog s" t k o'] sn(2) ts(1) by (auto simp: list_all_iff)
  qed
  have en: "en_tables (kc_engines s i) = kind" for i using assms(3) by (simp add: kv_inv_def)
  have "execKVGet (\<lambda>_. True) t k (s\<lparr>kc_catalog := fsm_apply (kc_catalog s) cmd\<rparr>) =
      (if key \<le> k \<and> owningShard (kc_catalog s) t k = Some spec then Inr [] else execKVGet (\<lambda>_. True) t k s)" for k
    using sn(3) [of k] ts(1) ts' empty [of k] kv_guard_KV [OF assms(5) en]
    by (cases "owningShard (kc_catalog s) t k"; cases "key \<le> k \<and> owningShard (kc_catalog s) t k = Some spec")
      (auto simp: execKVGet_def kvShardForKey_def read_shard_def [of _ n] KVGet_def Let_def)
  then show ?thesis using sn(1) by blast
qed

text \<open>C11: the split of a table with the engine KV moves no entry: right after it is committed, every key from the split
  point on that belonged to the split shard is answered with no row, whatever was put under it,
  and every other key is answered as before.\<close>

theorem split_hides_entries:
  assumes "cat = mt_catalog (run commit_now meta_init es)" and "list_all kv_op_ok ops"
    and "byte 0 \<notin> set t" and "kind t = Some ''KV''" and "key \<noteq> []"
    and "s = run kv_step (kv_start cat kind) ops" and "split_at_key cat rf live t key = Some cmd"
  shows "\<exists>spec. owningShard cat t key = Some spec \<and>
    (\<forall>k. execKVGet (\<lambda>_. True) t k (s\<lparr>kc_catalog := fsm_apply cat cmd\<rparr>) =
      (if key \<le> k \<and> owningShard cat t k = Some spec then Inr [] else execKVGet (\<lambda>_. True) t k s))"
proof -
  have q: "quiet (run commit_now meta_init es)" by (rule quiet_machine.inv_reachable)
  then have i: "kv_inv kind (kv_start cat kind)" using kv_start_inv assms(1) by (simp add: quiet_def)
  have c: "kc_catalog s = cat" unfolding assms(6) kv_run_catalog [OF i assms(2)] by (simp add: kv_start_def)
  have "kv_inv kind s" unfolding assms(6) by (rule kv_run_inv [OF i assms(2)])
  from get_after_split [OF q _ this assms(3-5), of rf live cmd] show ?thesis using c assms(1,7) by simp
qed

theorem split_hides_entries_witness:
  "let cat = mt_catalog (run commit_now meta_init [Register ''n1'' ''a'' ''b'', Create one_schema 1 []]);
       s = run kv_step (kv_start cat one_kind) [Kv_put ''t'' ''p'' ''1'']
   in execKVGet (\<lambda>_. True) ''t'' ''p'' s = Inr [(''p'', ''1'')] \<and>
      (\<exists>cmd. split_at_key cat 1 [] ''t'' ''m'' = Some cmd \<and>
        execKVGet (\<lambda>_. True) ''t'' ''p'' (s\<lparr>kc_catalog := fsm_apply cat cmd\<rparr>) = Inr [])"
proof -
  define cat where "cat = mt_catalog (run commit_now meta_init [Register ''n1'' ''a'' ''b'', Create one_schema 1 []])"
  then have cat: "cat = mt_catalog (run meta_step meta_init one_table)" using run_one_table_now by simp
  define s where "s = run kv_step (kv_start cat one_kind) [Kv_put ''t'' ''p'' ''1'']"
  obtain cmd where cmd: "split_at_key cat 1 [] ''t'' ''m'' = Some cmd" using one_table_split cat by blast
  have ok: "list_all kv_op_ok [Kv_put ''t'' ''p'' ''1'']" "byte 0 \<notin> set ''t''" "one_kind ''t'' = Some ''KV''" "''m'' \<noteq> []"
    by (simp_all add: byte_def char_of_def one_kind_def)
  have "execKVGet (\<lambda>_. True) ''t'' ''p'' s = Inr [(''p'', ''1'')]"
    by (simp add: s_def cat run_one_table one_kind_def kv_start_def execKVPut_def kvShardForKey_def owningShard_def owns_def
        write_shard_def KVPut_def kv_guard_def execKVGet_def read_shard_def KVGet_def st_get_def)
  moreover have "execKVGet (\<lambda>_. True) ''t'' ''p'' (s\<lparr>kc_catalog := fsm_apply cat cmd\<rparr>) = Inr []"
    using split_hides_entries [OF cat_def ok s_def cmd] one_table_owner(2) cat by auto
  ultimately show ?thesis using cmd unfolding cat_def [symmetric] s_def [symmetric] Let_def by blast
qed

text \<open>
  Put again after the split, the key lies in two shards, and a scan gives the value of the shard that
  answers first: the old one or the new one.
\<close>

lemma one_table_after_split:
  "mt_catalog (commit_now (run meta_step meta_init one_table) (Split ''t'' ''m'' 1 [])) =
   \<lparr>ct_version = 3, ct_nodes = [''n1''],
      ct_specs = [''n1'' \<mapsto> \<lparr>ns_id = ''n1'', ns_sql = ''a'', ns_raft = ''b''\<rparr>],
      ct_tables = [''t'' \<mapsto> \<lparr>ts_schema = one_schema,
        ts_shards = [\<lparr>sp_id = ''t-0'', sp_table = ''t'', sp_start = [], sp_end = [], sp_nodes = [''n1'']\<rparr>,
          \<lparr>sp_id = ''t-0-'' @ nat_str 1, sp_table = ''t'', sp_start = ''m'', sp_end = [], sp_nodes = [''n1'']\<rparr>]\<rparr>]\<rparr>"
  by (simp add: run_one_table commit_now_def propose_def split_at_key_def owningShard_def owns_def splitShard_def Let_def
      pickNodes_one fsm_apply_def shardExists_def)

lemma scan_after_split_stale:
  "let s0 = run kv_step (kv_start (mt_catalog (run meta_step meta_init one_table)) one_kind) [Kv_put ''t'' ''p'' ''1''];
       s1 = s0\<lparr>kc_catalog := mt_catalog (commit_now (run meta_step meta_init one_table) (Split ''t'' ''m'' 1 []))\<rparr>;
       s2 = kv_step s1 (Kv_put ''t'' ''p'' ''2'')
   in execKVScan (\<lambda>_. True) id ''t'' [] [] s2 = Inr [(''p'', ''1'')] \<and>
      execKVScan (\<lambda>_. True) rev ''t'' [] [] s2 = Inr [(''p'', ''2'')]"
  by (simp add: one_table_after_split [unfolded run_one_table] run_one_table one_kind_def kv_start_def execKVPut_def kvShardForKey_def owningShard_def
      owns_def start_after_def write_shard_def KVPut_def kv_guard_def read_shard_def st_get_def execKVScan_def KVScan_def
      dataEach_def kvDataBounds_def kvDataPrefix_def kvDataKey_def st_range_def bump_last_def byte_def Let_def less_char_def)

end
