(* ===== verification/AdminServer.thy ===== *)
theory AdminServer
  imports GoText Cluster
begin

section \<open>ADMIN commands on the server (\<open>shard/router.go\<close>, \<open>shard/split.go\<close>)\<close>

text \<open>
  What a node does with the text of a command of the cluster page: the dispatch on its prefix, the
  handlers of the commands the page sends about one shard, the guard of the writes to a shard, and
  the reading of an \<open>ADMIN SPLIT\<close> command down to the texts of the key values (which
  \<open>parseValueString\<close> then converts by the column's type; that, the raft groups and the storage
  are not modelled). The state of a node is its mounted shards.
\<close>

subsection \<open>Dispatch\<close>

datatype admin_route =
    AJoin | ARegister | AMount | AAddPeer | ARemovePeer | APeers | AWaitLeader | AExecEnc | AExec
  | AScan | AFreeze | AUnfreeze | AUnmount | AShards | ATables | ASplit | ACompact | AMetricsJson
  | AMetrics | AUnknown

definition admin_routes :: "(string \<times> admin_route) list" where
  "admin_routes =
     [(''ADMIN JOIN '', AJoin), (''ADMIN REGISTER '', ARegister), (''ADMIN MOUNT-SHARD '', AMount),
      (''ADMIN SHARD-ADD-PEER '', AAddPeer), (''ADMIN SHARD-REMOVE-PEER '', ARemovePeer),
      (''ADMIN SHARD-PEERS '', APeers), (''ADMIN SHARD-WAIT-LEADER '', AWaitLeader),
      (''ADMIN EXEC-SHARD-ENC '', AExecEnc), (''ADMIN EXEC-SHARD '', AExec),
      (''ADMIN SCAN-SHARD '', AScan), (''ADMIN FREEZE-SHARD '', AFreeze),
      (''ADMIN UNFREEZE-SHARD '', AUnfreeze), (''ADMIN UNMOUNT-SHARD '', AUnmount),
      (''ADMIN SHARDS '', AShards), (''ADMIN TABLES'', ATables), (''ADMIN SPLIT '', ASplit),
      (''ADMIN COMPACT'', ACompact), (''ADMIN METRICS-JSON'', AMetricsJson), (''ADMIN METRICS'', AMetrics)]"

definition admin_dispatch :: "string \<Rightarrow> admin_route" where
  "admin_dispatch upper =
     (case List.find (\<lambda>(p, r). starts_with p upper) admin_routes of Some (p, r) \<Rightarrow> r | None \<Rightarrow> AUnknown)"

text \<open>\<open>Manager.Handle\<close>: \<open>None\<close> is a statement for the SQL engine.\<close>

definition manager_route :: "string \<Rightarrow> admin_route option" where
  "manager_route sql =
     (let upper = to_upper (go_trim sql)
      in if starts_with ''ADMIN '' upper then Some (admin_dispatch upper) else None)"

subsection \<open>Commands about one shard\<close>

record managed_shard =
  ms_frozen :: bool
  ms_peers :: "(string \<times> string) list"  \<comment> \<open>what \<open>node.Peers()\<close> of the raft group answers\<close>

type_synonym server = "string \<Rightarrow> managed_shard option"

datatype admin_reply = Fail string | Admin_done | Peers_are "(string \<times> string) list"

definition not_mounted :: "string \<Rightarrow> string" where
  "not_mounted i = ''shard '' @ i @ '' not mounted locally''"

definition handleFreezeShard :: "bool \<Rightarrow> string \<Rightarrow> server \<Rightarrow> server \<times> admin_reply" where
  "handleFreezeShard freeze sql srv =
     (let fs = go_fields sql
      in if length fs \<noteq> 4 then (srv, Fail ''usage: ADMIN FREEZE-SHARD <table> <shard-id>'')
         else case srv (fs ! 3) of
                None \<Rightarrow> (srv, Fail (not_mounted (fs ! 3)))
              | Some sh \<Rightarrow> (srv(fs ! 3 \<mapsto> sh\<lparr>ms_frozen := \<not> freeze\<rparr>), Admin_done))"

definition handleShardPeers :: "string \<Rightarrow> server \<Rightarrow> admin_reply" where
  "handleShardPeers sql srv =
     (let fs = go_fields sql
      in if length fs \<noteq> 4 then Fail ''usage: ADMIN SHARD-PEERS <table> <shard-id>''
         else case srv (fs ! 3) of None \<Rightarrow> Fail (not_mounted (fs ! 3)) | Some sh \<Rightarrow> Peers_are (ms_peers sh))"

text \<open>The guards of a write to a shard, before it goes to the raft group: \<open>None\<close> lets it through.\<close>

definition handleExecShard_guard :: "string \<Rightarrow> server \<Rightarrow> string option" where
  "handleExecShard_guard sql srv =
     (let fs = go_fields sql
      in if length fs < 4 then Some ''usage: ADMIN EXEC-SHARD <table> <shard-id> <sql>''
         else case srv (fs ! 3) of
                None \<Rightarrow> Some (not_mounted (fs ! 3))
              | Some sh \<Rightarrow> if ms_frozen sh then Some (''shard '' @ fs ! 3 @ '' is splitting, retry'') else None)"

text \<open>What the node sees of the shard's group: whether it has a replica, a live node that has, whether it leads the group,
  the leader's address or the error of asking for it, and its own address.\<close>

record node_view =
  nv_hosts :: bool
  nv_placement :: string  \<comment> \<open>empty when there is none\<close>
  nv_leads :: bool
  nv_leader :: "string + string"
  nv_addr :: string

datatype 'b exec_way = Runs_here 'b | Sent_to string string | Not_run string

text \<open>To the leader, or here when the node leads the group, possibly since a moment.\<close>

definition lead_or_send :: "node_view \<Rightarrow> string \<Rightarrow> 'b \<Rightarrow> 'b exec_way" where
  "lead_or_send nv cmd body =
     (if nv_leads nv then Runs_here body
      else case nv_leader nv of
             Inl e \<Rightarrow> Not_run e
           | Inr addr \<Rightarrow> if addr \<noteq> nv_addr nv then Sent_to addr cmd else Runs_here body)"

definition trim_prefix :: "string \<Rightarrow> string \<Rightarrow> string" where
  "trim_prefix p s = (if starts_with p s then drop (length p) s else s)"

definition exec_shard_body :: "string \<Rightarrow> string" where
  "exec_shard_body sql =
     (let fs = go_fields sql in go_trim (trim_prefix (''ADMIN EXEC-SHARD '' @ fs ! 2 @ '' '' @ fs ! 3) sql))"

definition handleExecShard :: "node_view \<Rightarrow> server \<Rightarrow> string \<Rightarrow> string exec_way" where
  "handleExecShard nv srv sql =
     (case handleExecShard_guard sql srv of
        Some e \<Rightarrow> Not_run e
      | None \<Rightarrow> lead_or_send nv sql (exec_shard_body sql))"

text \<open>The binary form; \<open>go_q\<close> is the verb \<open>%q\<close>, and what runs is the text still to be decoded.\<close>

definition handleExecShardEnc :: "(string \<Rightarrow> string) \<Rightarrow> node_view \<Rightarrow> server \<Rightarrow> string \<Rightarrow> string exec_way" where
  "handleExecShardEnc go_q nv srv sql =
     (let fs = go_fields sql
      in if length fs \<noteq> 4
         then Not_run (''usage: ADMIN EXEC-SHARD-ENC <shard-id> <base64> (got '' @ nat_str (length fs) @ '' fields: '' @ go_q sql @ '')'')
         else case srv (fs ! 2) of
                None \<Rightarrow> Not_run (not_mounted (fs ! 2))
              | Some sh \<Rightarrow>
                  if ms_frozen sh then Not_run (''shard '' @ fs ! 2 @ '' is splitting, retry'')
                  else lead_or_send nv sql (go_trim (trim_prefix (''ADMIN EXEC-SHARD-ENC '' @ fs ! 2) sql)))"

text \<open>The statements the node itself sends to a shard, as text and in binary form (\<open>enc\<close> is base64 of the encoded statement).\<close>

definition exec_shard_command :: "string \<Rightarrow> string \<Rightarrow> string \<Rightarrow> string" where
  "exec_shard_command table i sql = ''ADMIN EXEC-SHARD '' @ table @ '' '' @ i @ '' '' @ sql"

definition exec_enc_command :: "string \<Rightarrow> string \<Rightarrow> string" where
  "exec_enc_command i enc = ''ADMIN EXEC-SHARD-ENC '' @ i @ '' '' @ enc"

definition own_statement :: "node_view \<Rightarrow> server \<Rightarrow> string \<Rightarrow> string \<Rightarrow> 'b \<Rightarrow> 'b exec_way" where
  "own_statement nv srv i cmd st =
     (if \<not> nv_hosts nv
      then (if nv_placement nv = [] then Not_run (''shard '' @ i @ '' has no live placement'') else Sent_to (nv_placement nv) cmd)
      else case srv i of
             None \<Rightarrow> Not_run (not_mounted i)
           | Some sh \<Rightarrow> lead_or_send nv cmd st)"

definition execShardSQL :: "node_view \<Rightarrow> server \<Rightarrow> string \<Rightarrow> string \<Rightarrow> string \<Rightarrow> string exec_way" where
  "execShardSQL nv srv table i sql = own_statement nv srv i (exec_shard_command table i sql) sql"

definition execShardSQLStmt :: "('s \<Rightarrow> string) \<Rightarrow> node_view \<Rightarrow> server \<Rightarrow> string \<Rightarrow> 's \<Rightarrow> 's exec_way" where
  "execShardSQLStmt enc nv srv i st = own_statement nv srv i (exec_enc_command i (enc st)) st"

text \<open>The commands above, through the dispatch; \<open>None\<close> is any other command.\<close>

definition serve :: "string \<Rightarrow> server \<Rightarrow> (server \<times> admin_reply) option" where
  "serve sql srv =
     (case manager_route sql of
        Some AFreeze \<Rightarrow> Some (handleFreezeShard True sql srv)
      | Some AUnfreeze \<Rightarrow> Some (handleFreezeShard False sql srv)
      | Some APeers \<Rightarrow> Some (srv, handleShardPeers sql srv)
      | _ \<Rightarrow> None)"

subsection \<open>ADMIN SPLIT\<close>

datatype split_error =
    Split_usage | Empty_key | Unbalanced_paren | Unbalanced_quote | No_table string | Key_count nat nat

abbreviation sq :: char where
  "sq \<equiv> CHR 0x27"

text \<open>The loop of \<open>splitCommaQuoted\<close>: whether it is inside a quoted section, and the part begun.\<close>

function scan_parts :: "bool \<Rightarrow> string \<Rightarrow> string \<Rightarrow> split_error + string list" where
  "scan_parts q cur [] = (if q then Inl Unbalanced_quote else Inr [go_trim cur])"
| "scan_parts q cur (c # s) =
     (if c = sq then
        (if q \<and> s \<noteq> [] \<and> hd s = sq then scan_parts q (cur @ [sq]) (tl s)
         else scan_parts (\<not> q) (cur @ [c]) s)
      else if c = CHR '','' \<and> \<not> q then
        (case scan_parts q [] s of Inl e \<Rightarrow> Inl e | Inr ps \<Rightarrow> Inr (go_trim cur # ps))
      else scan_parts q (cur @ [c]) s)"
  by pat_completeness auto
termination
  by (relation "measure (\<lambda>(q, cur, s). length s)") auto

definition splitCommaQuoted :: "string \<Rightarrow> split_error + string list" where
  "splitCommaQuoted s = scan_parts False [] s"

definition parsePKSplitSpec :: "string \<Rightarrow> split_error + string list" where
  "parsePKSplitSpec raw =
     (let s = go_trim raw
      in if s = [] then Inl Empty_key
         else if hd s \<noteq> CHR ''('' then Inr [s]
         else if last s \<noteq> CHR '')'' then Inl Unbalanced_paren
         else splitCommaQuoted (slice 1 (length s - 1) s))"

definition unquote :: "string \<Rightarrow> string" where
  "unquote s = (if 2 \<le> length s \<and> hd s = sq \<and> last s = sq then slice 1 (length s - 1) s else s)"

text \<open>\<open>splitShardByValue\<close> up to the conversion of the values: each key column's type with the text
  \<open>parseValueString\<close> gets. \<open>pk\<close> is the catalog: the types of a table's key columns.\<close>

definition split_key_texts ::
    "(string \<Rightarrow> string list option) \<Rightarrow> string \<Rightarrow> string \<Rightarrow> split_error + (string \<times> string) list" where
  "split_key_texts pk table raw =
     (case pk table of
        None \<Rightarrow> Inl (No_table table)
      | Some tys \<Rightarrow>
          (case parsePKSplitSpec raw of
             Inl e \<Rightarrow> Inl e
           | Inr parts \<Rightarrow>
               if length parts \<noteq> length tys then Inl (Key_count (length parts) (length tys))
               else Inr (zip tys (map unquote parts))))"

text \<open>\<open>handleSplit\<close> on the leader, with \<open>strings.EqualFold\<close> against an ASCII word.\<close>

definition equal_fold :: "string \<Rightarrow> string \<Rightarrow> bool" where
  "equal_fold a b \<longleftrightarrow> map lower_char a = map lower_char b"

definition handleSplit ::
    "(string \<Rightarrow> string list option) \<Rightarrow> string \<Rightarrow> split_error + string \<times> (string \<times> string) list" where
  "handleSplit pk sql =
     (let fs = go_fields sql
      in if length fs < 6 \<or> to_upper (fs ! 2) \<noteq> ''TABLE'' then Inl Split_usage
         else case find_index (\<lambda>f. equal_fold f ''AT'') (drop 3 fs) of
                None \<Rightarrow> Inl Split_usage
              | Some i \<Rightarrow>
                  (case split_key_texts pk (fs ! 3) (go_trim (join_on '' '' (drop (i + 4) fs))) of
                     Inl e \<Rightarrow> Inl e
                   | Inr vs \<Rightarrow> Inr (fs ! 3, vs)))"

subsection \<open>The dispatch of the page's commands\<close>

lemma unspaced_no_suffix: "unspaced s \<Longrightarrow> w \<in> set go_space \<Longrightarrow> \<not> suffix w (map byte_of s)"
proof (induction s)
  case Nil
  then show ?case using no_empty_space by auto
next
  case (Cons c s)
  then show ?case using no_empty_space by (auto simp: suffix_Cons space_len_0)
qed

lemma go_trim_unspaced: "unspaced s \<Longrightarrow> go_trim s = s"
proof (cases s)
  case (Cons c t)
  moreover assume "unspaced s"
  ultimately show ?thesis by (intro go_trim_id unspaced_no_suffix) auto
qed (simp add: go_trim_def strip_spaces.simps Let_def)

lemma go_trim_last_word:
  assumes "32 < byte_of c" "byte_of c < 128" and "go_word w"
  shows "go_trim (c # a @ CHR '' '' # w) = c # a @ CHR '' '' # w"
proof (rule go_trim_id)
  show "space_len (c # a @ CHR '' '' # w) = 0" using assms by (simp add: space_len_visible)
  fix v assume v: "v \<in> set go_space"
  show "\<not> suffix v (map byte_of (c # a @ CHR '' '' # w))"
  proof
    assume "suffix v (map byte_of (c # a @ CHR '' '' # w))"
    then have "suffix v (map byte_of (c # a @ [CHR '' '']) @ map byte_of w)" by simp
    then consider "suffix v (map byte_of w)"
      | xs where "v = xs @ map byte_of w" "suffix xs (map byte_of (c # a @ [CHR '' '']))"
      by (auto simp only: suffix_append)
    then show False
    proof cases
      case 1
      then show False using unspaced_no_suffix v assms(3) by (auto simp: go_word_def)
    next
      case 2
      show False
      proof (cases xs rule: rev_cases)
        case Nil
        then show False using 2 unspaced_no_suffix [of w v] v assms(3) by (auto simp: go_word_def)
      next
        case (snoc ys y)
        then have y: "y = 32" using 2(2) by (auto simp: suffix_def)
        have "w \<noteq> []" using assms(3) by (simp add: go_word_def)
        then show False using go_space_cases [OF v] 2(1) snoc y by (cases ys) auto
      qed
    qed
  qed
qed

lemma to_upper_ascii [simp]: "byte_of c < 128 \<Longrightarrow> to_upper (c # s) = upper_char c # to_upper s"
  by (cases s) auto

lemma to_upper_word [simp]: "go_word w \<Longrightarrow> to_upper w \<noteq> []"
  by (cases w rule: to_upper.cases) (auto simp: go_word_def)

lemma upper_letter: "upper_char c = c" if "byte_of c < 97"
  using that by (simp add: upper_char_def)

text \<open>A command of two words about a table and a shard, and how it is split into fields.\<close>

definition shard_command :: "string \<Rightarrow> string \<Rightarrow> string \<Rightarrow> string" where
  "shard_command verb t i = ''ADMIN '' @ verb @ '' '' @ t @ '' '' @ i"

lemma words_verbs [simp]: "go_word ''FREEZE-SHARD''" "go_word ''UNFREEZE-SHARD''" "go_word ''SHARD-PEERS''"
  by (simp_all add: go_word_visible)

lemma fields_words:
  "go_fields ''ADMIN'' = [''ADMIN'']" "go_fields ''EXEC-SHARD'' = [''EXEC-SHARD'']" "go_fields ''SPLIT'' = [''SPLIT'']"
  "go_fields ''TABLE'' = [''TABLE'']" "go_fields ''AT'' = [''AT'']"
  by (simp_all add: go_fields_word go_word_visible)

lemma fields_shard_command:
  "go_word verb \<Longrightarrow> go_word t \<Longrightarrow> go_word i \<Longrightarrow> go_fields (shard_command verb t i) = [''ADMIN'', verb, t, i]"
proof -
  have c: "shard_command verb t i = ''ADMIN'' @ CHR '' '' # verb @ CHR '' '' # t @ CHR '' '' # i"
    by (simp add: shard_command_def)
  show "go_word verb \<Longrightarrow> go_word t \<Longrightarrow> go_word i \<Longrightarrow> ?thesis"
    unfolding c by (simp only: go_fields_append fields_words go_fields_word) simp
qed

lemma trim_shard_command: "go_word i \<Longrightarrow> go_trim (shard_command verb t i) = shard_command verb t i"
  using go_trim_last_word [of "CHR ''A''" i "''DMIN '' @ verb @ '' '' @ t"] by (simp add: shard_command_def)

lemma starts_with_Cons [simp]:
  "starts_with (a # p) (b # s) = (a = b \<and> starts_with p s)" "starts_with [] s"
  by (auto simp: starts_with_def)

lemma route_shard_command:
  assumes "go_word t" and "go_word i"
  shows "manager_route (shard_command ''FREEZE-SHARD'' t i) = Some AFreeze"
    and "manager_route (shard_command ''UNFREEZE-SHARD'' t i) = Some AUnfreeze"
    and "manager_route (shard_command ''SHARD-PEERS'' t i) = Some APeers"
  unfolding manager_route_def trim_shard_command [OF assms(2)] Let_def
  by (simp_all add: shard_command_def upper_letter admin_dispatch_def admin_routes_def)

lemma serve_shard_command:
  assumes "go_word t" and "go_word i" and "srv i = Some m"
  shows "serve (shard_command ''FREEZE-SHARD'' t i) srv = Some (srv(i \<mapsto> m\<lparr>ms_frozen := False\<rparr>), Admin_done)"
    and "serve (shard_command ''UNFREEZE-SHARD'' t i) srv = Some (srv(i \<mapsto> m\<lparr>ms_frozen := True\<rparr>), Admin_done)"
    and "serve (shard_command ''SHARD-PEERS'' t i) srv = Some (srv, Peers_are (ms_peers m))"
  using assms
  by (simp_all add: serve_def route_shard_command handleFreezeShard_def handleShardPeers_def
      fields_shard_command Let_def)

lemma exec_guard:
  assumes "go_word t" and "go_word i"
  shows "handleExecShard_guard (exec_shard_command t i dml) srv =
     (case srv i of None \<Rightarrow> Some (not_mounted i)
      | Some m \<Rightarrow> if ms_frozen m then Some (''shard '' @ i @ '' is splitting, retry'') else None)"
proof -
  have c: "exec_shard_command t i dml =
      ''ADMIN'' @ CHR '' '' # ''EXEC-SHARD'' @ CHR '' '' # t @ CHR '' '' # i @ CHR '' '' # dml"
    by (simp add: exec_shard_command_def)
  have "go_fields (exec_shard_command t i dml) =
      ''ADMIN'' # ''EXEC-SHARD'' # t # i # go_fields dml"
    unfolding c by (simp only: go_fields_append fields_words go_fields_word [OF assms(1)] go_fields_word [OF assms(2)]) simp
  then show ?thesis by (simp add: handleExecShard_guard_def Let_def split: option.split)
qed

lemma trim_prefix_append: "trim_prefix p (p @ r) = r"
  by (simp add: trim_prefix_def)

lemma exec_shard_fields:
  assumes "go_word t" and "go_word i"
  shows "\<exists>fs. go_fields (exec_shard_command t i sql) = ''ADMIN'' # ''EXEC-SHARD'' # t # i # fs"
proof -
  have c: "exec_shard_command t i sql = ''ADMIN'' @ CHR '' '' # ''EXEC-SHARD'' @ CHR '' '' # t @ CHR '' '' # i @ CHR '' '' # sql"
    by (simp add: exec_shard_command_def)
  show ?thesis
    unfolding c by (simp only: go_fields_append fields_words go_fields_word [OF assms(1)] go_fields_word [OF assms(2)]) simp
qed

lemma exec_shard_body:
  assumes "go_word t" and "go_word i"
  shows "exec_shard_body (exec_shard_command t i sql) = go_trim sql"
proof -
  have c: "exec_shard_command t i sql = (''ADMIN EXEC-SHARD '' @ t @ '' '' @ i) @ CHR '' '' # sql"
    by (simp add: exec_shard_command_def)
  obtain fs where "go_fields (exec_shard_command t i sql) = ''ADMIN'' # ''EXEC-SHARD'' # t # i # fs"
    using exec_shard_fields [OF assms] by blast
  then have "go_fields (exec_shard_command t i sql) ! 2 = t" "go_fields (exec_shard_command t i sql) ! 3 = i" by simp_all
  then have "exec_shard_body (exec_shard_command t i sql) = go_trim (trim_prefix (''ADMIN EXEC-SHARD '' @ t @ '' '' @ i) (exec_shard_command t i sql))"
    by (simp only: exec_shard_body_def Let_def)
  also have "\<dots> = go_trim sql" unfolding c trim_prefix_append by (rule go_trim_blank)
  finally show ?thesis .
qed

lemma exec_text:
  assumes "go_word t" and "go_word i" and "srv i = Some m"
  shows "handleExecShard nv srv (exec_shard_command t i dml) =
    (if ms_frozen m then Not_run (''shard '' @ i @ '' is splitting, retry'')
     else lead_or_send nv (exec_shard_command t i dml) (go_trim dml))"
  using assms by (simp add: handleExecShard_def exec_guard exec_shard_body)

lemma exec_enc:
  assumes "go_word i" and "go_word enc" and "srv i = Some m"
  shows "handleExecShardEnc go_q nv srv (exec_enc_command i enc) =
    (if ms_frozen m then Not_run (''shard '' @ i @ '' is splitting, retry'')
     else lead_or_send nv (exec_enc_command i enc) enc)"
proof -
  have w: "go_fields ''EXEC-SHARD-ENC'' = [''EXEC-SHARD-ENC'']" by (simp add: go_fields_word go_word_visible)
  have c: "exec_enc_command i enc = ''ADMIN'' @ CHR '' '' # ''EXEC-SHARD-ENC'' @ CHR '' '' # i @ CHR '' '' # enc"
    by (simp add: exec_enc_command_def)
  have f: "go_fields (exec_enc_command i enc) = [''ADMIN'', ''EXEC-SHARD-ENC'', i, enc]"
    unfolding c by (simp only: go_fields_append fields_words w go_fields_word [OF assms(1)] go_fields_word [OF assms(2)]) simp
  have "exec_enc_command i enc = (''ADMIN EXEC-SHARD-ENC '' @ i) @ CHR '' '' # enc" by (simp add: exec_enc_command_def)
  then have "go_trim (trim_prefix (''ADMIN EXEC-SHARD-ENC '' @ i) (exec_enc_command i enc)) = go_trim (CHR '' '' # enc)"
    by (simp only: trim_prefix_append)
  also have "\<dots> = enc" using go_trim_unspaced [of enc] assms(2) by (simp add: go_trim_blank go_word_def)
  finally show ?thesis using assms(3) by (simp add: handleExecShardEnc_def f)
qed

text \<open>C29: the shard buttons of the cluster page, through to the node that holds the shard, do the opposite of what their
  labels, the comments and the README say. The command a confirmed Freeze sends clears the flag that
  holds writes back, and a statement that another node sends to the shard goes on, here or to the leader; the
  command Unfreeze sends sets the flag, and then a statement from another node is refused as splitting, as text
  and in binary form, while a statement that begins on the node that leads the shard runs all the
  same. Peers reports the members of the raft group.\<close>

theorem shard_buttons_effect:
  assumes "go_word (cl_selected s)" and "go_word (shard_id sh)" and "srv (shard_id sh) = Some m" and "go_word enc"
  shows "let sent = (\<lambda>es. fst (last (cl_pending (run cluster_step s es))));
             t = cl_selected s; i = shard_id sh;
             open_srv = srv(i \<mapsto> m\<lparr>ms_frozen := False\<rparr>);
             held_srv = srv(i \<mapsto> m\<lparr>ms_frozen := True\<rparr>);
             refused = Not_run (''shard '' @ i @ '' is splitting, retry'')
         in serve (sent [FreezeClick sh, ApplyClick]) srv = Some (open_srv, Admin_done) \<and>
            handleExecShard nv open_srv (exec_shard_command t i dml) = lead_or_send nv (exec_shard_command t i dml) (go_trim dml) \<and>
            handleExecShardEnc go_q nv open_srv (exec_enc_command i enc) = lead_or_send nv (exec_enc_command i enc) enc \<and>
            serve (sent [UnfreezeClick sh]) srv = Some (held_srv, Admin_done) \<and>
            handleExecShard nv held_srv (exec_shard_command t i dml) = refused \<and>
            handleExecShardEnc go_q nv held_srv (exec_enc_command i enc) = refused \<and>
            execShardSQL (nv\<lparr>nv_hosts := True, nv_leads := True\<rparr>) held_srv t i dml = Runs_here dml \<and>
            execShardSQLStmt encode (nv\<lparr>nv_hosts := True, nv_leads := True\<rparr>) held_srv i st = Runs_here st \<and>
            serve (sent [PeersClick sh]) srv = Some (srv, Peers_are (ms_peers m))"
proof -
  have cmd: "fst (last (cl_pending (run cluster_step s [FreezeClick sh, ApplyClick]))) =
        shard_command ''FREEZE-SHARD'' (cl_selected s) (shard_id sh)"
      "fst (last (cl_pending (run cluster_step s [UnfreezeClick sh]))) =
        shard_command ''UNFREEZE-SHARD'' (cl_selected s) (shard_id sh)"
      "fst (last (cl_pending (run cluster_step s [PeersClick sh]))) =
        shard_command ''SHARD-PEERS'' (cl_selected s) (shard_id sh)"
    by (simp_all add: openConfirm_def freeze_confirm_def apply_disabled_def runAdmin_def shard_command_def)
  have ex: "handleExecShard nv (srv(shard_id sh \<mapsto> m\<lparr>ms_frozen := b\<rparr>)) (exec_shard_command (cl_selected s) (shard_id sh) dml) =
      (if b then Not_run (''shard '' @ shard_id sh @ '' is splitting, retry'')
       else lead_or_send nv (exec_shard_command (cl_selected s) (shard_id sh) dml) (go_trim dml))" for b
    using exec_text [OF assms(1,2), of "srv(shard_id sh \<mapsto> m\<lparr>ms_frozen := b\<rparr>)" "m\<lparr>ms_frozen := b\<rparr>"] by simp
  have enc: "handleExecShardEnc go_q nv (srv(shard_id sh \<mapsto> m\<lparr>ms_frozen := b\<rparr>)) (exec_enc_command (shard_id sh) enc) =
      (if b then Not_run (''shard '' @ shard_id sh @ '' is splitting, retry'')
       else lead_or_send nv (exec_enc_command (shard_id sh) enc) enc)" for b
    using exec_enc [OF assms(2,4), of "srv(shard_id sh \<mapsto> m\<lparr>ms_frozen := b\<rparr>)" "m\<lparr>ms_frozen := b\<rparr>"] by simp
  show ?thesis
    unfolding Let_def cmd ex enc serve_shard_command [OF assms(1,2), where srv = srv and m = m, OF assms(3)]
    by (simp add: execShardSQL_def execShardSQLStmt_def own_statement_def lead_or_send_def)
qed

text \<open>A shard that holds writes back, and a confirmed Freeze on it: it takes writes afterwards.\<close>

theorem shard_buttons_effect_witness:
  "let sh = \<lparr>shard_id = ''t-0'', shard_start = [], shard_end = [], shard_nodes = [], shard_size = Fin 0\<rparr>;
       s = cluster_mount\<lparr>cl_selected := ''t''\<rparr>;
       srv = Map.empty(''t-0'' \<mapsto> \<lparr>ms_frozen = True, ms_peers = []\<rparr>)
   in map_option (\<lambda>(srv', r). srv' ''t-0'')
        (serve (fst (last (cl_pending (run cluster_step s [FreezeClick sh, ApplyClick])))) srv) =
      Some (Some \<lparr>ms_frozen = False, ms_peers = []\<rparr>)"
proof -
  let ?sh = "\<lparr>shard_id = ''t-0'', shard_start = [], shard_end = [], shard_nodes = [], shard_size = Fin 0\<rparr>"
  let ?s = "cluster_mount\<lparr>cl_selected := ''t''\<rparr>"
  let ?m = "\<lparr>ms_frozen = True, ms_peers = []\<rparr>"
  have w: "go_word (cl_selected ?s)" "go_word (shard_id ?sh)" by (simp_all add: go_word_visible)
  have m: "(Map.empty(''t-0'' \<mapsto> ?m)) (shard_id ?sh) = Some ?m" by simp
  have g: "go_word ''QQ==''" by (simp add: go_word_visible)
  have "serve (fst (last (cl_pending (run cluster_step ?s [FreezeClick ?sh, ApplyClick])))) (Map.empty(''t-0'' \<mapsto> ?m)) =
      Some ((Map.empty(''t-0'' \<mapsto> ?m))(shard_id ?sh \<mapsto> ?m\<lparr>ms_frozen := False\<rparr>), Admin_done)"
    by (rule shard_buttons_effect [of ?s ?sh "Map.empty(''t-0'' \<mapsto> ?m)" ?m "''QQ==''", OF w m g, unfolded Let_def, THEN conjunct1])
  then show ?thesis unfolding Let_def by simp
qed

subsection \<open>The values of a split\<close>

abbreviation dbl :: "string \<Rightarrow> string" where
  "dbl v \<equiv> replace_all sq [sq, sq] v"

lemma dbl_id: "sq \<notin> set v \<Longrightarrow> dbl v = v"
  by (induction v) auto

lemma scan_dbl:
  "rest = [] \<or> hd rest \<noteq> sq \<Longrightarrow>
   scan_parts True cur (dbl v @ sq # rest) = scan_parts False (cur @ v @ [sq]) rest"
  by (induction v arbitrary: cur) auto

lemma scan_plain:
  "sq \<notin> set p \<Longrightarrow> CHR '','' \<notin> set p \<Longrightarrow> scan_parts False cur (p @ rest) = scan_parts False (cur @ p) rest"
  by (induction p arbitrary: cur) auto

definition quoted_field :: "split_field \<Rightarrow> bool" where
  "quoted_field f \<longleftrightarrow> sf_type f = ''string'' \<or> sf_type f = ''timestamp''"

text \<open>
  When the value typed for a key column reaches the server as it is. A quoted value must be words with
  one blank between two of them, and in a key of one column have no quote; any other value must be
  visible ASCII without quotes, commas and opening parentheses.
\<close>

definition key_arrives :: "nat \<Rightarrow> split_field \<Rightarrow> string \<Rightarrow> bool" where
  "key_arrives n f v =
     (let t = trim v
      in if quoted_field f then single_spaced t \<and> (n = 1 \<longrightarrow> sq \<notin> set t)
         else t \<noteq> [] \<and> list_all (\<lambda>c. 32 < byte_of c \<and> byte_of c < 127 \<and> c \<noteq> sq \<and> c \<noteq> CHR '','' \<and> c \<noteq> CHR ''('') t)"

text \<open>The text \<open>splitCommaQuoted\<close> gives for a column: its value, in quotes when the page quotes it.\<close>

definition raw_part :: "split_field \<Rightarrow> string \<Rightarrow> string" where
  "raw_part f v = (if quoted_field f then sq # trim v @ [sq] else trim v)"

lemma split_part_eq: "split_part f v = (if quoted_field f then sq # dbl (trim v) @ [sq] else trim v)"
  by (simp add: split_part_def quoted_field_def quote_sql_def Let_def)

lemma key_arrives_plain:
  "key_arrives n f v \<Longrightarrow> \<not> quoted_field f \<Longrightarrow>
   trim v \<noteq> [] \<and> unspaced (trim v) \<and> sq \<notin> set (trim v) \<and> CHR '','' \<notin> set (trim v) \<and> CHR ''('' \<notin> set (trim v)"
proof -
  assume "key_arrives n f v" "\<not> quoted_field f"
  then have t: "trim v \<noteq> []"
    and l: "list_all (\<lambda>c. 32 < byte_of c \<and> byte_of c < 127 \<and> c \<noteq> sq \<and> c \<noteq> CHR '','' \<and> c \<noteq> CHR ''('') (trim v)"
    by (simp_all add: key_arrives_def Let_def)
  from l have "list_all (\<lambda>c. 32 < byte_of c \<and> byte_of c < 128) (trim v)"
    by (rule list.pred_mono_strong) linarith
  then have "unspaced (trim v)" by (rule unspaced_visible)
  then show ?thesis using t l unfolding list_all_iff by blast
qed

lemma space_len_punct [simp]:
  "space_len (sq # s) = 0" "space_len (CHR '','' # s) = 0" "space_len (CHR ''('' # s) = 0"
  "space_len (CHR '')'' # s) = 0"
  by (simp_all add: space_len_visible)

lemma scan_part:
  assumes "key_arrives n f v" and "rest = [] \<or> hd rest \<noteq> sq"
  shows "scan_parts False cur (split_part f v @ rest) = scan_parts False (cur @ raw_part f v) rest"
proof (cases "quoted_field f")
  case True
  have "scan_parts False cur (sq # dbl (trim v) @ sq # rest) = scan_parts True (cur @ [sq]) (dbl (trim v) @ sq # rest)"
    by simp
  also have "\<dots> = scan_parts False ((cur @ [sq]) @ trim v @ [sq]) rest"
    by (rule scan_dbl [OF assms(2)])
  finally show ?thesis using True by (simp only: split_part_eq raw_part_def if_True append_Cons append_Nil append_assoc)
next
  case False
  then show ?thesis using key_arrives_plain [OF assms(1)] by (simp add: split_part_eq raw_part_def scan_plain)
qed

lemma trim_raw_part: "key_arrives n f v \<Longrightarrow> go_trim (raw_part f v) = raw_part f v"
  using key_arrives_plain [of n f v] go_trim_visible [of sq sq "trim v"]
  by (cases "quoted_field f") (auto simp: raw_part_def go_trim_unspaced)

lemma unquote_raw_part: "key_arrives n f v \<Longrightarrow> unquote (raw_part f v) = trim v"
proof -
  assume "key_arrives n f v"
  then have "hd (trim v) \<noteq> sq" if "\<not> quoted_field f"
    using key_arrives_plain that hd_in_set by metis
  then show ?thesis by (cases "quoted_field f") (auto simp: raw_part_def unquote_def slice_def)
qed

lemma scan_parts_join:
  assumes "list_all (\<lambda>(f, v). key_arrives n f v) ps" and "ps \<noteq> []" and "cur = [] \<or> cur = '' ''"
  shows "scan_parts False cur (join_on '', '' (map (\<lambda>(f, v). split_part f v) ps)) =
         Inr (map (\<lambda>(f, v). raw_part f v) ps)"
  using assms
proof (induction ps arbitrary: cur)
  case (Cons p ps)
  obtain f v where p: "p = (f, v)" by (cases p)
  then have k: "key_arrives n f v" using Cons.prems by simp
  then have t: "go_trim (cur @ raw_part f v) = raw_part f v"
    using Cons.prems(3) trim_raw_part [OF k] by (auto simp: go_trim_blank)
  show ?case
  proof (cases ps)
    case Nil
    then show ?thesis using p t scan_part [OF k, of "[]" cur] by simp
  next
    case (Cons p' ps')
    let ?rest = "join_on '', '' (map (\<lambda>(f, v). split_part f v) ps)"
    have "scan_parts False '' '' ?rest = Inr (map (\<lambda>(f, v). raw_part f v) ps)"
      using Cons.IH [of "'' ''"] Cons.prems Cons by simp
    then have "scan_parts False cur (split_part f v @ '', '' @ ?rest) =
        Inr (raw_part f v # map (\<lambda>(f, v). raw_part f v) ps)"
      using scan_part [OF k, of "'', '' @ ?rest" cur] t by simp
    then show ?thesis using p Cons by simp
  qed
qed simp

subsection \<open>The words of a split command\<close>

lemma take_dbl:
  "39 \<notin> set w \<Longrightarrow> (take (length w) (map byte_of (dbl s)) = w) = (take (length w) (map byte_of s) = w)"
proof (induction w arbitrary: s)
  case (Cons b w)
  then show ?case by (cases s) auto
qed simp

lemma space_len_dbl: "c \<noteq> sq \<Longrightarrow> space_len (c # dbl s) = space_len (c # s)"
  unfolding space_len_def
proof (rule space_prefix_cong)
  fix w assume "w \<in> set go_space" "c \<noteq> sq"
  then have "39 \<notin> set w" using go_space_cases by blast
  then have "(take (length w) (map byte_of (dbl (c # s))) = w) = (take (length w) (map byte_of (c # s)) = w)"
    by (rule take_dbl)
  then show "(take (length w) (map byte_of (c # dbl s)) = w) = (take (length w) (map byte_of (c # s)) = w)"
    using \<open>c \<noteq> sq\<close> by simp
qed

lemma spaced_dbl: "spaced_from i v \<Longrightarrow> spaced_from i (dbl v)"
proof (induction i v rule: spaced_from.induct)
  case (2 i c s)
  then show ?case
    by (cases "c = sq") (auto simp: space_len_dbl space_len_visible simp del: space_len_blank split: if_splits)
qed simp

lemma spaced_part: "key_arrives n f v \<Longrightarrow> spaced_from False (split_part f v)"
proof (cases "quoted_field f")
  case True
  moreover assume "key_arrives n f v"
  ultimately have "spaced_from True (dbl (trim v))"
    by (auto simp: key_arrives_def single_spaced_def Let_def intro: spaced_dbl spaced_from_mono)
  then show ?thesis using True spaced_from_append [of True "dbl (trim v)" sq "[]"] by (simp add: split_part_eq)
next
  case False
  then show "key_arrives n f v \<Longrightarrow> ?thesis"
    using key_arrives_plain [of n f v] by (auto simp: split_part_eq intro: spaced_from_unspaced)
qed

lemma spaced_join:
  "list_all (spaced_from False) xs \<Longrightarrow> xs \<noteq> [] \<Longrightarrow> spaced_from False (join_on '', '' xs)"
proof (induction "'', ''" xs rule: join_on.induct)
  case (3 w v ws)
  then show ?case using spaced_from_append [of False w "CHR '',''" "CHR '' '' # join_on '', '' (v # ws)"] by simp
qed simp_all

subsection \<open>A split command read back\<close>

lemma split_parts_eq:
  "length vs = length fs \<Longrightarrow>
   map (\<lambda>i. split_part (fs ! i) (value_at vs i)) [0..<length fs] = map (\<lambda>(f, v). split_part f v) (zip fs vs)"
  by (intro nth_equalityI) (auto simp: value_at_def at_index_def)

lemma split_spec_read:
  assumes "list_all (\<lambda>(f, v). key_arrives (length ps) f v) ps" and "ps \<noteq> []"
  defines "parts \<equiv> map (\<lambda>(f, v). split_part f v) ps"
  defines "raw \<equiv> (if length parts = 1 then parts ! 0 else ''('' @ join_on '', '' parts @ '')'')"
  shows "single_spaced raw" and "go_trim raw = raw"
    and "parsePKSplitSpec raw = Inr (map (\<lambda>(f, v). raw_part f v) ps)"
proof -
  have sp: "list_all (spaced_from False) parts"
    using assms(1) unfolding parts_def list_all_iff by (auto intro: spaced_part)
  have "single_spaced raw \<and> go_trim raw = raw \<and> parsePKSplitSpec raw = Inr (map (\<lambda>(f, v). raw_part f v) ps)"
  proof (cases "length parts = 1")
    case True
    then obtain f v where ps: "ps = [(f, v)]" by (cases ps) (auto simp: parts_def)
    then have k: "key_arrives 1 f v" using assms(1) by simp
    then have r: "raw = raw_part f v"
      by (auto simp: raw_def parts_def ps split_part_eq raw_part_def key_arrives_def Let_def dbl_id)
    moreover have "single_spaced raw" using sp True by (simp add: raw_def parts_def ps single_spaced_def)
    moreover have "hd (trim v) \<noteq> CHR ''(''" if "\<not> quoted_field f"
      using key_arrives_plain [OF k that] hd_in_set by metis
    then have "raw \<noteq> []" "hd raw \<noteq> CHR ''(''"
      using key_arrives_plain [OF k] by (auto simp: r raw_part_def)
    ultimately show ?thesis using trim_raw_part [OF k] by (simp add: parsePKSplitSpec_def Let_def ps)
  next
    case False
    then have raw: "raw = CHR ''('' # join_on '', '' parts @ [CHR '')'']" by (simp add: raw_def)
    have "parts \<noteq> []" using assms(2) by (simp add: parts_def)
    then have "spaced_from True (join_on '', '' parts)"
      using spaced_join [OF sp] by (auto intro: spaced_from_mono)
    then have "single_spaced raw"
      using spaced_from_append [of True "join_on '', '' parts" "CHR '')''" "[]"] by (simp add: raw single_spaced_def)
    moreover have t: "go_trim raw = raw" unfolding raw by (rule go_trim_visible) simp_all
    moreover have "slice 1 (length raw - 1) raw = join_on '', '' parts" by (simp add: raw slice_def)
    moreover have "scan_parts False [] (join_on '', '' parts) = Inr (map (\<lambda>(f, v). raw_part f v) ps)"
      unfolding parts_def using scan_parts_join [OF assms(1,2), of "[]"] by simp
    ultimately show ?thesis
      using raw by (simp add: parsePKSplitSpec_def splitCommaQuoted_def Let_def)
  qed
  then show "single_spaced raw" "go_trim raw = raw"
    "parsePKSplitSpec raw = Inr (map (\<lambda>(f, v). raw_part f v) ps)" by blast+
qed

lemma fields_split_command:
  assumes "go_word table"
  shows "go_fields (''ADMIN SPLIT TABLE '' @ table @ '' AT '' @ raw) =
         [''ADMIN'', ''SPLIT'', ''TABLE'', table, ''AT''] @ go_fields raw"
proof -
  have c: "''ADMIN SPLIT TABLE '' @ table @ '' AT '' @ raw =
      ''ADMIN'' @ CHR '' '' # ''SPLIT'' @ CHR '' '' # ''TABLE'' @ CHR '' '' # table @ CHR '' '' # ''AT'' @ CHR '' '' # raw"
    by simp
  show ?thesis unfolding c by (simp only: go_fields_append fields_words go_fields_word [OF assms]) simp
qed

lemma handleSplit_command:
  assumes "go_word table" and "\<not> equal_fold table ''AT''" and "single_spaced raw" and "go_trim raw = raw"
  shows "handleSplit pk (''ADMIN SPLIT TABLE '' @ table @ '' AT '' @ raw) =
         (case split_key_texts pk table raw of Inl e \<Rightarrow> Inl e | Inr vs \<Rightarrow> Inr (table, vs))"
proof -
  have u: "to_upper ''TABLE'' = ''TABLE''" "equal_fold ''AT'' ''AT''" by code_simp+
  note to_upper_ascii [simp del] to_upper.simps [simp del]
  have "go_fields raw \<noteq> []" using assms(3) by (rule go_fields_ne)
  moreover have "join_on '' '' (go_fields raw) = raw" using assms(3) by (rule join_go_fields)
  ultimately show ?thesis
    unfolding handleSplit_def fields_split_command [OF assms(1)] Let_def
    by (cases "go_fields raw") (simp_all add: assms(2,4) u split: sum.split)
qed

text \<open>What the server can read at all: a quoted value of words with one blank between two of them, any other value
  of visible ASCII without quotes, commas and opening parentheses.\<close>

definition key_readable :: "split_field \<Rightarrow> string \<Rightarrow> bool" where
  "key_readable f v =
     (let t = trim v
      in if sf_type f = ''string'' \<or> sf_type f = ''timestamp'' then single_spaced t
         else t \<noteq> [] \<and> list_all (\<lambda>c. 32 < byte_of c \<and> byte_of c < 127 \<and> c \<noteq> sq \<and> c \<noteq> CHR '','' \<and> c \<noteq> CHR ''('') t)"

text \<open>The texts the server takes for the values: as typed, but for the quotes in the quoted value of a key of one column,
  which arrive doubled.\<close>

definition key_texts_read :: "split_field list \<Rightarrow> string list \<Rightarrow> string list" where
  "key_texts_read fs vs =
     (if length fs = 1 \<and> (sf_type (hd fs) = ''string'' \<or> sf_type (hd fs) = ''timestamp'')
      then [replace_all sq [sq, sq] (trim (hd vs))] else map trim vs)"

lemma handleSplit_keys:
  assumes "go_word table" and "\<not> equal_fold table ''AT''"
    and "pk table = Some tys" and "length tys = length fs" and "length vs = length fs" and "fs \<noteq> []"
    and "list_all (\<lambda>(f, v). key_arrives (length fs) f v) (zip fs vs)"
  shows "handleSplit pk (buildSplitSql table fs vs) = Inr (table, zip tys (map trim vs))"
proof -
  let ?ps = "zip fs vs"
  have ps: "list_all (\<lambda>(f, v). key_arrives (length ?ps) f v) ?ps" "?ps \<noteq> []"
    using assms by (auto simp: neq_Nil_conv length_Suc_conv)
  note r = split_spec_read [OF ps]
  have "map unquote (map (\<lambda>(f, v). raw_part f v) ?ps) = map (\<lambda>(f, v). trim v) ?ps"
    using assms(7) by (auto simp: list_all_iff unquote_raw_part)
  also have "\<dots> = map trim vs" using assms(5) by (simp add: case_prod_beta' flip: map_map [of trim snd, unfolded comp_def])
  finally have u: "map unquote (map (\<lambda>(f, v). raw_part f v) ?ps) = map trim vs" .
  have l: "length (map (\<lambda>(f, v). raw_part f v) ?ps) = length tys" using assms(4,5) by simp
  show ?thesis
    unfolding buildSplitSql_def split_parts_eq [OF assms(5)] Let_def handleSplit_command [OF assms(1,2) r(1,2)]
      split_key_texts_def assms(3) option.case r(3) sum.case l u
    by simp
qed

lemma dbl_fix: "dbl v = v \<longleftrightarrow> sq \<notin> set v"
proof
  have len: "length (dbl v) = length v + length (filter (\<lambda>c. c = sq) v)" by (induction v) auto
  assume "dbl v = v"
  then have "filter (\<lambda>c. c = sq) v = []" using len by simp
  then show "sq \<notin> set v" by (auto simp: filter_empty_conv)
qed (rule dbl_id)

text \<open>A key of one quoted column is sent without parentheses, and then nothing on the server undoes the
  doubling of its quotes: the text the shard is split at is the value with every quote doubled, so
  it is the value typed exactly when that has no quote.\<close>

lemma split_single_key:
  assumes "go_word table" and "\<not> equal_fold table ''AT''" and "pk table = Some [ty]"
    and "sf_type f = ''string'' \<or> sf_type f = ''timestamp''" and "single_spaced (trim v)"
  shows "handleSplit pk (buildSplitSql table [f] [v]) = Inr (table, [(ty, replace_all sq [sq, sq] (trim v))]) \<and>
         (replace_all sq [sq, sq] (trim v) = trim v) = (sq \<notin> set (trim v))"
proof -
  let ?raw = "sq # dbl (trim v) @ [sq]"
  have q: "quoted_field f" using assms(4) by (simp add: quoted_field_def)
  have "key_arrives 2 f v" using q assms(5) by (simp add: key_arrives_def Let_def)
  then have "single_spaced ?raw"
    using spaced_part [of 2 f v] q by (simp add: split_part_eq single_spaced_def)
  moreover have t: "go_trim ?raw = ?raw" by (rule go_trim_visible) simp_all
  ultimately have "handleSplit pk (''ADMIN SPLIT TABLE '' @ table @ '' AT '' @ ?raw) =
      (case split_key_texts pk table ?raw of Inl e \<Rightarrow> Inl e | Inr vs \<Rightarrow> Inr (table, vs))"
    by (rule handleSplit_command [OF assms(1,2)])
  moreover have "parsePKSplitSpec ?raw = Inr [?raw]" by (simp add: parsePKSplitSpec_def t Let_def)
  moreover have "unquote ?raw = dbl (trim v)" by (simp add: unquote_def slice_def)
  ultimately have "handleSplit pk (''ADMIN SPLIT TABLE '' @ table @ '' AT '' @ ?raw) = Inr (table, [(ty, dbl (trim v))])"
    by (simp add: split_key_texts_def assms(3))
  moreover have "buildSplitSql table [f] [v] = ''ADMIN SPLIT TABLE '' @ table @ '' AT '' @ ?raw"
    using q by (simp add: buildSplitSql_def split_part_eq value_at_def Let_def)
  ultimately show ?thesis using dbl_fix by simp
qed

lemma handleSplit_reads:
  assumes "go_word table" and "\<not> equal_fold table ''AT''"
    and "pk table = Some tys" and "length tys = length fs" and "length vs = length fs" and "fs \<noteq> []"
    and "list_all (\<lambda>(f, v). key_readable f v) (zip fs vs)"
  shows "handleSplit pk (buildSplitSql table fs vs) = Inr (table, zip tys (key_texts_read fs vs))"
proof (cases "length fs = 1 \<and> quoted_field (hd fs)")
  case True
  then obtain f v ty where f: "fs = [f]" "vs = [v]" "tys = [ty]" using assms(4,5) by (auto simp: length_Suc_conv)
  then have "single_spaced (trim v)" using True assms(7) by (auto simp: key_readable_def quoted_field_def Let_def)
  then show ?thesis using split_single_key [of table pk ty f v] assms(1-3) True f
    by (simp add: key_texts_read_def quoted_field_def)
next
  case False
  have "key_arrives (length fs) f v" if "(f, v) \<in> set (zip fs vs)" for f v
  proof -
    have "key_readable f v" using assms(7) that by (auto simp: list_all_iff)
    moreover have "\<not> quoted_field f" if "length fs = 1"
      using False that \<open>(f, v) \<in> set (zip fs vs)\<close> by (auto simp: length_Suc_conv dest!: set_zip_leftD)
    ultimately show ?thesis by (auto simp: key_readable_def key_arrives_def quoted_field_def Let_def)
  qed
  then have "list_all (\<lambda>(f, v). key_arrives (length fs) f v) (zip fs vs)" by (auto simp: list_all_iff)
  from handleSplit_keys [where pk = pk and tys = tys, OF assms(1-6) this] show ?thesis
    using False by (auto simp: key_texts_read_def quoted_field_def)
qed

text \<open>C13: what the server reads of the key values typed into the split dialog, for a table known to the catalog and not
  called \<open>at\<close>, and values it can read: the table, and each key column's type with the text of its value
  without the surrounding white space, whatever quotes and commas are in the quoted values of a composite
  key; but in the quoted value of a key of one column every quote arrives doubled, so it arrives as typed
  exactly when it has none.\<close>

theorem split_keys_arrive:
  assumes "go_word table" and "\<not> equal_fold table ''AT''"
    and "pk table = Some tys" and "length tys = length fs" and "length vs = length fs" and "fs \<noteq> []"
    and "list_all (\<lambda>(f, v). key_readable f v) (zip fs vs)"
  shows "handleSplit pk (buildSplitSql table fs vs) = Inr (table, zip tys (key_texts_read fs vs)) \<and>
    (key_texts_read fs vs = map trim vs \<longleftrightarrow>
      \<not> (length fs = 1 \<and> (sf_type (hd fs) = ''string'' \<or> sf_type (hd fs) = ''timestamp'') \<and> sq \<in> set (trim (hd vs))))"
proof -
  have "key_texts_read fs vs = map trim vs \<longleftrightarrow>
      \<not> (length fs = 1 \<and> (sf_type (hd fs) = ''string'' \<or> sf_type (hd fs) = ''timestamp'') \<and> sq \<in> set (trim (hd vs)))"
    using assms(5,6) dbl_fix [of "trim (hd vs)"] by (cases vs) (auto simp: key_texts_read_def length_Suc_conv)
  then show ?thesis using handleSplit_reads [where pk = pk and tys = tys, OF assms] by blast
qed

theorem split_keys_arrive_witness:
  "handleSplit (\<lambda>t. if t = ''users'' then Some [''int64'', ''string''] else None)
     (buildSplitSql ''users'' [\<lparr>sf_name = ''id'', sf_type = ''int64''\<rparr>, \<lparr>sf_name = ''name'', sf_type = ''string''\<rparr>]
        ['' 42'', ''O'' @ [CHR 0x27] @ ''Brien, Pat''])
   = Inr (''users'', [(''int64'', ''42''), (''string'', ''O'' @ [CHR 0x27] @ ''Brien, Pat'')])"
proof -
  let ?pk = "\<lambda>t. if t = ''users'' then Some [''int64'', ''string''] else None"
  let ?fs = "[\<lparr>sf_name = ''id'', sf_type = ''int64''\<rparr>, \<lparr>sf_name = ''name'', sf_type = ''string''\<rparr>]"
  let ?vs = "['' 42'', ''O'' @ [CHR 0x27] @ ''Brien, Pat'']"
  have w: "go_word ''users''" "\<not> equal_fold ''users'' ''AT''"
    by (simp_all add: go_word_visible equal_fold_def lower_char_def)
  have t: "map trim ?vs = [''42'', ''O'' @ [CHR 0x27] @ ''Brien, Pat'']" by code_simp
  have k: "list_all (\<lambda>(f, v). key_readable f v) (zip ?fs ?vs)"
    using t by (simp add: key_readable_def single_spaced_def space_len_visible)
  show ?thesis
    using split_keys_arrive [OF w, of ?pk "[''int64'', ''string'']" ?fs ?vs] k t by (simp add: key_texts_read_def)
qed

subsection \<open>What the two sides disagree on\<close>

lemma split_single_key_witness:
  "handleSplit (\<lambda>t. if t = ''users'' then Some [''string''] else None)
     (buildSplitSql ''users'' [\<lparr>sf_name = ''name'', sf_type = ''string''\<rparr>] [''O'' @ [CHR 0x27] @ ''Brien''])
   = Inr (''users'', [(''string'', ''O'' @ [CHR 0x27, CHR 0x27] @ ''Brien'')])"
proof -
  let ?pk = "\<lambda>t. if t = ''users'' then Some [''string''] else None"
  let ?f = "\<lparr>sf_name = ''name'', sf_type = ''string''\<rparr>"
  have w: "go_word ''users''" "\<not> equal_fold ''users'' ''AT''"
    by (simp_all add: go_word_visible equal_fold_def lower_char_def)
  have t: "trim (''O'' @ [CHR 0x27] @ ''Brien'') = ''O'' @ [CHR 0x27] @ ''Brien''" by code_simp
  have "single_spaced (''O'' @ [CHR 0x27] @ ''Brien'')" by (simp add: single_spaced_def space_len_visible)
  note t = t this
  show ?thesis
    using split_single_key [OF w, of ?pk "''string''" ?f "''O'' @ [CHR 0x27] @ ''Brien''"] t by simp
qed

text \<open>A run of blanks in a value becomes one blank, because the command is split into fields and joined
  again; and a table called \<open>at\<close> cannot be split, because the search for the word \<open>AT\<close> starts at the
  table's name.\<close>

lemma split_blanks_collapse:
  "handleSplit (\<lambda>t. Some [''string'']) (''ADMIN SPLIT TABLE '' @ ''t'' @ '' AT '' @ sq # ''a  b'' @ [sq]) =
     Inr (''t'', [(''string'', ''a b'')])"
proof -
  have "go_fields (sq # ''a  b'' @ [sq]) = [[sq, CHR ''a''], [CHR ''b'', sq]]"
    by (simp add: go_fields_def fields_visible fields_blank)
  moreover have "go_trim (sq # ''a b'' @ [sq]) = sq # ''a b'' @ [sq]" by (rule go_trim_visible) simp_all
  moreover have w: "go_word ''t''" by (simp add: go_word_visible)
  ultimately show ?thesis
    unfolding handleSplit_def fields_split_command [OF w] Let_def
    by (simp add: equal_fold_def lower_char_def upper_char_def split_key_texts_def parsePKSplitSpec_def
        unquote_def slice_def)
qed

lemma split_table_named_at:
  "handleSplit (\<lambda>t. Some [''int64'']) (''ADMIN SPLIT TABLE '' @ ''at'' @ '' AT '' @ ''5'') =
     Inr (''at'', [(''int64'', ''AT 5'')])"
proof -
  have "go_fields ''5'' = [''5'']" by (simp add: go_fields_word go_word_visible)
  moreover have "go_trim ''AT 5'' = ''AT 5''" using go_trim_visible [of "CHR ''A''" "CHR ''5''" "''T ''"] by simp
  moreover have e: "equal_fold ''at'' ''AT''" by code_simp
  moreover have w: "go_word ''at''" by (simp add: go_word_visible)
  ultimately show ?thesis
    unfolding handleSplit_def fields_split_command [OF w] Let_def
    by (simp add: e upper_char_def split_key_texts_def parsePKSplitSpec_def unquote_def)
qed

end
