(* ===== verification/SplitChain.thy ===== *)
theory SplitChain
  imports AdminServer ShardRuns SqlValues
begin

section \<open>A split from the console to the catalog (\<open>shard/split.go\<close>, \<open>shard/router.go\<close>)\<close>

text \<open>
  \<open>splitShardByValue\<close> as a whole: the texts of the key columns are parsed as values of their types, the
  values are encoded, and the shard that owns the encoding is split there. Together with the command
  the split dialog builds, this says which rows a click moves, in terms of the values typed. The
  library's parsers of floats and times are parameters; a time is its microseconds since the epoch.
\<close>

subsection \<open>Values\<close>

record value_parsers =
  vp_float :: "string \<Rightarrow> 64 word option"
  vp_time :: "string \<Rightarrow> 64 word option"

definition parseValueString :: "value_parsers \<Rightarrow> string \<Rightarrow> string \<Rightarrow> key_value option" where
  "parseValueString P ty s =
     (if ty = ''int64'' then map_option KInt (parseInt64 s)
      else if ty = ''float64'' then map_option KFloat (vp_float P s)
      else if ty = ''bool'' then Some (KBool (s = ''true'' \<or> s = ''1''))
      else if ty = ''timestamp'' then map_option KTime (vp_time P s)
      else Some (KString s))"

fun colTypeOf :: "(string \<times> string) list \<Rightarrow> string \<Rightarrow> string" where
  "colTypeOf [] name = ''null''"
| "colTypeOf ((n, ty) # cols) name = (if n = name then ty else colTypeOf cols name)"

definition pk_types :: "catalog \<Rightarrow> string \<Rightarrow> string list option" where
  "pk_types cat table =
     map_option (\<lambda>ts. map (colTypeOf (sc_columns (ts_schema ts))) (sc_pk (ts_schema ts))) (ct_tables cat table)"

subsection \<open>The split\<close>

datatype split_failure =
    Not_read split_error | Bad_value string string | No_shard string | Below_start string | No_nodes

text \<open>The values in the order of the columns, up to the first that does not parse.\<close>

fun parse_values :: "value_parsers \<Rightarrow> (string \<times> string) list \<Rightarrow> split_failure + key_value list" where
  "parse_values P [] = Inr []"
| "parse_values P ((ty, s) # rest) =
     (case parseValueString P ty s of
        None \<Rightarrow> Inl (Bad_value ty s)
      | Some v \<Rightarrow> (case parse_values P rest of Inl e \<Rightarrow> Inl e | Inr vs \<Rightarrow> Inr (v # vs)))"

text \<open>From the values on; what is committed is the command.\<close>

definition split_at_values ::
  "value_parsers \<Rightarrow> catalog \<Rightarrow> int \<Rightarrow> string list \<Rightarrow> string \<Rightarrow> (string \<times> string) list \<Rightarrow> split_failure + meta_command" where
  "split_at_values P cat rf live table texts =
     (case parse_values P texts of
        Inl e \<Rightarrow> Inl e
      | Inr values \<Rightarrow>
          let key = encodeKey values
          in case owningShard cat table key of
               None \<Rightarrow> Inl (No_shard table)
             | Some spec \<Rightarrow>
                 if sp_start spec \<noteq> [] \<and> key \<le> sp_start spec then Inl (Below_start (sp_id spec))
                 else (case splitShard cat rf live spec key of None \<Rightarrow> Inl No_nodes | Some cmd \<Rightarrow> Inr cmd))"

definition split_request ::
  "value_parsers \<Rightarrow> catalog \<Rightarrow> int \<Rightarrow> string list \<Rightarrow> string \<Rightarrow> split_failure + meta_command" where
  "split_request P cat rf live sql =
     (case handleSplit (pk_types cat) sql of
        Inl e \<Rightarrow> Inl (Not_read e)
      | Inr (table, texts) \<Rightarrow> split_at_values P cat rf live table texts)"

lemma split_at_values_cmd:
  "split_at_values P cat rf live table texts = Inr cmd \<longleftrightarrow>
   (\<exists>values. parse_values P texts = Inr values \<and> split_at_key cat rf live table (encodeKey values) = Some cmd)"
  by (auto simp: split_at_values_def split_at_key_def Let_def split: sum.split option.split if_splits)

lemma encodeKey_ne: "vs \<noteq> [] \<Longrightarrow> encodeKey vs \<noteq> []"
  by (cases vs) (simp_all add: encodeKey_def key_cell_def)

lemma parse_values_length: "parse_values P texts = Inr vs \<Longrightarrow> length vs = length texts"
  by (induction texts arbitrary: vs) (auto split: option.splits sum.splits)

lemma split_by_values:
  assumes "quiet s" and "texts \<noteq> []" and "parse_values P texts = Inr vals" and "list_all key_value_ok vals"
    and "split_at_values P (mt_catalog s) rf live table texts = Inr cmd"
  shows "\<exists>spec n. owningShard (mt_catalog s) table (encodeKey vals) = Some spec \<and> sp_start n = encodeKey vals \<and>
    (\<forall>ws. map key_type ws = map key_type vals \<longrightarrow> list_all key_value_ok ws \<longrightarrow>
      owningShard (fsm_apply (mt_catalog s) cmd) table (encodeKey ws) =
        (if \<not> values_less ws vals \<and> owningShard (mt_catalog s) table (encodeKey ws) = Some spec then Some n
         else owningShard (mt_catalog s) table (encodeKey ws)))"
proof -
  have c: "split_at_key (mt_catalog s) rf live table (encodeKey vals) = Some cmd"
    using assms(3,5) by (auto simp: split_at_values_cmd)
  have "vals \<noteq> []" using parse_values_length [OF assms(3)] assms(2) by auto
  from split_owner [OF assms(1) encodeKey_ne [OF this] c] obtain spec n where
    sn: "owningShard (mt_catalog s) table (encodeKey vals) = Some spec" "sp_start n = encodeKey vals"
      "\<And>k. owningShard (fsm_apply (mt_catalog s) cmd) table k =
        (if encodeKey vals \<le> k \<and> owningShard (mt_catalog s) table k = Some spec then Some n
         else owningShard (mt_catalog s) table k)" by auto
  have "encodeKey vals \<le> encodeKey ws \<longleftrightarrow> \<not> values_less ws vals"
    if "map key_type ws = map key_type vals" "list_all key_value_ok ws" for ws
    using encodeKey_less [OF that assms(4)] by (simp add: not_less [symmetric])
  then show ?thesis using sn by metis
qed

text \<open>C3: a confirmed split, on a catalog whose earlier commands were each proposed on the newest one: when the server carries
  out the command that the dialog builds from the values typed, for a table not called \<open>at\<close> and values it
  can read and that have no zero bytes, it splits the shard that owns the values read at them: a row of
  this shard whose key values are not below them, column by column, belongs to the new shard, and every
  other row keeps its owner. The values read are those typed, but that a quote in a text or time that is the whole
  key is read doubled (see C13), and the shard is then split there.\<close>

theorem split_button_effect:
  assumes "cat = mt_catalog (run commit_now meta_init es)"
    and "go_word table" and "\<not> equal_fold table ''AT''" and "pk_types cat table = Some tys"
    and "length tys = length fs" and "length vs = length fs" and "fs \<noteq> []"
    and "list_all (\<lambda>(f, v). key_readable f v) (zip fs vs)"
    and "parse_values P (zip tys (key_texts_read fs vs)) = Inr vals" and "list_all key_value_ok vals"
    and "split_request P cat rf live (buildSplitSql table fs vs) = Inr cmd"
  shows "\<exists>spec n. owningShard cat table (encodeKey vals) = Some spec \<and> sp_start n = encodeKey vals \<and>
    (\<forall>ws. map key_type ws = map key_type vals \<longrightarrow> list_all key_value_ok ws \<longrightarrow>
      owningShard (fsm_apply cat cmd) table (encodeKey ws) =
        (if \<not> values_less ws vals \<and> owningShard cat table (encodeKey ws) = Some spec then Some n
         else owningShard cat table (encodeKey ws)))"
proof -
  have q: "quiet (run commit_now meta_init es)" by (rule quiet_machine.inv_reachable)
  have "handleSplit (pk_types cat) (buildSplitSql table fs vs) = Inr (table, zip tys (key_texts_read fs vs))"
    using handleSplit_reads assms(2-8) by blast
  then have "split_at_values P cat rf live table (zip tys (key_texts_read fs vs)) = Inr cmd"
    using assms(11) by (simp add: split_request_def)
  moreover have "zip tys (key_texts_read fs vs) \<noteq> []"
    using assms(5-7) by (auto simp: key_texts_read_def neq_Nil_conv length_Suc_conv)
  ultimately show ?thesis using split_by_values [OF q _ assms(9,10), folded assms(1)] by simp
qed

theorem split_button_effect_witness:
  "let cat = mt_catalog (run commit_now meta_init [Register ''n1'' ''a'' ''b'', Create one_schema 1 []]);
       cmd = split_request \<lparr>vp_float = (\<lambda>_. None), vp_time = (\<lambda>_. None)\<rparr> cat 1 []
         (buildSplitSql ''t'' [\<lparr>sf_name = ''k'', sf_type = ''string''\<rparr>] [''m''])
   in \<exists>c. cmd = Inr c \<and>
      map_option sp_start (owningShard (fsm_apply cat c) ''t'' (encodeKey [KString ''p''])) = Some (encodeKey [KString ''m'']) \<and>
      map_option sp_start (owningShard (fsm_apply cat c) ''t'' (encodeKey [KString ''b''])) = Some []"
proof -
  define cat where "cat = mt_catalog (run commit_now meta_init [Register ''n1'' ''a'' ''b'', Create one_schema 1 []])"
  then have cat: "cat = mt_catalog (run meta_step meta_init one_table)" using run_one_table_now by simp
  let ?P = "\<lparr>vp_float = (\<lambda>_. None), vp_time = (\<lambda>_. None)\<rparr> :: value_parsers"
  let ?fs = "[\<lparr>sf_name = ''k'', sf_type = ''string''\<rparr>]" and ?vs = "[''m'']"
  have w: "go_word ''t''" "\<not> equal_fold ''t'' ''AT''" by (simp_all add: go_word_visible equal_fold_def lower_char_def)
  have ty: "pk_types cat ''t'' = Some [''string'']" by (simp add: cat pk_types_def run_one_table one_schema_def)
  have t: "map trim ?vs = [''m'']" by code_simp
  have k: "list_all (\<lambda>(f, v). key_readable f v) (zip ?fs ?vs)"
    using t by (simp add: key_readable_def single_spaced_def space_len_visible)
  have r: "key_texts_read ?fs ?vs = [''m'']" using t by (simp add: key_texts_read_def)
  have p: "parse_values ?P (zip [''string''] (key_texts_read ?fs ?vs)) = Inr [KString ''m'']"
    unfolding r by (simp add: parseValueString_def)
  have v: "list_all key_value_ok [KString ''m'']" by (simp add: char_of_def)
  have "handleSplit (pk_types cat) (buildSplitSql ''t'' ?fs ?vs) = Inr (''t'', zip [''string''] (key_texts_read ?fs ?vs))"
    by (rule handleSplit_reads [where fs = ?fs and vs = ?vs and pk = "pk_types cat", OF w ty _ _ _ k]) simp_all
  then have "\<exists>c. split_request ?P cat 1 [] (buildSplitSql ''t'' ?fs ?vs) = Inr c"
    unfolding r by (simp add: split_request_def split_at_values_def parseValueString_def cat run_one_table owningShard_def
        owns_def splitShard_def Let_def pickNodes_one)
  then obtain c where c: "split_request ?P cat 1 [] (buildSplitSql ''t'' ?fs ?vs) = Inr c" by blast
  from split_button_effect [where fs = ?fs and vs = ?vs, OF cat_def w ty _ _ _ k p v c] obtain spec n where
    sn: "owningShard cat ''t'' (encodeKey [KString ''m'']) = Some spec" "sp_start n = encodeKey [KString ''m'']"
      "\<And>ws. map key_type ws = map key_type [KString ''m''] \<Longrightarrow> list_all key_value_ok ws \<Longrightarrow>
        owningShard (fsm_apply cat c) ''t'' (encodeKey ws) =
          (if \<not> values_less ws [KString ''m''] \<and> owningShard cat ''t'' (encodeKey ws) = Some spec then Some n
           else owningShard cat ''t'' (encodeKey ws))" by auto
  have "list_all key_value_ok [KString ''p'']" "list_all key_value_ok [KString ''b'']" by (simp_all add: char_of_def)
  then show ?thesis using sn(3) [of "[KString ''p'']"] sn(3) [of "[KString ''b'']"] sn(1,2) one_table_owner(2) c cat
    unfolding cat_def [symmetric] Let_def by auto
qed

text \<open>
  A raw key of a KV table whose first byte is above the type tags lies above every point a table can be
  split at by values: all such keys move to the newest shard.
\<close>

lemma raw_keys_above_split: "k \<noteq> [] \<Longrightarrow> 4 < byte_of (hd k) \<Longrightarrow> encodeKey (v # vs) < k"
  by (cases k; cases v) (simp_all add: encodeKey_def key_cell_def less_char_def)

end
