(* ===== verification/GroupCommit.thy ===== *)
theory GroupCommit
  imports ByteStore Prelude "HOL-Library.Multiset"
begin

section \<open>Group commit of a shard group (\<open>raftsvc/batch.go\<close>, \<open>raftsvc/raftsvc.go\<close>)\<close>

text \<open>
  The writes of a shard group: callers enqueue statements, one loop folds what is queued into batches, a
  batch is one entry of the raft log, and the state machine of the group applies an entry inside one
  transaction of the engine. The executor of a statement is a parameter, and so are the times at which
  things happen: an event is one step of a caller, of the loop, of raft or of the goroutine that
  waits for an entry, in any order. Raft may give an entry up (\<open>Lose\<close>) and still apply it later, or
  never (\<open>Discard\<close>). Callers blocked on the full channel count as queued. An entry
  holds its statements (their binary encoding is not modelled), and the commit of the engine's store
  itself does not fail.
\<close>

subsection \<open>Applying an entry\<close>

text \<open>
  The state of a replica's engine has two parts: what it keeps in memory beside its stores (the map \<open>e.tables\<close>, the
  stores opened so far) and what the transactions of its stores hold. Executing a statement changes both, also where it
  fails, and may read what is outside the engine: \<open>'w\<close> is what the replica's clock and time zone answer while the
  statement runs, which can differ from statement to statement and from replica to replica.
\<close>

type_synonym ('w, 'm, 'd, 's, 'x, 'r) executor = "'w \<Rightarrow> 'm \<times> 'd \<Rightarrow> 's \<Rightarrow> ('m \<times> 'd) \<times> ('x + 'r)"

text \<open>The loop of \<open>FSM.Apply\<close>: the statements one after the other, up to the first that fails. What has been changed
  by then stays changed: undoing it is the caller's part.\<close>

fun exec_all :: "('w, 'm, 'd, 's, 'x, 'r) executor \<Rightarrow> 'm \<times> 'd \<Rightarrow> ('w \<times> 's) list \<Rightarrow> ('m \<times> 'd) \<times> ('x + 'r list)" where
  "exec_all exec db [] = (db, Inr [])"
| "exec_all exec db ((w, st) # sts) =
     (case exec w db st of
        (db', Inl e) \<Rightarrow> (db', Inl e)
      | (db', Inr r) \<Rightarrow>
          (case exec_all exec db' sts of (db'', Inl e) \<Rightarrow> (db'', Inl e) | (db'', Inr rs) \<Rightarrow> (db'', Inr (r # rs))))"

text \<open>\<open>Engine.UpdateBatch\<close>: a failure rolls the transactions of the stores back. What the statements changed in
  memory is not undone.\<close>

definition updateBatch :: "('m \<times> 'd \<Rightarrow> ('m \<times> 'd) \<times> ('x + 'a)) \<Rightarrow> 'm \<times> 'd \<Rightarrow> ('m \<times> 'd) \<times> ('x + 'a)" where
  "updateBatch fn db =
     (case fn db of
        (db', Inl e) \<Rightarrow> ((fst db', snd db), Inl e)
      | (db', Inr a) \<Rightarrow> (db', Inr a))"

datatype ('r, 'x) fsm_response = Resp_none | Resp_error 'x | Resp_results "'r list"

text \<open>What the clock says while the statements of an entry run.\<close>

definition clock_readings :: "(nat \<Rightarrow> 'w) \<Rightarrow> 's list \<Rightarrow> 'w list" where
  "clock_readings clock stmts = map clock [0..<length stmts]"

definition applyEntry ::
  "('w, 'm, 'd, 's, 'x, 'r) executor \<Rightarrow> (nat \<Rightarrow> 'w) \<Rightarrow> 'm \<times> 'd \<Rightarrow> 's list \<Rightarrow> ('m \<times> 'd) \<times> ('r, 'x) fsm_response" where
  "applyEntry exec clock db stmts =
     (if stmts = [] then (db, Resp_none)
      else case updateBatch (\<lambda>d. exec_all exec d (zip (clock_readings clock stmts) stmts)) db of
        (db', Inl e) \<Rightarrow> (db', Resp_error e)
      | (db', Inr rs) \<Rightarrow> (db', Resp_results rs))"

subsection \<open>The batcher\<close>

text \<open>A caller's statement is numbered by the order of \<open>submit\<close>. An applied entry remembers what the clock said
  while its statements ran.\<close>

datatype 'x batch_error = Not_started | Raft_error string | Statement_error 'x

datatype ('r, 'x) commit_reply = Result "'r option" | Failed "'x batch_error"

datatype 's loop_phase = Waiting | Received "nat \<times> 's" | Collecting "(nat \<times> 's) list" | Ended

record ('w, 's, 'r, 'x) log_entry =
  le_items :: "(nat \<times> 's) list"
  le_times :: "'w list"
  le_resp :: "('r, 'x) fsm_response option"
  le_told :: bool

record ('w, 'db, 's, 'r, 'x) group_commit =
  gc_next :: nat
  gc_queue :: "(nat \<times> 's) list"
  gc_phase :: "'s loop_phase"
  gc_closed :: bool
  gc_started :: bool
  gc_log :: "('w, 's, 'r, 'x) log_entry list"
  gc_db :: 'db
  gc_replies :: "(nat \<times> ('r, 'x) commit_reply) list"

definition gc_init :: "'db \<Rightarrow> ('w, 'db, 's, 'r, 'x) group_commit" where
  "gc_init db = \<lparr>gc_next = 0, gc_queue = [], gc_phase = Waiting, gc_closed = False, gc_started = False,
     gc_log = [], gc_db = db, gc_replies = []\<rparr>"

definition fail_all :: "(nat \<times> 's) list \<Rightarrow> 'x batch_error \<Rightarrow> (nat \<times> ('r, 'x) commit_reply) list" where
  "fail_all items e = map (\<lambda>(i, st). (i, Failed e)) items"

text \<open>\<open>completeApply\<close>, with raft's error or the response of the state machine.\<close>

definition completeApply :: "(nat \<times> 's) list \<Rightarrow> string + ('r, 'x) fsm_response \<Rightarrow> (nat \<times> ('r, 'x) commit_reply) list" where
  "completeApply items outcome =
     (case outcome of
        Inl e \<Rightarrow> fail_all items (Raft_error e)
      | Inr (Resp_error e) \<Rightarrow> fail_all items (Statement_error e)
      | Inr (Resp_results rs) \<Rightarrow> map (\<lambda>(k, (i, st)). (i, Result (at_index rs k))) (enumerate 0 items)
      | Inr Resp_none \<Rightarrow> map (\<lambda>(i, st). (i, Result None)) items)"

text \<open>\<open>apply\<close>: one entry for all that is pending.\<close>

definition submit_batch :: "(nat \<times> 's) list \<Rightarrow> ('w, 'db, 's, 'r, 'x) group_commit \<Rightarrow> ('w, 'db, 's, 'r, 'x) group_commit" where
  "submit_batch items s =
     (if \<not> gc_started s then s\<lparr>gc_phase := Waiting, gc_replies := gc_replies s @ fail_all items Not_started\<rparr>
      else s\<lparr>gc_phase := Waiting, gc_log := gc_log s @ [\<lparr>le_items = items, le_times = [], le_resp = None, le_told = False\<rparr>]\<rparr>)"

text \<open>Raft applies the entries in the order of the log: the oldest not yet applied comes next.\<close>

fun commit_next ::
  "('w, 'm, 'd, 's, 'x, 'r) executor \<Rightarrow> (nat \<Rightarrow> 'w) \<Rightarrow> 'm \<times> 'd \<Rightarrow> ('w, 's, 'r, 'x) log_entry list \<Rightarrow>
   ('m \<times> 'd) \<times> ('w, 's, 'r, 'x) log_entry list" where
  "commit_next exec clock db [] = (db, [])"
| "commit_next exec clock db (e # les) =
     (if le_resp e = None
      then (case applyEntry exec clock db (map snd (le_items e)) of
              (db', r) \<Rightarrow> (db', e\<lparr>le_times := clock_readings clock (le_items e), le_resp := Some r\<rparr> # les))
      else (case commit_next exec clock db les of (db', les') \<Rightarrow> (db', e # les')))"

datatype ('w, 's) gc_event =
    Submit 's
  | Raft_started
  | Receive
  | Check_queue
  | Gather_next
  | Window_over
  | Close
  | Halt
  | Commit_entry "nat \<Rightarrow> 'w"
  | Tell nat
  | Lose nat string
  | Discard nat

fun gc_step ::
  "('w, 'm, 'd, 's, 'x, 'r) executor \<Rightarrow> nat \<Rightarrow> ('w, 'm \<times> 'd, 's, 'r, 'x) group_commit \<Rightarrow> ('w, 's) gc_event \<Rightarrow>
   ('w, 'm \<times> 'd, 's, 'r, 'x) group_commit" where
  "gc_step exec maxOps s (Submit st) =
     s\<lparr>gc_next := Suc (gc_next s), gc_queue := gc_queue s @ [(gc_next s, st)]\<rparr>"
| "gc_step exec maxOps s Raft_started = s\<lparr>gc_started := True\<rparr>"
| "gc_step exec maxOps s Receive =
     (case (gc_phase s, gc_queue s) of
        (Waiting, it # rest) \<Rightarrow> s\<lparr>gc_phase := Received it, gc_queue := rest\<rparr>
      | _ \<Rightarrow> s)"
| "gc_step exec maxOps s Check_queue =
     (case gc_phase s of
        Received it \<Rightarrow> (if gc_queue s = [] then submit_batch [it] s else s\<lparr>gc_phase := Collecting [it]\<rparr>)
      | _ \<Rightarrow> s)"
| "gc_step exec maxOps s Gather_next =
     (case (gc_phase s, gc_queue s) of
        (Collecting pending, it # rest) \<Rightarrow>
          let pending' = pending @ [it]; s' = s\<lparr>gc_queue := rest\<rparr>
          in if maxOps \<le> length pending' then submit_batch pending' s' else s'\<lparr>gc_phase := Collecting pending'\<rparr>
      | _ \<Rightarrow> s)"
| "gc_step exec maxOps s Window_over =
     (case gc_phase s of Collecting pending \<Rightarrow> submit_batch pending s | _ \<Rightarrow> s)"
| "gc_step exec maxOps s Close = s\<lparr>gc_closed := True\<rparr>"
| "gc_step exec maxOps s Halt =
     (if gc_closed s \<and> gc_phase s = Waiting then s\<lparr>gc_phase := Ended\<rparr> else s)"
| "gc_step exec maxOps s (Commit_entry clock) =
     (case commit_next exec clock (gc_db s) (gc_log s) of (db', les') \<Rightarrow> s\<lparr>gc_db := db', gc_log := les'\<rparr>)"
| "gc_step exec maxOps s (Tell n) =
     (case at_index (gc_log s) n of
        Some e \<Rightarrow>
          (case le_resp e of
             Some r \<Rightarrow>
               if le_told e then s
               else s\<lparr>gc_log := (gc_log s)[n := e\<lparr>le_told := True\<rparr>],
                      gc_replies := gc_replies s @ completeApply (le_items e) (Inr r)\<rparr>
           | None \<Rightarrow> s)
      | None \<Rightarrow> s)"
| "gc_step exec maxOps s (Lose n err) =
     (case at_index (gc_log s) n of
        Some e \<Rightarrow>
          if le_told e then s
          else s\<lparr>gc_log := (gc_log s)[n := e\<lparr>le_told := True\<rparr>],
                 gc_replies := gc_replies s @ completeApply (le_items e) (Inl err)\<rparr>
      | None \<Rightarrow> s)"
| "gc_step exec maxOps s (Discard n) =
     (case at_index (gc_log s) n of
        Some e \<Rightarrow>
          if le_told e \<and> le_resp e = None
          then s\<lparr>gc_log := take n (gc_log s) @ drop (Suc n) (gc_log s)\<rparr> else s
      | None \<Rightarrow> s)"

subsection \<open>Every caller is answered once, batches keep the order\<close>

fun phase_items :: "'s loop_phase \<Rightarrow> (nat \<times> 's) list" where
  "phase_items (Received it) = [it]"
| "phase_items (Collecting pending) = pending"
| "phase_items _ = []"

definition untold :: "('w, 's, 'r, 'x) log_entry list \<Rightarrow> (nat \<times> 's) list" where
  "untold les = concat (map le_items (filter (\<lambda>e. \<not> le_told e) les))"

text \<open>The callers not answered yet.\<close>

definition waiting_items :: "('w, 'db, 's, 'r, 'x) group_commit \<Rightarrow> (nat \<times> 's) list" where
  "waiting_items s = untold (gc_log s) @ phase_items (gc_phase s) @ gc_queue s"

definition pipeline :: "('w, 'db, 's, 'r, 'x) group_commit \<Rightarrow> (nat \<times> 's) list" where
  "pipeline s = concat (map le_items (gc_log s)) @ phase_items (gc_phase s) @ gc_queue s"

definition batch_ok :: "nat \<Rightarrow> (nat \<times> 's) list \<Rightarrow> bool" where
  "batch_ok maxOps items \<longleftrightarrow> items \<noteq> [] \<and> length items \<le> max 2 maxOps"

fun phase_ok :: "nat \<Rightarrow> 's loop_phase \<Rightarrow> bool" where
  "phase_ok maxOps (Collecting pending) = (pending \<noteq> [] \<and> length pending < max 2 maxOps)"
| "phase_ok maxOps _ = True"

definition callers_inv :: "nat \<Rightarrow> ('w, 'db, 's, 'r, 'x) group_commit \<Rightarrow> bool" where
  "callers_inv maxOps s \<longleftrightarrow>
     mset (map fst (gc_replies s)) + mset (map fst (waiting_items s)) = mset [0..<gc_next s] \<and>
     sorted_wrt (<) (map fst (pipeline s)) \<and> (\<forall>i \<in> fst ` set (pipeline s). i < gc_next s) \<and>
     phase_ok maxOps (gc_phase s) \<and> list_all (\<lambda>e. batch_ok maxOps (le_items e)) (gc_log s)"

lemma fail_all_fst [simp]: "map fst (fail_all items e) = map fst items"
  by (simp add: fail_all_def comp_def case_prod_beta)

lemma fst_numbered: "map (\<lambda>x. fst (snd x)) (enumerate n xs) = map fst xs"
  by (simp flip: map_map [unfolded comp_def, of fst snd])

lemma completeApply_fst [simp]: "map fst (completeApply items outcome) = map fst items"
  by (simp add: completeApply_def comp_def case_prod_beta fst_numbered split: sum.split fsm_response.split)

lemma reply_ids [simp]:
  "image_mset fst (mset (fail_all items e)) = image_mset fst (mset items)"
  "image_mset fst (mset (completeApply items outcome)) = image_mset fst (mset items)"
  by (simp_all flip: mset_map)

lemma untold_append [simp]: "untold (xs @ ys) = untold xs @ untold ys"
  by (simp add: untold_def)

lemma untold_Cons [simp]: "untold (e # les) = (if le_told e then [] else le_items e) @ untold les"
  by (simp add: untold_def)

lemma untold_Nil [simp]: "untold [] = []"
  by (simp add: untold_def)

text \<open>A log seen around one of its entries.\<close>

lemma at_index_split:
  assumes "at_index xs n = Some x"
  obtains as bs where "xs = as @ x # bs" "length as = n"
  using assms id_take_nth_drop [of n xs] by (auto simp: at_index_Some)

lemma commit_next_items:
  "map le_items (snd (commit_next exec clock db les)) = map le_items les \<and>
   map le_told (snd (commit_next exec clock db les)) = map le_told les"
  by (induction les) (auto split: prod.split)

lemma untold_cong:
  "map le_items les' = map le_items les \<Longrightarrow> map le_told les' = map le_told les \<Longrightarrow> untold les' = untold les"
proof (induction les arbitrary: les')
  case (Cons e les)
  then show ?case by (cases les') auto
qed simp

lemma callers_init: "callers_inv maxOps (gc_init db)"
  by (simp add: callers_inv_def gc_init_def waiting_items_def pipeline_def)

lemma callers_submit_batch:
  assumes "mset (map fst (gc_replies s)) + mset (map fst (untold (gc_log s) @ items @ gc_queue s)) = mset [0..<gc_next s]"
    and "sorted_wrt (<) (map fst (concat (map le_items (gc_log s)) @ items @ gc_queue s))"
    and "\<forall>i \<in> fst ` set (concat (map le_items (gc_log s)) @ items @ gc_queue s). i < gc_next s"
    and "batch_ok maxOps items" and "list_all (\<lambda>e. batch_ok maxOps (le_items e)) (gc_log s)"
  shows "callers_inv maxOps (submit_batch items s)"
  using assms by (auto simp: callers_inv_def submit_batch_def waiting_items_def pipeline_def ac_simps sorted_wrt_append)

lemma callers_tell:
  assumes "callers_inv maxOps s" and "at_index (gc_log s) n = Some e" and "\<not> le_told e"
  shows "callers_inv maxOps (s\<lparr>gc_log := (gc_log s)[n := e\<lparr>le_told := True\<rparr>],
    gc_replies := gc_replies s @ completeApply (le_items e) outcome\<rparr>)"
proof -
  obtain as bs where l: "gc_log s = as @ e # bs" "length as = n" using at_index_split [OF assms(2)] .
  have u: "(gc_log s)[n := e\<lparr>le_told := True\<rparr>] = as @ e\<lparr>le_told := True\<rparr> # bs" using l by (simp add: list_update_append)
  show ?thesis using assms(1,3) unfolding u
    by (simp add: callers_inv_def waiting_items_def pipeline_def l(1) ac_simps)
qed

lemma callers_step: "callers_inv maxOps s \<Longrightarrow> callers_inv maxOps (gc_step exec maxOps s ev)"
proof (cases ev)
  case (Submit st)
  assume "callers_inv maxOps s"
  then show ?thesis using Submit
    by (auto simp: callers_inv_def waiting_items_def pipeline_def sorted_wrt_append less_Suc_eq)
next
  case Receive
  assume "callers_inv maxOps s"
  then show ?thesis using Receive
    by (auto simp: callers_inv_def waiting_items_def pipeline_def add_mset_commute split: loop_phase.split list.split)
next
  case Check_queue
  assume s: "callers_inv maxOps s"
  show ?thesis
  proof (cases "gc_phase s")
    case (Received it)
    show ?thesis
    proof (cases "gc_queue s = []")
      case True
      have "callers_inv maxOps (submit_batch [it] s)"
        by (rule callers_submit_batch) (use s Received True in \<open>auto simp: callers_inv_def waiting_items_def pipeline_def batch_ok_def\<close>)
      then show ?thesis using Check_queue Received True by simp
    qed (use s Check_queue Received in \<open>auto simp: callers_inv_def waiting_items_def pipeline_def\<close>)
  qed (use s Check_queue in auto)
next
  case Gather_next
  assume s: "callers_inv maxOps s"
  show ?thesis
  proof (cases "\<exists>pending it rest. gc_phase s = Collecting pending \<and> gc_queue s = it # rest")
    case True
    then obtain pending it rest where p: "gc_phase s = Collecting pending" "gc_queue s = it # rest" by blast
    show ?thesis
    proof (cases "maxOps \<le> Suc (length pending)")
      case True
      have "callers_inv maxOps (submit_batch (pending @ [it]) (s\<lparr>gc_queue := rest\<rparr>))"
        by (rule callers_submit_batch) (use s p in \<open>auto simp: callers_inv_def waiting_items_def pipeline_def batch_ok_def\<close>)
      then show ?thesis using Gather_next p True by (simp add: Let_def)
    next
      case False
      then show ?thesis using s Gather_next p
        by (auto simp: callers_inv_def waiting_items_def pipeline_def Let_def)
    qed
  qed (use s Gather_next in \<open>auto split: loop_phase.split list.split\<close>)
next
  case Window_over
  assume s: "callers_inv maxOps s"
  show ?thesis
  proof (cases "gc_phase s")
    case (Collecting pending)
    have "callers_inv maxOps (submit_batch pending s)"
      by (rule callers_submit_batch) (use s Collecting in \<open>auto simp: callers_inv_def waiting_items_def pipeline_def batch_ok_def\<close>)
    then show ?thesis using Window_over Collecting by simp
  qed (use s Window_over in auto)
next
  case (Commit_entry clock)
  assume s: "callers_inv maxOps s"
  obtain db' les' where c: "commit_next exec clock (gc_db s) (gc_log s) = (db', les')" by fastforce
  then have i: "map le_items les' = map le_items (gc_log s)" "map le_told les' = map le_told (gc_log s)"
    using commit_next_items [of exec clock "gc_db s" "gc_log s"] by simp_all
  have "list_all (\<lambda>e. batch_ok maxOps (le_items e)) les' = list_all (batch_ok maxOps) (map le_items les')"
    by (simp add: list.pred_map comp_def)
  then show ?thesis using s Commit_entry c i untold_cong [OF i]
    by (simp add: callers_inv_def waiting_items_def pipeline_def list.pred_map comp_def)
next
  case (Tell n)
  assume s: "callers_inv maxOps s"
  then show ?thesis using Tell by (auto intro: callers_tell split: option.split)
next
  case (Lose n err)
  assume s: "callers_inv maxOps s"
  then show ?thesis using Lose by (auto intro: callers_tell split: option.split)
next
  case (Discard n)
  assume s: "callers_inv maxOps s"
  show ?thesis
  proof (cases "at_index (gc_log s) n")
    case (Some e)
    obtain as bs where l: "gc_log s = as @ e # bs" "length as = n" using at_index_split [OF Some] .
    have "take n (gc_log s) @ drop (Suc n) (gc_log s) = as @ bs" using l by auto
    then have "gc_step exec maxOps s (Discard n) =
        (if le_told e \<and> le_resp e = None then s\<lparr>gc_log := as @ bs\<rparr> else s)" by (simp add: Some)
    moreover have "callers_inv maxOps (s\<lparr>gc_log := as @ bs\<rparr>)" if "le_told e"
      using s that by (simp add: callers_inv_def waiting_items_def pipeline_def l(1) sorted_wrt_append ball_Un)
    ultimately show ?thesis using s Discard by simp
  qed (use s Discard in simp)
qed (auto simp: callers_inv_def waiting_items_def pipeline_def)

interpretation callers_machine: machine "gc_init db" "gc_step exec maxOps" "callers_inv maxOps"
  for db exec maxOps
  by unfold_locales (rule callers_init, rule callers_step)

text \<open>C16: a write to a shard group is answered once: in whatever way callers, the loop of the batcher, raft and the
  state machine interleave, each number handed out by \<open>submit\<close> is either answered, and then once, or still
  waits; entries, batch and queue together keep the order of the callers; and no entry is empty or
  larger than the configured number of statements (two, where that is one).\<close>

theorem writes_answered_once:
  "let s = run (gc_step exec maxOps) (gc_init db) es
   in mset (map fst (gc_replies s)) + mset (map fst (waiting_items s)) = mset [0..<gc_next s] \<and>
      sorted_wrt (<) (map fst (pipeline s)) \<and>
      list_all (\<lambda>e. le_items e \<noteq> [] \<and> length (le_items e) \<le> max 2 maxOps) (gc_log s)"
  using callers_machine.inv_reachable [of maxOps exec db es] by (simp only: Let_def callers_inv_def batch_ok_def)

subsection \<open>The log is the serial execution of the batches that succeed\<close>

lemma exec_all_append:
  "exec_all exec db (xs @ ys) =
   (case exec_all exec db xs of
      (db', Inl e) \<Rightarrow> (db', Inl e)
    | (db', Inr rs) \<Rightarrow>
        (case exec_all exec db' ys of (db'', Inl e) \<Rightarrow> (db'', Inl e) | (db'', Inr rs') \<Rightarrow> (db'', Inr (rs @ rs'))))"
  by (induction exec db xs rule: exec_all.induct) (auto split: sum.split prod.split)

lemma exec_all_length: "exec_all exec db sts = (db', Inr rs) \<Longrightarrow> length rs = length sts"
  by (induction exec db sts arbitrary: db' rs rule: exec_all.induct) (auto split: sum.splits prod.splits)

text \<open>A statement that leaves alone what a rollback does not restore: one that neither creates nor drops a table.\<close>

definition keeps_memory :: "('w, 'm, 'd, 's, 'x, 'r) executor \<Rightarrow> 's \<Rightarrow> bool" where
  "keeps_memory exec st \<longleftrightarrow> (\<forall>w db. fst (fst (exec w db st)) = fst db)"

lemma exec_all_keeps: "list_all (keeps_memory exec) (map snd sts) \<Longrightarrow> fst (fst (exec_all exec db sts)) = fst db"
proof (induction exec db sts rule: exec_all.induct)
  case (2 exec db w st sts)
  obtain db' q where r: "exec w db st = (db', q)" by fastforce
  have "keeps_memory exec st" using "2.prems" by simp
  then have "fst (fst (exec w db st)) = fst db" unfolding keeps_memory_def by blast
  then have m: "fst db' = fst db" by (simp add: r)
  show ?case
  proof (cases q)
    case (Inr y)
    have "fst (fst (exec_all exec db' sts)) = fst db'" using 2 r Inr by simp
    then show ?thesis using r m Inr by (auto split: prod.split sum.split)
  qed (simp add: r m)
qed simp

text \<open>What has happened to the data: the statements of the entries that were applied without an error, with
  the clock's readings and their results.\<close>

definition entry_history :: "('w, 's, 'r, 'x) log_entry \<Rightarrow> ((nat \<times> 'w \<times> 's) \<times> 'r) list" where
  "entry_history e =
     (case le_resp e of
        Some (Resp_results rs) \<Rightarrow> zip (zip (map fst (le_items e)) (zip (le_times e) (map snd (le_items e)))) rs
      | _ \<Rightarrow> [])"

definition gc_history :: "('w, 's, 'r, 'x) log_entry list \<Rightarrow> ((nat \<times> 'w \<times> 's) \<times> 'r) list" where
  "gc_history les = concat (map entry_history les)"

text \<open>An entry that, if it failed, has left nothing behind.\<close>

definition undone :: "('w, 'm, 'd, 's, 'x, 'r) executor \<Rightarrow> ('w, 's, 'r, 'x) log_entry \<Rightarrow> bool" where
  "undone exec e \<longleftrightarrow> (case le_resp e of Some (Resp_error x) \<Rightarrow> list_all (keeps_memory exec) (map snd (le_items e)) | _ \<Rightarrow> True)"

text \<open>An entry carries what the state machine answered; applied entries come before those that wait.\<close>

definition entry_ok :: "('w, 's, 'r, 'x) log_entry \<Rightarrow> bool" where
  "entry_ok e \<longleftrightarrow> le_items e \<noteq> [] \<and> le_resp e \<noteq> Some Resp_none \<and>
     (\<forall>rs. le_resp e = Some (Resp_results rs) \<longrightarrow> length rs = length (le_items e) \<and> length (le_times e) = length (le_items e))"

definition applied_first :: "('w, 's, 'r, 'x) log_entry list \<Rightarrow> bool" where
  "applied_first les \<longleftrightarrow> sorted_wrt (\<lambda>a b. le_resp b \<noteq> None \<longrightarrow> le_resp a \<noteq> None) les"

definition told_ok :: "((nat \<times> 'w \<times> 's) \<times> 'r) list \<Rightarrow> nat \<times> ('r, 'x) commit_reply \<Rightarrow> bool" where
  "told_ok h = (\<lambda>(i, r). case r of Result x \<Rightarrow> (\<exists>w st y. x = Some y \<and> ((i, w, st), y) \<in> set h) | Failed e \<Rightarrow> True)"

definition serial_inv ::
  "('w, 'm, 'd, 's, 'x, 'r) executor \<Rightarrow> 'm \<times> 'd \<Rightarrow> ('w, 'm \<times> 'd, 's, 'r, 'x) group_commit \<Rightarrow> bool" where
  "serial_inv exec db s \<longleftrightarrow>
     (list_all (undone exec) (gc_log s) \<longrightarrow>
        exec_all exec db (map (snd \<circ> fst) (gc_history (gc_log s))) = (gc_db s, Inr (map snd (gc_history (gc_log s))))) \<and>
     list_all entry_ok (gc_log s) \<and> applied_first (gc_log s) \<and>
     list_all (told_ok (gc_history (gc_log s))) (gc_replies s)"

lemma history_append [simp]: "gc_history (xs @ ys) = gc_history xs @ gc_history ys"
  by (simp add: gc_history_def)

lemma history_Cons [simp]: "gc_history (e # les) = entry_history e @ gc_history les"
  by (simp add: gc_history_def)

lemma history_Nil [simp]: "gc_history [] = []"
  by (simp add: gc_history_def)

lemma entry_history_None [simp]: "le_resp e = None \<Longrightarrow> entry_history e = []"
  by (simp add: entry_history_def)

lemma undone_waiting: "le_resp e = None \<Longrightarrow> undone exec e"
  by (simp add: undone_def)

lemma history_waiting: "list_all (\<lambda>e. le_resp e = None) les \<Longrightarrow> gc_history les = []"
  by (induction les) simp_all

text \<open>Where the next entry to be applied is.\<close>

lemma commit_next_split:
  assumes "applied_first les"
  shows "commit_next exec clock db les = (db, les) \<and> list_all (\<lambda>e. le_resp e \<noteq> None) les \<or>
    (\<exists>as e bs. les = as @ e # bs \<and> list_all (\<lambda>e. le_resp e \<noteq> None) as \<and> le_resp e = None \<and>
       list_all (\<lambda>e. le_resp e = None) bs \<and> commit_next exec clock db les =
         (let (db', r) = applyEntry exec clock db (map snd (le_items e))
          in (db', as @ e\<lparr>le_times := clock_readings clock (le_items e), le_resp := Some r\<rparr> # bs)))"
  using assms
proof (induction les)
  case (Cons e les)
  show ?case
  proof (cases "le_resp e")
    case None
    then have "list_all (\<lambda>e. le_resp e = None) les" using Cons.prems by (auto simp: applied_first_def list_all_iff)
    then show ?thesis using None by (intro disjI2 exI [of _ "[]"]) (auto split: prod.split)
  next
    case (Some r)
    have "applied_first les" using Cons.prems by (simp add: applied_first_def)
    from Cons.IH [OF this] show ?thesis
    proof (elim disjE exE conjE)
      fix as e' bs
      assume h: "les = as @ e' # bs" "list_all (\<lambda>e. le_resp e \<noteq> None) as" "le_resp e' = None" "list_all (\<lambda>e. le_resp e = None) bs"
        "commit_next exec clock db les =
          (let (db', r) = applyEntry exec clock db (map snd (le_items e'))
           in (db', as @ e'\<lparr>le_times := clock_readings clock (le_items e'), le_resp := Some r\<rparr> # bs))"
      then show ?thesis using Some by (intro disjI2 exI [of _ "e # as"]) (auto simp: Let_def split: prod.split)
    qed (use Some in auto)
  qed
qed simp

lemma length_readings [simp]: "length (clock_readings clock xs) = length xs"
  by (simp add: clock_readings_def)

lemma applyEntry_results:
  "items \<noteq> [] \<Longrightarrow> applyEntry exec clock db (map snd items) =
   (case exec_all exec db (zip (clock_readings clock items) (map snd items)) of
      (db', Inl e) \<Rightarrow> ((fst db', snd db), Resp_error e)
    | (db', Inr rs) \<Rightarrow> (db', Resp_results rs))"
  by (simp add: applyEntry_def updateBatch_def clock_readings_def split: sum.split prod.split)

lemma history_commands:
  assumes "length ws = length items" and "length rs = length items"
  shows "map (snd \<circ> fst) (zip (zip (map fst items) (zip ws (map snd items))) rs) = zip ws (map snd items)"
    and "map snd (zip (zip (map fst items) (zip ws (map snd items))) rs) = rs"
  using assms by (simp_all flip: map_map)

lemma told_ok_mono: "set h \<subseteq> set h' \<Longrightarrow> told_ok h p \<Longrightarrow> told_ok h' p"
  by (auto simp: told_ok_def split: prod.splits commit_reply.splits)

lemma replies_ok_mono: "set h \<subseteq> set h' \<Longrightarrow> list_all (told_ok h) ps \<Longrightarrow> list_all (told_ok h') ps"
  by (auto simp: list_all_iff intro: told_ok_mono)

lemma fail_all_ok: "list_all (told_ok h) (fail_all items e)"
  by (auto simp: list_all_iff fail_all_def told_ok_def)

lemma completeApply_ok:
  assumes "entry_ok e" and "le_resp e = Some r" and "set (entry_history e) \<subseteq> set h"
  shows "list_all (told_ok h) (completeApply (le_items e) (Inr r))"
proof (cases r)
  case (Resp_results rs)
  then have l: "length rs = length (le_items e)" "length (le_times e) = length (le_items e)"
    and h: "set (entry_history e) \<subseteq> set h" using assms by (simp_all add: entry_ok_def)
  have "((i, le_times e ! k, st), rs ! k) \<in> set h" if "k < length (le_items e)" "le_items e ! k = (i, st)" for k i st
  proof -
    have "((i, le_times e ! k, st), rs ! k) = entry_history e ! k" and "k < length (entry_history e)"
      using that l Resp_results assms(2) by (simp_all add: entry_history_def)
    then show ?thesis using h nth_mem by (metis subsetD)
  qed
  then show ?thesis using Resp_results l
    by (auto simp: completeApply_def list_all_iff told_ok_def in_set_enumerate_eq at_index_def) blast
qed (use assms in \<open>auto simp: completeApply_def entry_ok_def fail_all_ok\<close>)

lemma serial_same_log:
  "gc_log s' = gc_log s \<Longrightarrow> gc_db s' = gc_db s \<Longrightarrow> gc_replies s' = gc_replies s \<Longrightarrow> serial_inv exec db s' = serial_inv exec db s"
  by (simp add: serial_inv_def)

lemma serial_submit_batch: "items \<noteq> [] \<Longrightarrow> serial_inv exec db s \<Longrightarrow> serial_inv exec db (submit_batch items s)"
  by (simp add: serial_inv_def submit_batch_def fail_all_ok entry_ok_def applied_first_def sorted_wrt_append)

text \<open>The goroutine of an entry answers its callers; the entry itself stays.\<close>

lemma serial_told:
  assumes "serial_inv exec db s" and "at_index (gc_log s) n = Some e"
    and "list_all (told_ok (gc_history (gc_log s))) new"
  shows "serial_inv exec db (s\<lparr>gc_log := (gc_log s)[n := e\<lparr>le_told := True\<rparr>], gc_replies := gc_replies s @ new\<rparr>)"
proof -
  obtain as bs where l: "gc_log s = as @ e # bs" "length as = n" using at_index_split [OF assms(2)] .
  have u: "(gc_log s)[n := e\<lparr>le_told := True\<rparr>] = as @ e\<lparr>le_told := True\<rparr> # bs" using l by (simp add: list_update_append)
  have h: "entry_history (e\<lparr>le_told := True\<rparr>) = entry_history e" "entry_ok (e\<lparr>le_told := True\<rparr>) = entry_ok e"
    "undone exec (e\<lparr>le_told := True\<rparr>) = undone exec e"
    by (simp_all add: entry_history_def entry_ok_def undone_def split: option.split fsm_response.split)
  show ?thesis using assms(1,3) unfolding u
    by (simp add: serial_inv_def l(1) h applied_first_def sorted_wrt_append)
qed

lemma history_told: "at_index les n = Some e \<Longrightarrow> set (entry_history e) \<subseteq> set (gc_history les)"
  by (auto simp: gc_history_def at_index_Some intro!: bexI [of _ "les ! n"])

lemma serial_commit:
  assumes "serial_inv exec db s"
  shows "serial_inv exec db (gc_step exec maxOps s (Commit_entry clock))"
proof -
  have af: "applied_first (gc_log s)" using assms by (simp add: serial_inv_def)
  from commit_next_split [OF af, of exec clock "gc_db s"] show ?thesis
  proof (elim disjE exE conjE)
    fix as e bs
    assume l: "gc_log s = as @ e # bs" and a: "list_all (\<lambda>e. le_resp e \<noteq> None) as"
      and n: "le_resp e = None" "list_all (\<lambda>e. le_resp e = None) bs"
    let ?ws = "clock_readings clock (le_items e)"
    let ?sts = "zip ?ws (map snd (le_items e))"
    let ?e = "\<lambda>r. e\<lparr>le_times := ?ws, le_resp := Some r\<rparr>"
    assume c: "commit_next exec clock (gc_db s) (gc_log s) =
        (let (db', r) = applyEntry exec clock (gc_db s) (map snd (le_items e)) in (db', as @ ?e r # bs))"
    have ne: "le_items e \<noteq> []" using assms l by (simp add: serial_inv_def entry_ok_def)
    have o: "applied_first (as @ ?e r # bs)" for r
      using af n a by (simp add: l applied_first_def sorted_wrt_append list_all_iff)
    have un: "list_all (undone exec) (e # bs)" using n by (auto simp: list_all_iff undone_def)
    have ex: "list_all (undone exec) as \<Longrightarrow>
        exec_all exec db (map (snd \<circ> fst) (gc_history as)) = (gc_db s, Inr (map snd (gc_history as)))"
      and ok: "list_all entry_ok as" "list_all entry_ok bs" and rp: "list_all (told_ok (gc_history as)) (gc_replies s)"
      using assms n un history_waiting [OF n(2)] by (simp_all add: serial_inv_def l)
    obtain db' q where r: "exec_all exec (gc_db s) ?sts = (db', q)" by fastforce
    show ?thesis
    proof (cases q)
      case (Inl err)
      have "gc_step exec maxOps s (Commit_entry clock) =
          s\<lparr>gc_db := (fst db', snd (gc_db s)), gc_log := as @ ?e (Resp_error err) # bs\<rparr>"
        by (simp add: c applyEntry_results [OF ne] r Inl)
      moreover have "fst db' = fst (gc_db s)" if "list_all (keeps_memory exec) (map snd (le_items e))"
        using exec_all_keeps [of exec ?sts "gc_db s"] that by (simp add: r)
      ultimately show ?thesis using ex ok rp o ne history_waiting [OF n(2)]
        by (simp add: serial_inv_def entry_history_def entry_ok_def undone_def)
    next
      case (Inr rs)
      have l': "length rs = length (le_items e)" using exec_all_length [of exec "gc_db s" ?sts] r Inr by fastforce
      note z = history_commands [of ?ws "le_items e" rs, OF _ l']
      have "gc_step exec maxOps s (Commit_entry clock) = s\<lparr>gc_db := db', gc_log := as @ ?e (Resp_results rs) # bs\<rparr>"
        by (simp add: c applyEntry_results [OF ne] r Inr)
      moreover have "list_all (told_ok (gc_history as @ entry_history (?e (Resp_results rs)))) (gc_replies s)"
        by (rule replies_ok_mono [OF _ rp]) simp
      moreover have "list_all (undone exec) (as @ ?e (Resp_results rs) # bs) = list_all (undone exec) as" using un by (simp add: undone_def)
      ultimately show ?thesis using ex ok o ne l' z r Inr history_waiting [OF n(2)]
        by (simp add: serial_inv_def entry_history_def entry_ok_def exec_all_append)
    qed
  qed (use assms in \<open>simp add: serial_inv_def\<close>)
qed

lemma serial_step:
  assumes "callers_inv maxOps s" and "serial_inv exec db s"
  shows "serial_inv exec db (gc_step exec maxOps s ev)"
proof (cases ev)
  case Check_queue
  have "serial_inv exec db (s\<lparr>gc_phase := ph\<rparr>)" for ph using assms(2) by (simp add: serial_inv_def)
  then show ?thesis using Check_queue assms(2) by (auto intro!: serial_submit_batch split: loop_phase.split)
next
  case Gather_next
  have "serial_inv exec db (s\<lparr>gc_queue := q\<rparr>)" "serial_inv exec db (s\<lparr>gc_queue := q, gc_phase := ph\<rparr>)" for q ph
    using assms(2) by (simp_all add: serial_inv_def)
  then show ?thesis using Gather_next assms(2)
    by (auto simp: Let_def intro!: serial_submit_batch split: loop_phase.split list.split)
next
  case Window_over
  then show ?thesis using assms by (auto simp: callers_inv_def intro!: serial_submit_batch split: loop_phase.split)
next
  case (Commit_entry clock)
  then show ?thesis using serial_commit [OF assms(2)] by simp
next
  case (Tell n)
  show ?thesis
  proof (cases "at_index (gc_log s) n")
    case (Some e)
    have "entry_ok e" using assms(2) Some by (auto simp: serial_inv_def list_all_iff at_index_Some)
    then show ?thesis
      using Tell Some assms(2) serial_told [OF assms(2) Some] completeApply_ok [OF _ _ history_told [OF Some]]
      by (auto split: option.split)
  qed (use Tell assms in simp)
next
  case (Lose n err)
  then show ?thesis using assms(2) serial_told [OF assms(2)]
    by (auto simp: completeApply_def fail_all_ok split: option.split)
next
  case (Discard n)
  show ?thesis
  proof (cases "at_index (gc_log s) n")
    case (Some e)
    obtain as bs where l: "gc_log s = as @ e # bs" "length as = n" using at_index_split [OF Some] .
    have "take n (gc_log s) @ drop (Suc n) (gc_log s) = as @ bs" using l by auto
    then have "gc_step exec maxOps s (Discard n) =
        (if le_told e \<and> le_resp e = None then s\<lparr>gc_log := as @ bs\<rparr> else s)" by (simp add: Some)
    moreover have "serial_inv exec db (s\<lparr>gc_log := as @ bs\<rparr>)" if "le_resp e = None"
      using assms(2) that by (simp add: serial_inv_def l(1) applied_first_def sorted_wrt_append undone_waiting)
    ultimately show ?thesis using assms(2) Discard by simp
  qed (use Discard assms in simp)
qed (use assms in \<open>auto simp: serial_inv_def split: loop_phase.split list.split\<close>)

lemma serial_init: "serial_inv exec db (gc_init db)"
  by (simp add: serial_inv_def gc_init_def applied_first_def)

lemma serial_reachable: "serial_inv exec db (run (gc_step exec maxOps) (gc_init db) es)"
  by (rule callers_machine.run_preserves [where P = "serial_inv exec db", OF serial_step callers_init serial_init])

text \<open>C7: group commit refines one statement at a time. At any moment, if no entry that failed holds a statement that
  changes what the engine keeps in memory (it creates or drops no table), the engine is in the state that the
  statements of the succeeded entries leave when they run one after the other in the order of the
  log, each at the time it ran at, with the results that run gives: the statements of a failed entry, those before the
  one that failed included, have left nothing. And with no condition at all, a caller told of success is told the
  result its own statement had in a succeeded entry. (Where a failed entry does create or drop a table the
  first part is false of the code: \<open>failed_create_stays\<close>.)\<close>

theorem group_commit_serial:
  "let s = run (gc_step exec maxOps) (gc_init db) es; h = gc_history (gc_log s)
   in (list_all (undone exec) (gc_log s) \<longrightarrow>
         exec_all exec db (map (snd \<circ> fst) h) = (gc_db s, Inr (map snd h))) \<and>
      list_all (\<lambda>(i, r). case r of Result x \<Rightarrow> list_ex (\<lambda>((j, w, st), y). j = i \<and> x = Some y) h | Failed e \<Rightarrow> True) (gc_replies s)"
proof -
  let ?s = "run (gc_step exec maxOps) (gc_init db) es"
  have "serial_inv exec db ?s" by (rule serial_reachable)
  then show ?thesis
    by (auto simp: serial_inv_def Let_def list_all_iff list_ex_iff told_ok_def split: prod.splits commit_reply.splits) force+
qed

subsection \<open>The group comes to rest\<close>

text \<open>The steps of the loop, of raft and of the goroutines that do something.\<close>

fun gc_progress :: "('w, 'db, 's, 'r, 'x) group_commit \<Rightarrow> ('w, 's) gc_event \<Rightarrow> bool" where
  "gc_progress s Receive = (gc_phase s = Waiting \<and> gc_queue s \<noteq> [])"
| "gc_progress s Check_queue = (\<exists>it. gc_phase s = Received it)"
| "gc_progress s Gather_next = (\<exists>p. gc_phase s = Collecting p \<and> gc_queue s \<noteq> [])"
| "gc_progress s Window_over = (\<exists>p. gc_phase s = Collecting p)"
| "gc_progress s (Commit_entry clock) = list_ex (\<lambda>e. le_resp e = None) (gc_log s)"
| "gc_progress s (Tell n) = (\<exists>e. at_index (gc_log s) n = Some e \<and> le_resp e \<noteq> None \<and> \<not> le_told e)"
| "gc_progress s _ = False"

fun all_progress ::
  "('w, 'm, 'd, 's, 'x, 'r) executor \<Rightarrow> nat \<Rightarrow> ('w, 'm \<times> 'd, 's, 'r, 'x) group_commit \<Rightarrow> ('w, 's) gc_event list \<Rightarrow> bool" where
  "all_progress exec maxOps s [] = True"
| "all_progress exec maxOps s (e # es) = (gc_progress s e \<and> all_progress exec maxOps (gc_step exec maxOps s e) es)"

definition entry_work :: "('w, 's, 'r, 'x) log_entry \<Rightarrow> nat" where
  "entry_work e = (if le_resp e = None then 1 else 0) + (if le_told e then 0 else 1)"

fun phase_work :: "'s loop_phase \<Rightarrow> nat" where
  "phase_work (Received it) = 4"
| "phase_work (Collecting pending) = 3"
| "phase_work _ = 0"

definition gc_work :: "('w, 'db, 's, 'r, 'x) group_commit \<Rightarrow> nat" where
  "gc_work s = 5 * length (gc_queue s) + phase_work (gc_phase s) + sum_list (map entry_work (gc_log s))"

lemma work_submit_batch:
  "gc_work (submit_batch items s) \<le> 5 * length (gc_queue s) + 2 + sum_list (map entry_work (gc_log s))"
  by (simp add: gc_work_def submit_batch_def entry_work_def)

lemma work_commit:
  "list_ex (\<lambda>e. le_resp e = None) les \<Longrightarrow>
   sum_list (map entry_work (snd (commit_next exec clock db les))) < sum_list (map entry_work les)"
  by (induction les) (auto simp: entry_work_def split: prod.split)

lemma progress_works: "gc_progress s ev \<Longrightarrow> gc_work (gc_step exec maxOps s ev) < gc_work s"
proof (cases ev)
  case Check_queue
  assume "gc_progress s ev"
  then obtain it where "gc_phase s = Received it" using Check_queue by auto
  then show ?thesis using Check_queue work_submit_batch [of "[it]" s] by (auto simp: gc_work_def)
next
  case Gather_next
  assume "gc_progress s ev"
  then obtain p it rest where p: "gc_phase s = Collecting p" "gc_queue s = it # rest"
    using Gather_next by (auto simp: neq_Nil_conv)
  then show ?thesis using Gather_next work_submit_batch [of "p @ [it]" "s\<lparr>gc_queue := rest\<rparr>"]
    by (auto simp: gc_work_def Let_def)
next
  case Window_over
  assume "gc_progress s ev"
  then obtain p where "gc_phase s = Collecting p" using Window_over by auto
  then show ?thesis using Window_over work_submit_batch [of p s] by (auto simp: gc_work_def)
next
  case (Commit_entry clock)
  assume "gc_progress s ev"
  then have "list_ex (\<lambda>e. le_resp e = None) (gc_log s)" using Commit_entry by simp
  from work_commit [OF this, of exec clock "gc_db s"] show ?thesis using Commit_entry
    by (auto simp: gc_work_def split: prod.split)
next
  case (Tell n)
  assume "gc_progress s ev"
  then obtain e r where e: "at_index (gc_log s) n = Some e" "le_resp e = Some r" "\<not> le_told e" using Tell by auto
  obtain as bs where l: "gc_log s = as @ e # bs" "length as = n" using at_index_split [OF e(1)] .
  have "(gc_log s)[n := e\<lparr>le_told := True\<rparr>] = as @ e\<lparr>le_told := True\<rparr> # bs" using l by (simp add: list_update_append)
  then show ?thesis using Tell e by (simp add: gc_work_def entry_work_def l(1))
qed (auto simp: gc_work_def neq_Nil_conv)

lemma all_progress_bound:
  "all_progress exec maxOps s as \<Longrightarrow> length as + gc_work (run (gc_step exec maxOps) s as) \<le> gc_work s"
proof (induction as arbitrary: s)
  case (Cons e as)
  then have "gc_progress s e" "all_progress exec maxOps (gc_step exec maxOps s e) as" by simp_all
  then show ?case using progress_works [of s e exec maxOps] Cons.IH [of "gc_step exec maxOps s e"] by simp
qed simp

lemma untold_entry:
  assumes "untold les \<noteq> []"
  shows "list_ex (\<lambda>e. le_resp e = None) les \<or> (\<exists>n e. at_index les n = Some e \<and> le_resp e \<noteq> None \<and> \<not> le_told e)"
proof -
  obtain e where e: "e \<in> set les" "\<not> le_told e" using assms by (auto simp: untold_def)
  then obtain n where "at_index les n = Some e" by (auto simp: in_set_conv_nth at_index_Some)
  then show ?thesis using e by (cases "le_resp e = None") (auto simp: list_ex_iff)
qed

lemma work_left:
  assumes "waiting_items s \<noteq> []" and "gc_phase s \<noteq> Ended"
  shows "\<exists>e. gc_progress s e"
proof (cases "untold (gc_log s) = []")
  case False
  from untold_entry [OF this] show ?thesis
  proof
    assume "list_ex (\<lambda>e. le_resp e = None) (gc_log s)"
    then have "gc_progress s (Commit_entry clock)" for clock by (simp only: gc_progress.simps)
    then show ?thesis by blast
  next
    assume "\<exists>n e. at_index (gc_log s) n = Some e \<and> le_resp e \<noteq> None \<and> \<not> le_told e"
    then obtain n where "gc_progress s (Tell n)" by (simp only: gc_progress.simps) blast
    then show ?thesis ..
  qed
next
  case True
  then have "phase_items (gc_phase s) @ gc_queue s \<noteq> []" using assms(1) by (simp add: waiting_items_def)
  then show ?thesis using assms(2)
  proof (cases "gc_phase s")
    case Waiting
    then have "gc_progress s Receive" using \<open>phase_items (gc_phase s) @ gc_queue s \<noteq> []\<close> by simp
    then show ?thesis ..
  next
    case (Received it)
    then have "gc_progress s Check_queue" by simp
    then show ?thesis ..
  next
    case (Collecting p)
    then have "gc_progress s Window_over" by simp
    then show ?thesis ..
  qed simp
qed

text \<open>C19: no write hangs in a running group: after any run, the steps of the loop, raft and the waiting
  goroutines are at most five for each write queued and four for the others, in whatever order they come;
  and until every caller is answered, or the loop has ended, one of them can be taken.\<close>

theorem writes_get_answered:
  assumes "all_progress exec maxOps (run (gc_step exec maxOps) (gc_init db) es) as"
  shows "let s = run (gc_step exec maxOps) (gc_init db) es; s' = run (gc_step exec maxOps) s as
    in length as \<le> gc_work s \<and> (waiting_items s' = [] \<or> gc_phase s' = Ended \<or> (\<exists>e. gc_progress s' e))"
  using all_progress_bound [OF assms] work_left [of "run (gc_step exec maxOps) (run (gc_step exec maxOps) (gc_init db) es) as"]
  by (auto simp: Let_def)

text \<open>Once the loop has ended nothing leaves the queue: a caller of \<open>submit\<close> then waits for ever.\<close>

lemma ended_stays:
  "gc_phase s = Ended \<Longrightarrow>
   gc_phase (run (gc_step exec maxOps) s es) = Ended \<and> (\<exists>new. gc_queue (run (gc_step exec maxOps) s es) = gc_queue s @ new)"
proof (induction es arbitrary: s)
  case (Cons e es)
  have "gc_phase (gc_step exec maxOps s e) = Ended \<and> (\<exists>new. gc_queue (gc_step exec maxOps s e) = gc_queue s @ new)"
    using Cons.prems by (cases e) (auto split: option.split prod.split)
  then show ?case using Cons.IH [of "gc_step exec maxOps s e"] by auto
qed simp

subsection \<open>Key-value writes through a group\<close>

text \<open>
  The memory of an engine is the map of its tables, with the engine clause of each; its
  stores hold the schemas, in their encoded form, and the rows.
\<close>

datatype exec_error = Storage_error engine_error | Already_exists string

type_synonym kv_memory = "string \<Rightarrow> string option"
type_synonym kv_data = "(string \<Rightarrow> string option) \<times> byte_store"

text \<open>\<open>createTableEngine\<close>, for a table whose store can be opened and whose definition is encoded as \<open>def\<close>.\<close>

definition createTableEngine :: "string \<Rightarrow> string \<Rightarrow> string \<Rightarrow> kv_memory \<times> kv_data \<Rightarrow> (kv_memory \<times> kv_data) \<times> (exec_error + unit)" where
  "createTableEngine name engine def =
     (\<lambda>(m, sch, st).
        if m name \<noteq> None then ((m, sch, st), Inl (Already_exists name))
        else ((m(name \<mapsto> engine), sch(name \<mapsto> def), st), Inr ()))"

text \<open>
  \<open>Executor.Execute\<close> on the two writes of the KV area and on \<open>CREATE TABLE\<close> (\<open>sql/exec.go\<close>): the type of the result.
  These statements read no clock.
\<close>

datatype kv_write = Put_write string string string | Delete_write string string | Create_write string string string

fun exec_kv :: "'w \<Rightarrow> kv_memory \<times> kv_data \<Rightarrow> kv_write \<Rightarrow> (kv_memory \<times> kv_data) \<times> (exec_error + string)" where
  "exec_kv w (m, sch, st) (Put_write table key v) =
     (case KVPut table key v \<lparr>en_tables = m, en_store = st\<rparr> of
        Inl e \<Rightarrow> ((m, sch, st), Inl (Storage_error e))
      | Inr en \<Rightarrow> ((en_tables en, sch, en_store en), Inr ''kv_put''))"
| "exec_kv w (m, sch, st) (Delete_write table key) =
     (case KVDelete table key \<lparr>en_tables = m, en_store = st\<rparr> of
        Inl e \<Rightarrow> ((m, sch, st), Inl (Storage_error e))
      | Inr en \<Rightarrow> ((en_tables en, sch, en_store en), Inr ''kv_delete''))"
| "exec_kv w db (Create_write table engine def) =
     (case createTableEngine table engine def db of
        (db', Inl e) \<Rightarrow> (db', Inl e)
      | (db', Inr u) \<Rightarrow> (db', Inr ''create_table''))"

lemma kv_keeps_memory: "keeps_memory exec_kv (Put_write t k v)" "keeps_memory exec_kv (Delete_write t k)"
  by (auto simp: keeps_memory_def KVPut_def KVDelete_def split: option.split)

text \<open>One write alone in an idle group: the engine and the answer are those of the operation, but for what a failure
  has changed in memory.\<close>

lemma single_write:
  "let s = run (gc_step exec maxOps) (gc_init db) [Raft_started, Submit st, Receive, Check_queue, Commit_entry clock, Tell 0]
   in case exec (clock 0) db st of
        (db', Inl e) \<Rightarrow> gc_db s = (fst db', snd db) \<and> gc_replies s = [(0, Failed (Statement_error e))]
      | (db', Inr r) \<Rightarrow> gc_db s = db' \<and> gc_replies s = [(0, Result (Some r))]"
  by (simp add: gc_init_def submit_batch_def applyEntry_def clock_readings_def updateBatch_def completeApply_def fail_all_def
      split: sum.split prod.split)

text \<open>Two callers whose statements fall into one batch of one group.\<close>

definition two_callers :: "kv_write \<Rightarrow> kv_write \<Rightarrow> (unit, kv_write) gc_event list" where
  "two_callers a b = [Raft_started, Submit a, Receive, Submit b, Check_queue, Gather_next, Window_over,
     Commit_entry (\<lambda>_. ()), Tell 0]"

definition t_engine :: "kv_memory \<times> kv_data" where
  "t_engine = ([''t'' \<mapsto> ''KV''], [''t'' \<mapsto> ''KV''], [])"

lemmas commit_defs = two_callers_def gc_init_def t_engine_def submit_batch_def applyEntry_def clock_readings_def updateBatch_def
  completeApply_def fail_all_def KVPut_def kv_guard_def createTableEngine_def Let_def

text \<open>
  The second statement names a table that does not exist, and the
  first, which alone succeeds, is rolled back and told the error of the other.
\<close>

lemma bad_statement_fails_batch:
  "let s = run (gc_step exec_kv 4096) (gc_init t_engine) (two_callers (Put_write ''t'' ''a'' ''1'') (Put_write ''none'' ''b'' ''2''))
   in gc_db s = t_engine \<and>
      gc_replies s = [(0, Failed (Statement_error (Storage_error (Unknown_table ''none'')))),
        (1, Failed (Statement_error (Storage_error (Unknown_table ''none''))))] \<and>
      (\<exists>db. exec_kv () t_engine (Put_write ''t'' ''a'' ''1'') = (db, Inr ''kv_put''))"
  by (simp add: commit_defs)

text \<open>
  A \<open>CREATE TABLE\<close> that shares its batch with that statement is told to have failed, and its schema is rolled back; but
  the table stays in memory, and creating it again is refused because it exists.
\<close>

lemma failed_create_stays:
  "let s = run (gc_step exec_kv 4096) (gc_init t_engine) (two_callers (Create_write ''u'' ''KV'' ''...'') (Put_write ''none'' ''b'' ''2''))
   in gc_replies s = [(0, Failed (Statement_error (Storage_error (Unknown_table ''none'')))),
        (1, Failed (Statement_error (Storage_error (Unknown_table ''none''))))] \<and>
      snd (gc_db s) = snd t_engine \<and> fst (gc_db s) ''u'' = Some ''KV'' \<and>
      snd (exec_kv () (gc_db s) (Create_write ''u'' ''KV'' ''...'')) = Inl (Already_exists ''u'')"
  by (simp add: commit_defs)

text \<open>A failed batch and then one write that succeeds: its caller is told of success, and the state is that of the write alone.\<close>

definition third_write :: "(unit, kv_write) gc_event list" where
  "third_write = [Submit (Put_write ''t'' ''c'' ''3''), Receive, Check_queue, Commit_entry (\<lambda>_. ()), Tell 1]"

theorem group_commit_serial_witness:
  "let s = run (gc_step exec_kv 4096) (gc_init t_engine)
       (two_callers (Put_write ''t'' ''a'' ''1'') (Put_write ''none'' ''b'' ''2'') @ third_write)
   in gc_db s = fst (exec_kv () t_engine (Put_write ''t'' ''c'' ''3'')) \<and> gc_replies s ! 2 = (2, Result (Some ''kv_put''))"
proof -
  let ?s = "run (gc_step exec_kv 4096) (gc_init t_engine)
      (two_callers (Put_write ''t'' ''a'' ''1'') (Put_write ''none'' ''b'' ''2'') @ third_write)"
  have h: "gc_history (gc_log ?s) = [((2, (), Put_write ''t'' ''c'' ''3''), ''kv_put'')]"
    and r: "gc_replies ?s ! 2 = (2, Result (Some ''kv_put''))" and u: "list_all (undone exec_kv) (gc_log ?s)"
    by (simp_all add: commit_defs third_write_def entry_history_def undone_def kv_keeps_memory)
  have "exec_all exec_kv t_engine [((), Put_write ''t'' ''c'' ''3'')] = (gc_db ?s, Inr [''kv_put''])"
    using group_commit_serial [of exec_kv 4096 t_engine
        "two_callers (Put_write ''t'' ''a'' ''1'') (Put_write ''none'' ''b'' ''2'') @ third_write"] u
    by (simp only: Let_def h) simp
  then show ?thesis using r by (simp add: Let_def split: prod.splits sum.splits)
qed

text \<open>With the smallest batch size that can be configured a batch still has two statements.\<close>

lemma batch_of_two:
  "map (\<lambda>e. length (le_items e)) (gc_log (run (gc_step exec 1) (gc_init db)
     [Raft_started, Submit a, Receive, Submit b, Check_queue, Gather_next])) = [2]"
  by (simp add: gc_init_def submit_batch_def Let_def)

theorem writes_get_answered_witness:
  "let s = run (gc_step exec_kv 4096) (gc_init t_engine) [Raft_started, Submit (Put_write ''t'' ''a'' ''1''), Receive];
       s' = run (gc_step exec_kv 4096) s [Check_queue, Commit_entry (\<lambda>_. ()), Tell 0]
   in gc_work s = 4 \<and> (waiting_items s' = [] \<or> gc_phase s' = Ended \<or> (\<exists>e. gc_progress s' e))"
proof -
  have "all_progress exec_kv 4096
      (run (gc_step exec_kv 4096) (gc_init t_engine) [Raft_started, Submit (Put_write ''t'' ''a'' ''1''), Receive])
      [Check_queue, Commit_entry (\<lambda>_. ()), Tell 0]"
    by (simp add: gc_init_def t_engine_def submit_batch_def applyEntry_def clock_readings_def updateBatch_def KVPut_def kv_guard_def Let_def)
  from writes_get_answered [OF this] show ?thesis
    by (simp add: Let_def gc_work_def gc_init_def del: gc_progress.simps)
qed

end
