(* ===== verification/RowRoute.thy ===== *)
theory RowRoute
  imports SqlValues SplitChain "HOL-Library.Multiset"
begin

section \<open>Rows and the shards they belong to (\<open>shard/router.go\<close>, \<open>sql/exec.go\<close>)\<close>

text \<open>
  \<open>INSERT\<close>, \<open>UPDATE\<close> and \<open>DELETE\<close> on a sharded table. The router computes the encoded key of each row of an
  insert and sends every shard one batch; a shard evaluates the rows again and stores them under the
  key it computes. An update or a delete whose condition fixes the primary key goes to one shard,
  any other to all of them. The catalog stays the same while one statement is routed; what a shard
  answers is a parameter.
\<close>

subsection \<open>Keys of rows\<close>

definition type_named :: "string \<Rightarrow> sql_type" where
  "type_named n =
     (if n = ''int64'' then TInt else if n = ''float64'' then TFloat else if n = ''string'' then TString
      else if n = ''bool'' then TBool else if n = ''timestamp'' then TTimestamp else TNull)"

definition column_type :: "table_schema \<Rightarrow> string \<Rightarrow> sql_type" where
  "column_type sc name = type_named (colTypeOf (sc_columns sc) name)"

text \<open>\<open>fromSQLValue\<close>: a time in microseconds; a null has no type left and becomes an empty text.\<close>

fun sql_key :: "sql_value \<Rightarrow> key_value" where
  "sql_key VNull = KString []"
| "sql_key (VInt i) = KInt i"
| "sql_key (VFloat f) = KFloat f"
| "sql_key (VString s) = KString s"
| "sql_key (VBool b) = KBool b"
| "sql_key (VTime t) = KTime (word_of_int (fst t div 1000))"

definition EncodePK :: "sql_value list \<Rightarrow> string" where
  "EncodePK vs = encodeKey (map sql_key vs)"

text \<open>The value of a column that is not given: of the router and of the executor.\<close>

fun zeroForType :: "go_lib \<Rightarrow> sql_type \<Rightarrow> sql_value" where
  "zeroForType L TInt = VInt 0"
| "zeroForType L TFloat = VFloat 0"
| "zeroForType L TString = VString []"
| "zeroForType L TBool = VBool False"
| "zeroForType L TTimestamp = VTime (0, gl_zone L 0)"
| "zeroForType L TNull = VNull"

fun zeroValue :: "sql_type \<Rightarrow> sql_value" where
  "zeroValue TInt = VInt 0"
| "zeroValue TFloat = VFloat 0"
| "zeroValue TString = VString []"
| "zeroValue TBool = VBool False"
| "zeroValue TTimestamp = VNull"
| "zeroValue TNull = VNull"

text \<open>Where a column stands in a row: the columns of the statement, or those of the table; the last of a name counts.\<close>

definition col_names :: "table_schema \<Rightarrow> string list \<Rightarrow> string list" where
  "col_names sc cols = (if cols = [] then map fst (sc_columns sc) else cols)"

definition col_index :: "string list \<Rightarrow> string \<Rightarrow> nat option" where
  "col_index names = map_of (rev (zip names [0..<length names]))"

definition row_value :: "go_lib \<Rightarrow> int \<Rightarrow> expr list \<Rightarrow> nat \<Rightarrow> sql_type \<Rightarrow> sql_value go_outcome" where
  "row_value L now row i ty =
     (if i < length row then and_then (eval L now Map.empty (row ! i)) (\<lambda>v. convert_value L v ty) else Panic)"

definition pkKeyForRow :: "go_lib \<Rightarrow> int \<Rightarrow> table_schema \<Rightarrow> string list \<Rightarrow> expr list \<Rightarrow> string go_outcome" where
  "pkKeyForRow L now sc cols row =
     and_then
       (all_of (\<lambda>p. case col_index (col_names sc cols) p of
            None \<Rightarrow> Ret (zeroForType L (column_type sc p))
          | Some i \<Rightarrow> row_value L now row i (column_type sc p)) (sc_pk sc))
       (\<lambda>vs. Ret (EncodePK vs))"

subsection \<open>The batches of an insert\<close>

type_synonym row_batch = "shard_spec \<times> expr list list"

fun add_row :: "shard_spec \<Rightarrow> expr list \<Rightarrow> row_batch list \<Rightarrow> row_batch list" where
  "add_row spec row [] = [(spec, [row])]"
| "add_row spec row ((s, rows) # bs) =
     (if s = spec then (s, rows @ [row]) # bs else (s, rows) # add_row spec row bs)"

fun route_rows ::
  "(expr list \<Rightarrow> shard_spec go_outcome) \<Rightarrow> expr list list \<Rightarrow> row_batch list \<Rightarrow> row_batch list go_outcome" where
  "route_rows owner [] bs = Ret bs"
| "route_rows owner (row # rows) bs = and_then (owner row) (\<lambda>spec. route_rows owner rows (add_row spec row bs))"

definition row_owner ::
  "go_lib \<Rightarrow> int \<Rightarrow> catalog \<Rightarrow> string \<Rightarrow> table_schema \<Rightarrow> string list \<Rightarrow> expr list \<Rightarrow> shard_spec go_outcome" where
  "row_owner L now cat table sc cols row =
     and_then (pkKeyForRow L now sc cols row)
       (\<lambda>key. case owningShard cat table key of None \<Rightarrow> Err (Nobody_owns table) | Some spec \<Rightarrow> Ret spec)"

definition insert_batches ::
  "go_lib \<Rightarrow> int \<Rightarrow> catalog \<Rightarrow> string \<Rightarrow> string list \<Rightarrow> expr list list \<Rightarrow> row_batch list go_outcome" where
  "insert_batches L now cat table cols rows =
     (case ct_tables cat table of
        None \<Rightarrow> Err (Table_not_found table)
      | Some ts \<Rightarrow> route_rows (row_owner L now cat table (ts_schema ts) cols) rows [])"

text \<open>The answers of the shards in the order they arrive: the first error is kept, the counts are added.\<close>

datatype shard_answer = Unreached string | Refused string | Affected "64 word option"

fun gather_answers :: "64 word \<times> string option \<Rightarrow> shard_answer list \<Rightarrow> 64 word \<times> string option" where
  "gather_answers acc [] = acc"
| "gather_answers (n, err) (Affected m # as) =
     gather_answers (n + (case m of None \<Rightarrow> 0 | Some k \<Rightarrow> k), err) as"
| "gather_answers (n, err) (Unreached e # as) = gather_answers (n, case err of None \<Rightarrow> Some e | _ \<Rightarrow> err) as"
| "gather_answers (n, err) (Refused e # as) = gather_answers (n, case err of None \<Rightarrow> Some e | _ \<Rightarrow> err) as"

definition insert_result :: "shard_answer list \<Rightarrow> string + 64 word" where
  "insert_result as = (case gather_answers (0, None) as of (n, Some e) \<Rightarrow> Inl e | (n, None) \<Rightarrow> Inr n)"

subsection \<open>What the shard stores\<close>

text \<open>A row of \<open>Executor.execInsert\<close> and its value for one column; \<open>nn\<close> are the columns that are not null.\<close>

definition insert_cell :: "go_lib \<Rightarrow> int \<Rightarrow> string list \<Rightarrow> string list \<Rightarrow> expr list \<Rightarrow> string \<times> string \<Rightarrow> (string \<times> sql_value) go_outcome" where
  "insert_cell L now nn names row = (\<lambda>(c, ty).
     case col_index names c of
       None \<Rightarrow> Ret (c, zeroValue (type_named ty))
     | Some i \<Rightarrow> and_then (row_value L now row i (type_named ty))
         (\<lambda>v. if c \<in> set nn \<and> v = VNull then Err (Null_in c) else Ret (c, v)))"

definition insert_row ::
  "go_lib \<Rightarrow> int \<Rightarrow> table_schema \<Rightarrow> string list \<Rightarrow> string list \<Rightarrow> expr list \<Rightarrow> row_context go_outcome" where
  "insert_row L now sc nn cols row =
     (let names = col_names sc cols
      in if length row < length (remdups names) then Err Few_values
         else and_then
           (all_of (insert_cell L now nn names row) (sc_columns sc))
           (\<lambda>vs. Ret (map_of vs)))"

text \<open>What is read back: times have lost what is below a microsecond and are local.\<close>

definition stored :: "go_lib \<Rightarrow> sql_value \<Rightarrow> sql_value" where
  "stored L v =
     (case v of VTime t \<Rightarrow> (let us = sint (word_of_int (fst t div 1000) :: 64 word) in VTime (us * 1000, gl_zone L (us * 1000)))
      | _ \<Rightarrow> v)"

definition row_key :: "table_schema \<Rightarrow> row_context \<Rightarrow> string" where
  "row_key sc ctx = EncodePK (map (\<lambda>p. case ctx p of None \<Rightarrow> VNull | Some v \<Rightarrow> v) (sc_pk sc))"

subsection \<open>Updates and deletes\<close>

text \<open>
  The conjuncts of a condition that fix a column; \<open>None\<close> where the condition has another form. A column
  on the left whose other side is no constant gives the right side a try.
\<close>

fun pin_right :: "go_lib \<Rightarrow> int \<Rightarrow> expr \<Rightarrow> expr \<Rightarrow> row_context \<Rightarrow> row_context option go_outcome" where
  "pin_right L now l (Ident n) found =
     (case eval L now Map.empty l of Ret v \<Rightarrow> Ret (Some (found(n \<mapsto> v))) | Err e \<Rightarrow> Ret None | Panic \<Rightarrow> Panic)"
| "pin_right L now l r found = Ret None"

fun pin_left :: "go_lib \<Rightarrow> int \<Rightarrow> expr \<Rightarrow> expr \<Rightarrow> row_context \<Rightarrow> row_context option go_outcome" where
  "pin_left L now (Ident n) r found =
     (case eval L now Map.empty r of
        Ret v \<Rightarrow> Ret (Some (found(n \<mapsto> v))) | Err e \<Rightarrow> pin_right L now (Ident n) r found | Panic \<Rightarrow> Panic)"
| "pin_left L now l r found = pin_right L now l r found"

fun pin_walk :: "go_lib \<Rightarrow> int \<Rightarrow> expr \<Rightarrow> row_context \<Rightarrow> row_context option go_outcome" where
  "pin_walk L now (BinaryOp op l r) found =
     (if op = ''AND'' then
        and_then (pin_walk L now l found) (\<lambda>m. case m of None \<Rightarrow> Ret None | Some f \<Rightarrow> pin_walk L now r f)
      else if op = ''='' then pin_left L now l r found
      else Ret None)"
| "pin_walk L now e found = Ret None"

text \<open>The values the primary key is fixed to; one that does not convert fixes nothing.\<close>

fun pin_values :: "go_lib \<Rightarrow> table_schema \<Rightarrow> row_context \<Rightarrow> string list \<Rightarrow> sql_value list option" where
  "pin_values L sc found [] = Some []"
| "pin_values L sc found (p # ps) =
     (case found p of
        None \<Rightarrow> None
      | Some v \<Rightarrow>
          (case convert_value L v (column_type sc p) of
             Ret k \<Rightarrow> map_option ((#) k) (pin_values L sc found ps)
           | _ \<Rightarrow> None))"

definition pkKeyFromWhere :: "go_lib \<Rightarrow> int \<Rightarrow> table_schema \<Rightarrow> expr option \<Rightarrow> string option go_outcome" where
  "pkKeyFromWhere L now sc cond =
     (case cond of
        None \<Rightarrow> Ret None
      | Some e \<Rightarrow>
          if sc_pk sc = [] then Ret None
          else and_then (pin_walk L now e Map.empty)
            (\<lambda>m. Ret (case m of None \<Rightarrow> None | Some f \<Rightarrow> map_option EncodePK (pin_values L sc f (sc_pk sc)))))"

definition write_targets ::
  "go_lib \<Rightarrow> int \<Rightarrow> catalog \<Rightarrow> string \<Rightarrow> expr option \<Rightarrow> shard_spec list go_outcome" where
  "write_targets L now cat table cond =
     (case ct_tables cat table of
        None \<Rightarrow> Err (Table_not_found table)
      | Some ts \<Rightarrow>
          and_then (pkKeyFromWhere L now (ts_schema ts) cond)
            (\<lambda>k. case k of
               None \<Rightarrow> Ret (ts_shards ts)
             | Some key \<Rightarrow>
                 (case owningShard cat table key of None \<Rightarrow> Err (Table_not_found table) | Some spec \<Rightarrow> Ret [spec])))"

text \<open>The targets one after the other, up to the first that fails.\<close>

fun write_result :: "64 word \<Rightarrow> shard_answer list \<Rightarrow> string + 64 word" where
  "write_result n [] = Inr n"
| "write_result n (Affected m # as) = write_result (n + (case m of None \<Rightarrow> 0 | Some k \<Rightarrow> k)) as"
| "write_result n (Unreached e # as) = Inl e"
| "write_result n (Refused e # as) = Inl e"

text \<open>The rows an executor picks with a condition (\<open>execUpdateScan\<close>, \<open>execDelete\<close>).\<close>

definition selects :: "go_lib \<Rightarrow> int \<Rightarrow> row_context \<Rightarrow> expr option \<Rightarrow> bool" where
  "selects L now ctx cond =
     (case cond of
        None \<Rightarrow> True
      | Some e \<Rightarrow> (case eval L now ctx e of Ret v \<Rightarrow> boolOf v = Some True | _ \<Rightarrow> False))"

subsection \<open>The batches\<close>

lemma add_row_map_of:
  "map_of (add_row spec row bs) = (map_of bs)(spec \<mapsto> (case map_of bs spec of None \<Rightarrow> [] | Some rs \<Rightarrow> rs) @ [row])"
  by (induction bs) (auto simp: fun_eq_iff)

lemma add_row_fst: "fst ` set (add_row spec row bs) = insert spec (fst ` set bs)"
proof (induction spec row bs rule: add_row.induct)
  case (2 spec row s rows bs)
  then show ?case by (cases "s = spec") (simp_all add: insert_commute)
qed simp

lemma add_row_distinct: "distinct (map fst bs) \<Longrightarrow> distinct (map fst (add_row spec row bs))"
proof (induction bs)
  case (Cons b bs)
  obtain s rs where b: "b = (s, rs)" by (cases b)
  then show ?case using Cons add_row_fst [of spec row bs] by (cases "s = spec") simp_all
qed simp

definition rows_of :: "(expr list \<Rightarrow> shard_spec go_outcome) \<Rightarrow> expr list list \<Rightarrow> shard_spec \<Rightarrow> expr list list option" where
  "rows_of owner rows spec = (let mine = filter (\<lambda>row. owner row = Ret spec) rows in if mine = [] then None else Some mine)"

lemma route_rows_spec:
  assumes "route_rows owner rows bs = Ret bs'" and "map_of bs = rows_of owner before" and "distinct (map fst bs)"
  shows "map_of bs' = rows_of owner (before @ rows) \<and> distinct (map fst bs') \<and> list_all (\<lambda>row. \<exists>spec. owner row = Ret spec) rows"
  using assms
proof (induction rows arbitrary: bs before)
  case (Cons row rows)
  then obtain spec where o: "owner row = Ret spec" and r: "route_rows owner rows (add_row spec row bs) = Ret bs'"
    by (auto simp: and_then_Ret)
  have "map_of (add_row spec row bs) = rows_of owner (before @ [row])"
    using Cons.prems(2) o by (auto simp: add_row_map_of rows_of_def Let_def fun_eq_iff)
  from Cons.IH [OF r this add_row_distinct [OF Cons.prems(3)]] show ?case using o by simp
qed simp

lemma insert_batches_owners:
  assumes "insert_batches L now cat table cols rows = Ret bs" and "ct_tables cat table = Some ts"
  shows "map_of bs = rows_of (row_owner L now cat table (ts_schema ts) cols) rows \<and> distinct (map fst bs) \<and>
    list_all (\<lambda>row. \<exists>spec. row_owner L now cat table (ts_schema ts) cols row = Ret spec) rows"
proof -
  have "route_rows (row_owner L now cat table (ts_schema ts) cols) rows [] = Ret bs"
    using assms by (simp add: insert_batches_def)
  from route_rows_spec [OF this, of "[]"] show ?thesis by (simp add: rows_of_def fun_eq_iff)
qed

lemma row_owner_key:
  "row_owner L now cat table sc cols row = Ret spec \<longleftrightarrow>
   (\<exists>key. pkKeyForRow L now sc cols row = Ret key \<and> owningShard cat table key = Some spec)"
  by (auto simp: row_owner_def and_then_Ret split: option.splits)

text \<open>C17: the batches of an insert: every row goes to the shard that owns the key the router computes for it, each
  shard gets one batch with exactly its rows in the order of the statement, and no row is dropped or
  sent twice.\<close>

theorem insert_batches_partition:
  assumes "insert_batches L now cat table cols rows = Ret bs" and "ct_tables cat table = Some ts"
  shows "distinct (map fst bs) \<and>
    (\<forall>spec. map_of bs spec =
      (let mine = filter (\<lambda>row. row_owner L now cat table (ts_schema ts) cols row = Ret spec) rows
       in if mine = [] then None else Some mine)) \<and>
    (\<forall>row \<in> set rows. \<exists>key spec. pkKeyForRow L now (ts_schema ts) cols row = Ret key \<and>
      owningShard cat table key = Some spec \<and> map_of bs spec \<noteq> None)"
proof -
  let ?o = "row_owner L now cat table (ts_schema ts) cols"
  have m: "map_of bs = rows_of ?o rows" and d: "distinct (map fst bs)" and o: "list_all (\<lambda>row. \<exists>spec. ?o row = Ret spec) rows"
    using insert_batches_owners [OF assms] by simp_all
  have "\<exists>key spec. pkKeyForRow L now (ts_schema ts) cols row = Ret key \<and> owningShard cat table key = Some spec \<and>
      map_of bs spec \<noteq> None" if row: "row \<in> set rows" for row
  proof -
    obtain spec where "?o row = Ret spec" using o row by (auto simp: list_all_iff)
    moreover from this have "map_of bs spec \<noteq> None" using row by (auto simp: m rows_of_def Let_def filter_empty_conv)
    ultimately show ?thesis by (auto simp: row_owner_key)
  qed
  then show ?thesis using d by (simp add: m rows_of_def)
qed

text \<open>The order in which the shards answer plays no part in whether an insert succeeds and in its count.\<close>

definition answer_count :: "shard_answer \<Rightarrow> 64 word option" where
  "answer_count a = (case a of Affected m \<Rightarrow> Some (case m of None \<Rightarrow> 0 | Some k \<Rightarrow> k) | _ \<Rightarrow> None)"

lemma gather_answers_result:
  "gather_answers (n, err) as =
   (n + sum_list (map (\<lambda>a. case answer_count a of None \<Rightarrow> 0 | Some k \<Rightarrow> k) as), snd (gather_answers (n, err) as)) \<and>
   (snd (gather_answers (n, err) as) = None \<longleftrightarrow> err = None \<and> list_all (\<lambda>a. answer_count a \<noteq> None) as)"
proof (induction as arbitrary: n err)
  case (Cons a as)
  show ?case
  proof (cases a)
    case (Affected m)
    then show ?thesis using Cons.IH [of "n + (case m of None \<Rightarrow> 0 | Some k \<Rightarrow> k)" err]
      by (simp add: answer_count_def add.assoc)
  next
    case (Unreached e)
    then show ?thesis using Cons.IH [of n "case err of None \<Rightarrow> Some e | _ \<Rightarrow> err"]
      by (simp add: answer_count_def split: option.split)
  next
    case (Refused e)
    then show ?thesis using Cons.IH [of n "case err of None \<Rightarrow> Some e | _ \<Rightarrow> err"]
      by (simp add: answer_count_def split: option.split)
  qed
qed simp

lemma insert_result_any_order:
  assumes "mset as = mset bs"
  shows "insert_result as = Inr n \<longleftrightarrow> insert_result bs = Inr n"
proof -
  have i: "insert_result cs = Inr n \<longleftrightarrow> list_all (\<lambda>a. answer_count a \<noteq> None) cs \<and>
      n = sum_list (map (\<lambda>a. case answer_count a of None \<Rightarrow> 0 | Some k \<Rightarrow> k) cs)" for cs
    using gather_answers_result [of 0 None cs] by (auto simp: insert_result_def split: prod.splits option.splits)
  have "set as = set bs" using assms by (metis set_mset_mset)
  moreover have "sum_list (map f as) = sum_list (map f bs)" for f :: "shard_answer \<Rightarrow> 64 word"
    using assms by (metis mset_map sum_mset_sum_list)
  ultimately show ?thesis by (simp add: i list_all_iff)
qed

subsection \<open>The key of a stored row\<close>

definition schema_ok :: "table_schema \<Rightarrow> bool" where
  "schema_ok sc \<longleftrightarrow> distinct (map fst (sc_columns sc)) \<and> list_all (\<lambda>p. p \<in> fst ` set (sc_columns sc)) (sc_pk sc)"

text \<open>
  The statement gives the key columns so that router and shard agree: by steady expressions, and without
  leaving out a time.
\<close>

definition key_given :: "table_schema \<Rightarrow> string list \<Rightarrow> expr list \<Rightarrow> bool" where
  "key_given sc cols row \<longleftrightarrow>
     list_all (\<lambda>p. case col_index (col_names sc cols) p of
        None \<Rightarrow> column_type sc p \<noteq> TTimestamp
      | Some i \<Rightarrow> i < length row \<and> steady (row ! i)) (sc_pk sc)"

fun value_type :: "sql_value \<Rightarrow> sql_type" where
  "value_type VNull = TNull"
| "value_type (VInt i) = TInt"
| "value_type (VFloat f) = TFloat"
| "value_type (VString s) = TString"
| "value_type (VBool b) = TBool"
| "value_type (VTime t) = TTimestamp"

definition has_type :: "sql_type \<Rightarrow> sql_value \<Rightarrow> bool" where
  "has_type ty v \<longleftrightarrow> v = VNull \<or> value_type v = ty"

lemma convert_has_type: "convert_value L v ty = Ret w \<Longrightarrow> has_type ty w"
  by (cases v; cases ty) (auto simp: has_type_def Let_def split: option.splits if_splits)

lemma zeroValue_has_type: "has_type ty (zeroValue ty)"
  by (cases ty) (simp_all add: has_type_def)

lemma zero_keys: "ty \<noteq> TTimestamp \<Longrightarrow> zeroForType L ty = zeroValue ty"
  by (cases ty) simp_all

lemma stored_key: "sql_key (stored L v) = sql_key v"
  by (cases v) (simp_all add: stored_def Let_def)

lemma stored_type: "has_type ty (stored L v) = has_type ty v"
  by (cases v) (simp_all add: stored_def has_type_def Let_def)

lemma colTypeOf_map_of: "colTypeOf cols n = (case map_of cols n of None \<Rightarrow> ''null'' | Some ty \<Rightarrow> ty)"
  by (induction cols n rule: colTypeOf.induct) simp_all

lemma insert_cells:
  "list_all2 (\<lambda>x y. insert_cell L now nn names row x = Ret y) cols vs \<Longrightarrow> map_of cols c = Some ty \<Longrightarrow>
   \<exists>v. map_of vs c = Some v \<and> insert_cell L now nn names row (c, ty) = Ret (c, v)"
proof (induction cols vs rule: list_all2_induct)
  case (Cons x cols y vs)
  obtain c' ty' where x: "x = (c', ty')" by (cases x)
  have "fst y = c'" using Cons.hyps(1) x by (auto simp: insert_cell_def and_then_Ret split: option.splits if_splits)
  then show ?case using Cons x by (cases y) auto
qed simp

lemma insert_row_cell:
  assumes "insert_row L now sc nn cols row = Ret ctx" and "map_of (sc_columns sc) c = Some ty"
  shows "\<exists>v. ctx c = Some v \<and> has_type (type_named ty) v \<and>
    (case col_index (col_names sc cols) c of
       None \<Rightarrow> v = zeroValue (type_named ty) | Some i \<Rightarrow> row_value L now row i (type_named ty) = Ret v)"
proof -
  obtain vs where vs: "all_of (insert_cell L now nn (col_names sc cols) row) (sc_columns sc) = Ret vs" "ctx = map_of vs"
    using assms(1) by (auto simp: insert_row_def Let_def and_then_Ret split: if_splits)
  from insert_cells [OF vs(1) [unfolded all_of_Ret] assms(2)] obtain v where
    v: "ctx c = Some v" "insert_cell L now nn (col_names sc cols) row (c, ty) = Ret (c, v)" by (auto simp: vs(2))
  then show ?thesis
    by (auto simp: insert_cell_def row_value_def and_then_Ret zeroValue_has_type split: option.splits if_splits
        intro: convert_has_type)
qed

lemma pk_column:
  assumes "schema_ok sc" and "p \<in> set (sc_pk sc)"
  obtains ty where "map_of (sc_columns sc) p = Some ty" "column_type sc p = type_named ty"
proof -
  have "p \<in> fst ` set (sc_columns sc)" using assms by (auto simp: schema_ok_def list_all_iff)
  then obtain ty where "map_of (sc_columns sc) p = Some ty" by (metis map_of_eq_None_iff not_None_eq)
  then show ?thesis using that by (simp add: column_type_def colTypeOf_map_of)
qed

definition read_back :: "go_lib \<Rightarrow> row_context \<Rightarrow> row_context" where
  "read_back L ctx c = map_option (stored L) (ctx c)"

lemma row_value_steady: "steady (row ! i) \<Longrightarrow> row_value L now row i ty = Ret v \<Longrightarrow> row_value L now' row i ty = Ret v"
  using steady_const [of "row ! i" L now _ now' Map.empty] by (auto simp: row_value_def and_then_Ret split: if_splits)

text \<open>
  Router and shard agree on the key of a row: where the router computes a key and the shard accepts the row, at
  another time, the row it stores has that key, read back as well as written, if the key columns are
  given by expressions that neither read the clock nor hide an error, and no time among them is left
  out.
\<close>

lemma stored_key_routed:
  assumes "schema_ok sc" and "key_given sc cols row"
    and "pkKeyForRow L now sc cols row = Ret key" and "insert_row L now' sc nn cols row = Ret ctx"
  shows "row_key sc ctx = key \<and> row_key sc (read_back L ctx) = key"
proof -
  let ?f = "\<lambda>p. case col_index (col_names sc cols) p of
      None \<Rightarrow> Ret (zeroForType L (column_type sc p)) | Some i \<Rightarrow> row_value L now row i (column_type sc p)"
  obtain vs where vs: "list_all2 (\<lambda>p v. ?f p = Ret v) (sc_pk sc) vs" "key = EncodePK vs"
    using assms(3) by (auto simp: pkKeyForRow_def and_then_Ret all_of_Ret)
  have cell: "ctx p = Some v" if p: "p \<in> set (sc_pk sc)" "?f p = Ret v" for p v
  proof -
    obtain ty where ty: "map_of (sc_columns sc) p = Some ty" "column_type sc p = type_named ty"
      using pk_column [OF assms(1) p(1)] .
    have g: "case col_index (col_names sc cols) p of None \<Rightarrow> column_type sc p \<noteq> TTimestamp
        | Some i \<Rightarrow> i < length row \<and> steady (row ! i)" using assms(2) p(1) by (simp add: key_given_def list_all_iff)
    obtain w where w: "ctx p = Some w" "case col_index (col_names sc cols) p of
        None \<Rightarrow> w = zeroValue (type_named ty) | Some i \<Rightarrow> row_value L now' row i (type_named ty) = Ret w"
      using insert_row_cell [OF assms(4) ty(1)] by auto
    show ?thesis
    proof (cases "col_index (col_names sc cols) p")
      case None
      then show ?thesis using g w p(2) ty(2) zero_keys by simp
    next
      case (Some i)
      have "row_value L now row i (type_named ty) = Ret v" using p(2) Some ty(2) by simp
      then have "row_value L now' row i (type_named ty) = Ret v"
        by (rule row_value_steady [rotated]) (use g Some in simp)
      then show ?thesis using w Some by simp
    qed
  qed
  have "map (\<lambda>p. case ctx p of None \<Rightarrow> VNull | Some v \<Rightarrow> v) (sc_pk sc) = vs"
    using vs(1) cell by (auto simp: list_all2_conv_all_nth intro!: nth_equalityI)
  moreover have "EncodePK (map (\<lambda>p. case read_back L ctx p of None \<Rightarrow> VNull | Some v \<Rightarrow> v) (sc_pk sc)) =
      EncodePK (map (\<lambda>p. case ctx p of None \<Rightarrow> VNull | Some v \<Rightarrow> v) (sc_pk sc))"
    unfolding EncodePK_def map_map
    by (rule arg_cong [of _ _ encodeKey]) (simp add: read_back_def stored_key split: option.split)
  ultimately show ?thesis by (simp only: row_key_def vs(2))
qed

subsection \<open>Conditions that fix the key\<close>

text \<open>
  A value fixes a key column when what compares equal to it has the key it converts to: not for doubles (the two
  zeros compare equal and have two keys, and a value that is no number compares equal to all), not
  for an integer column and a double (which equals several large integers), and not for a text
  column and a time (which equals every spelling).
\<close>

fun exact_for :: "sql_type \<Rightarrow> sql_value \<Rightarrow> bool" where
  "exact_for TFloat u = False"
| "exact_for TInt u = (case u of VFloat f \<Rightarrow> False | _ \<Rightarrow> True)"
| "exact_for TString u = (case u of VTime t \<Rightarrow> False | _ \<Rightarrow> True)"
| "exact_for _ u = True"

definition exact_pins :: "go_lib \<Rightarrow> int \<Rightarrow> table_schema \<Rightarrow> expr option \<Rightarrow> bool" where
  "exact_pins L now sc cond =
     (case cond of
        None \<Rightarrow> True
      | Some e \<Rightarrow> steady e \<and>
          (case pin_walk L now e Map.empty of
             Ret (Some f) \<Rightarrow> list_all (\<lambda>p. case f p of None \<Rightarrow> True | Some u \<Rightarrow> exact_for (column_type sc p) u) (sc_pk sc)
           | _ \<Rightarrow> True))"

lemma bool_texts: "to_lower (go_trim ''true'') = ''true''" "to_lower (go_trim ''false'') = ''false''"
  by code_simp+

lemma exact_key:
  assumes "has_type ty r" and "r \<noteq> VNull" and "u \<noteq> VNull" and "compare_values L r u = 0"
    and "convert_value L u ty = Ret k" and "exact_for ty u"
  shows "sql_key r = sql_key k"
proof (cases ty)
  case TInt
  then obtain i where r: "r = VInt i" using assms(1,2) by (cases r) (auto simp: has_type_def)
  show ?thesis using assms(3-6) TInt int_text_letter [of i]
    by (cases u) (auto simp: r sign_of_zero compare_texts_zero go_trim_int_text parse_int_text split: if_splits
        intro: signed_word_eqI)
next
  case TString
  then obtain s where r: "r = VString s" using assms(1,2) by (cases r) (auto simp: has_type_def)
  show ?thesis using assms(3-6) TString by (cases u) (auto simp: r compare_texts_zero)
next
  case TBool
  then obtain b where r: "r = VBool b" using assms(1,2) by (cases r) (auto simp: has_type_def)
  show ?thesis
  proof (cases u)
    case (VInt i)
    then show ?thesis using assms(4) int_text_letter [of i] by (auto simp: r compare_texts_zero split: if_splits)
  next
    case (VString s)
    then have "s = (if b then ''true'' else ''false'')" using assms(4) by (simp add: r compare_texts_zero)
    then show ?thesis using assms(5) VString TBool by (cases b) (auto simp: r bool_texts simp del: to_lower.simps)
  qed (use assms(3-6) TBool in \<open>auto simp: r sign_of_zero\<close>)
next
  case TTimestamp
  then obtain t where r: "r = VTime t" using assms(1,2) by (cases r) (auto simp: has_type_def)
  show ?thesis using assms(3-6) TTimestamp
    by (cases u) (auto simp: r compareTimes_zero split: option.splits)
next
  case TNull
  then show ?thesis using assms(1,2) by (cases r) (auto simp: has_type_def)
qed (use assms in simp)

lemma logic_and_true: "boolOf (logic_and a b) = Some True \<longleftrightarrow> a = Some True \<and> b = Some True"
  by (cases a; cases b) (auto simp: logic_and_def boolOf_def)

lemma op_and_eq: "to_upper ''AND'' = ''AND''" "to_upper ''='' = ''=''"
  by code_simp+

lemma equal_selected:
  "binary_op L ''='' a b = Ret v \<Longrightarrow> boolOf v = Some True \<Longrightarrow> a \<noteq> VNull \<and> b \<noteq> VNull \<and> compare_values L a b = 0"
  by (auto simp: binary_op_def boolOf_def Let_def split: if_splits)

text \<open>A column fixed by an equation that holds in a row.\<close>

definition pinned_in :: "go_lib \<Rightarrow> row_context \<Rightarrow> row_context \<Rightarrow> row_context \<Rightarrow> bool" where
  "pinned_in L ctx found f \<longleftrightarrow>
     (\<forall>n u. f n = Some u \<longrightarrow> found n = Some u \<or>
        (\<exists>r. ctx n = Some r \<and> r \<noteq> VNull \<and> u \<noteq> VNull \<and> compare_values L r u = 0))"

lemma ident_value: "eval L now ctx (Ident n) = Ret r \<Longrightarrow> r \<noteq> VNull \<Longrightarrow> ctx n = Some r"
  by (auto split: if_splits option.splits)

lemma pin_right_holds:
  assumes "pin_right L now l r found = Ret (Some f)" and "steady l"
    and "eval L now' ctx l = Ret a" and "eval L now' ctx r = Ret b" and "a \<noteq> VNull" and "b \<noteq> VNull" and "compare_values L a b = 0"
  shows "pinned_in L ctx found f"
proof (cases r)
  case (Ident n)
  then obtain v where v: "eval L now Map.empty l = Ret v" "f = found(n \<mapsto> v)"
    using assms(1) by (auto split: go_outcome.splits)
  have "a = v" using steady_const [OF assms(2) v(1), of now' ctx] assms(3) by simp
  moreover have "ctx n = Some b" using ident_value assms(4,6) Ident by blast
  ultimately show ?thesis using v(2) assms(5-7) compare_zero_sym [of L a b] by (auto simp: pinned_in_def)
qed (use assms(1) in simp_all)

lemma pin_left_holds:
  assumes "pin_left L now l r found = Ret (Some f)" and "steady l" and "steady r"
    and "eval L now' ctx l = Ret a" and "eval L now' ctx r = Ret b" and "a \<noteq> VNull" and "b \<noteq> VNull" and "compare_values L a b = 0"
  shows "pinned_in L ctx found f"
proof (cases l)
  case (Ident n)
  show ?thesis
  proof (cases "eval L now Map.empty r")
    case (Ret v)
    then have f: "f = found(n \<mapsto> v)" using assms(1) Ident by simp
    have "b = v" using steady_const [OF assms(3) Ret, of now' ctx] assms(5) by simp
    moreover have "ctx n = Some a" using ident_value assms(4,6) Ident by blast
    ultimately show ?thesis using f assms(6-8) by (auto simp: pinned_in_def)
  next
    case (Err e)
    then show ?thesis using pin_right_holds [OF _ assms(2,4-8)] assms(1) Ident by (simp del: eval.simps)
  qed (use assms(1) Ident in simp)
qed (use pin_right_holds [OF _ assms(2,4-8)] assms(1) in \<open>simp_all del: eval.simps\<close>)

lemma pin_walk_holds:
  assumes "pin_walk L now e found = Ret (Some f)" and "steady e" and "eval L now' ctx e = Ret v" and "boolOf v = Some True"
  shows "pinned_in L ctx found f"
  using assms
proof (induction e arbitrary: found f v)
  case (BinaryOp op l r)
  obtain a b where ab: "eval L now' ctx l = Ret a" "eval L now' ctx r = Ret b" "binary_op L (to_upper op) a b = Ret v"
    using BinaryOp.prems(3) by (auto simp: and_then_Ret)
  have st: "steady l" "steady r" using BinaryOp.prems(2) by simp_all
  show ?case
  proof (cases "op = ''AND''")
    case True
    then have "v = logic_and (boolOf a) (boolOf b)" using ab(3) [unfolded True op_and_eq] by (simp add: binary_op_def)
    then have "boolOf a = Some True" "boolOf b = Some True" using BinaryOp.prems(4) logic_and_true by auto
    moreover obtain f1 where "pin_walk L now l found = Ret (Some f1)" "pin_walk L now r f1 = Ret (Some f)"
      using BinaryOp.prems(1) True by (auto simp: and_then_Ret split: option.splits)
    ultimately have "pinned_in L ctx found f1" "pinned_in L ctx f1 f" using BinaryOp.IH st ab by blast+
    then show ?thesis unfolding pinned_in_def by blast
  next
    case False
    then have eq: "op = ''=''" and p: "pin_left L now l r found = Ret (Some f)"
      using BinaryOp.prems(1) by (auto split: if_splits)
    from equal_selected [OF ab(3) [unfolded eq op_and_eq] BinaryOp.prems(4)] show ?thesis
      using pin_left_holds [OF p st ab(1,2)] by blast
  qed
qed simp_all

lemma pin_values_Some:
  "pin_values L sc f ps = Some vs \<longleftrightarrow>
   list_all2 (\<lambda>p k. \<exists>u. f p = Some u \<and> convert_value L u (column_type sc p) = Ret k) ps vs"
  by (induction ps arbitrary: vs) (auto simp: list_all2_Cons1 split: option.splits go_outcome.splits)

text \<open>A row that a pinning condition selects has the key the condition gives.\<close>

lemma selected_key:
  assumes "pkKeyFromWhere L now sc cond = Ret (Some key)" and "exact_pins L now sc cond" and "selects L now' ctx cond"
    and "\<And>p r. p \<in> set (sc_pk sc) \<Longrightarrow> ctx p = Some r \<Longrightarrow> has_type (column_type sc p) r"
  shows "row_key sc ctx = key"
proof -
  obtain e where c: "cond = Some e" using assms(1) by (cases cond) (simp_all add: pkKeyFromWhere_def)
  obtain f vs where f: "pin_walk L now e Map.empty = Ret (Some f)" and vs: "pin_values L sc f (sc_pk sc) = Some vs" "key = EncodePK vs"
    using assms(1) by (auto simp: pkKeyFromWhere_def c and_then_Ret split: if_splits option.splits)
  have st: "steady e" and ex: "list_all (\<lambda>p. case f p of None \<Rightarrow> True | Some u \<Rightarrow> exact_for (column_type sc p) u) (sc_pk sc)"
    using assms(2) f by (simp_all add: exact_pins_def c)
  obtain v where v: "eval L now' ctx e = Ret v" "boolOf v = Some True"
    using assms(3) by (auto simp: selects_def c split: go_outcome.splits)
  have pin: "pinned_in L ctx Map.empty f" by (rule pin_walk_holds [OF f st v])
  have "sql_key (case ctx p of None \<Rightarrow> VNull | Some w \<Rightarrow> w) = sql_key k"
    if p: "p \<in> set (sc_pk sc)" and u: "f p = Some u" and k: "convert_value L u (column_type sc p) = Ret k" for p u k
  proof -
    obtain r where r: "ctx p = Some r" "r \<noteq> VNull" "u \<noteq> VNull" "compare_values L r u = 0"
      using pin u by (auto simp: pinned_in_def)
    have "exact_for (column_type sc p) u" using ex p u by (auto simp: list_all_iff)
    then show ?thesis using exact_key [OF assms(4) [OF p r(1)] r(2-4) k] r(1) by simp
  qed
  then have "map sql_key (map (\<lambda>p. case ctx p of None \<Rightarrow> VNull | Some w \<Rightarrow> w) (sc_pk sc)) = map sql_key vs"
    using vs(1) [unfolded pin_values_Some] by (auto simp: list_all2_conv_all_nth intro!: nth_equalityI)
  then show ?thesis by (simp only: row_key_def EncodePK_def vs(2))
qed

text \<open>C4: an update or a delete reaches the rows it selects, under these conditions. The columns of the table have distinct
  names, its key columns among them. The key expressions of the \<open>INSERT\<close> and the condition of the later statement
  are steady: they call neither \<open>NOW\<close> nor \<open>UNIXEPOCH\<close>, nor \<open>SUBSTR\<close> with a third argument. The \<open>INSERT\<close> leaves out no key
  column that is a timestamp. Both statements see the same catalog. And each key column that the
  condition fixes to a constant can be compared with it exactly: it is no double, no integer compared with a
  double and no text compared with a time. Then, where an insert has sent a row to a shard and the row, as that
  shard stores it, satisfies the condition, that shard is among those the statement is sent to, whether or not the
  condition fixes the key. Without the conditions the code sends statements to the wrong shard:
  \<open>zeros_equal_keys_differ\<close>, \<open>omitted_time_keys_differ\<close>, \<open>hidden_error_misroutes\<close>.\<close>

theorem write_reaches_row:
  assumes "ct_tables cat table = Some ts" and "schema_ok (ts_schema ts)"
    and "insert_batches L t0 cat table cols rows = Ret bs" and "map_of bs spec = Some mine" and "row \<in> set mine"
    and "key_given (ts_schema ts) cols row" and "insert_row L t1 (ts_schema ts) nn cols row = Ret ctx"
    and "write_targets L t2 cat table cond = Ret targets" and "exact_pins L t2 (ts_schema ts) cond"
    and "selects L t3 (read_back L ctx) cond"
  shows "spec \<in> set targets"
proof -
  have "row_owner L t0 cat table (ts_schema ts) cols row = Ret spec"
    using insert_batches_owners [OF assms(3,1)] assms(4,5) by (auto simp: rows_of_def Let_def split: if_splits)
  then obtain key where key: "pkKeyForRow L t0 (ts_schema ts) cols row = Ret key" "owningShard cat table key = Some spec"
    by (auto simp: row_owner_key)
  have rk: "row_key (ts_schema ts) (read_back L ctx) = key"
    using stored_key_routed [OF assms(2,6) key(1) assms(7)] by simp
  have ty: "has_type (column_type (ts_schema ts) p) r"
    if p: "p \<in> set (sc_pk (ts_schema ts))" and r: "read_back L ctx p = Some r" for p r
  proof -
    obtain t where t: "map_of (sc_columns (ts_schema ts)) p = Some t" "column_type (ts_schema ts) p = type_named t"
      using pk_column [OF assms(2) p] .
    obtain w where "ctx p = Some w" "has_type (type_named t) w" using insert_row_cell [OF assms(7) t(1)] by blast
    then show ?thesis using r t(2) by (auto simp: read_back_def stored_type)
  qed
  obtain k where k: "pkKeyFromWhere L t2 (ts_schema ts) cond = Ret k"
    using assms(1,8) by (auto simp: write_targets_def and_then_Ret)
  show ?thesis
  proof (cases k)
    case None
    then show ?thesis using assms(1,8) k owningShard_in [OF key(2)] by (auto simp: write_targets_def)
  next
    case (Some k')
    from selected_key [OF k [unfolded Some] assms(9,10) ty] have "k' = key" using rk by simp
    then show ?thesis using assms(1,8) k Some key(2) by (auto simp: write_targets_def)
  qed
qed

subsection \<open>Witnesses\<close>

definition plain_lib :: go_lib where
  "plain_lib = \<lparr>gl_add = (\<lambda>a b. a), gl_sub = (\<lambda>a b. a), gl_mul = (\<lambda>a b. a), gl_div = (\<lambda>a b. a),
     gl_of_int = (\<lambda>i. i), gl_to_int = (\<lambda>f. f), gl_parse_float = (\<lambda>s. None), gl_float_text = (\<lambda>f. []),
     gl_parse_time = (\<lambda>s. None), gl_time_text = (\<lambda>t. []), gl_zone = (\<lambda>t. 0), gl_lower = to_lower, gl_upper = to_upper, gl_parse_duration = (\<lambda>s. None)\<rparr>"

definition one_cat :: catalog where
  "one_cat = mt_catalog (run meta_step meta_init one_table)"

definition one_shard :: shard_spec where
  "one_shard = \<lparr>sp_id = ''t-0'', sp_table = ''t'', sp_start = [], sp_end = [], sp_nodes = [''n1'']\<rparr>"

definition two_rows :: "expr list list" where
  "two_rows = [[Literal (VString ''a'')], [Literal (VInt 7)]]"

lemma one_cat_table: "ct_tables one_cat ''t'' = Some \<lparr>ts_schema = one_schema, ts_shards = [one_shard]\<rparr>"
  by (simp add: one_cat_def one_shard_def run_one_table)

lemma one_cat_owner: "owningShard one_cat ''t'' key = Some one_shard"
  by (simp add: owningShard_def one_cat_table owns_def one_shard_def)

lemma one_schema_ok: "schema_ok one_schema"
  by (simp add: schema_ok_def one_schema_def)

lemma one_index: "col_index (col_names one_schema []) ''k'' = Some 0" "sc_pk one_schema = [''k'']"
  "column_type one_schema ''k'' = TString" "sc_columns one_schema = [(''k'', ''string'')]"
  by (simp_all add: col_index_def col_names_def one_schema_def column_type_def type_named_def)

lemma one_batches: "insert_batches plain_lib now one_cat ''t'' [] two_rows = Ret [(one_shard, two_rows)]"
  by (simp add: insert_batches_def one_cat_table one_cat_owner two_rows_def row_owner_def pkKeyForRow_def one_index
      row_value_def)

lemma one_row:
  "insert_row plain_lib now one_schema [''k''] [] [Literal (VString ''a'')] = Ret [''k'' \<mapsto> VString ''a'']"
  "key_given one_schema [] [Literal (VString ''a'')]"
  "pkKeyForRow plain_lib now one_schema [] [Literal (VString ''a'')] = Ret (EncodePK [VString ''a''])"
  by (simp_all add: insert_row_def insert_cell_def col_names_def one_index row_value_def type_named_def Let_def key_given_def
      pkKeyForRow_def col_index_def)

theorem insert_batches_partition_witness:
  "distinct (map fst [(one_shard, two_rows)]) \<and>
   list_all (\<lambda>row. \<exists>key spec. pkKeyForRow plain_lib 0 one_schema [] row = Ret key \<and> owningShard one_cat ''t'' key = Some spec) two_rows"
  using insert_batches_partition [OF one_batches [of 0] one_cat_table] unfolding list_all_iff by simp blast

lemma one_cond:
  "write_targets plain_lib now one_cat ''t'' (Some (BinaryOp ''='' (Ident ''k'') (Literal (VString ''a'')))) = Ret [one_shard]"
  "exact_pins plain_lib now one_schema (Some (BinaryOp ''='' (Ident ''k'') (Literal (VString ''a''))))"
  "selects plain_lib now (read_back plain_lib [''k'' \<mapsto> VString ''a'']) (Some (BinaryOp ''='' (Ident ''k'') (Literal (VString ''a''))))"
  by (simp_all add: write_targets_def one_cat_table one_cat_owner pkKeyFromWhere_def one_index exact_pins_def selects_def
      read_back_def stored_def op_and_eq binary_op_def boolOf_def compare_texts_def sign_of_def del: to_upper.simps)

theorem write_reaches_row_witness:
  "\<exists>targets. write_targets plain_lib 0 one_cat ''t'' (Some (BinaryOp ''='' (Ident ''k'') (Literal (VString ''a'')))) = Ret targets \<and>
     one_shard \<in> set targets"
proof -
  have m: "map_of [(one_shard, two_rows)] one_shard = Some two_rows" by simp
  have r: "[Literal (VString ''a'')] \<in> set two_rows" by (simp add: two_rows_def)
  have "one_shard \<in> set [one_shard]"
    by (rule write_reaches_row [OF one_cat_table _ one_batches [of 0] m r,
        where ?t1.0 = 0 and ?t2.0 = 0 and ?t3.0 = 0 and nn = "[''k'']" and ctx = "[''k'' \<mapsto> VString ''a'']" and
          cond = "Some (BinaryOp ''='' (Ident ''k'') (Literal (VString ''a'')))"])
      (simp_all only: one_schema_ok one_row one_cond table_spec.simps)
  then show ?thesis using one_cond(1) by blast
qed

subsection \<open>Surprises\<close>

text \<open>
  A row with too few values is an error of the shard, but the router has looked at the value of the key column by
  then, and the process ends.
\<close>

lemma short_row_panics:
  "pkKeyForRow L now \<lparr>sc_name = ''t'', sc_columns = [(''a'', ''int64''), (''k'', ''int64'')], sc_pk = [''k'']\<rparr> [] [Literal (VInt 1)] = Panic"
  "insert_row L now \<lparr>sc_name = ''t'', sc_columns = [(''a'', ''int64''), (''k'', ''int64'')], sc_pk = [''k'']\<rparr> nn [] [Literal (VInt 1)] = Err Few_values"
  by (simp_all add: pkKeyForRow_def insert_row_def col_names_def col_index_def row_value_def Let_def)

text \<open>A key column of type timestamp that is left out is routed as the epoch and stored as a null.\<close>

lemma omitted_time_keys_differ:
  "pkKeyForRow L now \<lparr>sc_name = ''t'', sc_columns = [(''a'', ''int64''), (''k'', ''timestamp'')], sc_pk = [''k'']\<rparr> [''a''] [Literal (VInt 1)] =
     Ret (EncodePK [VTime (0, gl_zone L 0)])"
  "insert_row L now \<lparr>sc_name = ''t'', sc_columns = [(''a'', ''int64''), (''k'', ''timestamp'')], sc_pk = [''k'']\<rparr> nn [''a''] [Literal (VInt 1)] =
     Ret [''k'' \<mapsto> VNull, ''a'' \<mapsto> VInt 1] \<or> ''a'' \<in> set nn"
  "EncodePK [VTime (0, z)] \<noteq> EncodePK [VNull]"
  by (simp_all add: pkKeyForRow_def insert_row_def insert_cell_def col_names_def col_index_def row_value_def Let_def
      column_type_def type_named_def EncodePK_def encodeKey_def key_cell_def fun_upd_twist)

text \<open>A null and an empty text have the same key: of two such rows the later replaces the earlier.\<close>

lemma null_key_is_empty_text: "EncodePK [VNull] = EncodePK [VString []]"
  by (simp add: EncodePK_def)

text \<open>The two zeros of a double are equal in a condition and have two keys: an update by the one misses the other.\<close>

lemma zeros_equal_keys_differ:
  "compare_values L (VFloat (push_bit 63 1)) (VFloat 0) = 0" "EncodePK [VFloat (push_bit 63 1)] \<noteq> EncodePK [VFloat 0]"
proof -
  have "float_val (push_bit 63 1) = 0" "float_val 0 = 0" by (simp_all add: float_val_def push_bit_of_1 Let_def)
  then show "compare_values L (VFloat (push_bit 63 1)) (VFloat 0) = 0" by (simp add: sign_of_def float_lt_def)
  have "be_bytes (mathFloatToSortable (push_bit 63 1)) \<noteq> be_bytes (mathFloatToSortable 0)"
    using be_bytes_append [of "mathFloatToSortable (push_bit 63 1)" "[]" "mathFloatToSortable 0" "[]"]
    by (simp add: mathFloatToSortable_def push_bit_of_1 word_less_def)
  then show "EncodePK [VFloat (push_bit 63 1)] \<noteq> EncodePK [VFloat 0]" by (simp add: EncodePK_def encodeKey_def key_cell_def)
qed

text \<open>
  A condition whose constant hides an error fixes the key the router sees, not the one the shard sees: the
  statement goes to the shard of the empty text, and the row with the key \<open>ab\<close> is selected.
\<close>

lemma hidden_error_misroutes:
  "let cond = Some (BinaryOp ''='' (Ident ''k'') (Call ''substr'' [Literal (VString ''abc''), Literal (VInt 1), Ident ''n'']));
       sc = \<lparr>sc_name = ''t'', sc_columns = [(''k'', ''string''), (''n'', ''int64'')], sc_pk = [''k'']\<rparr>
   in pkKeyFromWhere L now sc cond = Ret (Some (EncodePK [VString []])) \<and>
      selects L now [''k'' \<mapsto> VString ''ab'', ''n'' \<mapsto> VInt 2] cond"
proof -
  have "eval L now [''k'' \<mapsto> VString ''ab'', ''n'' \<mapsto> VInt 2]
      (Call ''substr'' [Literal (VString ''abc''), Literal (VInt 1), Ident ''n'']) = Ret (VString ''ab'')"
    by (simp add: op_texts call_function_def substr_value_def int_field_def del: to_lower.simps to_upper.simps runes.simps)
  then show ?thesis using substr_count_error(1) [of L now]
    by (simp add: pkKeyFromWhere_def selects_def op_and_eq binary_op_def boolOf_def compare_texts_def sign_of_def
        column_type_def type_named_def del: eval.simps(7) to_upper.simps)
qed

end
