(* ===== verification/StmtCodec.thy ===== *)
theory StmtCodec
  imports Statements "HOL-Library.Monad_Syntax"
begin

section \<open>The binary form of statements (\<open>sql/bincodec.go\<close>)\<close>

text \<open>
  What an entry of a shard's raft log and the command \<open>ADMIN EXEC-SHARD-ENC\<close> carry. The writer appends to a
  buffer; an expression that is nil makes it panic (\<open>None\<close>). The reader is the rest of the buffer and its sticky
  error; \<open>None\<close> is a panic, and the errors of \<open>decodeExpr\<close> are values, which most callers drop. A position that
  overflows 64 bits is not modelled. A type byte above 5 reads as the null type, which every user of a type treats
  alike.
\<close>

subsection \<open>The writer\<close>

definition binaryOps :: "string list" where
  "binaryOps = [''+'', ''-'', ''*'', ''/'', ''='', ''<'', ''>'', ''<='', ''>='', ''<>'', ''AND'', ''OR'']"

definition unaryOps :: "string list" where
  "unaryOps = [''NOT'', ''-'', ''+'']"

fun opIndex :: "string list \<Rightarrow> string \<Rightarrow> int" where
  "opIndex [] op = -1"
| "opIndex (s # ss) op = (if s = op then 0 else (let i = opIndex ss op in if i = -1 then -1 else i + 1))"

definition op_byte :: "string list \<Rightarrow> string \<Rightarrow> char" where
  "op_byte ops op = char_of (nat (opIndex ops op + 1))"

function put_uvarint :: "nat \<Rightarrow> string" where
  "put_uvarint v = (if v < 128 then [char_of v] else char_of (v mod 128 + 128) # put_uvarint (v div 128))"
  by pat_completeness auto
termination
  by (relation "measure id") auto

declare put_uvarint.simps [simp del]

definition put_word :: "64 word \<Rightarrow> string" where
  "put_word w = put_uvarint (unat w)"

definition put_str :: "string \<Rightarrow> string" where
  "put_str s = put_uvarint (length s) @ s"

definition put_bool :: "bool \<Rightarrow> string" where
  "put_bool b = [char_of (if b then 1 else 0 :: nat)]"

fun type_code :: "sql_type \<Rightarrow> nat" where
  "type_code TNull = 0"
| "type_code TInt = 1"
| "type_code TFloat = 2"
| "type_code TString = 3"
| "type_code TBool = 4"
| "type_code TTimestamp = 5"

definition put_type :: "sql_type \<Rightarrow> string" where
  "put_type t = [char_of (type_code t)]"

definition put_strs :: "string list \<Rightarrow> string" where
  "put_strs ss = put_uvarint (length ss) @ concat (map put_str ss)"

text \<open>A literal by its type; of a timestamp it is the integer field that is written.\<close>

fun put_literal :: "sql_value \<Rightarrow> string" where
  "put_literal VNull = put_type TNull"
| "put_literal (VInt i) = put_type TInt @ put_word i"
| "put_literal (VFloat f) = put_type TFloat @ put_word f"
| "put_literal (VString s) = put_type TString @ put_str s"
| "put_literal (VBool b) = put_type TBool @ put_bool b"
| "put_literal (VTime t) = put_type TTimestamp @ put_word (word_of_int (fst t))"

definition put_all :: "('a \<Rightarrow> string option) \<Rightarrow> 'a list \<Rightarrow> string option" where
  "put_all f xs = do { ss \<leftarrow> those (map f xs); Some (put_uvarint (length xs) @ concat ss) }"

fun encodeExpr :: "expr \<Rightarrow> string option" where
  "encodeExpr NoExpr = None"
| "encodeExpr (Literal v) = Some (char_of (1 :: nat) # put_literal v)"
| "encodeExpr (Ident n) = Some (char_of (2 :: nat) # put_str n)"
| "encodeExpr (BinaryOp op l r) =
     do { a \<leftarrow> encodeExpr l; b \<leftarrow> encodeExpr r; Some (char_of (3 :: nat) # op_byte binaryOps op # a @ b) }"
| "encodeExpr (UnaryOp op e) = do { a \<leftarrow> encodeExpr e; Some (char_of (4 :: nat) # op_byte unaryOps op # a) }"
| "encodeExpr (Call name args) =
     do { ss \<leftarrow> those (map encodeExpr args);
          Some (char_of (5 :: nat) # put_str name @ put_uvarint (length args) @ concat ss) }"
| "encodeExpr (CastExpr e t) = do { a \<leftarrow> encodeExpr e; Some (char_of (6 :: nat) # a @ put_type t) }"

definition put_where :: "expr \<Rightarrow> string option" where
  "put_where e = (if e = NoExpr then Some (put_bool False) else do { a \<leftarrow> encodeExpr e; Some (put_bool True @ a) })"

definition put_column :: "column_def \<Rightarrow> string option" where
  "put_column c =
     do { d \<leftarrow> put_where (cd_default c);
          Some (put_str (cd_name c) @ put_type (cd_type c) @ put_bool (cd_notnull c) @ put_bool (cd_primary c) @ d) }"

definition encodeSelect :: "select_stmt \<Rightarrow> string option" where
  "encodeSelect s =
     do { items \<leftarrow> put_all (\<lambda>(e, alias). do { a \<leftarrow> encodeExpr e; Some (a @ put_str alias) }) (sl_items s);
          w \<leftarrow> put_where (sl_where s);
          g \<leftarrow> put_all encodeExpr (sl_group s);
          os \<leftarrow> put_all (\<lambda>(e, desc). do { a \<leftarrow> encodeExpr e; Some (a @ put_bool desc) }) (sl_order s);
          Some (put_bool (sl_distinct s) @ items @ put_str (sl_from s) @ w @ g @ os @
            put_bool (sl_haslimit s) @ put_word (sl_limit s)) }"

fun encodeStmt :: "statement \<Rightarrow> string option" where
  "encodeStmt (CreateTableStmt s) =
     do { cols \<leftarrow> put_all put_column (cr_cols s);
          Some (char_of (1 :: nat) # put_str (cr_name s) @ cols @ put_strs (cr_pk s) @ put_bool (cr_ifnot s) @
            put_str (cr_engine s) @ put_word (cr_retention s)) }"
| "encodeStmt (DropTableStmt name ifex) = Some (char_of (2 :: nat) # put_str name @ put_bool ifex)"
| "encodeStmt (CreateIndexStmt name table cols ifnot) =
     Some (char_of (3 :: nat) # put_str name @ put_str table @ put_strs cols @ put_bool ifnot)"
| "encodeStmt (DropIndexStmt name table ifex) =
     Some (char_of (4 :: nat) # put_str name @ put_str table @ put_bool ifex)"
| "encodeStmt (InsertStmt table cols rows) =
     do { rs \<leftarrow> put_all (put_all encodeExpr) rows;
          Some (char_of (5 :: nat) # put_str table @ put_strs cols @ rs) }"
| "encodeStmt (UpdateStmt table sets cond) =
     do { ss \<leftarrow> put_all (\<lambda>(c, e). do { a \<leftarrow> encodeExpr e; Some (put_str c @ a) }) sets;
          w \<leftarrow> put_where cond;
          Some (char_of (6 :: nat) # put_str table @ ss @ w) }"
| "encodeStmt (DeleteStmt table cond) =
     do { w \<leftarrow> put_where cond; Some (char_of (7 :: nat) # put_str table @ w) }"
| "encodeStmt BeginStmt = Some [char_of (8 :: nat)]"
| "encodeStmt CommitStmt = Some [char_of (9 :: nat)]"
| "encodeStmt RollbackStmt = Some [char_of (10 :: nat)]"
| "encodeStmt (CreateDatabaseStmt name) = Some (char_of (11 :: nat) # put_str name)"
| "encodeStmt (SelectStmt s) = do { a \<leftarrow> encodeSelect s; Some (char_of (12 :: nat) # a) }"
| "encodeStmt (KVPutStmt table k v) = Some (char_of (13 :: nat) # put_str table @ put_str k @ put_str v)"
| "encodeStmt (KVGetStmt table k) = Some (char_of (14 :: nat) # put_str table @ put_str k)"
| "encodeStmt (KVDeleteStmt table k) = Some (char_of (15 :: nat) # put_str table @ put_str k)"
| "encodeStmt (KVScanStmt table lo hi haslo hashi) =
     Some (char_of (16 :: nat) # put_str table @ put_str lo @ put_str hi @ put_bool haslo @ put_bool hashi)"

definition EncodeStatements :: "statement list \<Rightarrow> string option" where
  "EncodeStatements sts = put_all encodeStmt sts"

subsection \<open>The reader\<close>

type_synonym reader = "string \<times> bool"

datatype codec_error = Bad_operator | Unknown_expr nat | Unknown_statement nat | Bad_read

text \<open>\<open>binary.Uvarint\<close>: at most ten bytes, the last of them 0 or 1.\<close>

fun uvarint_at :: "nat \<Rightarrow> string \<Rightarrow> (nat \<times> string) option" where
  "uvarint_at i [] = None"
| "uvarint_at i (c # s) =
     (if i = 10 then None
      else if byte_of c < 128 then (if i = 9 \<and> 1 < byte_of c then None else Some (byte_of c, s))
      else map_option (\<lambda>(v, r). (byte_of c - 128 + 128 * v, r)) (uvarint_at (Suc i) s))"

definition get_uvarint :: "reader \<Rightarrow> nat \<times> reader" where
  "get_uvarint r =
     (case r of (s, err) \<Rightarrow>
        if err then (0, r)
        else (case uvarint_at 0 s of None \<Rightarrow> (0, (s, True)) | Some (v, s') \<Rightarrow> (v, (s', False))))"

text \<open>The conversion to a signed integer.\<close>

definition go_int :: "nat \<Rightarrow> int" where
  "go_int v = sint (word_of_nat v :: 64 word)"

definition get_word :: "reader \<Rightarrow> 64 word \<times> reader" where
  "get_word r = (case get_uvarint r of (v, r) \<Rightarrow> (word_of_nat v, r))"

definition get_byte :: "reader \<Rightarrow> nat \<times> reader" where
  "get_byte r = (case r of (s, err) \<Rightarrow> if err \<or> s = [] then (0, (s, True)) else (byte_of (hd s), (tl s, False)))"

definition get_bool :: "reader \<Rightarrow> bool \<times> reader" where
  "get_bool r = (case get_byte r of (b, r) \<Rightarrow> (b = 1, r))"

definition get_type :: "reader \<Rightarrow> sql_type \<times> reader" where
  "get_type r =
     (case get_byte r of (b, r) \<Rightarrow>
        (if b = 1 then TInt else if b = 2 then TFloat else if b = 3 then TString else if b = 4 then TBool
         else if b = 5 then TTimestamp else TNull, r))"

definition take_bytes :: "int \<Rightarrow> reader \<Rightarrow> (string \<times> reader) option" where
  "take_bytes n r =
     (case r of (s, err) \<Rightarrow>
        if err \<or> int (length s) < n then Some ([], (s, True))
        else if n < 0 then None
        else Some (take (nat n) s, (drop (nat n) s, False)))"

definition get_str :: "reader \<Rightarrow> (string \<times> reader) option" where
  "get_str r = (case get_uvarint r of (v, r) \<Rightarrow> take_bytes (go_int v) r)"

text \<open>The counted loops: to the end, or up to the first error.\<close>

primrec read_times :: "nat \<Rightarrow> (reader \<Rightarrow> ('a \<times> reader) option) \<Rightarrow> reader \<Rightarrow> ('a list \<times> reader) option" where
  "read_times 0 g r = Some ([], r)"
| "read_times (Suc n) g r = do { (x, r) \<leftarrow> g r; (xs, r) \<leftarrow> read_times n g r; Some (x # xs, r) }"

definition read_list :: "(reader \<Rightarrow> ('a \<times> reader) option) \<Rightarrow> reader \<Rightarrow> ('a list \<times> reader) option" where
  "read_list g r = (case get_uvarint r of (v, r) \<Rightarrow> read_times (nat (go_int v)) g r)"

primrec read_strict ::
  "nat \<Rightarrow> (reader \<Rightarrow> ((codec_error + 'a) \<times> reader) option) \<Rightarrow> reader \<Rightarrow> ((codec_error + 'a list) \<times> reader) option" where
  "read_strict 0 g r = Some (Inr [], r)"
| "read_strict (Suc n) g r =
     do { (x, r) \<leftarrow> g r;
          case x of
            Inl e \<Rightarrow> Some (Inl e, r)
          | Inr a \<Rightarrow> do { (xs, r) \<leftarrow> read_strict n g r; Some (map_sum id ((#) a) xs, r) } }"

text \<open>\<open>make\<close> with a capacity of 16-byte elements panics below zero and beyond \<open>2^48\<close> bytes.\<close>

definition alloc_ok :: "int \<Rightarrow> bool" where
  "alloc_ok n \<longleftrightarrow> 0 \<le> n \<and> n \<le> 2 ^ 44"

text \<open>An expression read where the error is dropped.\<close>

definition no_error :: "codec_error + expr \<Rightarrow> expr" where
  "no_error x = (case x of Inl e \<Rightarrow> NoExpr | Inr e \<Rightarrow> e)"

definition get_literal :: "reader \<Rightarrow> (expr \<times> reader) option" where
  "get_literal r =
     (case get_type r of (ty, r) \<Rightarrow>
        (case ty of
           TInt \<Rightarrow> (case get_word r of (w, r) \<Rightarrow> Some (Literal (VInt w), r))
         | TTimestamp \<Rightarrow> (case get_word r of (w, r) \<Rightarrow> Some (Literal (VTime (sint w, 0)), r))
         | TFloat \<Rightarrow> (case get_word r of (w, r) \<Rightarrow> Some (Literal (VFloat w), r))
         | TString \<Rightarrow> do { (s, r) \<leftarrow> get_str r; Some (Literal (VString s), r) }
         | TBool \<Rightarrow> (case get_bool r of (b, r) \<Rightarrow> Some (Literal (VBool b), r))
         | TNull \<Rightarrow> Some (Literal VNull, r)))"

text \<open>
  Every nested expression is read after a byte of its parent, so the length of the buffer bounds the depth: with more
  fuel than that the fuel never runs out (\<open>decode_fuel\<close>).
\<close>

primrec decode_expr :: "nat \<Rightarrow> reader \<Rightarrow> ((codec_error + expr) \<times> reader) option" where
  "decode_expr 0 r = None"
| "decode_expr (Suc n) r =
     (case get_byte r of (t, r) \<Rightarrow>
        if t = 1 then do { (e, r) \<leftarrow> get_literal r; Some (Inr e, r) }
        else if t = 2 then do { (s, r) \<leftarrow> get_str r; Some (Inr (Ident s), r) }
        else if t = 3 then
          (case get_byte r of (op, r) \<Rightarrow>
             do { (a, r) \<leftarrow> decode_expr n r;
                  (b, r) \<leftarrow> decode_expr n r;
                  Some (if op = 0 \<or> length binaryOps < op then Inl Bad_operator
                        else Inr (BinaryOp (binaryOps ! (op - 1)) (no_error a) (no_error b)), r) })
        else if t = 4 then
          (case get_byte r of (op, r) \<Rightarrow>
             do { (a, r) \<leftarrow> decode_expr n r;
                  Some (if op = 0 \<or> length unaryOps < op then Inl Bad_operator
                        else Inr (UnaryOp (unaryOps ! (op - 1)) (no_error a)), r) })
        else if t = 5 then
          do { (name, r) \<leftarrow> get_str r;
               (args, r) \<leftarrow> read_list (decode_expr n) r;
               Some (Inr (Call name (map no_error args)), r) }
        else if t = 6 then
          do { (a, r) \<leftarrow> decode_expr n r;
               case get_type r of (ty, r) \<Rightarrow> Some (Inr (CastExpr (no_error a) ty), r) }
        else Some (Inl (Unknown_expr t), r))"

definition decodeExpr :: "reader \<Rightarrow> ((codec_error + expr) \<times> reader) option" where
  "decodeExpr r = decode_expr (Suc (length (fst r))) r"

definition get_expr :: "reader \<Rightarrow> (expr \<times> reader) option" where
  "get_expr r = do { (x, r) \<leftarrow> decodeExpr r; Some (no_error x, r) }"

definition get_where :: "reader \<Rightarrow> (expr \<times> reader) option" where
  "get_where r = (case get_bool r of (b, r) \<Rightarrow> if b then get_expr r else Some (NoExpr, r))"

definition get_row :: "reader \<Rightarrow> ((codec_error + expr list) \<times> reader) option" where
  "get_row r =
     (case get_uvarint r of (v, r) \<Rightarrow> if alloc_ok (go_int v) then read_strict (nat (go_int v)) decodeExpr r else None)"

definition get_column :: "reader \<Rightarrow> (column_def \<times> reader) option" where
  "get_column r =
     do { (name, r) \<leftarrow> get_str r;
          case get_type r of (ty, r) \<Rightarrow>
          case get_bool r of (nn, r) \<Rightarrow>
          case get_bool r of (prim, r) \<Rightarrow>
          do { (d, r) \<leftarrow> get_where r;
               Some (\<lparr>cd_name = name, cd_type = ty, cd_notnull = nn, cd_default = d, cd_primary = prim\<rparr>, r) } }"

definition decodeSelect :: "reader \<Rightarrow> (select_stmt \<times> reader) option" where
  "decodeSelect r =
     (case get_bool r of (dst, r) \<Rightarrow>
      do { (items, r) \<leftarrow> read_list (\<lambda>r. do { (e, r) \<leftarrow> get_expr r; (a, r) \<leftarrow> get_str r; Some ((e, a), r) }) r;
           (tbl, r) \<leftarrow> get_str r;
           (w, r) \<leftarrow> get_where r;
           (g, r) \<leftarrow> read_list get_expr r;
           (os, r) \<leftarrow> read_list (\<lambda>r. do { (e, r) \<leftarrow> get_expr r; case get_bool r of (d, r) \<Rightarrow> Some ((e, d), r) }) r;
           case get_bool r of (haslimit, r) \<Rightarrow>
           case get_word r of (limit, r) \<Rightarrow>
           Some (\<lparr>sl_distinct = dst, sl_items = items, sl_from = tbl, sl_where = w, sl_group = g, sl_order = os,
             sl_limit = limit, sl_haslimit = haslimit\<rparr>, r) })"

definition decodeStmt :: "reader \<Rightarrow> ((codec_error + statement) \<times> reader) option" where
  "decodeStmt r =
     (case get_byte r of (t, r) \<Rightarrow>
        if t = 1 then
          do { (name, r) \<leftarrow> get_str r; (cols, r) \<leftarrow> read_list get_column r; (pk, r) \<leftarrow> read_list get_str r;
               case get_bool r of (ifnot, r) \<Rightarrow>
               do { (engine, r) \<leftarrow> get_str r;
                    case get_word r of (ret, r) \<Rightarrow>
                    Some (Inr (CreateTableStmt \<lparr>cr_name = name, cr_cols = cols, cr_pk = pk, cr_ifnot = ifnot,
                      cr_engine = engine, cr_retention = ret\<rparr>), r) } }
        else if t = 2 then
          do { (name, r) \<leftarrow> get_str r; case get_bool r of (b, r) \<Rightarrow> Some (Inr (DropTableStmt name b), r) }
        else if t = 3 then
          do { (name, r) \<leftarrow> get_str r; (tbl, r) \<leftarrow> get_str r; (cols, r) \<leftarrow> read_list get_str r;
               case get_bool r of (b, r) \<Rightarrow> Some (Inr (CreateIndexStmt name tbl cols b), r) }
        else if t = 4 then
          do { (name, r) \<leftarrow> get_str r; (tbl, r) \<leftarrow> get_str r;
               case get_bool r of (b, r) \<Rightarrow> Some (Inr (DropIndexStmt name tbl b), r) }
        else if t = 5 then
          do { (tbl, r) \<leftarrow> get_str r; (cols, r) \<leftarrow> read_list get_str r;
               case get_uvarint r of (v, r) \<Rightarrow>
               do { (rows, r) \<leftarrow> read_strict (nat (go_int v)) get_row r;
                    Some (map_sum id (InsertStmt tbl cols) rows, r) } }
        else if t = 6 then
          do { (tbl, r) \<leftarrow> get_str r;
               (sets, r) \<leftarrow> read_list (\<lambda>r. do { (c, r) \<leftarrow> get_str r; (e, r) \<leftarrow> get_expr r; Some ((c, e), r) }) r;
               (w, r) \<leftarrow> get_where r; Some (Inr (UpdateStmt tbl sets w), r) }
        else if t = 7 then
          do { (tbl, r) \<leftarrow> get_str r; (w, r) \<leftarrow> get_where r; Some (Inr (DeleteStmt tbl w), r) }
        else if t = 8 then Some (Inr BeginStmt, r)
        else if t = 9 then Some (Inr CommitStmt, r)
        else if t = 10 then Some (Inr RollbackStmt, r)
        else if t = 11 then do { (name, r) \<leftarrow> get_str r; Some (Inr (CreateDatabaseStmt name), r) }
        else if t = 12 then do { (s, r) \<leftarrow> decodeSelect r; Some (Inr (SelectStmt s), r) }
        else if t = 13 then
          do { (tbl, r) \<leftarrow> get_str r; (k, r) \<leftarrow> get_str r; (v, r) \<leftarrow> get_str r; Some (Inr (KVPutStmt tbl k v), r) }
        else if t = 14 then do { (tbl, r) \<leftarrow> get_str r; (k, r) \<leftarrow> get_str r; Some (Inr (KVGetStmt tbl k), r) }
        else if t = 15 then do { (tbl, r) \<leftarrow> get_str r; (k, r) \<leftarrow> get_str r; Some (Inr (KVDeleteStmt tbl k), r) }
        else if t = 16 then
          do { (tbl, r) \<leftarrow> get_str r; (lo, r) \<leftarrow> get_str r; (hi, r) \<leftarrow> get_str r;
               case get_bool r of (a, r) \<Rightarrow> case get_bool r of (b, r) \<Rightarrow> Some (Inr (KVScanStmt tbl lo hi a b), r) }
        else Some (Inl (Unknown_statement t), r))"

definition DecodeStatements :: "string \<Rightarrow> (codec_error + statement list) option" where
  "DecodeStatements data =
     (case get_uvarint (data, False) of (v, r) \<Rightarrow>
        if \<not> alloc_ok (go_int v) then None
        else do { (sts, r) \<leftarrow> read_strict (nat (go_int v)) decodeStmt r;
                  Some (case sts of Inl e \<Rightarrow> Inl e | Inr xs \<Rightarrow> if snd r then Inl Bad_read else Inr xs) })"

subsection \<open>Reading back what was written\<close>

lemma put_uvarint_Nil [simp]: "put_uvarint v \<noteq> []"
  by (simp add: put_uvarint.simps [of v])

lemma uvarint_back:
  "i \<le> 9 \<Longrightarrow> v < 2 ^ (64 - 7 * i) \<Longrightarrow> uvarint_at i (put_uvarint v @ rest) = Some (v, rest)"
proof (induction v arbitrary: i rule: put_uvarint.induct)
  case (1 v)
  show ?case
  proof (cases "v < 128")
    case True
    then have "i = 9 \<Longrightarrow> v \<le> 1" using 1(3) by simp
    then show ?thesis using True 1(2) by (auto simp: put_uvarint.simps [of v])
  next
    case False
    have i: "i \<le> 8"
    proof (rule ccontr)
      assume "\<not> i \<le> 8"
      then have "i = 9" using 1(2) by simp
      then show False using 1(3) False by simp
    qed
    then have e: "64 - 7 * i = 7 + (64 - 7 * Suc i)" by simp
    have "v < 128 * 2 ^ (64 - 7 * Suc i)" using 1(3) unfolding e power_add by simp
    then have "v div 128 < 2 ^ (64 - 7 * Suc i)" by (simp add: less_mult_imp_div_less mult.commute)
    then have "uvarint_at (Suc i) (put_uvarint (v div 128) @ rest) = Some (v div 128, rest)"
      using 1(1) [OF False, of "Suc i"] i by simp
    then show ?thesis using False i by (simp add: put_uvarint.simps [of v])
  qed
qed

lemma get_uvarint_back [simp]: "v < 2 ^ 64 \<Longrightarrow> get_uvarint (put_uvarint v @ rest, False) = (v, rest, False)"
  using uvarint_back [of 0 v rest] by (simp add: get_uvarint_def)

lemma go_int_small [simp]: "v < 2 ^ 63 \<Longrightarrow> go_int v = int v"
  using int_word_sint [where 'a = 64, of "int v"] by (simp add: go_int_def)

lemma get_word_back [simp]: "get_word (put_word w @ rest, False) = (w, rest, False)"
  using unsigned_less [of w, where 'a = nat] by (simp add: get_word_def put_word_def)

lemma get_byte_back [simp]: "get_byte (c # rest, False) = (byte_of c, rest, False)"
  by (simp add: get_byte_def)

lemma get_bool_back [simp]: "get_bool (put_bool b @ rest, False) = (b, rest, False)"
  by (simp add: get_bool_def put_bool_def)

lemma get_type_back [simp]: "get_type (put_type t @ rest, False) = (t, rest, False)"
  by (cases t) (simp_all add: get_type_def put_type_def)

lemma get_str_back [simp]:
  "length s < 2 ^ 63 \<Longrightarrow> get_str (put_str s @ rest, False) = Some (s, rest, False)"
  by (simp add: get_str_def put_str_def take_bytes_def)

lemma length_put_str: "length s < length (put_str s)"
  using put_uvarint_Nil [of "length s"] by (simp add: put_str_def del: put_uvarint_Nil)

lemma put_all_Some:
  "put_all f xs = Some s \<longleftrightarrow> (\<exists>ss. list_all2 (\<lambda>x t. f x = Some t) xs ss \<and> s = put_uvarint (length xs) @ concat ss)"
proof -
  have "those (map f xs) = Some ss \<longleftrightarrow> list_all2 (\<lambda>x t. f x = Some t) xs ss" for ss
    by (induction xs arbitrary: ss) (auto simp: list_all2_Cons1 split: option.splits)
  then show ?thesis by (auto simp: put_all_def bind_eq_Some_conv)
qed

lemma length_parts: "list_all (\<lambda>t. t \<noteq> []) ss \<Longrightarrow> length ss \<le> length (concat ss)"
proof (induction ss)
  case (Cons t ss)
  then show ?case by (cases t) simp_all
qed simp

lemma part_length: "t \<in> set ss \<Longrightarrow> length t \<le> length (concat ss)"
  by (induction ss) auto

lemma read_times_back:
  "list_all2 (\<lambda>x s. \<forall>rest. g (s @ rest, False) = Some (h x, rest, False)) xs ss \<Longrightarrow>
   read_times (length xs) g (concat ss @ rest, False) = Some (map h xs, rest, False)"
  by (induction xs ss arbitrary: rest rule: list_all2_induct) simp_all

text \<open>
  What a reader makes of what was written: an operator without a code is an error, and an error inside an expression
  leaves nil in its place. Of a timestamp literal only the integer field is kept.
\<close>

fun reread :: "expr \<Rightarrow> codec_error + expr" where
  "reread (BinaryOp op l r) =
     (if op \<in> set binaryOps then Inr (BinaryOp op (no_error (reread l)) (no_error (reread r))) else Inl Bad_operator)"
| "reread (UnaryOp op e) = (if op \<in> set unaryOps then Inr (UnaryOp op (no_error (reread e))) else Inl Bad_operator)"
| "reread (Call name args) = Inr (Call name (map (\<lambda>e. no_error (reread e)) args))"
| "reread (CastExpr e t) = Inr (CastExpr (no_error (reread e)) t)"
| "reread (Literal v) =
     Inr (Literal (case v of VTime t \<Rightarrow> VTime (sint (word_of_int (fst t) :: 64 word), 0) | _ \<Rightarrow> v))"
| "reread e = Inr e"

abbreviation seen :: "expr \<Rightarrow> expr" where
  "seen e \<equiv> no_error (reread e)"

text \<open>Up to the first error.\<close>

fun all_reread :: "('a \<Rightarrow> codec_error + 'b) \<Rightarrow> 'a list \<Rightarrow> codec_error + 'b list" where
  "all_reread f [] = Inr []"
| "all_reread f (x # xs) = (case f x of Inl e \<Rightarrow> Inl e | Inr y \<Rightarrow> map_sum id ((#) y) (all_reread f xs))"

definition reread_column :: "column_def \<Rightarrow> column_def" where
  "reread_column c = c\<lparr>cd_default := seen (cd_default c)\<rparr>"

definition reread_select :: "select_stmt \<Rightarrow> select_stmt" where
  "reread_select s =
     s\<lparr>sl_items := map (map_prod seen id) (sl_items s), sl_where := seen (sl_where s),
       sl_group := map seen (sl_group s), sl_order := map (map_prod seen id) (sl_order s)\<rparr>"

fun reread_stmt :: "statement \<Rightarrow> codec_error + statement" where
  "reread_stmt (CreateTableStmt s) = Inr (CreateTableStmt (s\<lparr>cr_cols := map reread_column (cr_cols s)\<rparr>))"
| "reread_stmt (InsertStmt table cols rows) = map_sum id (InsertStmt table cols) (all_reread (all_reread reread) rows)"
| "reread_stmt (UpdateStmt table sets cond) = Inr (UpdateStmt table (map (map_prod id seen) sets) (seen cond))"
| "reread_stmt (DeleteStmt table cond) = Inr (DeleteStmt table (seen cond))"
| "reread_stmt (SelectStmt s) = Inr (SelectStmt (reread_select s))"
| "reread_stmt st = Inr st"

lemma read_strict_back:
  assumes "list_all2 (\<lambda>x s. \<forall>rest. \<exists>r. g (s @ rest, False) = Some (h x, r) \<and> (\<forall>y. h x = Inr y \<longrightarrow> r = (rest, False))) xs ss"
  shows "\<exists>r. read_strict (length xs) g (concat ss @ rest, False) = Some (all_reread h xs, r) \<and>
    (\<forall>ys. all_reread h xs = Inr ys \<longrightarrow> r = (rest, False))"
  using assms
proof (induction xs ss rule: list_all2_induct)
  case (Cons x xs t ss)
  then obtain r where r: "g (t @ concat ss @ rest, False) = Some (h x, r)" "\<forall>y. h x = Inr y \<longrightarrow> r = (concat ss @ rest, False)"
    by blast
  show ?case
  proof (cases "h x")
    case (Inl e)
    then show ?thesis using r(1) by simp
  next
    case (Inr y)
    then show ?thesis using r Cons.IH by (cases "all_reread h xs") auto
  qed
qed simp

text \<open>What makes a list readable: its items are, and none is written as nothing.\<close>

lemma list_parts:
  assumes "put_all f xs = Some s" and "length s < 2 ^ 44" and "\<And>x t. x \<in> set xs \<Longrightarrow> f x = Some t \<Longrightarrow> t \<noteq> []"
  obtains ss where "s = put_uvarint (length xs) @ concat ss" and "length xs < 2 ^ 44"
    and "list_all2 (\<lambda>x t. x \<in> set xs \<and> f x = Some t \<and> length t < length s) xs ss"
proof -
  obtain ss where ss: "list_all2 (\<lambda>x t. f x = Some t) xs ss" "s = put_uvarint (length xs) @ concat ss"
    using assms(1) by (auto simp: put_all_Some)
  have "list_all (\<lambda>t. t \<noteq> []) ss" using ss(1) assms(3) by (induction rule: list_all2_induct) auto
  then have "length xs \<le> length s" using length_parts [of ss] list_all2_lengthD [OF ss(1)] ss(2) by simp
  then have n: "length xs < 2 ^ 44" using assms(2) by simp
  have "0 < length (put_uvarint (length xs))" by simp
  then have "length t < length s" if "t \<in> set ss" for t using part_length [OF that] ss(2) by (simp del: length_greater_0_conv)
  then have "list_all2 (\<lambda>x t. x \<in> set xs \<and> f x = Some t \<and> length t < length s) xs ss"
    using ss(1) by (auto simp: list_all2_conv_all_nth)
  with ss(2) n show ?thesis using that by blast
qed

lemma read_list_back:
  assumes "put_all f xs = Some s" and "length s < 2 ^ 44" and "\<And>x t. x \<in> set xs \<Longrightarrow> f x = Some t \<Longrightarrow> t \<noteq> []"
    and "\<And>x t rest. x \<in> set xs \<Longrightarrow> f x = Some t \<Longrightarrow> length t < length s \<Longrightarrow> g (t @ rest, False) = Some (h x, rest, False)"
  shows "read_list g (s @ rest, False) = Some (map h xs, rest, False)"
proof -
  obtain ss where s: "s = put_uvarint (length xs) @ concat ss" "length xs < 2 ^ 44"
    and l: "list_all2 (\<lambda>x t. x \<in> set xs \<and> f x = Some t \<and> length t < length s) xs ss"
    using list_parts [OF assms(1-3)] .
  have "list_all2 (\<lambda>x t. \<forall>rest. g (t @ rest, False) = Some (h x, rest, False)) xs ss"
    by (rule list_all2_mono [OF l]) (use assms(4) in blast)
  from read_times_back [OF this, of rest] show ?thesis using s by (simp add: read_list_def)
qed

lemma op_back:
  assumes "op \<in> set ops" and "length ops < 255"
  shows "byte_of (op_byte ops op) = nat (opIndex ops op + 1)" and "opIndex ops op \<ge> 0"
    and "opIndex ops op < int (length ops)" and "ops ! nat (opIndex ops op) = op"
proof -
  have "0 \<le> opIndex ops op \<and> opIndex ops op < int (length ops) \<and> ops ! nat (opIndex ops op) = op"
    using assms(1) by (induction ops) (auto simp: Let_def nat_add_distrib)
  then show "opIndex ops op \<ge> 0" "opIndex ops op < int (length ops)" "ops ! nat (opIndex ops op) = op" by auto
  then show "byte_of (op_byte ops op) = nat (opIndex ops op + 1)" using assms(2) by (simp add: op_byte_def)
qed

lemma op_unknown: "op \<notin> set ops \<Longrightarrow> byte_of (op_byte ops op) = 0"
proof -
  assume "op \<notin> set ops"
  then have "opIndex ops op = -1" by (induction ops) (auto simp: Let_def)
  then show ?thesis by (simp add: op_byte_def)
qed

lemma literal_back:
  assumes "length (put_literal v) < 2 ^ 44"
  shows "\<exists>e. get_literal (put_literal v @ rest, False) = Some (e, rest, False) \<and> reread (Literal v) = Inr e"
  using assms by (cases v) (auto simp: get_literal_def put_str_def get_str_def take_bytes_def)

lemma encodeExpr_Nil [simp]: "encodeExpr e \<noteq> Some []"
  by (cases e) (auto simp: bind_eq_Some_conv)

lemma expr_back:
  "encodeExpr e = Some s \<Longrightarrow> length s < n \<Longrightarrow> length s < 2 ^ 44 \<Longrightarrow>
   decode_expr n (s @ rest, False) = Some (reread e, rest, False)"
proof (induction e arbitrary: s n rest)
  case (Literal v)
  then obtain m where "n = Suc m" by (cases n) auto
  then show ?case using Literal literal_back [of v rest] by auto
next
  case (Ident x)
  then obtain m where "n = Suc m" by (cases n) auto
  then show ?case using Ident by (auto simp: put_str_def get_str_def take_bytes_def)
next
  case (BinaryOp op l r)
  obtain a b where ab: "encodeExpr l = Some a" "encodeExpr r = Some b" and s: "s = char_of (3 :: nat) # op_byte binaryOps op # a @ b"
    using BinaryOp.prems(1) by (auto simp: bind_eq_Some_conv)
  obtain m where n: "n = Suc m" using BinaryOp.prems(2) by (cases n) auto
  have l: "length a < m" "length b < m" "length a < 2 ^ 44" "length b < 2 ^ 44" using BinaryOp.prems(2,3) n s by auto
  have "decode_expr m (a @ b @ rest, False) = Some (reread l, b @ rest, False)" by (rule BinaryOp.IH(1) [OF ab(1) l(1,3)])
  moreover have "decode_expr m (b @ rest, False) = Some (reread r, rest, False)" by (rule BinaryOp.IH(2) [OF ab(2) l(2,4)])
  moreover have "length binaryOps < 255" by (simp add: binaryOps_def)
  ultimately show ?case using op_back [of op binaryOps] op_unknown [of op binaryOps]
    by (cases "op \<in> set binaryOps") (simp_all add: n s nat_add_distrib)
next
  case (UnaryOp op e)
  obtain a where a: "encodeExpr e = Some a" and s: "s = char_of (4 :: nat) # op_byte unaryOps op # a"
    using UnaryOp.prems(1) by (auto simp: bind_eq_Some_conv)
  obtain m where n: "n = Suc m" using UnaryOp.prems(2) by (cases n) auto
  have "decode_expr m (a @ rest, False) = Some (reread e, rest, False)"
    using UnaryOp.IH [OF a] UnaryOp.prems(2,3) n s by simp
  moreover have "length unaryOps < 255" by (simp add: unaryOps_def)
  ultimately show ?case using op_back [of op unaryOps] op_unknown [of op unaryOps]
    by (cases "op \<in> set unaryOps") (simp_all add: n s nat_add_distrib)
next
  case (Call name args)
  obtain t where t: "put_all encodeExpr args = Some t" and s: "s = char_of (5 :: nat) # put_str name @ t"
    using Call.prems(1) by (auto simp: bind_eq_Some_conv put_all_def)
  obtain m where n: "n = Suc m" using Call.prems(2) by (cases n) auto
  have "read_list (decode_expr m) (t @ rest, False) = Some (map reread args, rest, False)"
  proof (rule read_list_back [OF t])
    show "length t < 2 ^ 44" using Call.prems(3) s by simp
    show "u \<noteq> []" if "encodeExpr x = Some u" for x u using that by auto
    show "decode_expr m (u @ r, False) = Some (reread x, r, False)"
      if "x \<in> set args" "encodeExpr x = Some u" "length u < length t" for x u r
      using Call.IH [OF that(1,2)] Call.prems(2,3) that s n by auto
  qed
  moreover have "length name < 2 ^ 63" using Call.prems(3) s by (simp add: put_str_def)
  ultimately show ?case by (simp add: n s comp_def)
next
  case (CastExpr e t)
  obtain a where a: "encodeExpr e = Some a" and s: "s = char_of (6 :: nat) # a @ put_type t"
    using CastExpr.prems(1) by (auto simp: bind_eq_Some_conv)
  obtain m where n: "n = Suc m" using CastExpr.prems(2) by (cases n) auto
  have "decode_expr m (a @ put_type t @ rest, False) = Some (reread e, put_type t @ rest, False)"
    using CastExpr.IH [OF a] CastExpr.prems(2,3) n s by simp
  then show ?case by (simp add: n s)
qed simp

lemma decodeExpr_back:
  "encodeExpr e = Some s \<Longrightarrow> length s < 2 ^ 44 \<Longrightarrow> decodeExpr (s @ rest, False) = Some (reread e, rest, False)"
  unfolding decodeExpr_def by (rule expr_back) simp_all

lemma get_expr_back:
  "encodeExpr e = Some s \<Longrightarrow> length s < 2 ^ 44 \<Longrightarrow> get_expr (s @ rest, False) = Some (seen e, rest, False)"
  by (simp add: get_expr_def decodeExpr_back)

lemma get_where_back:
  "put_where e = Some s \<Longrightarrow> length s < 2 ^ 44 \<Longrightarrow> get_where (s @ rest, False) = Some (seen e, rest, False)"
  by (auto simp: put_where_def get_where_def bind_eq_Some_conv get_expr_back no_error_def split: if_splits)

lemma put_column_back:
  assumes "put_column c = Some s" and "length s < 2 ^ 44"
  shows "get_column (s @ rest, False) = Some (reread_column c, rest, False)"
proof -
  obtain d where d: "put_where (cd_default c) = Some d"
    and s: "s = put_str (cd_name c) @ put_type (cd_type c) @ put_bool (cd_notnull c) @ put_bool (cd_primary c) @ d"
    using assms(1) by (auto simp: put_column_def bind_eq_Some_conv)
  have "length (cd_name c) < 2 ^ 63" "length d < 2 ^ 44" using assms(2) s by (auto simp: put_str_def)
  then show ?thesis using get_where_back [OF d] by (simp add: get_column_def s reread_column_def)
qed

lemma put_strs_back: "length (put_strs ss) < 2 ^ 44 \<Longrightarrow> read_list get_str (put_strs ss @ rest, False) = Some (ss, rest, False)"
proof -
  assume l: "length (put_strs ss) < 2 ^ 44"
  have "those (map (\<lambda>x. Some (put_str x)) ss) = Some (map put_str ss)" by (induction ss) simp_all
  then have p: "put_all (\<lambda>s. Some (put_str s)) ss = Some (put_strs ss)" by (simp add: put_all_def put_strs_def)
  have "read_list get_str (put_strs ss @ rest, False) = Some (map id ss, rest, False)"
  proof (rule read_list_back [OF p l])
    show "t \<noteq> []" if "Some (put_str x) = Some t" for x t using that by (auto simp: put_str_def)
    show "get_str (t @ r, False) = Some (id x, r, False)"
      if "x \<in> set ss" "Some (put_str x) = Some t" "length t < length (put_strs ss)" for x t r
    proof -
      have "length x \<le> length t" using that(2) by (auto simp: put_str_def)
      then show ?thesis using that l by auto
    qed
  qed
  then show ?thesis by simp
qed

lemma row_back:
  assumes "put_all encodeExpr es = Some s" and "length s < 2 ^ 44"
  shows "\<exists>r. get_row (s @ rest, False) = Some (all_reread reread es, r) \<and>
    (\<forall>ys. all_reread reread es = Inr ys \<longrightarrow> r = (rest, False))"
proof -
  obtain ss where s: "s = put_uvarint (length es) @ concat ss" "length es < 2 ^ 44"
    and l: "list_all2 (\<lambda>x t. x \<in> set es \<and> encodeExpr x = Some t \<and> length t < length s) es ss"
    by (rule list_parts [OF assms]) auto
  have "list_all2 (\<lambda>x t. \<forall>rest. \<exists>r. decodeExpr (t @ rest, False) = Some (reread x, r) \<and> (\<forall>y. reread x = Inr y \<longrightarrow> r = (rest, False))) es ss"
    by (rule list_all2_mono [OF l]) (use assms(2) decodeExpr_back in auto)
  from read_strict_back [OF this, of rest] show ?thesis using s by (simp add: get_row_def alloc_ok_def)
qed

lemma select_back:
  assumes "encodeSelect s = Some t" and "length t < 2 ^ 44"
  shows "decodeSelect (t @ rest, False) = Some (reread_select s, rest, False)"
proof -
  let ?f = "\<lambda>(e, alias). do { a \<leftarrow> encodeExpr e; Some (a @ put_str alias) }"
  let ?h = "\<lambda>(e, desc). do { a \<leftarrow> encodeExpr e; Some (a @ put_bool desc) }"
  obtain items w g os where i: "put_all ?f (sl_items s) = Some items" and w: "put_where (sl_where s) = Some w"
    and g: "put_all encodeExpr (sl_group s) = Some g" and os: "put_all ?h (sl_order s) = Some os"
    and t: "t = put_bool (sl_distinct s) @ items @ put_str (sl_from s) @ w @ g @ os @
      put_bool (sl_haslimit s) @ put_word (sl_limit s)"
    using assms(1) by (auto simp: encodeSelect_def bind_eq_Some_conv)
  have len: "length items < 2 ^ 44" "length w < 2 ^ 44" "length g < 2 ^ 44" "length os < 2 ^ 44" "length (sl_from s) < 2 ^ 63"
    using assms(2) t by (auto simp: put_str_def)
  have ri: "read_list (\<lambda>r. do { (e, r) \<leftarrow> get_expr r; (a, r) \<leftarrow> get_str r; Some ((e, a), r) }) (items @ r, False) =
      Some (map (map_prod seen id) (sl_items s), r, False)" for r
  proof (rule read_list_back [OF i len(1)])
    fix x u r
    assume x: "x \<in> set (sl_items s)" "?f x = Some u" "length u < length items"
    obtain e n where e: "x = (e, n)" by (cases x)
    then obtain a where a: "encodeExpr e = Some a" "u = a @ put_str n" using x(2) by (auto simp: bind_eq_Some_conv)
    have "length a < 2 ^ 44" "length n < 2 ^ 63" using x(3) len(1) a(2) length_put_str [of n] by simp_all
    then show "(do { (e, r) \<leftarrow> get_expr (u @ r, False); (a, r) \<leftarrow> get_str r; Some ((e, a), r) }) = Some (map_prod seen id x, r, False)"
      using get_expr_back [OF a(1)] by (auto simp: e a(2))
  qed (auto simp: bind_eq_Some_conv)
  have rg: "read_list get_expr (g @ r, False) = Some (map seen (sl_group s), r, False)" for r
    by (rule read_list_back [OF g len(3)]) (use len(3) in \<open>auto simp: get_expr_back\<close>)
  have ro: "read_list (\<lambda>r. do { (e, r) \<leftarrow> get_expr r; case get_bool r of (d, r) \<Rightarrow> Some ((e, d), r) }) (os @ r, False) =
      Some (map (map_prod seen id) (sl_order s), r, False)" for r
  proof (rule read_list_back [OF os len(4)])
    fix x u r
    assume x: "x \<in> set (sl_order s)" "?h x = Some u" "length u < length os"
    obtain e d where e: "x = (e, d)" by (cases x)
    then obtain a where a: "encodeExpr e = Some a" "u = a @ put_bool d" using x(2) by (auto simp: bind_eq_Some_conv)
    have "length a < 2 ^ 44" using x(3) len(4) a(2) by simp
    then show "(do { (e, r) \<leftarrow> get_expr (u @ r, False); case get_bool r of (d, r) \<Rightarrow> Some ((e, d), r) }) = Some (map_prod seen id x, r, False)"
      using get_expr_back [OF a(1)] by (auto simp: e a(2))
  qed (auto simp: bind_eq_Some_conv)
  show ?thesis using ri rg ro get_where_back [OF w len(2)] len(5) by (simp add: decodeSelect_def t reread_select_def)
qed

lemma update_back:
  assumes "put_all (\<lambda>(c, e). do { a \<leftarrow> encodeExpr e; Some (put_str c @ a) }) sets = Some s" and "length s < 2 ^ 44"
  shows "read_list (\<lambda>r. do { (c, r) \<leftarrow> get_str r; (e, r) \<leftarrow> get_expr r; Some ((c, e), r) }) (s @ rest, False) =
    Some (map (map_prod id seen) sets, rest, False)"
proof (rule read_list_back [OF assms])
  fix x u r
  assume x: "x \<in> set sets" "(\<lambda>(c, e). do { a \<leftarrow> encodeExpr e; Some (put_str c @ a) }) x = Some u" "length u < length s"
  obtain c e where e: "x = (c, e)" by (cases x)
  then obtain a where a: "encodeExpr e = Some a" "u = put_str c @ a" using x(2) by (auto simp: bind_eq_Some_conv)
  have "length a < 2 ^ 44" "length c < 2 ^ 63" using x(3) assms(2) a(2) length_put_str [of c] by simp_all
  then show "(do { (c, r) \<leftarrow> get_str (u @ r, False); (e, r) \<leftarrow> get_expr r; Some ((c, e), r) }) =
      Some (map_prod id seen x, r, False)"
    using get_expr_back [OF a(1)] by (auto simp: e a(2))
qed (auto simp: bind_eq_Some_conv)

lemma rows_back:
  assumes "put_all (put_all encodeExpr) rows = Some s" and "length s < 2 ^ 44"
  obtains n ss where "s = put_uvarint n @ ss" and "n < 2 ^ 44"
    and "\<And>rest. \<exists>r. read_strict n get_row (ss @ rest, False) = Some (all_reread (all_reread reread) rows, r) \<and>
      (\<forall>ys. all_reread (all_reread reread) rows = Inr ys \<longrightarrow> r = (rest, False))"
proof -
  obtain ss where s: "s = put_uvarint (length rows) @ concat ss" "length rows < 2 ^ 44"
    and l: "list_all2 (\<lambda>x t. x \<in> set rows \<and> put_all encodeExpr x = Some t \<and> length t < length s) rows ss"
    by (rule list_parts [OF assms]) (auto simp: put_all_Some)
  have "list_all2 (\<lambda>x t. \<forall>rest. \<exists>r. get_row (t @ rest, False) = Some (all_reread reread x, r) \<and>
      (\<forall>y. all_reread reread x = Inr y \<longrightarrow> r = (rest, False))) rows ss"
    by (rule list_all2_mono [OF l]) (use assms(2) row_back in auto)
  from read_strict_back [OF this] s show ?thesis using that by blast
qed

lemma columns_back:
  assumes "put_all put_column cols = Some s" and "length s < 2 ^ 44"
  shows "read_list get_column (s @ rest, False) = Some (map reread_column cols, rest, False)"
  by (rule read_list_back [OF assms])
    (use assms(2) put_column_back in \<open>auto simp: put_column_def put_type_def bind_eq_Some_conv\<close>)

lemma get_str_bounded [simp]:
  "length (put_str s) < 2 ^ 63 \<Longrightarrow> get_str (put_str s @ rest, False) = Some (s, rest, False)"
  using length_put_str [of s] by simp

lemma stmt_back:
  assumes "encodeStmt st = Some s" and "length s < 2 ^ 44"
  shows "\<exists>r. decodeStmt (s @ rest, False) = Some (reread_stmt st, r) \<and> (\<forall>y. reread_stmt st = Inr y \<longrightarrow> r = (rest, False))"
proof (cases st)
  case (CreateTableStmt c)
  then obtain cols where cols: "put_all put_column (cr_cols c) = Some cols"
    and s: "s = char_of (1 :: nat) # put_str (cr_name c) @ cols @ put_strs (cr_pk c) @ put_bool (cr_ifnot c) @
      put_str (cr_engine c) @ put_word (cr_retention c)"
    using assms(1) by (auto simp: bind_eq_Some_conv)
  have "length cols < 2 ^ 44" "length (put_strs (cr_pk c)) < 2 ^ 44" using assms(2) s by auto
  then show ?thesis using columns_back [OF cols] put_strs_back assms(2) by (simp add: s decodeStmt_def CreateTableStmt)
next
  case (CreateIndexStmt name table cols b)
  have "length (put_strs cols) < 2 ^ 44" using assms(1,2) CreateIndexStmt by auto
  then show ?thesis using assms(1,2) put_strs_back [of cols] CreateIndexStmt by (auto simp: decodeStmt_def)
next
  case (InsertStmt table cols rows)
  then obtain rs where rs: "put_all (put_all encodeExpr) rows = Some rs" and s: "s = char_of (5 :: nat) # put_str table @ put_strs cols @ rs"
    using assms(1) by (auto simp: bind_eq_Some_conv)
  have l: "length rs < 2 ^ 44" "length (put_strs cols) < 2 ^ 44" using assms(2) s by auto
  obtain n ss where n: "rs = put_uvarint n @ ss" "n < 2 ^ 44"
    and all: "\<And>rest. \<exists>r. read_strict n get_row (ss @ rest, False) = Some (all_reread (all_reread reread) rows, r) \<and>
      (\<forall>ys. all_reread (all_reread reread) rows = Inr ys \<longrightarrow> r = (rest, False))"
    using rows_back [OF rs l(1)] by blast
  obtain r where r: "read_strict n get_row (ss @ rest, False) = Some (all_reread (all_reread reread) rows, r)"
    "\<forall>ys. all_reread (all_reread reread) rows = Inr ys \<longrightarrow> r = (rest, False)"
    using all by blast
  have "decodeStmt (s @ rest, False) = Some (reread_stmt st, r)"
    using r(1) n assms(2) put_strs_back [OF l(2)] by (simp add: s decodeStmt_def InsertStmt)
  moreover have "\<exists>ys. all_reread (all_reread reread) rows = Inr ys" if "reread_stmt st = Inr y" for y
    using that InsertStmt by (cases "all_reread (all_reread reread) rows") auto
  ultimately show ?thesis using r(2) by blast
next
  case (UpdateStmt table sets cond)
  then obtain ss w where ss: "put_all (\<lambda>(c, e). do { a \<leftarrow> encodeExpr e; Some (put_str c @ a) }) sets = Some ss"
    and w: "put_where cond = Some w" and s: "s = char_of (6 :: nat) # put_str table @ ss @ w"
    using assms(1) by (auto simp: bind_eq_Some_conv)
  have "length ss < 2 ^ 44" "length w < 2 ^ 44" using assms(2) s by auto
  then show ?thesis using update_back [OF ss] get_where_back [OF w] assms(2) by (simp add: s decodeStmt_def UpdateStmt)
next
  case (DeleteStmt table cond)
  then obtain w where w: "put_where cond = Some w" and s: "s = char_of (7 :: nat) # put_str table @ w"
    using assms(1) by (auto simp: bind_eq_Some_conv)
  then show ?thesis using get_where_back [OF w] assms(2) by (simp add: decodeStmt_def DeleteStmt)
next
  case (SelectStmt q)
  then obtain a where a: "encodeSelect q = Some a" and s: "s = char_of (12 :: nat) # a"
    using assms(1) by (auto simp: bind_eq_Some_conv)
  then show ?thesis using select_back [OF a] assms(2) by (simp add: decodeStmt_def SelectStmt)
qed (use assms in \<open>auto simp: decodeStmt_def\<close>)

subsection \<open>The fuel is enough\<close>

lemma case_pair_cases: "(case p of (x, r) \<Rightarrow> f x r) = y \<Longrightarrow> (\<And>x r. p = (x, r) \<Longrightarrow> f x r = y \<Longrightarrow> P) \<Longrightarrow> P"
  by (cases p) simp

lemma bind_pair_cases:
  "Option.bind m (\<lambda>(x, r). f x r) = Some y \<Longrightarrow> (\<And>x r. m = Some (x, r) \<Longrightarrow> f x r = Some y \<Longrightarrow> P) \<Longrightarrow> P"
  by (cases m) auto

lemma bind_pair_Some: "Option.bind m (\<lambda>(x, r). f x r) = Some y \<longleftrightarrow> (\<exists>x r. m = Some (x, r) \<and> f x r = Some y)"
  by (cases m) auto

lemma uvarint_rest: "uvarint_at i s = Some (v, r) \<Longrightarrow> length r < length s"
  by (induction i s arbitrary: v r rule: uvarint_at.induct) (fastforce split: if_splits)+

lemma get_uvarint_rest: "get_uvarint r = (v, r') \<Longrightarrow> length (fst r') \<le> length (fst r)"
  by (auto simp: get_uvarint_def split: prod.splits if_splits option.splits dest: uvarint_rest)

lemma get_byte_rest: "get_byte r = (b, r') \<Longrightarrow> length (fst r') \<le> length (fst r) \<and> (b \<noteq> 0 \<longrightarrow> length (fst r') < length (fst r))"
  by (auto simp: get_byte_def split: prod.splits if_splits)

lemma get_bool_rest: "get_bool r = (b, r') \<Longrightarrow> length (fst r') \<le> length (fst r)"
  by (auto simp: get_bool_def split: prod.splits dest: get_byte_rest)

lemma get_type_rest: "get_type r = (t, r') \<Longrightarrow> length (fst r') \<le> length (fst r)"
  by (auto simp: get_type_def split: prod.splits dest: get_byte_rest)

lemma get_word_rest: "get_word r = (w, r') \<Longrightarrow> length (fst r') \<le> length (fst r)"
  by (auto simp: get_word_def split: prod.splits dest: get_uvarint_rest)

lemma get_str_rest: "get_str r = Some (s, r') \<Longrightarrow> length (fst r') \<le> length (fst r)"
  by (fastforce simp: get_str_def take_bytes_def split: prod.splits if_splits dest: get_uvarint_rest)

lemma read_times_rest:
  assumes "\<And>r x r'. g r = Some (x, r') \<Longrightarrow> length (fst r') \<le> length (fst r)"
  shows "read_times n g r = Some (xs, r') \<Longrightarrow> length (fst r') \<le> length (fst r)"
proof (induction n arbitrary: xs r)
  case (Suc n)
  then obtain x r1 ys where "g r = Some (x, r1)" "read_times n g r1 = Some (ys, r')"
    by (auto simp only: read_times.simps bind_pair_Some option.inject prod.inject)
  then show ?case using Suc.IH [of r1 ys] assms [of r x r1] by simp
qed simp

lemma read_list_rest:
  assumes "\<And>r x r'. g r = Some (x, r') \<Longrightarrow> length (fst r') \<le> length (fst r)" and "read_list g r = Some (xs, r')"
  shows "length (fst r') \<le> length (fst r)"
proof -
  obtain v r1 where v: "get_uvarint r = (v, r1)" by (cases "get_uvarint r")
  then have "read_times (nat (go_int v)) g r1 = Some (xs, r')" using assms(2) by (simp add: read_list_def)
  then have "length (fst r') \<le> length (fst r1)" by (rule read_times_rest [rotated]) (rule assms(1))
  then show ?thesis using get_uvarint_rest [OF v] by simp
qed

lemma get_literal_rest:
  assumes "get_literal r = Some (e, r')"
  shows "length (fst r') \<le> length (fst r)"
proof -
  obtain ty r1 where t: "get_type r = (ty, r1)" by (cases "get_type r")
  show ?thesis using assms get_type_rest [OF t] unfolding get_literal_def t prod.case
    by (cases ty) (auto elim!: case_pair_cases bind_pair_cases dest!: get_word_rest get_str_rest get_bool_rest)
qed

lemma decode_expr_rest: "decode_expr n r = Some (x, r') \<Longrightarrow> length (fst r') \<le> length (fst r)"
proof (induction n arbitrary: r x r')
  case (Suc n)
  obtain t r1 where t: "get_byte r = (t, r1)" by (cases "get_byte r")
  obtain op r2 where op: "get_byte r1 = (op, r2)" by (cases "get_byte r1")
  have l: "length (fst r1) \<le> length (fst r)" "length (fst r2) \<le> length (fst r)"
    using get_byte_rest [OF t] get_byte_rest [OF op] by simp_all
  note ih = Suc.IH le_trans
  have a: "length (fst r') \<le> length (fst r0)" if "read_list (decode_expr n) r0 = Some (xs, r')" for r0 r' xs
    using read_list_rest [OF Suc.IH that] .
  show ?case using Suc.prems unfolding decode_expr.simps t op prod.case
    using l
    by (auto split: if_splits elim!: case_pair_cases bind_pair_cases
        dest!: get_literal_rest get_str_rest get_type_rest Suc.IH a)
qed simp

lemma bind_pair_cong:
  "m = m' \<Longrightarrow> (\<And>x r. m' = Some (x, r) \<Longrightarrow> f x r = f' x r) \<Longrightarrow>
   Option.bind m (\<lambda>(x, r). f x r) = Option.bind m' (\<lambda>(x, r). f' x r)"
  by (cases m') auto

lemma read_times_cong:
  assumes "\<And>r. length (fst r) < k \<Longrightarrow> g r = h r" and "\<And>r x r'. h r = Some (x, r') \<Longrightarrow> length (fst r') \<le> length (fst r)"
  shows "length (fst r) < k \<Longrightarrow> read_times j g r = read_times j h r"
proof (induction j arbitrary: r)
  case (Suc j)
  show ?case unfolding read_times.simps
  proof (rule bind_pair_cong)
    show "g r = h r" by (rule assms(1) [OF Suc.prems])
    fix x r1
    assume "h r = Some (x, r1)"
    from assms(2) [OF this] Suc.prems have "length (fst r1) < k" by simp
    then show "(do { (xs, r) \<leftarrow> read_times j g r1; Some (x # xs, r) }) = (do { (xs, r) \<leftarrow> read_times j h r1; Some (x # xs, r) })"
      by (simp add: Suc.IH)
  qed
qed simp

lemma decode_fuel: "length (fst r) < n \<Longrightarrow> n \<le> m \<Longrightarrow> decode_expr m r = decode_expr n r"
proof (induction n arbitrary: m r)
  case (Suc n)
  obtain m' where m: "m = Suc m'" "n \<le> m'" using Suc.prems(2) by (cases m) auto
  obtain t r1 where t: "get_byte r = (t, r1)" by (cases "get_byte r")
  obtain op r2 where op: "get_byte r1 = (op, r2)" by (cases "get_byte r1")
  show ?case
  proof (cases "t = 0")
    case True
    then show ?thesis by (simp add: m t)
  next
    case False
    then have l: "length (fst r1) < n" "length (fst r2) < n"
      using get_byte_rest [OF t] get_byte_rest [OF op] Suc.prems(1) by simp_all
    have d: "decode_expr m' r0 = decode_expr n r0" if "length (fst r0) < n" for r0 using Suc.IH [OF that m(2)] .
    have dd: "decode_expr m' r0 = decode_expr n r0" if "decode_expr n r2 = Some (x, r0)" for x r0
      using d decode_expr_rest [OF that] l(2) by simp
    have a: "read_list (decode_expr m') r0 = read_list (decode_expr n) r0" if "get_str r1 = Some (x, r0)" for x r0
    proof -
      obtain v r3 where v: "get_uvarint r0 = (v, r3)" by (cases "get_uvarint r0")
      have "length (fst r3) < n" using get_uvarint_rest [OF v] get_str_rest [OF that] l(1) by simp
      then show ?thesis using read_times_cong [of n "decode_expr m'" "decode_expr n" r3, OF d decode_expr_rest] by (simp add: read_list_def v)
    qed
    have b: "(do { (a, r) \<leftarrow> decode_expr n r2; (b, r) \<leftarrow> decode_expr m' r; f a b r }) =
        (do { (a, r) \<leftarrow> decode_expr n r2; (b, r) \<leftarrow> decode_expr n r; f a b r })"
      for f :: "codec_error + expr \<Rightarrow> codec_error + expr \<Rightarrow> reader \<Rightarrow> ((codec_error + expr) \<times> reader) option"
      by (rule bind_pair_cong [OF refl]) (simp add: dd)
    have c: "(do { (name, r) \<leftarrow> get_str r1; (args, r) \<leftarrow> read_list (decode_expr m') r; f name args r }) =
        (do { (name, r) \<leftarrow> get_str r1; (args, r) \<leftarrow> read_list (decode_expr n) r; f name args r })"
      for f :: "string \<Rightarrow> (codec_error + expr) list \<Rightarrow> reader \<Rightarrow> ((codec_error + expr) \<times> reader) option"
      by (rule bind_pair_cong [OF refl]) (simp add: a)
    show ?thesis unfolding m(1) decode_expr.simps t op prod.case d [OF l(1)] d [OF l(2)] b c ..
  qed
qed simp

subsection \<open>What an entry carries\<close>

text \<open>Statements whose operators all have a code; a timestamp literal is its integer field.\<close>

fun codec_expr :: "expr \<Rightarrow> bool" where
  "codec_expr (BinaryOp op l r) = (op \<in> set binaryOps \<and> codec_expr l \<and> codec_expr r)"
| "codec_expr (UnaryOp op e) = (op \<in> set unaryOps \<and> codec_expr e)"
| "codec_expr (Call name args) = list_all codec_expr args"
| "codec_expr (CastExpr e t) = codec_expr e"
| "codec_expr (Literal v) = (case v of VTime t \<Rightarrow> snd t = 0 \<and> sint (word_of_int (fst t) :: 64 word) = fst t | _ \<Rightarrow> True)"
| "codec_expr _ = True"

fun codec_stmt :: "statement \<Rightarrow> bool" where
  "codec_stmt (CreateTableStmt s) = list_all (\<lambda>c. codec_expr (cd_default c)) (cr_cols s)"
| "codec_stmt (InsertStmt table cols rows) = list_all (list_all codec_expr) rows"
| "codec_stmt (UpdateStmt table sets cond) = (list_all (\<lambda>(c, e). codec_expr e) sets \<and> codec_expr cond)"
| "codec_stmt (DeleteStmt table cond) = codec_expr cond"
| "codec_stmt (SelectStmt s) =
     (list_all (\<lambda>(e, a). codec_expr e) (sl_items s) \<and> codec_expr (sl_where s) \<and>
      list_all codec_expr (sl_group s) \<and> list_all (\<lambda>(e, d). codec_expr e) (sl_order s))"
| "codec_stmt _ = True"

lemma map_id_iff: "map f xs = xs \<longleftrightarrow> list_all (\<lambda>x. f x = x) xs"
  by (induction xs) auto

lemma reread_same: "reread e = Inr e \<longleftrightarrow> codec_expr e"
  and seen_same: "seen e = e \<longleftrightarrow> codec_expr e"
proof -
  have "(reread e = Inr e \<longleftrightarrow> codec_expr e) \<and> (seen e = e \<longleftrightarrow> codec_expr e)"
  proof (induction e)
    case (Literal v)
    then show ?case by (cases v) (auto simp: no_error_def prod_eq_iff)
  next
    case (Call name args)
    then show ?case by (auto simp: no_error_def map_id_iff list_all_iff)
  qed (auto simp: no_error_def)
  then show "reread e = Inr e \<longleftrightarrow> codec_expr e" "seen e = e \<longleftrightarrow> codec_expr e" by auto
qed

lemma all_reread_same: "all_reread f xs = Inr xs \<longleftrightarrow> list_all (\<lambda>x. f x = Inr x) xs"
proof (induction xs)
  case (Cons x xs)
  then show ?case by (cases "f x"; cases "all_reread f xs") auto
qed simp

lemma reread_column_same: "reread_column c = c \<longleftrightarrow> codec_expr (cd_default c)"
  by (cases c) (simp add: reread_column_def seen_same)

lemma items_same: "map (map_prod seen id) xs = xs \<longleftrightarrow> list_all (\<lambda>(e, a). codec_expr e) xs"
  by (induction xs) (auto simp: seen_same)

lemma sets_same: "map (map_prod id seen) xs = xs \<longleftrightarrow> list_all (\<lambda>(c, e). codec_expr e) xs"
  by (induction xs) (auto simp: seen_same)

lemma exprs_same: "map seen xs = xs \<longleftrightarrow> list_all codec_expr xs"
  by (induction xs) (auto simp: seen_same)

lemma reread_stmt_same: "reread_stmt st = Inr st \<longleftrightarrow> codec_stmt st"
proof (cases st)
  case (InsertStmt table cols rows)
  have "reread_stmt st = Inr st \<longleftrightarrow> all_reread (all_reread reread) rows = Inr rows"
    using InsertStmt by (cases "all_reread (all_reread reread) rows") auto
  then show ?thesis using InsertStmt by (simp add: all_reread_same reread_same list_all_iff)
next
  case (CreateTableStmt c)
  then show ?thesis by (cases c) (simp add: map_id_iff reread_column_same)
next
  case (SelectStmt q)
  then show ?thesis by (cases q) (simp add: reread_select_def items_same exprs_same seen_same)
qed (simp_all add: sets_same seen_same)

text \<open>Entries and their reader are a \<open>codec\<close> on such batches: two of them never have the same entry.\<close>

definition entry_ok :: "statement list \<Rightarrow> bool" where
  "entry_ok sts \<longleftrightarrow> list_all codec_stmt sts \<and> (\<exists>data. EncodeStatements sts = Some data \<and> length data < 2 ^ 44)"

definition read_entry :: "string \<Rightarrow> statement list option" where
  "read_entry data = (case DecodeStatements data of Some (Inr sts) \<Rightarrow> Some sts | _ \<Rightarrow> None)"

lemma entry_read:
  assumes "EncodeStatements sts = Some data" and "length data < 2 ^ 44"
  shows "DecodeStatements data = Some (all_reread reread_stmt sts)"
proof -
  have e: "put_all encodeStmt sts = Some data" using assms(1) by (simp add: EncodeStatements_def)
  have "encodeStmt st \<noteq> Some []" for st by (cases st) (auto simp: bind_eq_Some_conv)
  then obtain ss where s: "data = put_uvarint (length sts) @ concat ss" "length sts < 2 ^ 44"
    and l: "list_all2 (\<lambda>x t. x \<in> set sts \<and> encodeStmt x = Some t \<and> length t < length data) sts ss"
    using list_parts [OF e assms(2)] by blast
  have "list_all2 (\<lambda>x t. \<forall>rest. \<exists>r. decodeStmt (t @ rest, False) = Some (reread_stmt x, r) \<and>
      (\<forall>y. reread_stmt x = Inr y \<longrightarrow> r = (rest, False))) sts ss"
    by (rule list_all2_mono [OF l]) (use assms(2) stmt_back in auto)
  from read_strict_back [OF this, of "[]"] show ?thesis
    using s by (auto simp: DecodeStatements_def alloc_ok_def split: sum.split)
qed

interpretation log_entry: codec "\<lambda>sts. the (EncodeStatements sts)" read_entry entry_ok
  by unfold_locales (auto simp: entry_ok_def read_entry_def entry_read reread_stmt_same
      iffD2 [OF all_reread_same] list_all_iff)

text \<open>C8: what a log entry carries: every replica reads of an entry the statements the leader wrote, each
  with the operators that have no code, and whatever is below them, gone; and it reads exactly the
  statements written if and only if each of their operators is one of the twelve binary and three
  unary ones of the code's tables.\<close>

theorem entry_codec_exact:
  assumes "EncodeStatements sts = Some data" and "length data < 2 ^ 44"
  shows "DecodeStatements data = Some (all_reread reread_stmt sts) \<and>
    (DecodeStatements data = Some (Inr sts) \<longleftrightarrow> list_all codec_stmt sts)"
  using entry_read [OF assms] by (simp add: all_reread_same reread_stmt_same)

definition plain_delete :: statement where
  "plain_delete = DeleteStmt ''t'' (BinaryOp ''='' (Ident ''k'') (Literal (VInt 5)))"

lemma plain_delete_entry:
  "\<exists>data. EncodeStatements [plain_delete] = Some data \<and> length data < 2 ^ 44"
proof -
  have u: "put_uvarint v = [char_of v]" if "v < 128" for v using that by (simp add: put_uvarint.simps [of v])
  show ?thesis by (simp add: EncodeStatements_def put_all_def plain_delete_def put_where_def put_str_def put_word_def put_type_def put_bool_def u)
qed

theorem entry_codec_exact_witness:
  "\<exists>data. EncodeStatements [plain_delete] = Some data \<and> DecodeStatements data = Some (Inr [plain_delete])"
proof -
  obtain data where d: "EncodeStatements [plain_delete] = Some data" "length data < 2 ^ 44" using plain_delete_entry by blast
  have "list_all codec_stmt [plain_delete]" by (simp add: plain_delete_def binaryOps_def)
  then show ?thesis using entry_codec_exact [OF d] d(1) by blast
qed

end
