(* ===== verification/RaftEntry.thy ===== *)
theory RaftEntry
  imports GroupCommit RowRoute StmtCodec
begin

section \<open>Statements through the raft log (\<open>raftsvc/raftsvc.go\<close>, \<open>sql/bincodec.go\<close>)\<close>

text \<open>
  The state machine of a shard group as the log feeds it: an entry is decoded and its statements are applied in one
  transaction. \<open>GroupCommit\<close> applies the statements themselves; the two agree on what the binary form can carry. What
  it cannot carry are the operators \<open>LIKE\<close> and \<open>NOT LIKE\<close>.
\<close>

definition FSM_Apply ::
  "('w, 'm, 'd, statement, codec_error + 'x, 'r) executor \<Rightarrow> (nat \<Rightarrow> 'w) \<Rightarrow> 'm \<times> 'd \<Rightarrow> string \<Rightarrow>
   (('m \<times> 'd) \<times> ('r, codec_error + 'x) fsm_response) option" where
  "FSM_Apply exec clock db data =
     (case DecodeStatements data of
        None \<Rightarrow> None
      | Some (Inl e) \<Rightarrow> Some (db, Resp_error (Inl e))
      | Some (Inr sts) \<Rightarrow> Some (applyEntry exec clock db sts))"

text \<open>An entry whose operators all have a code is applied as the group commit applies its batch.\<close>

lemma entry_applies_batch:
  assumes "EncodeStatements sts = Some data" and "length data < 2 ^ 44" and "list_all codec_stmt sts"
  shows "FSM_Apply exec clock db data = Some (applyEntry exec clock db sts)"
  using log_entry.dec_enc [of sts] assms
  by (auto simp: FSM_Apply_def entry_ok_def read_entry_def split: option.splits sum.splits)

lemma like_no_code: "''LIKE'' \<notin> set binaryOps" "''NOT LIKE'' \<notin> set binaryOps"
  by (simp_all add: binaryOps_def)

lemma all_reread_nth: "all_reread f xs = Inr ys \<Longrightarrow> i < length xs \<Longrightarrow> f (xs ! i) = Inr (ys ! i)"
proof (induction xs arbitrary: ys i)
  case (Cons x xs)
  then obtain y zs where "f x = Inr y" "all_reread f xs = Inr zs" "ys = y # zs"
    by (cases "f x"; cases "all_reread f xs") auto
  then show ?case using Cons by (cases i) auto
qed simp

text \<open>C9: a \<open>DELETE\<close> or \<open>UPDATE\<close> whose condition is a \<open>LIKE\<close> or \<open>NOT LIKE\<close> loses it on the way through the log: whatever
  else is in the entry, if the replicas can read it they apply the statement without a condition, which
  selects every row.\<close>

theorem like_condition_lost:
  assumes "EncodeStatements sts = Some data" and "length data < 2 ^ 44" and "DecodeStatements data = Some (Inr sts')"
    and "i < length sts" and "op \<in> {''LIKE'', ''NOT LIKE''}"
    and "sts ! i = DeleteStmt t (BinaryOp op a b) \<or> sts ! i = UpdateStmt t sets (BinaryOp op a b)"
  shows "sts' ! i = (case sts ! i of UpdateStmt t ss c \<Rightarrow> UpdateStmt t (map (map_prod id seen) ss) NoExpr | _ \<Rightarrow> DeleteStmt t NoExpr) \<and>
    selects L now ctx (where_cond NoExpr)"
proof -
  have "op \<notin> set binaryOps" using assms(5) like_no_code by auto
  moreover have "all_reread reread_stmt sts = Inr sts'" using entry_read [OF assms(1,2)] assms(3) by simp
  ultimately show ?thesis using all_reread_nth [of reread_stmt sts sts' i] assms(4,6)
    by (auto simp: no_error_def selects_def where_cond_def)
qed

text \<open>\<open>DELETE FROM t WHERE k LIKE 'a%'\<close> becomes \<open>DELETE FROM t\<close>.\<close>

definition like_delete :: statement where
  "like_delete = DeleteStmt ''t'' (BinaryOp ''LIKE'' (Ident ''k'') (Literal (VString ''a%'')))"

lemma like_delete_entry: "\<exists>data. EncodeStatements [like_delete] = Some data \<and> length data < 2 ^ 44"
proof -
  have u: "put_uvarint v = [char_of v]" if "v < 128" for v using that by (simp add: put_uvarint.simps [of v])
  show ?thesis by (simp add: EncodeStatements_def put_all_def like_delete_def put_where_def put_str_def put_type_def put_bool_def u)
qed

theorem like_condition_lost_witness:
  "\<exists>data sts'. EncodeStatements [like_delete] = Some data \<and> DecodeStatements data = Some (Inr sts') \<and> sts' ! 0 = DeleteStmt ''t'' NoExpr"
proof -
  obtain data where d: "EncodeStatements [like_delete] = Some data" "length data < 2 ^ 44" using like_delete_entry by blast
  have e: "DecodeStatements data = Some (Inr [DeleteStmt ''t'' NoExpr])"
    using entry_read [OF d] by (simp add: like_delete_def like_no_code no_error_def)
  have "[like_delete] ! 0 = DeleteStmt ''t'' (BinaryOp ''LIKE'' (Ident ''k'') (Literal (VString ''a%'')))" by (simp add: like_delete_def)
  then show ?thesis using like_condition_lost [OF d e, of 0 "''LIKE''" "''t''"] d(1) e by (auto simp: like_delete_def)
qed

text \<open>
  Inside a conjunction the lost condition leaves nil: the rows are then not selected but the evaluation fails, and a
  node that has read such a statement panics when it writes it to the log.
\<close>

lemma nested_like_fails:
  "seen (BinaryOp ''AND'' (BinaryOp ''LIKE'' a b) c) = BinaryOp ''AND'' NoExpr (seen c)"
  "eval L now ctx (BinaryOp ''AND'' NoExpr e) = Err Cannot_evaluate"
  "EncodeStatements [DeleteStmt t (BinaryOp ''AND'' NoExpr e)] = None"
  by (simp_all add: like_no_code no_error_def binaryOps_def EncodeStatements_def put_all_def put_where_def)

end
