(* ===== verification/ParseShape.thy ===== *)
theory ParseShape
  imports ParseBack
begin

section \<open>What the parser makes\<close>

text \<open>
  The shape of what comes out of the parser: of every expression, whatever the script, and of the table and the condition
  of a \<open>SELECT\<close>. It is the shape whose text is read back. Words are taken to be ASCII.
\<close>

definition plain_tok :: "token \<Rightarrow> bool" where
  "plain_tok t \<longleftrightarrow> lexed t \<and> (tk_kind t = TokIdent \<longrightarrow> list_all (\<lambda>c. byte_of c < 128) (tk_text t))"

definition out :: "('a \<Rightarrow> bool) \<Rightarrow> parse_error + 'a \<times> token list \<Rightarrow> bool" where
  "out P r \<longleftrightarrow> (case r of Inl e \<Rightarrow> True | Inr (a, ts) \<Rightarrow> P a \<and> list_all plain_tok ts)"

lemma out_Inl [simp]: "out P (Inl e)"
  by (simp add: out_def)

lemma out_Inr [simp]: "out P (Inr (a, ts)) \<longleftrightarrow> P a \<and> list_all plain_tok ts"
  by (simp add: out_def)

lemma out_mono: "out P r \<Longrightarrow> (\<And>a. P a \<Longrightarrow> Q a) \<Longrightarrow> out Q r"
  by (auto simp: out_def split: sum.splits)

lemma parsed_out: "out P m \<Longrightarrow> (\<And>a ts. P a \<Longrightarrow> list_all plain_tok ts \<Longrightarrow> out Q (f a ts)) \<Longrightarrow> out Q (parsed m f)"
proof (cases m)
  case (Inr p)
  assume a: "out P m" "\<And>a ts. P a \<Longrightarrow> list_all plain_tok ts \<Longrightarrow> out Q (f a ts)"
  obtain x ts where "p = (x, ts)" by (cases p)
  then show ?thesis using a(1) a(2) [of x ts] Inr by simp
qed simp

definition yields :: "('a \<Rightarrow> bool) \<Rightarrow> 'a parsing \<Rightarrow> bool" where
  "yields P p \<longleftrightarrow> (\<forall>ts. list_all plain_tok ts \<longrightarrow> out P (p ts))"

lemma yieldsI: "(\<And>ts. list_all plain_tok ts \<Longrightarrow> out P (p ts)) \<Longrightarrow> yields P p"
  by (simp add: yields_def)

lemma yieldsD: "yields P p \<Longrightarrow> list_all plain_tok ts \<Longrightarrow> out P (p ts)"
  by (simp add: yields_def)

lemma advance_plain [simp]: "list_all Q ts \<Longrightarrow> list_all Q (advance ts)"
  by (cases ts rule: advance.cases) simp_all

lemma accept_plain [simp]: "list_all Q ts \<Longrightarrow> list_all Q (acceptKeyword kw ts)"
  by (simp add: acceptKeyword_def)

lemma skip_plain [simp]: "list_all Q ts \<Longrightarrow> list_all Q (skip_ident ts)"
  by (simp add: skip_ident_def)

lemma peek_plain: "list_all plain_tok ts \<Longrightarrow> plain_tok (peek ts)"
  by (cases ts) (simp_all add: plain_tok_def lexed_def plain_token_def)

subsection \<open>Names\<close>

lemma lower_char_lower: "byte_of c < 128 \<Longrightarrow> byte_of (lower_char c) < 128 \<and> lower_char (lower_char c) = lower_char c"
  by (auto simp: lower_char_def)

lemma lower_ident:
  assumes "byte_of c < 128"
  shows "ident_start (lower_char c) = ident_start c" and "go_digit (lower_char c) = go_digit c"
proof -
  have u: "c = CHR ''_'' \<longleftrightarrow> byte_of c = 95" for c
  proof -
    have "byte_of CHR ''_'' = 95" by simp
    then show ?thesis using of_char_eq_iff [of c "CHR ''_''", where 'a = nat] by simp
  qed
  show "ident_start (lower_char c) = ident_start c" "go_digit (lower_char c) = go_digit c"
    using assms by (auto simp: ident_start_def latin1_letter_def go_digit_def lower_char_def Let_def u)
qed

lemma lower_name: "sql_word w \<Longrightarrow> list_all (\<lambda>c. byte_of c < 128) w \<Longrightarrow> sql_name (map lower_char w)"
  by (cases w) (auto simp: sql_name_def sql_word_def list_all_iff lower_char_lower lower_ident ident_char_def)

lemma ascii_lower: "list_all (\<lambda>c. byte_of c < 128) w \<Longrightarrow> ident_lower L w = map lower_char w"
  by (simp add: ident_lower_def)

lemma ident_name: "plain_tok t \<Longrightarrow> tk_kind t = TokIdent \<Longrightarrow> sql_name (ident_lower L (tk_text t))"
  by (simp add: plain_tok_def lexed_def ascii_lower lower_name)

lemma name_yields: "yields sql_name (name_of L what)"
  by (rule yieldsI) (auto simp: name_of_def identLower_def peek_kind_def dest: peek_plain intro: ident_name)

lemma expect_yields: "yields (\<lambda>_. True) (expect k what)"
  by (rule yieldsI) (simp add: expect_def)

lemma any_yields: "yields P p \<Longrightarrow> yields (\<lambda>_. True) p"
  by (auto simp: yields_def intro: out_mono)

subsection \<open>Expressions\<close>

lemma comma_list_yields: "yields P item \<Longrightarrow> yields (list_all P) (comma_list k item)"
proof (induction k)
  case 0
  then show ?case by (simp add: yields_def)
next
  case (Suc k)
  show ?case
  proof (rule yieldsI)
    fix ts :: "token list"
    assume "list_all plain_tok ts"
    then have i: "out P (item ts)" by (rule yieldsD [OF Suc.prems])
    show "out (list_all P) (comma_list (Suc k) item ts)" unfolding comma_list.simps
    proof (rule parsed_out [OF i])
      fix x us
      assume x: "P x" "list_all plain_tok us"
      have "out (list_all P) (parsed (comma_list k item (advance us)) (\<lambda>xs ts. Inr (x # xs, ts)))"
        by (rule parsed_out [OF yieldsD [OF Suc.IH [OF Suc.prems]]]) (use x in simp_all)
      then show "out (list_all P) (if peek_kind us = TokComma
          then parsed (comma_list k item (advance us)) (\<lambda>xs ts. Inr (x # xs, ts)) else Inr ([x], us))"
        using x by simp
    qed
  qed
qed

lemma comma_yields: "yields P item \<Longrightarrow> yields (list_all P) (comma_sep item)"
  by (rule yieldsI) (simp add: comma_sep_def yieldsD [OF comma_list_yields])

text \<open>An operator of the language, and what is behind it.\<close>

definition op_yields :: "(token list \<Rightarrow> (string \<times> token list) option) \<Rightarrow> bool" where
  "op_yields opf \<longleftrightarrow> (\<forall>ts op us. list_all plain_tok ts \<longrightarrow> opf ts = Some (op, us) \<longrightarrow> op \<in> set sql_ops \<and> list_all plain_tok us)"

lemma ops_yield: "op_yields or_op" "op_yields and_op" "op_yields cmp_op" "op_yields add_op" "op_yields mul_op"
  by (auto simp: op_yields_def or_op_def and_op_def cmp_op_def add_op_def mul_op_def sql_ops_def Let_def split: if_splits)

lemma op_loop_yields:
  assumes "yields parsed_expr arg" and "op_yields opf"
  shows "parsed_expr left \<Longrightarrow> yields parsed_expr (op_loop k opf arg left)"
proof (induction k arbitrary: left)
  case 0
  then show ?case by (simp add: yields_def)
next
  case (Suc k)
  show ?case
  proof (rule yieldsI)
    fix ts :: "token list"
    assume ts: "list_all plain_tok ts"
    show "out parsed_expr (op_loop (Suc k) opf arg left ts)"
    proof (cases "opf ts")
      case None
      then show ?thesis using ts Suc.prems by simp
    next
      case (Some p)
      obtain op us where p: "p = (op, us)" by (cases p)
      have op: "op \<in> set sql_ops" "list_all plain_tok us" using assms(2) ts Some p by (auto simp: op_yields_def)
      have "out parsed_expr (parsed (arg us) (\<lambda>right ts. op_loop k opf arg (BinaryOp op left right) ts))"
        by (rule parsed_out [OF yieldsD [OF assms(1) op(2)]], rule yieldsD [OF Suc.IH]) (use Suc.prems op(1) in simp_all)
      then show ?thesis using Some p by simp
    qed
  qed
qed

lemma level_yields: "yields parsed_expr next \<Longrightarrow> op_yields opf \<Longrightarrow> yields parsed_expr (level opf next)"
  unfolding level_def
  by (rule yieldsI, rule parsed_out, erule yieldsD, assumption, rule yieldsD [OF op_loop_yields])

lemma number_shape: "plain_tok t \<Longrightarrow> tk_kind t = TokNumber \<Longrightarrow> parsed_expr (number_literal L t)"
proof (cases "tk_isFloat t")
  case False
  assume "plain_tok t" "tk_kind t = TokNumber"
  then have "parse_int64 (tk_text t) = Some (tk_intVal t)" using False by (simp add: plain_tok_def lexed_def)
  then have "tk_intVal t = of_nat (digits_value 10 (tk_text t))" "digits_value 10 (tk_text t) < 2 ^ 63"
    by (auto simp: parse_int64_def Let_def split: if_splits)
  then have "0 \<le> sint (tk_intVal t)" 
    by (simp add: signed_of_nat signed_take_bit_int_eq_self)
  then show ?thesis using False by (simp add: number_literal_def)
qed (simp add: number_literal_def)

lemma closed_yields: "P x \<Longrightarrow> list_all plain_tok ts \<Longrightarrow> out P (parsed (expect k what ts) (\<lambda>_ ts. Inr (x, ts)))"
  by (auto intro!: parsed_out yieldsD [OF expect_yields])

lemma cast_yields: "yields parsed_expr pe \<Longrightarrow> yields parsed_expr (parse_cast L pe)"
  unfolding parse_cast_def
  by (rule yieldsI, intro parsed_out, rule yieldsD [OF expect_yields], simp, erule yieldsD, assumption)
    (auto simp: Let_def intro!: closed_yields)

text \<open>The words that begin something else.\<close>

lemma other_word:
  assumes "list_all (\<lambda>c. byte_of c < 128) w" and "\<not> equal_fold w ''not''" and "\<not> equal_fold w ''null''" and "\<not> equal_fold w ''true''"
    and "\<not> equal_fold w ''false''" and "\<not> equal_fold w ''cast''"
  shows "ident_lower L w \<notin> set [''not'', ''null'', ''true'', ''false'', ''cast'']"
proof -
  have "list_all (\<lambda>kw. map lower_char kw = kw) [''not'', ''null'', ''true'', ''false'', ''cast'']" by (simp add: fold_simps)
  then show ?thesis using assms unfolding ascii_lower [OF assms(1)] equal_fold_def by simp
qed

lemma call_yields:
  assumes "yields parsed_expr pe" and "list_all plain_tok ts"
    and "sql_name (ident_lower L (tk_text (peek ts)))"
    and "ident_lower L (tk_text (peek ts)) \<notin> set [''not'', ''null'', ''true'', ''false'', ''cast'']"
  shows "out parsed_expr (parse_call L pe ts)"
proof -
  have "out (list_all parsed_expr) (if peek_kind (advance (advance ts)) \<noteq> TokRParen then comma_sep pe (advance (advance ts))
      else Inr ([], advance (advance ts)))"
    using yieldsD [OF comma_yields [OF assms(1)]] assms(2) by auto
  then show ?thesis unfolding parse_call_def Let_def
    by (rule parsed_out) (rule closed_yields, use assms(3,4) in simp_all)
qed

lemma primary_yields:
  assumes "yields parsed_expr pe" and "list_all plain_tok ts" and "\<not> isKeyword ''not'' ts"
  shows "out parsed_expr (parsePrimary L pe ts)"
proof -
  note t = peek_plain [OF assms(2)]
  have ident: "sql_name (ident_lower L (tk_text (peek ts)))" "list_all (\<lambda>c. byte_of c < 128) (tk_text (peek ts))"
      "\<not> equal_fold (tk_text (peek ts)) ''not''" if "tk_kind (peek ts) = TokIdent"
    using that t assms(3) ident_name [OF t that] by (simp_all add: plain_tok_def isKeyword_def peek_kind_def)
  have paren: "out parsed_expr (parsed (pe (advance ts)) (\<lambda>e ts. parsed (expect TokRParen '')'' ts) (\<lambda>_ ts. Inr (e, ts))))"
    by (rule parsed_out [OF yieldsD [OF assms(1)]]) (use assms(2) in \<open>auto intro: closed_yields\<close>)
  show ?thesis
  proof (cases "tk_kind (peek ts)")
    case TokIdent
    note i = ident [OF TokIdent]
    show ?thesis
      using TokIdent i call_yields [OF assms(1,2) i(1)] other_word [OF i(2,3)] yieldsD [OF cast_yields [OF assms(1)] assms(2)] assms(2)
      by (simp add: parsePrimary_def Let_def del: list.set)
  qed (use assms(2) t paren number_shape [OF t] in \<open>simp_all add: parsePrimary_def Let_def\<close>)
qed

lemma unary_yields: "yields parsed_expr pe \<Longrightarrow> yields parsed_expr (parse_unary k (parsePrimary L pe))"
proof (induction k)
  case 0
  then show ?case by (simp add: yields_def)
next
  case (Suc k)
  note rec = Suc.IH [OF Suc.prems]
  show ?case
  proof (rule yieldsI)
    fix ts :: "token list"
    assume ts: "list_all plain_tok ts"
    have op: "out parsed_expr (parsed (parse_unary k (parsePrimary L pe) (advance ts)) (\<lambda>e ts'. Inr (UnaryOp op e, ts')))"
      if "op \<in> set [''-'', ''+'', ''NOT'']" for op
      by (rule parsed_out [OF yieldsD [OF rec]]) (use ts that in simp_all)
    then show "out parsed_expr (parse_unary (Suc k) (parsePrimary L pe) ts)"
      using op [of "tk_text (peek ts)"] op [of "''NOT''"] primary_yields [OF Suc.prems ts] by auto
  qed
qed

lemma parse_expr_yields: "yields parsed_expr (parse_expr L n)"
proof (induction n)
  case 0
  then show ?case by (simp add: yields_def)
next
  case (Suc n)
  have "yields parsed_expr (parseUnary L (parse_expr L n))" using unary_yields [OF Suc] by (simp add: yields_def parseUnary_def)
  then have "yields parsed_expr (parseOr L (parse_expr L n))"
    unfolding parseOr_def parseAnd_def parseComparison_def parseAdditive_def parseMultiplicative_def
    by (intro level_yields ops_yield)
  then show ?case by (simp add: yields_def)
qed

lemma expr_yields: "yields parsed_expr (parseExpr L)"
  using parse_expr_yields by (simp add: yields_def parseExpr_def)

subsection \<open>Statements\<close>

text \<open>The table and the condition of a \<open>SELECT\<close>; behind \<open>HAVING\<close> the condition is joined to one that may be missing.\<close>

definition where_shape :: "expr \<Rightarrow> bool" where
  "where_shape w \<longleftrightarrow> w = NoExpr \<or> parsed_expr w \<or> (\<exists>h. w = BinaryOp ''AND'' NoExpr h)"

definition select_shape :: "statement \<Rightarrow> bool" where
  "select_shape st \<longleftrightarrow>
     (case st of SelectStmt q \<Rightarrow> (sl_from q = [] \<or> sql_name (sl_from q)) \<and> where_shape (sl_where q) | _ \<Rightarrow> True)"

fun not_query :: "statement \<Rightarrow> bool" where
  "not_query (SelectStmt q) = False"
| "not_query st = True"

lemma yields_any:
  "yields (\<lambda>_. True) (name_of L what)" "yields (\<lambda>_. True) (expect k what)" "yields (\<lambda>_. True) (parseExpr L)"
  using any_yields [OF name_yields] any_yields [OF expr_yields] expect_yields by auto

lemma out_any: "yields (\<lambda>_. True) p \<Longrightarrow> list_all plain_tok ts \<Longrightarrow> out (\<lambda>_. True) (p ts)"
  by (rule yieldsD)

lemma string_yields: "yields (\<lambda>_. True) stringLiteral"
  by (rule yieldsI) (simp add: stringLiteral_def)

lemma comma_any: "yields (\<lambda>_. True) p \<Longrightarrow> yields (\<lambda>_. True) (comma_sep p)"
  using any_yields [OF comma_yields] by blast

lemma where_yields: "yields (\<lambda>w. w = NoExpr \<or> parsed_expr w) (optional_where L)"
proof (rule yieldsI)
  fix ts :: "token list"
  assume "list_all plain_tok ts"
  then show "out (\<lambda>w. w = NoExpr \<or> parsed_expr w) (optional_where L ts)"
    using out_mono [OF yieldsD [OF expr_yields, of "advance ts" L], of "\<lambda>w. w = NoExpr \<or> parsed_expr w"]
    by (simp add: optional_where_def)
qed

lemma where_any: "yields (\<lambda>_. True) (optional_where L)"
  by (rule any_yields [OF where_yields])

lemma optional_string_plain: "list_all plain_tok ts \<Longrightarrow> list_all plain_tok (snd (snd (optional_string ts)))"
  by (simp add: optional_string_def)

lemma identLower_plain: "list_all plain_tok ts \<Longrightarrow> list_all plain_tok (snd (identLower L ts))"
  by (simp add: identLower_def)

lemma kv_yields: "yields not_query (parseKV L)"
proof (rule yieldsI)
  fix ts :: "token list"
  assume ts: "list_all plain_tok ts"
  have s: "out not_query (parsed (stringLiteral us) f)"
    if "list_all plain_tok us" "\<And>a vs. list_all plain_tok vs \<Longrightarrow> out not_query (f a vs)" for us and f :: "string \<Rightarrow> statement parsing"
    by (rule parsed_out [OF out_any [OF string_yields that(1)] that(2)])
  show "out not_query (parseKV L ts)"
    using ts by (auto simp: parseKV_def Let_def identLower_def optional_string_def intro!: s)
qed

lemma back_two_plain: "list_all Q start \<Longrightarrow> list_all Q (back_two start ts)"
  by (auto simp: back_two_def list_all_iff dest: in_set_dropD)

lemma column_yields: "yields (\<lambda>_. True) (parse_column L)"
proof (rule yieldsI)
  fix start :: "token list"
  assume start: "list_all plain_tok start"
  have c: "out (\<lambda>_. True) (column_rest L col ts)" if "list_all plain_tok ts" for col ts
    using that by (auto simp: column_rest_def intro!: parsed_out [OF out_any [OF yields_any(3)]])
  show "out (\<lambda>_. True) (parse_column L start)" unfolding parse_column_def
    by (rule parsed_out [OF out_any [OF yields_any(1) start]]) (auto simp: Let_def back_two_plain start intro!: c)
qed

lemma columns_yields: "yields (\<lambda>_. True) (parse_columns L k)"
proof (induction k)
  case (Suc k)
  show ?case
  proof (rule yieldsI)
    fix ts :: "token list"
    assume ts: "list_all plain_tok ts"
    then show "out (\<lambda>_. True) (parse_columns L (Suc k) ts)"
      by (auto intro!: parsed_out [OF out_any [OF column_yields]] parsed_out [OF out_any [OF Suc]] split: option.split)
  qed
qed (simp add: yields_def)

lemma index_yields: "yields (\<lambda>_. True) (index_columns L k)"
proof (induction k)
  case (Suc k)
  show ?case
  proof (rule yieldsI)
    fix ts :: "token list"
    assume ts: "list_all plain_tok ts"
    then show "out (\<lambda>_. True) (index_columns L (Suc k) ts)"
      by (auto intro!: parsed_out [OF out_any [OF yields_any(1)]] parsed_out [OF out_any [OF Suc]])
  qed
qed (simp add: yields_def)

text \<open>A parser that goes on after one that leaves tokens of the script.\<close>

lemmas then_any = parsed_out [where P = "\<lambda>_. True"]

lemmas any_steps = yields_any [THEN out_any, THEN then_any] comma_any [OF yields_any(1), THEN out_any, THEN then_any]
  comma_any [OF yields_any(3), THEN out_any, THEN then_any] where_any [THEN out_any, THEN then_any]

lemma create_table_yields: "yields not_query (parse_create_table L)"
proof (rule yieldsI)
  fix ts :: "token list"
  assume ts: "list_all plain_tok ts"
  have pk: "out (\<lambda>_. True) (parse_pk L us)" if "list_all plain_tok us" for us
    using that unfolding parse_pk_def by (auto intro!: any_steps)
  have engine: "out (\<lambda>_. True) (parse_engine L us)" if "list_all plain_tok us" for us
    using that unfolding parse_engine_def by (auto intro!: any_steps)
  have ret: "out (\<lambda>_. True) (parse_retention L us)" if "list_all plain_tok us" for us
    using that unfolding parse_retention_def by (auto intro!: any_steps split: option.split)
  show "out not_query (parse_create_table L ts)" unfolding parse_create_table_def Let_def
    by (intro then_any [OF out_any [OF yields_any(1)]] then_any [OF out_any [OF yields_any(2)]] then_any [OF out_any [OF columns_yields]]
        then_any [OF pk] then_any [OF engine] then_any [OF ret]) (use ts in simp_all)
qed

lemma create_index_yields: "yields not_query (parseCreateIndex L)"
proof (rule yieldsI)
  fix ts :: "token list"
  assume ts: "list_all plain_tok ts"
  show "out not_query (parseCreateIndex L ts)" unfolding parseCreateIndex_def Let_def
    by (intro then_any [OF out_any [OF yields_any(1)]] then_any [OF out_any [OF yields_any(2)]] then_any [OF out_any [OF index_yields]])
      (use ts in simp_all)
qed

lemma create_yields: "yields not_query (parseCreate L)"
  by (rule yieldsI)
    (auto simp: parseCreate_def Let_def identLower_def intro!: yieldsD [OF create_index_yields] yieldsD [OF create_table_yields])

lemma drop_yields: "yields not_query (parseDrop L)"
  by (rule yieldsI)
    (auto simp: parseDrop_def Let_def identLower_def intro!: then_any [OF out_any [OF yields_any(1)]])

lemma row_yields: "yields (\<lambda>_. True) (parse_row L)"
  by (rule yieldsI) (auto simp: parse_row_def intro!: any_steps)

lemma set_yields: "yields (\<lambda>_. True) (parse_set L)"
  by (rule yieldsI) (auto simp: parse_set_def intro!: any_steps)

lemma insert_yields: "yields not_query (parseInsert L)"
proof (rule yieldsI)
  fix ts :: "token list"
  assume ts: "list_all plain_tok ts"
  have cols: "out (\<lambda>_. True) (if peek_kind us = TokLParen
      then parsed (comma_sep (name_of L ''column name'') (advance us)) (\<lambda>cols ts.
        parsed (expect TokRParen '')'' ts) (\<lambda>_ ts. Inr (cols, ts)))
      else Inr ([], us))" if "list_all plain_tok us" for us
    using that by (auto intro!: any_steps)
  show "out not_query (parseInsert L ts)" unfolding parseInsert_def
    by (intro then_any [OF out_any [OF yields_any(1)]] then_any [OF cols] then_any [OF out_any [OF comma_any [OF row_yields]]])
      (use ts in simp_all)
qed

lemma update_yields: "yields not_query (parseUpdate L)"
  by (rule yieldsI) (auto simp: parseUpdate_def intro!: any_steps then_any [OF out_any [OF comma_any [OF set_yields]]])

lemma delete_yields: "yields not_query (parseDelete L)"
  by (rule yieldsI) (auto simp: parseDelete_def intro!: any_steps)

lemma item_yields: "yields (\<lambda>_. True) (parse_item L)"
  by (rule yieldsI) (auto simp: parse_item_def intro!: any_steps)

lemma order_yields: "yields (\<lambda>_. True) (parse_order L)"
  by (rule yieldsI) (auto simp: parse_order_def intro!: any_steps)

lemma by_list_yields: "yields (\<lambda>_. True) item \<Longrightarrow> yields (\<lambda>_. True) (by_list kw item)"
  by (rule yieldsI) (auto simp: by_list_def intro!: out_any comma_any)

lemma limit_yields: "yields (\<lambda>_. True) parse_limit"
  by (rule yieldsI) (simp add: parse_limit_def Let_def)

lemma select_yields: "yields select_shape (parseSelect L)"
proof (rule yieldsI)
  fix ts :: "token list"
  assume ts: "list_all plain_tok ts"
  have table: "out (\<lambda>t. t = [] \<or> sql_name t) (if isKeyword ''from'' us then name_of L ''table name'' (advance us) else Inr ([], us))"
    if "list_all plain_tok us" for us
    using that out_mono [OF yieldsD [OF name_yields], of "advance us" "\<lambda>t. t = [] \<or> sql_name t" L] by simp
  have having: "out where_shape (if isKeyword ''having'' us
      then parsed (parseExpr L (advance us)) (\<lambda>h ts. Inr (BinaryOp ''AND'' w h, ts)) else Inr (w, us))"
    if "list_all plain_tok us" "w = NoExpr \<or> parsed_expr w" for us w
  proof -
    have "out where_shape (parsed (parseExpr L (advance us)) (\<lambda>h ts. Inr (BinaryOp ''AND'' w h, ts)))"
      by (rule parsed_out [OF yieldsD [OF expr_yields]]) (use that in \<open>auto simp: where_shape_def sql_ops_def\<close>)
    then show ?thesis using that by (auto simp: where_shape_def)
  qed
  show "out select_shape (parseSelect L ts)" unfolding parseSelect_def Let_def
    apply (rule then_any [OF out_any [OF comma_any [OF item_yields]]])
     apply (simp add: ts)
    apply (rule parsed_out [OF table], assumption)
    apply (rule parsed_out [OF yieldsD [OF where_yields]], assumption)
    apply (rule then_any [OF out_any [OF by_list_yields [OF yields_any(3)]]], assumption)
    apply (rule parsed_out [OF having], assumption, assumption)
    apply (rule then_any [OF out_any [OF by_list_yields [OF order_yields]]], assumption)
    apply (rule then_any [OF out_any [OF limit_yields]], assumption)
    apply (simp add: select_shape_def split: prod.split)
    done
qed

lemma not_query_shape: "not_query st \<Longrightarrow> select_shape st"
  by (cases st) (simp_all add: select_shape_def)

lemma statement_yields: "yields select_shape (parseStatement L)"
proof (rule yieldsI)
  fix ts :: "token list"
  assume ts: "list_all plain_tok ts"
  have q: "out select_shape (p ts)" if "yields not_query p" for p
    by (rule out_mono [OF yieldsD [OF that ts] not_query_shape])
  show "out select_shape (parseStatement L ts)" unfolding parseStatement_def
    using ts by (auto simp: select_shape_def intro: yieldsD [OF select_yields]
        q [OF insert_yields] q [OF update_yields] q [OF delete_yields] q [OF create_yields] q [OF drop_yields] q [OF kv_yields])
qed

lemma script_shape: "list_all plain_tok ts \<Longrightarrow> parse_script L k ts = Inr sts \<Longrightarrow> list_all select_shape sts"
proof (induction k arbitrary: ts sts)
  case (Suc k)
  let ?us = "skipSemicolons ts"
  have us: "list_all plain_tok ?us" using Suc.prems(1) by (auto simp: skipSemicolons_def list_all_iff dest: set_dropWhileD)
  show ?case
  proof (cases "peek_kind ?us = TokEOF")
    case True
    then show ?thesis using Suc.prems(2) by (simp add: Let_def)
  next
    case False
    then obtain st vs where "parseStatement L ?us = Inr (st, vs)" using Suc.prems(2) by (auto simp: Let_def split: sum.splits)
    moreover from this obtain r where "parse_script L k vs = Inr r" "sts = st # r"
      using Suc.prems(2) False by (auto simp: Let_def split: sum.splits)
    moreover have "select_shape st" "list_all plain_tok vs"
      using yieldsD [OF statement_yields us, of L] calculation(1) by simp_all
    ultimately show ?thesis using Suc.IH by simp
  qed
qed simp

text \<open>The words of a script are ASCII.\<close>

definition ascii_words :: "string \<Rightarrow> bool" where
  "ascii_words src \<longleftrightarrow>
     (case tokenize src of
        Inl e \<Rightarrow> True
      | Inr ts \<Rightarrow> list_all (\<lambda>t. tk_kind t = TokIdent \<longrightarrow> list_all (\<lambda>c. byte_of c < 128) (tk_text t)) ts)"

lemma parse_shape: "Parse L src = Inr sts \<Longrightarrow> ascii_words src \<Longrightarrow> list_all select_shape sts"
proof -
  assume p: "Parse L src = Inr sts" "ascii_words src"
  then obtain ts where ts: "tokenize src = Inr ts" by (auto simp: Parse_def split: sum.splits)
  have "list_all lexed ts" using tokens_lexed [of "length src" src] ts by (simp add: tokenize_def)
  then have "list_all plain_tok ts" using p(2) ts by (simp add: ascii_words_def plain_tok_def list_all_iff)
  then show ?thesis using script_shape [of ts L "length ts" sts] p(1) ts by (simp add: Parse_def)
qed

end
