(* ===== verification/ShardQuery.thy ===== *)
theory ShardQuery
  imports AdminServer ParseShape
begin

section \<open>A query on its way to the shards (\<open>shard/router.go\<close>)\<close>

text \<open>
  \<open>execSelect\<close> reads the rows of a table from its shards with a query of its own for each, which carries the condition
  of the statement as text (\<open>shard_query\<close>). The node that leads a shard runs that text; on the way to another
  node it is wrapped in an \<open>ADMIN EXEC-SHARD\<close> command.
\<close>

text \<open>The statement the query of a shard should be.\<close>

definition shard_select :: "string \<Rightarrow> expr \<Rightarrow> statement" where
  "shard_select table w =
     SelectStmt \<lparr>sl_distinct = False, sl_items = [(Ident ''*'', [])], sl_from = table, sl_where = w, sl_group = [],
       sl_order = [], sl_limit = 0, sl_haslimit = False\<rparr>"

subsection \<open>The text of the query\<close>

lemma name_visible: "sql_name n \<Longrightarrow> n \<noteq> [] \<and> list_all (\<lambda>c. 32 < byte_of c \<and> byte_of c < 128) n"
proof -
  assume n: "sql_name n"
  have u: "byte_of CHR ''_'' = 95" by simp
  have "32 < byte_of c" if "ident_char c" for c
    using that u by (auto simp: ident_char_def ident_start_def latin1_letter_def go_digit_def Let_def)
  then show ?thesis using n by (cases n) (auto simp: sql_name_def sql_word_def list_all_iff ident_char_def)
qed

lemma name_go_word: "sql_name n \<Longrightarrow> go_word n"
  using name_visible go_word_visible by blast

text \<open>A text that ends visibly.\<close>

definition ends_visible :: "string \<Rightarrow> bool" where
  "ends_visible s \<longleftrightarrow> s \<noteq> [] \<and> 32 < byte_of (last s) \<and> byte_of (last s) < 128"

lemma ends_visible_append: "ends_visible t \<Longrightarrow> ends_visible (s @ t)"
  by (simp add: ends_visible_def)

lemma ends_visible_all: "s \<noteq> [] \<Longrightarrow> list_all (\<lambda>c. 32 < byte_of c \<and> byte_of c < 128) s \<Longrightarrow> ends_visible s"
  by (simp add: ends_visible_def list_all_iff)

lemma expr_visible: "parsed_expr e \<Longrightarrow> printable e \<Longrightarrow> ends_visible (ExprString L e)"
proof (cases e)
  case (Literal v)
  moreover assume "parsed_expr e" "printable e"
  moreover have "ends_visible (nat_str n)" for n
    using digits_value_nat_str [of n] digit_visible by (intro ends_visible_all) (simp_all add: list_all_iff)
  ultimately show ?thesis using int_digits by (cases v) (auto simp: ends_visible_def sqlStr_def)
next
  case (Ident n)
  moreover assume "parsed_expr e"
  ultimately show ?thesis using name_visible [of n] ends_visible_all [of n] by (auto simp: ends_visible_def)
qed (auto simp: ends_visible_def)

lemma query_trimmed:
  assumes "sql_name table" and "w = NoExpr \<or> parsed_expr w \<and> printable w"
  shows "go_trim (shard_query L table w) = shard_query L table w"
proof -
  have "ends_visible (shard_query L table w)"
    using assms(2) name_visible [OF assms(1)] ends_visible_all [of table] expr_visible [of w L] unfolding shard_query_def where_text_def
    by (cases "w = NoExpr") (auto intro: ends_visible_append simp del: append.simps)
  then obtain s d where s: "shard_query L table w = s @ [d]" "32 < byte_of d" "byte_of d < 128"
    unfolding ends_visible_def by (metis append_butlast_last_id)
  have "hd (shard_query L table w) = CHR ''S''" "2 \<le> length (shard_query L table w)" by (simp_all add: shard_query_def)
  then obtain r where "s = CHR ''S'' # r" using s(1) by (cases s) auto
  then show ?thesis using s go_trim_visible [of "CHR ''S''" d r] by simp
qed

lemma query_words: "sql_word ''SELECT''" "sql_word ''FROM''" "sql_word ''WHERE''"
  by (simp_all add: name_simps)

lemma query_reads:
  assumes "sql_name table" and "w = NoExpr \<or> parsed_expr w \<and> printable w"
  shows "reads_as (shard_query L table w) ([(TokIdent, ''SELECT''), (TokStar, ''*''), (TokIdent, ''FROM''), (TokIdent, table)] @
    (if w = NoExpr then [] else (TokIdent, ''WHERE'') # expr_tokens w) @ [(TokEOF, [])])"
proof -
  have h: "reads_as (''SELECT * FROM '' @ r) ([(TokIdent, ''SELECT''), (TokStar, ''*''), (TokIdent, ''FROM'')] @ ts)" if "reads_as r ts" for r ts
    using reads_word [OF query_words(1) reads_star [OF reads_blank [OF reads_word [OF query_words(2) that]]]] by simp
  have t: "sql_word table" using assms(1) by (rule sql_name_word)
  show ?thesis
  proof (cases "w = NoExpr")
    case True
    have "reads_as (table @ []) [(TokIdent, table), (TokEOF, [])]" by (rule reads_ident [OF t _ reads_end]) simp
    from h [OF this] show ?thesis using True by (simp add: shard_query_def where_text_def)
  next
    case False
    then have "piece delimited (ExprString L w) (expr_tokens w)" using assms(2) expr_reads by blast
    then have "delimited [] \<longrightarrow> reads_as [] [(TokEOF, [])] \<longrightarrow> reads_as (ExprString L w @ []) (expr_tokens w @ [(TokEOF, [])])"
      unfolding piece_def by blast
    then have "reads_as (ExprString L w @ []) (expr_tokens w @ [(TokEOF, [])])" using reads_end by simp
    from reads_word [OF t reads_word [OF query_words(3) this]] have
      "reads_as (table @ '' WHERE '' @ ExprString L w) ((TokIdent, table) # (TokIdent, ''WHERE'') # expr_tokens w @ [(TokEOF, [])])" by simp
    from h [OF this] show ?thesis using False by (simp add: shard_query_def where_text_def)
  qed
qed

subsection \<open>The query read\<close>

lemma query_folds:
  "equal_fold ''SELECT'' ''select''" "\<not> equal_fold ''FROM'' ''as''" "equal_fold ''FROM'' ''from''" "equal_fold ''WHERE'' ''where''"
  "\<not> equal_fold ''FROM'' ''or''" "\<not> equal_fold ''FROM'' ''and''" "\<not> equal_fold ''FROM'' ''not''" "\<not> equal_fold ''FROM'' ''like''"
  by (simp_all add: fold_simps)

text \<open>The star of the list of columns.\<close>

lemma star_item:
  assumes "tk_kind s = TokStar" and "tk_text s = ''*''" and "tk_kind f = TokIdent" and "tk_text f = ''FROM''" and "lexed s"
  shows "comma_sep (parse_item L) (s # f # ts) = Inr ([(Ident ''*'', [])], f # ts)"
proof -
  have "views [s] (expr_tokens (Ident ''*''))" using assms by (simp add: views_Cons)
  moreover have "stop_ops (f # ts)" using assms query_folds by (intro stop_word) (simp_all add: peek_kind_def)
  ultimately have "parseExpr L ([s] @ f # ts) = Inr (Ident ''*'', f # ts)" by (intro parseExpr_back) simp_all
  then show ?thesis using assms query_folds by (simp add: comma_sep_def parse_item_def isKeyword_def peek_kind_def)
qed

lemma query_parsed:
  assumes "sql_name table" and "w = NoExpr \<or> parsed_expr w \<and> printable w"
    and "views ts ([(TokIdent, ''SELECT''), (TokStar, ''*''), (TokIdent, ''FROM''), (TokIdent, table)] @
      (if w = NoExpr then [] else (TokIdent, ''WHERE'') # expr_tokens w) @ [(TokEOF, [])])"
  shows "\<exists>e. tk_kind e = TokEOF \<and> parseSelect L ts = Inr (shard_select table w, [e]) \<and> isKeyword ''select'' ts"
proof -
  from assms(3) obtain c s f t us e where
    ts: "ts = c # s # f # t # us @ [e]" "tk_kind c = TokIdent" "tk_text c = ''SELECT''" "tk_kind s = TokStar" "tk_text s = ''*''" "lexed s"
      "tk_kind f = TokIdent" "tk_text f = ''FROM''" "tk_kind t = TokIdent" "tk_text t = table" "tk_kind e = TokEOF"
      "views us (if w = NoExpr then [] else (TokIdent, ''WHERE'') # expr_tokens w)"
    by (auto simp: views_Cons views_append simp del: if_split)
  have w: "optional_where L (us @ [e]) = Inr (w, [e])"
  proof (cases "w = NoExpr")
    case True
    then show ?thesis using ts(12) at_end [OF ts(11)] by (simp add: optional_where_def)
  next
    case False
    then obtain h vs where us: "us = h # vs" "tk_kind h = TokIdent" "tk_text h = ''WHERE''" "views vs (expr_tokens w)"
      using ts(12) by (auto simp: views_Cons)
    have "parseExpr L (vs @ [e]) = Inr (w, [e])" using False assms(2) us(4) at_end [OF ts(11)] by (intro parseExpr_back) simp_all
    then show ?thesis using us(1-3) query_folds(4) by (simp add: optional_where_def isKeyword_def peek_kind_def advance_rest)
  qed
  have "isKeyword ''select'' ts" using ts query_folds(1) by (simp add: isKeyword_def peek_kind_def)
  moreover have "parseSelect L ts = Inr (shard_select table w, [e])"
    using ts(1-11) star_item [OF ts(4,5,7,8,6), of L "t # us @ [e]"] w query_folds at_end [OF ts(11)] assms(1)
    by (simp add: parseSelect_def Let_def acceptKeyword_def isKeyword_def peek_kind_def name_of_def identLower_def name_lower
        advance_rest by_list_def parse_limit_def shard_select_def)
  ultimately show ?thesis using ts(11) by blast
qed

lemma query_back:
  assumes "sql_name table" and "w = NoExpr \<or> parsed_expr w \<and> printable w"
  shows "Parse L (shard_query L table w) = Inr [shard_select table w]"
proof -
  obtain ts where ts: "tokenize (shard_query L table w) = Inr ts"
      "views ts ([(TokIdent, ''SELECT''), (TokStar, ''*''), (TokIdent, ''FROM''), (TokIdent, table)] @
        (if w = NoExpr then [] else (TokIdent, ''WHERE'') # expr_tokens w) @ [(TokEOF, [])])"
    using tokenize_views [OF query_reads [OF assms]] by blast
  obtain e where e: "tk_kind e = TokEOF" "parseSelect L ts = Inr (shard_select table w, [e])" "isKeyword ''select'' ts"
    using query_parsed [OF assms ts(2)] by blast
  then have "parseStatement L ts = Inr (shard_select table w, [e])" by (simp add: parseStatement_def)
  then show ?thesis using single_statement [OF ts(1) _ e(1)] e(3) by (simp add: isKeyword_def)
qed

text \<open>C5: the condition of a query reaches the shards as it was written: whatever \<open>SELECT\<close> the parser has read (its words being
  ASCII), the text \<open>SELECT * FROM table WHERE condition\<close> a shard is sent for it, wrapped in the command to another node or not, is one statement that
  reads the rows of that table with that very condition, unless the condition holds a double or a
  conversion to one, or \<open>HAVING\<close> stands without \<open>WHERE\<close>. (For a columnar table the router may send a projection, an
  aggregate or a query ending in \<open>ORDER BY ... LIMIT\<close> instead; those texts are not modelled.)\<close>

theorem shard_query_read_back:
  assumes "Parse L src = Inr sts" and "ascii_words src" and "SelectStmt q \<in> set sts" and "sl_from q \<noteq> []"
    and "sl_where q = NoExpr \<or> printable (sl_where q)" and "go_word i"
  shows "Parse L (shard_query L (sl_from q) (sl_where q)) = Inr [shard_select (sl_from q) (sl_where q)] \<and>
    exec_shard_body (exec_shard_command (sl_from q) i (shard_query L (sl_from q) (sl_where q))) = shard_query L (sl_from q) (sl_where q)"
proof -
  have "select_shape (SelectStmt q)" using parse_shape [OF assms(1,2)] assms(3) by (auto simp: list_all_iff)
  then have q: "sql_name (sl_from q)" "where_shape (sl_where q)" using assms(4) by (simp_all add: select_shape_def)
  then have w: "sl_where q = NoExpr \<or> parsed_expr (sl_where q) \<and> printable (sl_where q)"
    using assms(5) by (auto simp: where_shape_def)
  show ?thesis
    using query_back [OF q(1) w] exec_shard_body [OF name_go_word [OF q(1)] assms(6)] query_trimmed [OF q(1) w] by simp
qed

lemma views_ascii:
  assumes "tokenize src = Inr ts" and "views ts tk" and "list_all (\<lambda>(k, x). k = TokIdent \<longrightarrow> list_all (\<lambda>c. byte_of c < 128) x) tk"
  shows "ascii_words src"
  using assms by (auto simp: ascii_words_def views_def list_all_iff)

theorem shard_query_read_back_witness:
  "\<forall>L. Parse L ''SELECT * FROM t WHERE (k LIKE 5)'' = Inr [shard_select ''t'' (BinaryOp ''LIKE'' (Ident ''k'') (Literal (VInt 5)))] \<and>
     Parse L (shard_query L ''t'' (BinaryOp ''LIKE'' (Ident ''k'') (Literal (VInt 5)))) =
       Inr [shard_select ''t'' (BinaryOp ''LIKE'' (Ident ''k'') (Literal (VInt 5)))]"
proof
  fix L
  let ?w = "BinaryOp ''LIKE'' (Ident ''k'') (Literal (VInt 5))" and ?src = "''SELECT * FROM t WHERE (k LIKE 5)''"
  have n: "sql_name ''t''" "sql_name ''k''" by (simp_all add: sql_name_def name_simps)
  then have w: "?w = NoExpr \<or> parsed_expr ?w \<and> printable ?w" by (simp add: sql_ops_def)
  have five: "int64_text 5 = ''5''" by (simp add: int64_text_def nat_str.simps char_of_def bit_Suc_0_iff)
  then have src: "shard_query L ''t'' ?w = ?src" by (simp add: shard_query_def where_text_def)
  have p: "Parse L ?src = Inr [shard_select ''t'' ?w]" using query_back [OF n(1) w, of L] src by simp
  obtain ts where "tokenize ?src = Inr ts" "views ts ([(TokIdent, ''SELECT''), (TokStar, ''*''), (TokIdent, ''FROM''), (TokIdent, ''t'')] @
      (if ?w = NoExpr then [] else (TokIdent, ''WHERE'') # expr_tokens ?w) @ [(TokEOF, [])])"
    using tokenize_views [OF query_reads [OF n(1) w, of L]] src by auto
  then have a: "ascii_words ?src" by (rule views_ascii) (simp add: op_tokens_def)
  have g: "go_word ''t-0''" by (intro go_word_visible) simp_all
  have q: "shard_select ''t'' ?w = SelectStmt (case shard_select ''t'' ?w of SelectStmt q \<Rightarrow> q)" by (simp add: shard_select_def)
  show "Parse L ?src = Inr [shard_select ''t'' ?w] \<and> Parse L (shard_query L ''t'' ?w) = Inr [shard_select ''t'' ?w]"
    using shard_query_read_back [OF p a, of "case shard_select ''t'' ?w of SelectStmt q \<Rightarrow> q", OF _ _ _ g] p
    by (simp add: shard_select_def)
qed

text \<open>A double that is a whole number is printed without a point, and the shards compute with an integer instead.\<close>

lemma double_read_as_int:
  assumes "gl_float_text L f = nat_str n" and "n < 2 ^ 63" and "sql_name table" and "parsed_expr a" and "printable a" and "op \<in> set sql_ops"
  shows "Parse L (shard_query L table (BinaryOp op a (Literal (VFloat f)))) =
    Inr [shard_select table (BinaryOp op a (Literal (VInt (of_nat n))))]"
proof -
  have s: "sint (of_nat n :: 64 word) = int n" using assms(2) by (simp add: signed_of_nat signed_take_bit_int_eq_self)
  then have "ExprString L (Literal (VFloat f)) = ExprString L (Literal (VInt (of_nat n)))" using assms(1) by (simp add: int64_text_def)
  then have "shard_query L table (BinaryOp op a (Literal (VFloat f))) = shard_query L table (BinaryOp op a (Literal (VInt (of_nat n))))"
    by (simp add: shard_query_def where_text_def)
  then show ?thesis using query_back [OF assms(3), of "BinaryOp op a (Literal (VInt (of_nat n)))" L] assms(4-6) s by simp
qed

text \<open>Half of three is one and a half, but one between integers.\<close>

lemma half_of_three:
  "arith_op L ''/'' (VInt 3) (VInt 2) = Ret (VInt 1)"
  "\<not> float_is_zero f \<Longrightarrow> arith_op L ''/'' (VInt 3) (VFloat f) = Ret (VFloat (gl_div L (gl_of_int L 3) f))"
  by (simp_all add: arith_op_def as_float_def signed_divide_int_def)

end
