(* ===== verification/Spec2Isabelle.thy ===== *)
theory Spec2Isabelle
  imports AppShell ClusterLive Metrics SqlPage Logs DashboardFacts QaFacts LogSearch IngestRows ShardKv SplitChain RaftEntry ShardQuery
begin

text \<open>
  The web console of ydbgo (\<open>internal/ui/web/src\<close>, TypeScript and React): its client of the HTTP
  API, its shell with the hash routing, its four pages, and the Go code of the server that reads what
  the console sends and carries out its shard commands: the HTTP endpoints, the SQL lexer and parser, the catalog
  of shards with the routing of keys and rows, the evaluation of expressions, the raw key-value
  statements over the shards, and the group commit of a shard's writes with the binary form of its log entries.

  \<^bold>\<open>Parts of the program and where they are modelled.\<close>

  \<^item> \<open>api.ts\<close>: theory \<open>Api\<close>. Records for its interfaces, \<open>call\<close> for the response envelope, one
    \<open>http_request\<close> per method of \<open>api\<close>, \<open>parseDashboardConfig\<close>, the URL and the frames of \<open>tail\<close>.
  \<^item> \<open>hash.ts\<close>: \<open>HashRoute\<close>. The hash is a string of the state, written by \<open>setDashHash\<close> and read by
    \<open>parseDashId\<close>, which throws on a malformed percent sequence.
  \<^item> \<open>App.tsx\<close>: \<open>AppShell\<close>. Page, compact flag, hash and the queued \<open>hashchange\<close> event.
  \<^item> \<open>export.ts\<close>: \<open>ExportCsv\<close>, with a reference reader after RFC 4180 that takes both kinds of line breaks and fails on what is no CSV.
  \<^item> \<open>components/WidgetRenderer.tsx\<close>, \<open>components/ResultTable.tsx\<close>: \<open>Widgets\<close>. Every read of a list that may be
    missing, and of the first row, can throw.
  \<^item> \<open>pages/Cluster.tsx\<close>: \<open>UseAsync\<close> (the hook \<open>useAsync\<close>), \<open>Cluster\<close> (the page,
    its ADMIN commands) and \<open>ClusterLive\<close> (how it comes to rest).
  \<^item> \<open>pages/MetricsCharts.tsx\<close>: \<open>Metrics\<close>. \<open>pages/Sql.tsx\<close>: \<open>SqlPage\<close>. \<open>pages/Logs.tsx\<close>: \<open>Logs\<close>.
  \<^item> \<open>pages/Dashboards.tsx\<close>: \<open>Dashboards\<close> (the model), \<open>DashboardFacts\<close> (its properties).
  \<^item> The browser scripts \<open>internal/ui/web/verify-*.mjs\<close>: \<open>QaHarness\<close> (what they share: listeners,
    error filters, documents, operations), \<open>QaScripts\<close> and \<open>QaAdmin\<close> (one script each), \<open>QaFacts\<close>.
  \<^item> The server (\<open>internal\<close>, Go), where it reads what the console sends: \<open>GoText\<close> (\<open>strings.Fields\<close>,
    \<open>TrimSpace\<close>), \<open>AdminServer\<close> (\<open>shard/router.go\<close>, \<open>shard/split.go\<close>: dispatch of ADMIN commands, freezing,
    the ways of a statement to the leader of its shard, reading of split keys), \<open>SqlLexer\<close> (\<open>sql/lexer.go\<close>), \<open>DashboardStore\<close> (\<open>ui/dashboards.go\<close>: the
    endpoints behind \<open>api.dashboards\<close>), \<open>QueryCache\<close> (\<open>ui/widget.go\<close>: the endpoint behind
    \<open>api.widgetQuery\<close>), \<open>LogSearch\<close> (the condition of \<open>pages/Logs.tsx\<close> through the lexer), \<open>HttpServer\<close>
    (\<open>ui/ui.go\<close>: routes, statements, bulk insertion).
  \<^item> The shards behind the ADMIN commands: \<open>KeyCodec\<close> (\<open>encodeKey\<close> of \<open>storage/ops.go\<close>), \<open>ShardMap\<close>
    (\<open>shard/meta.go\<close>: the replicated catalog and its commands; \<open>owningShard\<close> of \<open>shard/manager.go\<close>,
    \<open>splitShard\<close> of \<open>shard/split.go\<close>), \<open>ShardRuns\<close> (runs of proposals and commits; automatic splits),
    \<open>SplitChain\<close> (a split from the values typed to the catalog), \<open>ByteStore\<close> (\<open>storage/kvstore.go\<close>,
    \<open>storage/kvops.go\<close>: the raw entries of an engine), \<open>ShardKv\<close> (\<open>execKVPut\<close> and its companions of
    \<open>shard/router.go\<close> over the engines of all shards).
  \<^item> The rows of a table: \<open>SqlValues\<close> (\<open>sql/value.go\<close>, \<open>sql/regexp.go\<close>: values, \<open>Compare\<close>, \<open>Convert\<close>, \<open>Eval\<close> with all its
    operators and functions, an outcome being a value, an error or a panic) and \<open>RowRoute\<close>
    (\<open>execInsert\<close>, \<open>execWriteDML\<close> and the key helpers of \<open>shard/router.go\<close> beside the rows that
    \<open>execInsert\<close> of \<open>sql/exec.go\<close> makes on the shard).
  \<^item> The writes of a shard group: \<open>GroupCommit\<close> (\<open>raftsvc/batch.go\<close>: the callers, the loop, the goroutines that wait for an
    entry; \<open>FSM.Apply\<close> of \<open>raftsvc/raftsvc.go\<close> and \<open>UpdateBatch\<close> of \<open>storage/engine.go\<close>). An engine is what it
    keeps in memory beside what its stores hold; a failing batch rolls back the second only. The executor of a statement is a
    parameter that changes both, also where it fails, and reads the clock of the replica, which differs from statement to statement.
  \<^item> Statements: \<open>Statements\<close> (\<open>sql/ast.go\<close>), \<open>SqlParser\<close> (\<open>sql/parser.go\<close>, over the tokens of \<open>SqlLexer\<close>), \<open>StmtCodec\<close>
    (\<open>sql/bincodec.go\<close>: the bytes of a log entry, written and read) and \<open>RaftEntry\<close> (\<open>FSM.Apply\<close> from the bytes of an entry).
  \<^item> Statements as text: \<open>SqlPrint\<close> (\<open>sql/print.go\<close>), \<open>ParseBack\<close> (what the parser makes of a printed expression), \<open>ParseShape\<close> (what
    the parser makes at all), \<open>ShardQuery\<close> (the query \<open>SELECT * FROM table WHERE condition\<close> that \<open>execSelect\<close> of
    \<open>shard/router.go\<close> sends to a shard; its other texts for columnar tables are not modelled) and
    \<open>IngestRows\<close> (a bulk insertion up to the values of its cells).

  \<^bold>\<open>How the program is modelled.\<close> A page is a record of its React state and refs, the requests it has
  sent and the calls in flight with what their continuations closed over. An event is a user action,
  an answer, a timer tick or a change of the hash; a step runs the handler and then the effects whose
  dependencies changed, in the order of the component; \<open>run\<close> folds steps over any list of events, so
  every interleaving of clicks and answers is covered. What is rendered is a \<open>view\<close> tree whose
  attributes carry the events its controls raise; \<open>actions\<close> are the ones that are not disabled.
  An exception is a value (\<open>js_exn + 'a\<close>).
  A browser script is a tree that hands operations to an arbitrary world and goes on with the answers;
  \<open>exec\<close> runs it, \<open>always\<close> computes a condition over all its behaviours and is sound for \<open>exec\<close>.
  A handler of the server is a function of the command text and its state; the backend of the dashboard
  endpoints, an interface of the code, is an argument. Requests to the widget endpoint interleave
  with the backend's answers, as events with their clock readings. The catalog is a record changed by
  commands; a proposal is computed from the catalog of its time and waits in a list until a commit
  event applies it, so proposals interleave. The group commit is a step function over events of callers, loop, raft and
  timers in any order; raft may report a failure and apply the entry later. A sharded table is the catalog with one engine per shard
  group, the leader's.

  \<^bold>\<open>JavaScript underneath.\<close> \<open>JsString\<close> (strings as UTF-8 bytes, trim, case, replace, includes),
  \<open>Uri\<close> (\<open>encodeURIComponent\<close>, \<open>decodeURIComponent\<close>), \<open>JsNumber\<close> (IEEE doubles as exact rationals
  with round-half-even, infinities and NaN), \<open>JsConvert\<close> (\<open>Number\<close>, \<open>String\<close>, \<open>toFixed\<close>), \<open>JsJson\<close>
  (\<open>JSON.parse\<close>; what \<open>JSON.stringify\<close> keeps), \<open>JsDate\<close> (\<open>toISOString\<close>), \<open>Prelude\<close> (lists, insertion
  ordered maps, codecs, state machines), \<open>View\<close> (rendered trees).

  \<^bold>\<open>Interfaces.\<close> \<open>js_map_spec\<close> (a JavaScript \<open>Map\<close>, interpreted by association lists), \<open>codec\<close> and
  \<open>sep_codec\<close> (an encoding with a reader, and one that avoids separators; interpreted by the percent
  encoding, the stored configurations, the SQL literals of the server and the entries of the raft log), \<open>machine\<close> and \<open>logging_machine\<close> (a step function with an
  invariant, and with a log of sent commands; interpreted by every page, by the widget endpoint, by the catalog and by the group commit),
  \<open>refinement\<close> (a step function that implements an abstract one; interpreted by the catalog, whose
  specification is a map of split points, and by the key-value statements, whose specification is
  one map per table), \<open>store_laws\<close> (what the key-value operations use of an ordered store).

  \<^bold>\<open>What the theorems show.\<close> Each property stands after a text block with its number. Routing: links
  survive and are written back (\<open>HashRoute\<close>, \<open>AppShell\<close>, \<open>DashboardFacts\<close>). Ordering: the newest load
  wins (\<open>UseAsync\<close>), one query or creation at a time (\<open>SqlPage\<close>, \<open>DashboardFacts\<close>), the stream follows
  the filters (\<open>Logs\<close>). Data: exported files are read back but for two cases that are stated, stored configurations and metrics windows hold what
  they should. Safety of what is sent: SPLIT commands with a value for each key column of the table clicked (\<open>Cluster\<close>), one save per gesture
  (\<open>DashboardFacts\<close>). Rendering: series, axes, gauges, tables, buttons, the virtual list.
  Rest: the cluster page settles when its calls are answered (\<open>ClusterLive\<close>), the lexer and the parser end
  (\<open>SqlLexer\<close>, \<open>SqlParser\<close>). Shards: the order of encoded keys is the order of the values (\<open>KeyCodec\<close>), the catalog
  refines split points and every key is owned (\<open>ShardMap\<close>, \<open>ShardRuns\<close>), what a split moves, from the click
  on (\<open>SplitChain\<close>), and what it hides (\<open>ShardKv\<close>); rows are
  split into batches by owner, updates reach the rows they select (\<open>RowRoute\<close>); every write is answered once, the state is that of a
  serial run of the entries that succeeded unless a failed one creates or drops a table, and none hangs in a running group (\<open>GroupCommit\<close>);
  which statements survive the binary form of an entry, and what becomes of the others (\<open>StmtCodec\<close>, \<open>RaftEntry\<close>);
  the condition of a query reaches the shards as it was written (\<open>ShardQuery\<close>). Across the wire: requests and answers
  (\<open>HttpServer\<close>), inserted rows (\<open>IngestRows\<close>), split keys, shard buttons (which do the opposite of what they say), dashboard texts and log searches as the server reads
  them (\<open>AdminServer\<close>, \<open>DashboardStore\<close>, \<open>LogSearch\<close>), and how fresh a widget's data is (\<open>QueryCache\<close>).
  Scripts: what they leave behind, how long they wait, and that their checks agree with the code they
  check (\<open>QaFacts\<close>).
  Lemmas in a section on what a page gets wrong, or on what two sides disagree on, are executions in
  which the code misbehaves.

  \<^bold>\<open>Bounds and fuel.\<close> \<open>json_parse\<close> runs with fuel \<open>2 n + 1\<close> for a text of \<open>n\<close> characters; more fuel
  never changes its result (\<open>json_fuel_enough\<close>). The virtual list is shown correct for offsets and
  lengths below \<open>2 ^ 40\<close>, where doubles are exact. Rates are shown for clocks below \<open>2 ^ 52\<close> ms. The ids
  of new widgets are shown to be fresh for clocks from \<open>36 ^ 7\<close> to below \<open>36 ^ 8\<close> ms (1972 to 2059), where they have eight digits.
  The loops of the parser run at most as often as there are tokens, and expressions nest at most as deep; \<open>parse_ends\<close> shows that
  no script reaches these bounds. Reading an expression of a log entry takes at most one level for each byte left. Entries are below
  \<open>2 ^ 44\<close> bytes, where Go can allocate what their lengths ask for.

  \<^bold>\<open>Not modelled.\<close> The framework (React's scheduling beyond the order of effects, the grid's
  compaction, the chart library, the browser behind a script); \<open>Date.parse\<close> and \<open>toLocaleString\<close>, which are parameters; styles; the
  bootstrap \<open>main.tsx\<close>; the generated bundle in \<open>dist\<close>; the rest of the Go side of the repository (the
  rest of the executor and of the shard manager, storage below its newest revision, raft's
  transport and elections), whose answers
  are arbitrary inputs of the pages and of the endpoints; Go's arithmetic of doubles, its parsers and printers of floats and times and its
  time zones, which are parameters; unpaired surrogates in strings, and bytes that are not UTF-8 in the texts of the server, which
  \<open>encoding/json\<close> replaces.
\<close>

end
